(* ===== verification/Prelude.thy ===== *)
theory Prelude
  imports Main "HOL-Library.List_Lexorder" "HOL-Library.Char_ord" "HOL-Library.Code_Target_Nat"
begin

text \<open>
  Shared vocabulary of the development: the named theorem collections, the pieces of the Rust
  standard library the sources use on strings, lists and ordered maps, and the generic facts about
  them. Nothing here models code of the repository; it models \<^verbatim>\<open>str\<close>, \<^verbatim>\<open>Iterator\<close>,
  \<^verbatim>\<open>Vec\<close> and \<^verbatim>\<open>BTreeMap\<close> as far as the components call them. A Rust \<^verbatim>\<open>String\<close> is its
  byte sequence, a \<^typ>\<open>string\<close>; the order of strings is the bytewise lexicographic one, as Rust's.
\<close>

named_theorems frame_simps \<open>fields an operation leaves unchanged\<close>
named_theorems key_simps \<open>how the keys and ids of the contracts are composed\<close>

section \<open>Options and lists\<close>

text \<open>\<^verbatim>\<open>bool::then_some\<close>, \<^verbatim>\<open>Option::or\<close>, \<^verbatim>\<open>Option::is_some_and\<close>.\<close>

definition then_some :: "bool \<Rightarrow> 'a \<Rightarrow> 'a option" where
  "then_some b x = (if b then Some x else None)"

definition opt_or :: "'a option \<Rightarrow> 'a option \<Rightarrow> 'a option" where
  "opt_or a b = (case a of Some x \<Rightarrow> Some x | None \<Rightarrow> b)"

definition is_some_and :: "'a option \<Rightarrow> ('a \<Rightarrow> bool) \<Rightarrow> bool" where
  "is_some_and a p = (case a of Some x \<Rightarrow> p x | None \<Rightarrow> False)"

definition is_some :: "'a option \<Rightarrow> bool" where
  "is_some a = (case a of Some _ \<Rightarrow> True | None \<Rightarrow> False)"

lemma then_some_simps [simp]:
  "then_some True x = Some x" "then_some False x = None"
  "(then_some b x = None) = (\<not> b)" "(then_some b x = Some y) = (b \<and> x = y)"
  by (auto simp: then_some_def)

lemma opt_or_simps [simp]:
  "opt_or (Some x) b = Some x" "opt_or None b = b"
  "(opt_or a b = None) = (a = None \<and> b = None)"
  by (auto simp: opt_or_def split: option.splits)

lemma is_some_and_simps [simp]:
  "is_some_and (Some x) p = p x" "is_some_and None p = False"
  by (auto simp: is_some_and_def)

lemma is_some_and_iff: "is_some_and a p \<longleftrightarrow> (\<exists>x. a = Some x \<and> p x)"
  by (cases a) auto

lemma is_some_simps [simp]: "is_some (Some x) = True" "is_some None = False"
  by (auto simp: is_some_def)

lemma is_some_iff: "is_some a \<longleftrightarrow> a \<noteq> None"
  by (cases a) auto

text \<open>\<^verbatim>\<open>Iterator::position\<close>: the index of the first element with the property.\<close>

fun position :: "('a \<Rightarrow> bool) \<Rightarrow> 'a list \<Rightarrow> nat option" where
  "position p [] = None"
| "position p (x # xs) = (if p x then Some 0 else map_option Suc (position p xs))"

lemma position_SomeD:
  "position p xs = Some i \<Longrightarrow> i < length xs \<and> p (xs ! i) \<and> (\<forall>j<i. \<not> p (xs ! j))"
proof (induction xs arbitrary: i)
  case Nil
  then show ?case by simp
next
  case (Cons x xs)
  show ?case
  proof (cases "p x")
    case True
    with Cons.prems show ?thesis by simp
  next
    case False
    with Cons.prems obtain j where j: "position p xs = Some j" "i = Suc j" by auto
    with Cons.IH [OF j(1)] False show ?thesis by (auto simp: nth_Cons split: nat.splits)
  qed
qed

lemma position_lt [dest]: "position p xs = Some i \<Longrightarrow> i < length xs"
  by (blast dest: position_SomeD)

lemma position_sat: "position p xs = Some i \<Longrightarrow> p (xs ! i)"
  by (blast dest: position_SomeD)

lemma position_None_iff: "position p xs = None \<longleftrightarrow> (\<forall>x\<in>set xs. \<not> p x)"
  by (induction xs) auto

lemma position_cong:
  assumes "length xs = length ys" and "\<And>i. i < length xs \<Longrightarrow> p (xs ! i) = q (ys ! i)"
  shows "position p xs = position q ys"
  using assms
proof (induction xs ys rule: list_induct2)
  case Nil
  then show ?case by simp
next
  case (Cons x xs y ys)
  have "p x = q y" using Cons.prems [of 0] by simp
  moreover have "position p xs = position q ys"
    using Cons.prems [of "Suc i" for i] by (intro Cons.IH) auto
  ultimately show ?case by simp
qed

text \<open>\<^verbatim>\<open>Iterator::find\<close> from the back (\<^verbatim>\<open>iter().rev().find(p)\<close>).\<close>

definition find_last :: "('a \<Rightarrow> bool) \<Rightarrow> 'a list \<Rightarrow> 'a option" where
  "find_last p xs = List.find p (rev xs)"

lemma find_Some_in: "List.find p xs = Some x \<Longrightarrow> x \<in> set xs \<and> p x"
  by (induction xs) (auto split: if_splits)

lemma find_append: "List.find p (xs @ ys) = (case List.find p xs of Some x \<Rightarrow> Some x | None \<Rightarrow> List.find p ys)"
  by (induction xs) auto

lemma find_last_SomeD: "find_last p xs = Some x \<Longrightarrow> x \<in> set xs \<and> p x"
  unfolding find_last_def by (drule find_Some_in) simp

lemma find_last_None_iff: "find_last p xs = None \<longleftrightarrow> (\<forall>x\<in>set xs. \<not> p x)"
  by (auto simp: find_last_def find_None_iff)

lemma find_last_snoc: "find_last p (xs @ [x]) = (if p x then Some x else find_last p xs)"
  by (simp add: find_last_def)

lemma find_last_map:
  assumes "\<And>x. x \<in> set xs \<Longrightarrow> p (f x) = p x"
  shows "find_last p (map f xs) = map_option f (find_last p xs)"
  using assms by (induction xs rule: rev_induct) (auto simp: find_last_snoc, simp add: find_last_def)

text \<open>\<^verbatim>\<open>Iterator::find_map\<close> and \<^verbatim>\<open>Iterator::filter_map\<close>.\<close>

fun find_map :: "('a \<Rightarrow> 'b option) \<Rightarrow> 'a list \<Rightarrow> 'b option" where
  "find_map f [] = None"
| "find_map f (x # xs) = (case f x of Some y \<Rightarrow> Some y | None \<Rightarrow> find_map f xs)"

definition filter_map :: "('a \<Rightarrow> 'b option) \<Rightarrow> 'a list \<Rightarrow> 'b list" where
  "filter_map f xs = List.map_filter f xs"

lemma filter_map_simps [simp]:
  "filter_map f [] = []"
  "filter_map f (x # xs) = (case f x of Some y \<Rightarrow> y # filter_map f xs | None \<Rightarrow> filter_map f xs)"
  by (simp_all add: filter_map_def map_filter_simps split: option.split)

lemma set_filter_map: "set (filter_map f xs) = {y. \<exists>x\<in>set xs. f x = Some y}"
  by (induction xs) (auto split: option.splits)

lemma find_map_SomeD: "find_map f xs = Some y \<Longrightarrow> \<exists>x\<in>set xs. f x = Some y"
  by (induction xs) (auto split: option.splits)

text \<open>\<^verbatim>\<open>Iterator::min_by_key\<close>: of several least elements, the first.\<close>

fun min_by_key :: "('a \<Rightarrow> 'k::linorder) \<Rightarrow> 'a list \<Rightarrow> 'a option" where
  "min_by_key f [] = None"
| "min_by_key f (x # xs) =
     (case min_by_key f xs of
        None \<Rightarrow> Some x
      | Some y \<Rightarrow> if f x \<le> f y then Some x else Some y)"

lemma min_by_key_None_iff [simp]: "min_by_key f xs = None \<longleftrightarrow> xs = []"
  by (cases xs) (auto split: option.splits)

lemma min_by_key_SomeD:
  "min_by_key f xs = Some x \<Longrightarrow> x \<in> set xs \<and> (\<forall>y\<in>set xs. f x \<le> f y)"
proof (induction xs arbitrary: x)
  case Nil
  then show ?case by simp
next
  case (Cons z zs)
  show ?case
  proof (cases "min_by_key f zs")
    case None
    with Cons.prems show ?thesis by simp
  next
    case (Some y)
    from Cons.IH [OF Some] have y: "y \<in> set zs" "\<forall>u\<in>set zs. f y \<le> f u" by auto
    with Some Cons.prems show ?thesis
      by (fastforce split: if_splits)
  qed
qed

text \<open>The first element seen before (\<^verbatim>\<open>iter().find(|x| !seen.insert(x))\<close>).\<close>

fun first_dup :: "'a set \<Rightarrow> 'a list \<Rightarrow> 'a option" where
  "first_dup seen [] = None"
| "first_dup seen (x # xs) = (if x \<in> seen then Some x else first_dup (insert x seen) xs)"

lemma first_dup_None_iff: "first_dup seen xs = None \<longleftrightarrow> distinct xs \<and> set xs \<inter> seen = {}"
  by (induction xs arbitrary: seen) auto

lemma first_dup_SomeD:
  "first_dup seen xs = Some x \<Longrightarrow> x \<in> set xs \<and> (x \<in> seen \<or> (\<exists>i j. i < j \<and> j < length xs \<and> xs ! i = x \<and> xs ! j = x))"
proof (induction xs arbitrary: seen)
  case Nil
  then show ?case by simp
next
  case (Cons y ys)
  show ?case
  proof (cases "y \<in> seen")
    case True
    with Cons.prems show ?thesis by simp
  next
    case False
    with Cons.prems have r: "first_dup (insert y seen) ys = Some x" by simp
    from Cons.IH [OF r] have x: "x \<in> set ys"
      and d: "x \<in> insert y seen \<or> (\<exists>i j. i < j \<and> j < length ys \<and> ys ! i = x \<and> ys ! j = x)" by auto
    from d consider "x = y" | "x \<in> seen" | i j where "i < j" "j < length ys" "ys ! i = x" "ys ! j = x"
      by blast
    then show ?thesis
    proof cases
      case 1
      from x obtain j where "j < length ys" "ys ! j = x" by (auto simp: in_set_conv_nth)
      with 1 have "0 < Suc j \<and> Suc j < length (y # ys) \<and> (y # ys) ! 0 = x \<and> (y # ys) ! Suc j = x" by simp
      with x show ?thesis by (metis list.set_intros(2))
    next
      case 2
      with x show ?thesis by simp
    next
      case 3
      then have "Suc i < Suc j \<and> Suc j < length (y # ys) \<and> (y # ys) ! Suc i = x \<and> (y # ys) ! Suc j = x" by simp
      with x show ?thesis by (metis list.set_intros(2))
    qed
  qed
qed

text \<open>\<^verbatim>\<open>collect::<Option<Vec<_>>>\<close>: all or nothing.\<close>

fun collect_opt :: "'a option list \<Rightarrow> 'a list option" where
  "collect_opt [] = Some []"
| "collect_opt (x # xs) =
     (case x of None \<Rightarrow> None | Some y \<Rightarrow> map_option (\<lambda>ys. y # ys) (collect_opt xs))"

lemma collect_opt_Some_iff: "collect_opt xs = Some ys \<longleftrightarrow> xs = map Some ys"
  by (induction xs arbitrary: ys) (auto split: option.splits simp: map_eq_Cons_conv Cons_eq_map_conv)

text \<open>Changing one element in place (\<^verbatim>\<open>xs[i].f = v\<close>).\<close>

definition update_at :: "nat \<Rightarrow> ('a \<Rightarrow> 'a) \<Rightarrow> 'a list \<Rightarrow> 'a list" where
  "update_at i f xs = xs[i := f (xs ! i)]"

lemma length_update_at [simp]: "length (update_at i f xs) = length xs"
  by (simp add: update_at_def)

lemma nth_update_at: "j < length xs \<Longrightarrow> update_at i f xs ! j = (if i = j then f (xs ! i) else xs ! j)"
  by (simp add: update_at_def nth_list_update)

lemma update_at_id: "f (xs ! i) = xs ! i \<Longrightarrow> update_at i f xs = xs"
  by (simp add: update_at_def)

lemma set_update_at: "set (update_at i f xs) \<subseteq> insert (f (xs ! i)) (set xs)"
  by (simp add: update_at_def set_update_subset_insert)

lemma ball_update_at:
  assumes "\<forall>x\<in>set xs. P x" and "i < length xs \<Longrightarrow> P (xs ! i) \<Longrightarrow> P (f (xs ! i))"
  shows "\<forall>x\<in>set (update_at i f xs). P x"
  using assms by (auto simp: all_set_conv_all_nth nth_update_at)

lemma map_update_at:
  "(\<And>x. g (f x) = g x) \<Longrightarrow> map g (update_at i f xs) = map g xs"
  by (cases "i < length xs") (auto simp: update_at_def map_update list_update_beyond intro!: nth_equalityI simp: nth_list_update)

section \<open>Strings\<close>

fun strip_prefix :: "string \<Rightarrow> string \<Rightarrow> string option" where
  "strip_prefix [] s = Some s"
| "strip_prefix (c # cs) [] = None"
| "strip_prefix (c # cs) (d # ds) = (if c = d then strip_prefix cs ds else None)"

lemma strip_prefix_Some_iff: "strip_prefix p s = Some r \<longleftrightarrow> s = p @ r"
  by (induction p s rule: strip_prefix.induct) auto

lemma strip_prefix_append [simp]: "strip_prefix p (p @ r) = Some r"
  by (simp add: strip_prefix_Some_iff)

definition starts_with :: "string \<Rightarrow> string \<Rightarrow> bool" where
  "starts_with s p = is_some (strip_prefix p s)"

lemma starts_with_iff: "starts_with s p \<longleftrightarrow> (\<exists>r. s = p @ r)"
  by (auto simp: starts_with_def is_some_iff simp flip: strip_prefix_Some_iff)

definition ends_with :: "string \<Rightarrow> string \<Rightarrow> bool" where
  "ends_with s t = (length t \<le> length s \<and> drop (length s - length t) s = t)"

lemma ends_with_iff: "ends_with s t \<longleftrightarrow> (\<exists>r. s = r @ t)"
proof
  assume "ends_with s t"
  then have "s = take (length s - length t) s @ t"
    unfolding ends_with_def by (metis append_take_drop_id)
  then show "\<exists>r. s = r @ t" ..
qed (auto simp: ends_with_def)

text \<open>\<^verbatim>\<open>str::split(c)\<close>: at least one piece, and a piece holds no separator.\<close>

fun split_on :: "char \<Rightarrow> string \<Rightarrow> string list" where
  "split_on c [] = [[]]"
| "split_on c (x # xs) =
     (if x = c then [] # split_on c xs
      else (case split_on c xs of [] \<Rightarrow> [[x]] | y # ys \<Rightarrow> (x # y) # ys))"

lemma split_on_nonempty [simp]: "split_on c s \<noteq> []"
  by (induction s) (auto split: list.splits)

lemma split_on_piece: "c \<notin> set s \<Longrightarrow> split_on c s = [s]"
  by (induction s) auto

lemma split_on_append: "c \<notin> set s \<Longrightarrow> split_on c (s @ c # t) = s # split_on c t"
  by (induction s) auto

lemma split_on_pieces: "p \<in> set (split_on c s) \<Longrightarrow> c \<notin> set p"
  by (induction s arbitrary: p) (auto split: if_splits list.splits)

text \<open>Decimal numbers: \<^verbatim>\<open>format!("{n}")\<close> and \<^verbatim>\<open>str::parse\<close> for an unsigned type with the
  given largest value. The parser takes one leading plus sign, as Rust's does.\<close>

definition digit_char :: "nat \<Rightarrow> char" where
  "digit_char d = char_of (48 + d)"

definition digit_val :: "char \<Rightarrow> nat option" where
  "digit_val c = (let n = (of_char c :: nat) in if 48 \<le> n \<and> n \<le> 57 then Some (n - 48) else None)"

fun show_nat :: "nat \<Rightarrow> string" where
  "show_nat n = (if n < 10 then [digit_char n] else show_nat (n div 10) @ [digit_char (n mod 10)])"

declare show_nat.simps [simp del]

fun parse_digits :: "nat \<Rightarrow> string \<Rightarrow> nat option" where
  "parse_digits acc [] = Some acc"
| "parse_digits acc (c # cs) =
     (case digit_val c of None \<Rightarrow> None | Some d \<Rightarrow> parse_digits (10 * acc + d) cs)"

definition parse_uint :: "nat \<Rightarrow> string \<Rightarrow> nat option" where
  "parse_uint bound s =
     (let ds = (case s of [] \<Rightarrow> [] | c # cs \<Rightarrow> if c = CHR ''+'' then cs else s)
      in if ds = [] then None
         else (case parse_digits 0 ds of
                 None \<Rightarrow> None
               | Some n \<Rightarrow> if n \<le> bound then Some n else None))"

lemma digit_val_char: "d < 10 \<Longrightarrow> digit_val (digit_char d) = Some d"
  by (simp add: digit_val_def digit_char_def of_char_of)

lemma parse_digits_append:
  "parse_digits acc (s @ t) = (case parse_digits acc s of None \<Rightarrow> None | Some n \<Rightarrow> parse_digits n t)"
  by (induction s arbitrary: acc) (auto split: option.splits)

lemma show_nat_digits: "c \<in> set (show_nat n) \<Longrightarrow> \<exists>d<10. c = digit_char d"
proof (induction n rule: show_nat.induct)
  case (1 n)
  show ?case
  proof (cases "n < 10")
    case True
    with "1.prems" show ?thesis by (auto simp: show_nat.simps [of n])
  next
    case False
    with "1.prems" have "c \<in> set (show_nat (n div 10)) \<or> c = digit_char (n mod 10)"
      by (auto simp: show_nat.simps [of n])
    with "1.IH" [OF False] show ?thesis by (auto intro: exI [of _ "n mod 10"])
  qed
qed

lemma show_nat_nonempty [simp]: "show_nat n \<noteq> []"
  by (subst show_nat.simps) simp

lemma digit_char_neq:
  "d < 10 \<Longrightarrow> digit_char d \<noteq> CHR ''/''" "d < 10 \<Longrightarrow> digit_char d \<noteq> CHR ''+''"
proof -
  assume d: "d < 10"
  have "of_char (digit_char d) = 48 + d" using d by (simp add: digit_char_def of_char_of)
  then show "digit_char d \<noteq> CHR ''/''" "digit_char d \<noteq> CHR ''+''" by auto
qed

lemma show_nat_no_slash [simp]: "CHR ''/'' \<notin> set (show_nat n)"
  using show_nat_digits digit_char_neq(1) by metis

lemma parse_digits_show: "parse_digits 0 (show_nat n) = Some n"
proof (induction n rule: show_nat.induct)
  case (1 n)
  show ?case
  proof (cases "n < 10")
    case True
    then show ?thesis by (simp add: show_nat.simps [of n] digit_val_char)
  next
    case False
    then show ?thesis using "1.IH" [OF False]
      by (simp add: show_nat.simps [of n] parse_digits_append digit_val_char)
  qed
qed

lemma parse_uint_show: "n \<le> bound \<Longrightarrow> parse_uint bound (show_nat n) = Some n"
proof -
  assume "n \<le> bound"
  obtain c cs where s: "show_nat n = c # cs" by (cases "show_nat n") auto
  then have "c \<noteq> CHR ''+''" using show_nat_digits [of c n] digit_char_neq(2) by auto
  with s have "parse_uint bound (show_nat n) =
      (case parse_digits 0 (show_nat n) of None \<Rightarrow> None | Some n \<Rightarrow> if n \<le> bound then Some n else None)"
    by (simp add: parse_uint_def)
  with \<open>n \<le> bound\<close> show ?thesis by (simp add: parse_digits_show)
qed

lemma show_nat_inject [simp]: "show_nat m = show_nat n \<longleftrightarrow> m = n"
  by (metis option.inject parse_digits_show)

section \<open>Ordered maps\<close>

text \<open>
  A \<^verbatim>\<open>BTreeMap\<close> is the list of its entries in key order: an iteration is the list, a lookup is
  \<^const>\<open>map_of\<close>. The contract of the interface is the locale below; the invariant is that the keys rise.
\<close>

type_synonym ('k, 'v) btmap = "('k \<times> 'v) list"

fun bt_insert :: "'k::linorder \<Rightarrow> 'v \<Rightarrow> ('k, 'v) btmap \<Rightarrow> ('k, 'v) btmap" where
  "bt_insert k v [] = [(k, v)]"
| "bt_insert k v (e # m) =
     (if fst e = k then (k, v) # m
      else if k < fst e then (k, v) # e # m
      else e # bt_insert k v m)"

definition bt_remove :: "'k::linorder \<Rightarrow> ('k, 'v) btmap \<Rightarrow> ('k, 'v) btmap" where
  "bt_remove k m = filter (\<lambda>e. fst e \<noteq> k) m"

definition bt_keys :: "('k, 'v) btmap \<Rightarrow> 'k list" where
  "bt_keys m = map fst m"

definition bt_ok :: "('k::linorder, 'v) btmap \<Rightarrow> bool" where
  "bt_ok m = sorted_wrt (<) (map fst m)"

locale ordered_map =
  fixes empty :: "'m"
    and insert_kv :: "'k::linorder \<Rightarrow> 'v \<Rightarrow> 'm \<Rightarrow> 'm"
    and remove_k :: "'k \<Rightarrow> 'm \<Rightarrow> 'm"
    and get_k :: "'m \<Rightarrow> 'k \<Rightarrow> 'v option"
    and keys_of :: "'m \<Rightarrow> 'k list"
    and ok :: "'m \<Rightarrow> bool"
  assumes get_empty: "get_k empty k = None"
    and get_insert: "get_k (insert_kv k v m) j = (if j = k then Some v else get_k m j)"
    and get_remove: "get_k (remove_k k m) j = (if j = k then None else get_k m j)"
    and set_keys: "set (keys_of m) = {k. get_k m k \<noteq> None}"
    and ok_empty: "ok empty"
    and ok_insert: "ok m \<Longrightarrow> ok (insert_kv k v m)"
    and ok_remove: "ok m \<Longrightarrow> ok (remove_k k m)"
    and ok_keys: "ok m \<Longrightarrow> sorted_wrt (<) (keys_of m)"
begin

lemma distinct_keys: "ok m \<Longrightarrow> distinct (keys_of m)"
  using ok_keys strict_sorted_iff by blast

lemma remove_all_get:
  "get_k (fold remove_k ks m) j = (if j \<in> set ks then None else get_k m j)"
  by (induction ks arbitrary: m) (auto simp: get_remove)

end

lemma map_of_bt_insert: "map_of (bt_insert k v m) j = (if j = k then Some v else map_of m j)"
  by (induction m) auto

lemma map_of_bt_remove: "map_of (bt_remove k m) j = (if j = k then None else map_of m j)"
  by (induction m) (auto simp: bt_remove_def)

lemma set_bt_insert: "set (bt_insert k v m) \<subseteq> insert (k, v) (set m)"
  by (induction m) auto

lemma set_bt_remove: "set (bt_remove k m) \<subseteq> set m"
  by (auto simp: bt_remove_def)

lemma keys_bt_insert: "fst ` set (bt_insert k v m) = insert k (fst ` set m)"
  by (induction m) auto

lemma bt_ok_insert: "bt_ok m \<Longrightarrow> bt_ok (bt_insert k v m)"
proof (induction m)
  case Nil
  then show ?case by (simp add: bt_ok_def)
next
  case (Cons e m)
  then have ih: "bt_ok (bt_insert k v m)" by (simp add: bt_ok_def)
  from Cons.prems have lt: "\<forall>j\<in>fst ` set m. fst e < j" by (simp add: bt_ok_def)
  consider "fst e = k" | "k < fst e" | "fst e < k" by fastforce
  then show ?case
  proof cases
    case 1
    with Cons.prems show ?thesis by (simp add: bt_ok_def)
  next
    case 2
    with Cons.prems lt show ?thesis by (fastforce simp: bt_ok_def)
  next
    case 3
    then have "\<forall>j\<in>fst ` set (bt_insert k v m). fst e < j"
      using lt keys_bt_insert [of k v m] by auto
    moreover have "bt_insert k v (e # m) = e # bt_insert k v m" using 3 by auto
    ultimately show ?thesis using ih by (simp add: bt_ok_def)
  qed
qed

lemma bt_ok_remove: "bt_ok m \<Longrightarrow> bt_ok (bt_remove k m)"
  by (induction m) (auto simp: bt_ok_def bt_remove_def)

interpretation bt: ordered_map "[] :: ('k::linorder \<times> 'v) list" bt_insert bt_remove map_of bt_keys bt_ok
proof unfold_locales
  fix m :: "('k \<times> 'v) list"
  show "set (bt_keys m) = {k. map_of m k \<noteq> None}"
    by (simp add: bt_keys_def dom_map_of_conv_image_fst [symmetric] dom_def)
qed (auto simp: map_of_bt_insert map_of_bt_remove bt_ok_insert bt_ok_remove bt_keys_def bt_ok_def [of "[]"],
     simp add: bt_ok_def)

lemmas bt_simps [simp] = bt.get_insert bt.get_remove

end
