(* ===== verification/Contract_Ids.thy ===== *)
theory Contract_Ids
  imports Prelude
begin

text \<open>
  The value types every run contract shares, from \<^verbatim>\<open>crates/run-contracts/src/ids.rs\<close>: run
  ids, member slots and their session keys, spans and instants. An instant is an \<^verbatim>\<open>i64\<close> of
  milliseconds kept inside the years the wire form can write, so it is an \<^typ>\<open>int\<close> with the
  clamping and the saturation of the source written out. Counters that the source holds in
  \<^verbatim>\<open>u32\<close> or \<^verbatim>\<open>u64\<close> and only ever increments are \<^typ>\<open>nat\<close>.
\<close>

type_synonym message_id = string
type_synonym handle = string
type_synonym step_id = string
type_synonym session_key = string
type_synonym key = string
type_synonym epoch = nat
type_synonym seq = nat
type_synonym run_id = string
type_synonym secs = nat
type_synonym timestamp = int

section \<open>Run ids\<close>

text \<open>
  \<^verbatim>\<open>Ulid::from_string\<close> belongs to the \<^verbatim>\<open>ulid\<close> crate: whether a text is a ULID is the
  parameter \<open>ulid_ok\<close>.
\<close>

definition run_id_parse :: "(string \<Rightarrow> bool) \<Rightarrow> string \<Rightarrow> run_id option" where
  "run_id_parse ulid_ok text =
     (case strip_prefix ''r-'' text of
        None \<Rightarrow> None
      | Some ulid \<Rightarrow> if ulid_ok ulid then Some text else None)"

definition run_id_new :: "string \<Rightarrow> run_id" where
  "run_id_new ulid = ''r-'' @ ulid"

lemma run_id_parse_new: "run_id_parse ok (run_id_new u) = (if ok u then Some (run_id_new u) else None)"
  by (simp add: run_id_parse_def run_id_new_def)

lemma run_id_parse_SomeD: "run_id_parse ok t = Some r \<Longrightarrow> r = t \<and> (\<exists>u. t = run_id_new u \<and> ok u)"
  by (auto simp: run_id_parse_def run_id_new_def strip_prefix_Some_iff split: option.splits if_splits)

section \<open>Slots and session keys\<close>

record slot =
  sl_step :: step_id
  sl_visit :: nat
  sl_member :: handle
  sl_attempt :: nat

text \<open>The tail of a session key, which every slot timer's id ends in (\<^verbatim>\<open>slot_suffix\<close>).\<close>

definition slot_suffix :: "slot \<Rightarrow> string" where
  "slot_suffix s = sl_step s @ ''/v'' @ show_nat (sl_visit s) @ ''/'' @ sl_member s @ ''/a'' @ show_nat (sl_attempt s)"

definition slot_session_key :: "slot \<Rightarrow> run_id \<Rightarrow> session_key" where
  "slot_session_key s run =
     run @ ''/'' @ sl_step s @ ''/v'' @ show_nat (sl_visit s) @ ''/'' @ sl_member s @ ''/a'' @ show_nat (sl_attempt s)"

text \<open>An id the compiler lets through holds no separator; a slot of such ids has one reading.\<close>

definition plain_id :: "string \<Rightarrow> bool" where
  "plain_id s \<longleftrightarrow> CHR ''/'' \<notin> set s"

definition plain_slot :: "slot \<Rightarrow> bool" where
  "plain_slot s \<longleftrightarrow> plain_id (sl_step s) \<and> plain_id (sl_member s)"

lemma slot_session_key_suffix: "slot_session_key s run = run @ ''/'' @ slot_suffix s"
  by (simp add: slot_session_key_def slot_suffix_def)

lemma split_slot_suffix:
  assumes "plain_slot s"
  shows "split_on (CHR ''/'') (slot_suffix s) =
    [sl_step s, CHR ''v'' # show_nat (sl_visit s), sl_member s, CHR ''a'' # show_nat (sl_attempt s)]"
  using assms
    split_on_append [of "CHR ''/''" "CHR ''v'' # show_nat (sl_visit s)" "sl_member s @ ''/a'' @ show_nat (sl_attempt s)"]
    split_on_piece [of "CHR ''/''" "CHR ''a'' # show_nat (sl_attempt s)"]
  by (simp add: slot_suffix_def plain_slot_def plain_id_def split_on_append)

lemma slot_suffix_inject:
  assumes "plain_slot s" "plain_slot t" "slot_suffix s = slot_suffix t"
  shows "s = t"
proof -
  from assms have "split_on (CHR ''/'') (slot_suffix s) = split_on (CHR ''/'') (slot_suffix t)" by simp
  then show ?thesis
    unfolding split_slot_suffix [OF assms(1)] split_slot_suffix [OF assms(2)]
    by (simp add: slot.equality)
qed

section \<open>Spans and instants\<close>

definition secs_minutes :: "nat \<Rightarrow> secs" where "secs_minutes n = n * 60"
definition secs_hours :: "nat \<Rightarrow> secs" where "secs_hours n = n * 3600"

definition u64_max :: nat where "u64_max = 2 ^ 64 - 1"
definition u32_max :: nat where "u32_max = 2 ^ 32 - 1"
definition u8_max :: nat where "u8_max = 255"
definition i64_max :: int where "i64_max = 2 ^ 63 - 1"
definition i64_min :: int where "i64_min = - (2 ^ 63)"

definition first_writable_millis :: int where "first_writable_millis = - 62167219200000"
definition last_writable_millis :: int where "last_writable_millis = 253402300799999"

definition from_unix_millis :: "int \<Rightarrow> timestamp" where
  "from_unix_millis millis =
     (if millis < first_writable_millis then first_writable_millis
      else if millis > last_writable_millis then last_writable_millis
      else millis)"

text \<open>\<^verbatim>\<open>u64::saturating_mul\<close> and \<^verbatim>\<open>i64::saturating_add\<close>.\<close>

definition sat_mul_u64 :: "nat \<Rightarrow> nat \<Rightarrow> nat" where
  "sat_mul_u64 a b = min u64_max (a * b)"

definition sat_add_i64 :: "int \<Rightarrow> int \<Rightarrow> int" where
  "sat_add_i64 a b = max i64_min (min i64_max (a + b))"

definition ts_plus :: "timestamp \<Rightarrow> secs \<Rightarrow> timestamp" where
  "ts_plus t span =
     (let m = sat_mul_u64 span 1000;
          millis = (if m > nat last_writable_millis then last_writable_millis else int m)
      in from_unix_millis (sat_add_i64 t millis))"

text \<open>\<^verbatim>\<open>RunState::millis\<close>: a span as milliseconds, for comparing two instants.\<close>

definition span_millis :: "secs \<Rightarrow> int" where
  "span_millis span =
     (let m = sat_mul_u64 span 1000 in if int m \<le> i64_max then int m else i64_max)"

definition writable :: "timestamp \<Rightarrow> bool" where
  "writable t \<longleftrightarrow> first_writable_millis \<le> t \<and> t \<le> last_writable_millis"

lemmas time_defs = from_unix_millis_def first_writable_millis_def last_writable_millis_def
  ts_plus_def sat_mul_u64_def sat_add_i64_def span_millis_def writable_def
  u64_max_def i64_max_def i64_min_def

lemma writable_from_unix_millis [simp]: "writable (from_unix_millis m)"
  by (simp add: time_defs)

lemma from_unix_millis_writable: "writable m \<Longrightarrow> from_unix_millis m = m"
  by (simp add: time_defs)

lemma writable_ts_plus [simp]: "writable (ts_plus t span)"
  unfolding ts_plus_def Let_def by (rule writable_from_unix_millis)

text \<open>No addition of the source wraps: the span is cut to the length of the writable years after 1970,
  and the sum stops at the last writable instant. For an instant before 1970 a longer span therefore
  stops that far after the instant, not at the end of the writable years.\<close>

lemma ts_plus_exact:
  assumes "writable t"
  shows "ts_plus t span = min last_writable_millis (t + min last_writable_millis (int span * 1000))"
proof -
  from assms have t: "first_writable_millis \<le> t" "t \<le> last_writable_millis" by (auto simp: writable_def)
  show ?thesis
  proof (cases "int span * 1000 \<le> last_writable_millis")
    case True
    then have "sat_mul_u64 span 1000 = span * 1000" by (simp add: time_defs)
    with True t show ?thesis by (auto simp: time_defs Let_def min_def max_def)
  next
    case False
    then have "\<not> sat_mul_u64 span 1000 \<le> nat last_writable_millis"
      by (simp add: time_defs min_def)
    with False t show ?thesis by (auto simp: time_defs Let_def min_def max_def)
  qed
qed

lemma ts_plus_ge: "writable t \<Longrightarrow> t \<le> ts_plus t span"
  by (simp add: ts_plus_exact) (simp add: writable_def last_writable_millis_def)

lemma ts_plus_mono: "writable t \<Longrightarrow> a \<le> b \<Longrightarrow> ts_plus t a \<le> ts_plus t b"
  by (simp add: ts_plus_exact)

lemma span_millis_mono: "a \<le> b \<Longrightarrow> span_millis a \<le> span_millis b"
  by (auto simp: time_defs Let_def min_def)

end
