(* ===== verification/Contract_Codes.thy ===== *)
theory Contract_Codes
  imports Contract_Ids
begin

text \<open>
  The closed lists of the contracts: what the macro \<^verbatim>\<open>closed_code!\<close> of
  \<^verbatim>\<open>crates/run-contracts/src/codes.rs\<close> generates for each enum of \<^verbatim>\<open>codes.rs\<close>,
  \<^verbatim>\<open>events.rs\<close>, \<^verbatim>\<open>session.rs\<close> and \<^verbatim>\<open>status.rs\<close>. Every enum has its named codes and
  \<open>Unknown\<close>, which keeps a word of a newer version as it was read. A variant carries the prefix of
  its enum, because the enums share variant names. \<open>code_parse\<close> is the macro's \<^verbatim>\<open>parse\<close> over
  the list of words and variants the macro is called with, and \<open>code_all\<close> its \<^verbatim>\<open>ALL\<close>. The
  contract of the macro is the locale \<open>closed_code\<close>; every enum is an interpretation.
\<close>

section \<open>The macro\<close>

type_synonym 'c code_table = "(string \<times> 'c) list"

definition code_parse :: "'c code_table \<Rightarrow> (string \<Rightarrow> 'c) \<Rightarrow> string \<Rightarrow> 'c" where
  "code_parse tbl unknown text =
     (case map_of tbl text of Some c \<Rightarrow> c | None \<Rightarrow> unknown text)"

definition code_all :: "'c code_table \<Rightarrow> string list" where
  "code_all tbl = map fst tbl"

locale closed_code =
  fixes tbl :: "(string \<times> 'c) list"
    and unknown :: "string \<Rightarrow> 'c"
    and as_str :: "'c \<Rightarrow> string"
  assumes words_distinct: "distinct (map fst tbl)"
    and str_known: "(w, c) \<in> set tbl \<Longrightarrow> as_str c = w"
    and str_unknown: "as_str (unknown t) = t"
    and exhaustive: "c \<in> snd ` set tbl \<or> c \<in> range unknown"
    and known_apart: "(w, c) \<in> set tbl \<Longrightarrow> c \<noteq> unknown t"
begin

lemma str_parse: "as_str (code_parse tbl unknown t) = t"
  by (auto simp: code_parse_def str_unknown split: option.splits dest!: map_of_SomeD str_known)

lemma parse_known: "(w, c) \<in> set tbl \<Longrightarrow> code_parse tbl unknown w = c"
  by (simp add: code_parse_def map_of_is_SomeI words_distinct)

lemma parse_other: "t \<notin> set (code_all tbl) \<Longrightarrow> code_parse tbl unknown t = unknown t"
  by (auto simp: code_parse_def code_all_def map_of_eq_None_iff split: option.splits dest!: map_of_SomeD)
     (metis fst_conv image_eqI)

lemma parse_unknown_iff: "t \<notin> set (code_all tbl) \<longleftrightarrow> code_parse tbl unknown t = unknown t"
  using parse_other parse_known known_apart by (auto simp: code_all_def)

lemma parse_str:
  assumes "c \<in> snd ` set tbl \<or> as_str c \<notin> set (code_all tbl)"
  shows "code_parse tbl unknown (as_str c) = c"
proof (cases "c \<in> snd ` set tbl")
  case True
  then obtain w where "(w, c) \<in> set tbl" by auto
  then show ?thesis using parse_known str_known by metis
next
  case False
  with exhaustive obtain t where "c = unknown t" by blast
  with False assms show ?thesis by (simp add: parse_other str_unknown)
qed

lemma known_str_inject:
  "c \<in> snd ` set tbl \<Longrightarrow> d \<in> snd ` set tbl \<Longrightarrow> as_str c = as_str d \<Longrightarrow> c = d"
  by (metis parse_str)

end

section \<open>The enums\<close>

text \<open>Who appended an event (\<^verbatim>\<open>events.rs: Origin\<close>).\<close>

datatype origin =
  OR_Cli | OR_Host | OR_Adapter | OR_Reducer | OR_Timer | OR_Unknown string

primrec origin_str :: "origin \<Rightarrow> string" where
  "origin_str OR_Cli = ''cli''"
| "origin_str OR_Host = ''host''"
| "origin_str OR_Adapter = ''adapter''"
| "origin_str OR_Reducer = ''reducer''"
| "origin_str OR_Timer = ''timer''"
| "origin_str (OR_Unknown raw) = raw"

definition origin_table :: "origin code_table" where
  "origin_table =
    [(''cli'', OR_Cli), (''host'', OR_Host), (''adapter'', OR_Adapter),
     (''reducer'', OR_Reducer), (''timer'', OR_Timer)]"

definition origin_parse :: "string \<Rightarrow> origin" where
  "origin_parse = code_parse origin_table OR_Unknown"

interpretation origin: closed_code origin_table OR_Unknown origin_str
proof unfold_locales
  show "c \<in> snd ` set origin_table \<or> c \<in> range OR_Unknown" for c
    by (cases c) (simp_all add: origin_table_def)
qed (auto simp: origin_table_def)

text \<open>Why a decision stopped or skipped something (\<^verbatim>\<open>codes.rs: ReasonCode\<close>).\<close>

datatype reason_code =
  RC_StaleTimer | RC_DuplicateReply | RC_LateReplyAfterSkip | RC_UnknownSession | RC_FinalState
  | RC_AlreadyFinishing | RC_OutOfState | RC_Quiet | RC_Hung | RC_StartFailed | RC_Lost | RC_Exit
  | RC_TurnComplete | RC_StoppedByHost | RC_WouldNotStop | RC_RootFailed | RC_TreeRefused
  | RC_PoisonInput | RC_PermissionRefused | RC_EndedWithoutReply | RC_FanOutIncomplete
  | RC_UsageLimit | RC_ProviderUnavailable | RC_HoldLimit | RC_Ceiling | RC_AcceptedByRequester
  | RC_WithdrawnByRequester | RC_WithdrawnByOwner | RC_Delivered | RC_Unknown string

primrec reason_code_str :: "reason_code \<Rightarrow> string" where
  "reason_code_str RC_StaleTimer = ''stale_timer''"
| "reason_code_str RC_DuplicateReply = ''duplicate_reply''"
| "reason_code_str RC_LateReplyAfterSkip = ''late_reply_after_skip''"
| "reason_code_str RC_UnknownSession = ''unknown_session''"
| "reason_code_str RC_FinalState = ''final_state''"
| "reason_code_str RC_AlreadyFinishing = ''already_finishing''"
| "reason_code_str RC_OutOfState = ''out_of_state''"
| "reason_code_str RC_Quiet = ''quiet''"
| "reason_code_str RC_Hung = ''hung''"
| "reason_code_str RC_StartFailed = ''start_failed''"
| "reason_code_str RC_Lost = ''lost''"
| "reason_code_str RC_Exit = ''exit''"
| "reason_code_str RC_TurnComplete = ''turn_complete''"
| "reason_code_str RC_StoppedByHost = ''stopped_by_host''"
| "reason_code_str RC_WouldNotStop = ''would_not_stop''"
| "reason_code_str RC_RootFailed = ''root_failed''"
| "reason_code_str RC_TreeRefused = ''tree_refused''"
| "reason_code_str RC_PoisonInput = ''poison_input''"
| "reason_code_str RC_PermissionRefused = ''permission_refused''"
| "reason_code_str RC_EndedWithoutReply = ''ended_without_reply''"
| "reason_code_str RC_FanOutIncomplete = ''fan_out_incomplete''"
| "reason_code_str RC_UsageLimit = ''usage_limit''"
| "reason_code_str RC_ProviderUnavailable = ''provider_unavailable''"
| "reason_code_str RC_HoldLimit = ''hold_limit''"
| "reason_code_str RC_Ceiling = ''ceiling''"
| "reason_code_str RC_AcceptedByRequester = ''accepted_by_requester''"
| "reason_code_str RC_WithdrawnByRequester = ''withdrawn_by_requester''"
| "reason_code_str RC_WithdrawnByOwner = ''withdrawn_by_owner''"
| "reason_code_str RC_Delivered = ''delivered''"
| "reason_code_str (RC_Unknown raw) = raw"

definition reason_code_table :: "reason_code code_table" where
  "reason_code_table =
    [(''stale_timer'', RC_StaleTimer), (''duplicate_reply'', RC_DuplicateReply),
     (''late_reply_after_skip'', RC_LateReplyAfterSkip),
     (''unknown_session'', RC_UnknownSession), (''final_state'', RC_FinalState),
     (''already_finishing'', RC_AlreadyFinishing), (''out_of_state'', RC_OutOfState),
     (''quiet'', RC_Quiet), (''hung'', RC_Hung), (''start_failed'', RC_StartFailed),
     (''lost'', RC_Lost), (''exit'', RC_Exit), (''turn_complete'', RC_TurnComplete),
     (''stopped_by_host'', RC_StoppedByHost), (''would_not_stop'', RC_WouldNotStop),
     (''root_failed'', RC_RootFailed), (''tree_refused'', RC_TreeRefused),
     (''poison_input'', RC_PoisonInput), (''permission_refused'', RC_PermissionRefused),
     (''ended_without_reply'', RC_EndedWithoutReply),
     (''fan_out_incomplete'', RC_FanOutIncomplete), (''usage_limit'', RC_UsageLimit),
     (''provider_unavailable'', RC_ProviderUnavailable), (''hold_limit'', RC_HoldLimit),
     (''ceiling'', RC_Ceiling), (''accepted_by_requester'', RC_AcceptedByRequester),
     (''withdrawn_by_requester'', RC_WithdrawnByRequester),
     (''withdrawn_by_owner'', RC_WithdrawnByOwner), (''delivered'', RC_Delivered)]"

definition reason_code_parse :: "string \<Rightarrow> reason_code" where
  "reason_code_parse = code_parse reason_code_table RC_Unknown"

interpretation reason_code: closed_code reason_code_table RC_Unknown reason_code_str
proof unfold_locales
  show "c \<in> snd ` set reason_code_table \<or> c \<in> range RC_Unknown" for c
    by (cases c) (simp_all add: reason_code_table_def)
qed (auto simp: reason_code_table_def)

text \<open>Why a git call was refused (\<^verbatim>\<open>codes.rs: GitReason\<close>).\<close>

datatype git_reason =
  GR_BoundExceeded | GR_FetchFailed | GR_LockHeld | GR_ExitNonzero | GR_Unknown string

primrec git_reason_str :: "git_reason \<Rightarrow> string" where
  "git_reason_str GR_BoundExceeded = ''bound_exceeded''"
| "git_reason_str GR_FetchFailed = ''fetch_failed''"
| "git_reason_str GR_LockHeld = ''lock_held''"
| "git_reason_str GR_ExitNonzero = ''exit_nonzero''"
| "git_reason_str (GR_Unknown raw) = raw"

definition git_reason_table :: "git_reason code_table" where
  "git_reason_table =
    [(''bound_exceeded'', GR_BoundExceeded), (''fetch_failed'', GR_FetchFailed),
     (''lock_held'', GR_LockHeld), (''exit_nonzero'', GR_ExitNonzero)]"

definition git_reason_parse :: "string \<Rightarrow> git_reason" where
  "git_reason_parse = code_parse git_reason_table GR_Unknown"

interpretation git_reason: closed_code git_reason_table GR_Unknown git_reason_str
proof unfold_locales
  show "c \<in> snd ` set git_reason_table \<or> c \<in> range GR_Unknown" for c
    by (cases c) (simp_all add: git_reason_table_def)
qed (auto simp: git_reason_table_def)

text \<open>The sequence a tree is in the middle of (\<^verbatim>\<open>events.rs: SequenceKind\<close>).\<close>

datatype sequence_kind =
  SK_Merge | SK_Rebase | SK_CherryPick | SK_Revert | SK_Bisect | SK_Unknown string

primrec sequence_kind_str :: "sequence_kind \<Rightarrow> string" where
  "sequence_kind_str SK_Merge = ''merge''"
| "sequence_kind_str SK_Rebase = ''rebase''"
| "sequence_kind_str SK_CherryPick = ''cherry_pick''"
| "sequence_kind_str SK_Revert = ''revert''"
| "sequence_kind_str SK_Bisect = ''bisect''"
| "sequence_kind_str (SK_Unknown raw) = raw"

definition sequence_kind_table :: "sequence_kind code_table" where
  "sequence_kind_table =
    [(''merge'', SK_Merge), (''rebase'', SK_Rebase), (''cherry_pick'', SK_CherryPick),
     (''revert'', SK_Revert), (''bisect'', SK_Bisect)]"

definition sequence_kind_parse :: "string \<Rightarrow> sequence_kind" where
  "sequence_kind_parse = code_parse sequence_kind_table SK_Unknown"

interpretation sequence_kind: closed_code sequence_kind_table SK_Unknown sequence_kind_str
proof unfold_locales
  show "c \<in> snd ` set sequence_kind_table \<or> c \<in> range SK_Unknown" for c
    by (cases c) (simp_all add: sequence_kind_table_def)
qed (auto simp: sequence_kind_table_def)

text \<open>How a question is answered (\<^verbatim>\<open>events.rs: Disposition\<close>).\<close>

datatype disposition =
  DI_Continue | DI_Accept | DI_Unknown string

primrec disposition_str :: "disposition \<Rightarrow> string" where
  "disposition_str DI_Continue = ''continue''"
| "disposition_str DI_Accept = ''accept''"
| "disposition_str (DI_Unknown raw) = raw"

definition disposition_table :: "disposition code_table" where
  "disposition_table =
    [(''continue'', DI_Continue), (''accept'', DI_Accept)]"

definition disposition_parse :: "string \<Rightarrow> disposition" where
  "disposition_parse = code_parse disposition_table DI_Unknown"

interpretation disposition: closed_code disposition_table DI_Unknown disposition_str
proof unfold_locales
  show "c \<in> snd ` set disposition_table \<or> c \<in> range DI_Unknown" for c
    by (cases c) (simp_all add: disposition_table_def)
qed (auto simp: disposition_table_def)

text \<open>Who withdrew a run (\<^verbatim>\<open>events.rs: WithdrawnBy\<close>).\<close>

datatype withdrawn_by =
  WB_Requester | WB_Owner | WB_Unknown string

primrec withdrawn_by_str :: "withdrawn_by \<Rightarrow> string" where
  "withdrawn_by_str WB_Requester = ''requester''"
| "withdrawn_by_str WB_Owner = ''owner''"
| "withdrawn_by_str (WB_Unknown raw) = raw"

definition withdrawn_by_table :: "withdrawn_by code_table" where
  "withdrawn_by_table =
    [(''requester'', WB_Requester), (''owner'', WB_Owner)]"

definition withdrawn_by_parse :: "string \<Rightarrow> withdrawn_by" where
  "withdrawn_by_parse = code_parse withdrawn_by_table WB_Unknown"

interpretation withdrawn_by: closed_code withdrawn_by_table WB_Unknown withdrawn_by_str
proof unfold_locales
  show "c \<in> snd ` set withdrawn_by_table \<or> c \<in> range WB_Unknown" for c
    by (cases c) (simp_all add: withdrawn_by_table_def)
qed (auto simp: withdrawn_by_table_def)

text \<open>SIGTERM or SIGKILL (\<^verbatim>\<open>events.rs: StopKind\<close>).\<close>

datatype stop_kind =
  ST_Term | ST_Kill | ST_Unknown string

primrec stop_kind_str :: "stop_kind \<Rightarrow> string" where
  "stop_kind_str ST_Term = ''term''"
| "stop_kind_str ST_Kill = ''kill''"
| "stop_kind_str (ST_Unknown raw) = raw"

definition stop_kind_table :: "stop_kind code_table" where
  "stop_kind_table =
    [(''term'', ST_Term), (''kill'', ST_Kill)]"

definition stop_kind_parse :: "string \<Rightarrow> stop_kind" where
  "stop_kind_parse = code_parse stop_kind_table ST_Unknown"

interpretation stop_kind: closed_code stop_kind_table ST_Unknown stop_kind_str
proof unfold_locales
  show "c \<in> snd ` set stop_kind_table \<or> c \<in> range ST_Unknown" for c
    by (cases c) (simp_all add: stop_kind_table_def)
qed (auto simp: stop_kind_table_def)

text \<open>The verdict of a step (\<^verbatim>\<open>events.rs: StepOutcome\<close>).\<close>

datatype step_outcome =
  SO_Pass | SO_NeedsRework | SO_Escalated | SO_Unknown string

primrec step_outcome_str :: "step_outcome \<Rightarrow> string" where
  "step_outcome_str SO_Pass = ''pass''"
| "step_outcome_str SO_NeedsRework = ''needs_rework''"
| "step_outcome_str SO_Escalated = ''escalated''"
| "step_outcome_str (SO_Unknown raw) = raw"

definition step_outcome_table :: "step_outcome code_table" where
  "step_outcome_table =
    [(''pass'', SO_Pass), (''needs_rework'', SO_NeedsRework), (''escalated'', SO_Escalated)]"

definition step_outcome_parse :: "string \<Rightarrow> step_outcome" where
  "step_outcome_parse = code_parse step_outcome_table SO_Unknown"

interpretation step_outcome: closed_code step_outcome_table SO_Unknown step_outcome_str
proof unfold_locales
  show "c \<in> snd ` set step_outcome_table \<or> c \<in> range SO_Unknown" for c
    by (cases c) (simp_all add: step_outcome_table_def)
qed (auto simp: step_outcome_table_def)

text \<open>How a run ended (\<^verbatim>\<open>events.rs: Outcome\<close>).\<close>

datatype outcome =
  OU_Delivered | OU_Withdrawn | OU_Accepted | OU_Failed | OU_Unknown string

primrec outcome_str :: "outcome \<Rightarrow> string" where
  "outcome_str OU_Delivered = ''delivered''"
| "outcome_str OU_Withdrawn = ''withdrawn''"
| "outcome_str OU_Accepted = ''accepted''"
| "outcome_str OU_Failed = ''failed''"
| "outcome_str (OU_Unknown raw) = raw"

definition outcome_table :: "outcome code_table" where
  "outcome_table =
    [(''delivered'', OU_Delivered), (''withdrawn'', OU_Withdrawn), (''accepted'', OU_Accepted),
     (''failed'', OU_Failed)]"

definition outcome_parse :: "string \<Rightarrow> outcome" where
  "outcome_parse = code_parse outcome_table OU_Unknown"

interpretation outcome: closed_code outcome_table OU_Unknown outcome_str
proof unfold_locales
  show "c \<in> snd ` set outcome_table \<or> c \<in> range OU_Unknown" for c
    by (cases c) (simp_all add: outcome_table_def)
qed (auto simp: outcome_table_def)

text \<open>What a timer is for (\<^verbatim>\<open>events.rs: TimerPurpose\<close>).\<close>

datatype timer_purpose =
  TP_RootDeadline | TP_StartDeadline | TP_Quiet | TP_Confirm | TP_CallBound | TP_SubprocessIdle
  | TP_StopGrace | TP_WindDown | TP_HoldRetry | TP_TreeWindow | TP_Unknown string

primrec timer_purpose_str :: "timer_purpose \<Rightarrow> string" where
  "timer_purpose_str TP_RootDeadline = ''root_deadline''"
| "timer_purpose_str TP_StartDeadline = ''start_deadline''"
| "timer_purpose_str TP_Quiet = ''quiet''"
| "timer_purpose_str TP_Confirm = ''confirm''"
| "timer_purpose_str TP_CallBound = ''call_bound''"
| "timer_purpose_str TP_SubprocessIdle = ''subprocess_idle''"
| "timer_purpose_str TP_StopGrace = ''stop_grace''"
| "timer_purpose_str TP_WindDown = ''wind_down''"
| "timer_purpose_str TP_HoldRetry = ''hold_retry''"
| "timer_purpose_str TP_TreeWindow = ''tree_window''"
| "timer_purpose_str (TP_Unknown raw) = raw"

definition timer_purpose_table :: "timer_purpose code_table" where
  "timer_purpose_table =
    [(''root_deadline'', TP_RootDeadline), (''start_deadline'', TP_StartDeadline),
     (''quiet'', TP_Quiet), (''confirm'', TP_Confirm), (''call_bound'', TP_CallBound),
     (''subprocess_idle'', TP_SubprocessIdle), (''stop_grace'', TP_StopGrace),
     (''wind_down'', TP_WindDown), (''hold_retry'', TP_HoldRetry),
     (''tree_window'', TP_TreeWindow)]"

definition timer_purpose_parse :: "string \<Rightarrow> timer_purpose" where
  "timer_purpose_parse = code_parse timer_purpose_table TP_Unknown"

interpretation timer_purpose: closed_code timer_purpose_table TP_Unknown timer_purpose_str
proof unfold_locales
  show "c \<in> snd ` set timer_purpose_table \<or> c \<in> range TP_Unknown" for c
    by (cases c) (simp_all add: timer_purpose_table_def)
qed (auto simp: timer_purpose_table_def)

text \<open>Signs of life (\<^verbatim>\<open>session.rs: HeartbeatKind\<close>).\<close>

datatype heartbeat_kind =
  HB_ModelOutput | HB_CallsOpen | HB_CallsClosed | HB_SubprocessMoved | HB_Blind
  | HB_Unknown string

primrec heartbeat_kind_str :: "heartbeat_kind \<Rightarrow> string" where
  "heartbeat_kind_str HB_ModelOutput = ''model_output''"
| "heartbeat_kind_str HB_CallsOpen = ''calls_open''"
| "heartbeat_kind_str HB_CallsClosed = ''calls_closed''"
| "heartbeat_kind_str HB_SubprocessMoved = ''subprocess_moved''"
| "heartbeat_kind_str HB_Blind = ''blind''"
| "heartbeat_kind_str (HB_Unknown raw) = raw"

definition heartbeat_kind_table :: "heartbeat_kind code_table" where
  "heartbeat_kind_table =
    [(''model_output'', HB_ModelOutput), (''calls_open'', HB_CallsOpen),
     (''calls_closed'', HB_CallsClosed), (''subprocess_moved'', HB_SubprocessMoved),
     (''blind'', HB_Blind)]"

definition heartbeat_kind_parse :: "string \<Rightarrow> heartbeat_kind" where
  "heartbeat_kind_parse = code_parse heartbeat_kind_table HB_Unknown"

interpretation heartbeat_kind: closed_code heartbeat_kind_table HB_Unknown heartbeat_kind_str
proof unfold_locales
  show "c \<in> snd ` set heartbeat_kind_table \<or> c \<in> range HB_Unknown" for c
    by (cases c) (simp_all add: heartbeat_kind_table_def)
qed (auto simp: heartbeat_kind_table_def)

text \<open>What status says of a slot (\<^verbatim>\<open>status.rs: Verdict\<close>).\<close>

datatype verdict_code =
  VE_Working | VE_Quiet | VE_Suspect | VE_Hung | VE_Unknown string

primrec verdict_code_str :: "verdict_code \<Rightarrow> string" where
  "verdict_code_str VE_Working = ''working''"
| "verdict_code_str VE_Quiet = ''quiet''"
| "verdict_code_str VE_Suspect = ''suspect''"
| "verdict_code_str VE_Hung = ''hung''"
| "verdict_code_str (VE_Unknown raw) = raw"

definition verdict_code_table :: "verdict_code code_table" where
  "verdict_code_table =
    [(''working'', VE_Working), (''quiet'', VE_Quiet), (''suspect'', VE_Suspect),
     (''hung'', VE_Hung)]"

definition verdict_code_parse :: "string \<Rightarrow> verdict_code" where
  "verdict_code_parse = code_parse verdict_code_table VE_Unknown"

interpretation verdict_code: closed_code verdict_code_table VE_Unknown verdict_code_str
proof unfold_locales
  show "c \<in> snd ` set verdict_code_table \<or> c \<in> range VE_Unknown" for c
    by (cases c) (simp_all add: verdict_code_table_def)
qed (auto simp: verdict_code_table_def)

text \<open>What a run needs from a person (\<^verbatim>\<open>status.rs: NeedsKind\<close>).\<close>

datatype needs_kind =
  NK_Decision | NK_Person | NK_Unknown string

primrec needs_kind_str :: "needs_kind \<Rightarrow> string" where
  "needs_kind_str NK_Decision = ''decision''"
| "needs_kind_str NK_Person = ''person''"
| "needs_kind_str (NK_Unknown raw) = raw"

definition needs_kind_table :: "needs_kind code_table" where
  "needs_kind_table =
    [(''decision'', NK_Decision), (''person'', NK_Person)]"

definition needs_kind_parse :: "string \<Rightarrow> needs_kind" where
  "needs_kind_parse = code_parse needs_kind_table NK_Unknown"

interpretation needs_kind: closed_code needs_kind_table NK_Unknown needs_kind_str
proof unfold_locales
  show "c \<in> snd ` set needs_kind_table \<or> c \<in> range NK_Unknown" for c
    by (cases c) (simp_all add: needs_kind_table_def)
qed (auto simp: needs_kind_table_def)

end
