(* ===== verification/Contract_Events.thy ===== *)
theory Contract_Events
  imports Contract_Codes
begin

text \<open>
  The run events of \<^verbatim>\<open>crates/run-contracts/src/events.rs\<close>, the session facts of
  \<^verbatim>\<open>session.rs\<close> and the liveness policy of \<^verbatim>\<open>policy.rs\<close>. An event is an input or a
  decision; both share the envelope \<open>event\<close>. The arguments of a constructor stand in the order of
  the source's fields, named in the comment beside it. JSON values appear where the source keeps one
  whole: in an unknown body and in the unknown fields of an event.
\<close>

section \<open>JSON values and the fields a reader does not know\<close>

text \<open>An object is a \<^verbatim>\<open>serde_json::Map\<close>, a map in key order. A number is its text: no code here
  computes with one.\<close>

datatype json =
    JNull
  | JBool bool
  | JNum string
  | JStr string
  | JArr "json list"
  | JObj "(string \<times> json) list"

type_synonym jmap = "(string, json) btmap"

text \<open>\<^verbatim>\<open>Value::Object\<close> as a pattern.\<close>

fun as_obj :: "json \<Rightarrow> jmap option" where
  "as_obj (JObj m) = Some m"
| "as_obj _ = None"

abbreviation jmap_size :: "jmap \<Rightarrow> nat" where
  "jmap_size \<equiv> size_list (\<lambda>p. size (snd p))"

lemma as_obj_Some_iff: "as_obj v = Some m \<longleftrightarrow> v = JObj m"
  by (cases v) auto

lemma jmap_size_json: "jmap_size m \<le> size_list (size_prod (\<lambda>_. 0) size) m"
  by (induction m) auto

lemma jmap_size_obj: "as_obj v = Some m \<Longrightarrow> jmap_size m < size v"
  using jmap_size_json [of m] by (simp add: as_obj_Some_iff)

text \<open>What \<open>raw\<close> holds that \<open>written\<close> does not, keeping the objects on the way down.\<close>

function unknown_fields :: "jmap \<Rightarrow> jmap \<Rightarrow> jmap" where
  "unknown_fields [] written = []"
| "unknown_fields ((k, v) # raw) written =
     (case map_of written k of
        None \<Rightarrow> bt_insert k v (unknown_fields raw written)
      | Some w \<Rightarrow>
          (case (as_obj v, as_obj w) of
             (Some raw_inner, Some written_inner) \<Rightarrow>
               (let inner = unknown_fields raw_inner written_inner
                in if inner = [] then unknown_fields raw written
                   else bt_insert k (JObj inner) (unknown_fields raw written))
           | _ \<Rightarrow> unknown_fields raw written))"
  by pat_completeness auto
termination
  by (relation "measure (\<lambda>(raw, written). jmap_size raw)") (auto dest!: jmap_size_obj [OF sym])

function merge_unknown :: "jmap \<Rightarrow> jmap \<Rightarrow> jmap" where
  "merge_unknown wire [] = wire"
| "merge_unknown wire ((k, v) # unknown) =
     merge_unknown
       (case (Option.bind (map_of wire k) as_obj, as_obj v) of
          (Some inner, Some unknown_inner) \<Rightarrow>
            bt_insert k (JObj (merge_unknown inner unknown_inner)) wire
        | _ \<Rightarrow> bt_insert k v wire)
       unknown"
  by pat_completeness auto
termination
  by (relation "measure (\<lambda>(wire, unknown). jmap_size unknown)") (auto dest!: jmap_size_obj [OF sym])

text \<open>An object whose tag this version does not know, kept whole.\<close>

record unknown_body =
  ub_kind :: string
  ub_raw :: json

section \<open>Tagged values of the log\<close>

datatype park_outcome =
    PO_Committed string string \<comment> \<open>branch, commit\<close>
  | PO_OnOwnBranch string string \<comment> \<open>branch, commit\<close>
  | PO_Clean "string option" \<comment> \<open>branch\<close>
  | PO_Missing
  | PO_NotHeld
  | PO_Unknown unknown_body

datatype tree_refusal =
    TR_NotARepository
  | TR_ForeignDirectory
  | TR_MidSequence sequence_kind
  | TR_Git git_reason
  | TR_Unknown unknown_body

datatype end_cause =
    EC_TurnComplete
  | EC_Exit "int option" \<comment> \<open>status\<close>
  | EC_UsageLimit "timestamp option" \<comment> \<open>resets_at\<close>
  | EC_ProviderUnavailable
  | EC_PermissionRefused string string \<comment> \<open>rule, program\<close>
  | EC_StoppedByHost
  | EC_Lost
  | EC_Unknown unknown_body

datatype session_fact =
    SF_Started string "nat option" \<comment> \<open>backend_session_id, pid\<close>
  | SF_Heartbeat heartbeat_kind
  | SF_Usage string nat nat nat nat nat
      \<comment> \<open>model, input_tokens, output_tokens, cache_read_tokens, cache_write_tokens, turns\<close>
  | SF_PermissionRefused string string \<comment> \<open>rule, program\<close>
  | SF_GroupLingering "nat list" \<comment> \<open>pids\<close>
  | SF_Ended end_cause
  | SF_Unknown unknown_body

record base =
  ba_branch :: string
  ba_commit :: string

section \<open>The liveness policy\<close>

record liveness_policy =
  lp_root_deadline :: secs
  lp_start_deadline :: secs
  lp_quiet_after :: secs
  lp_confirm_within :: secs
  lp_call_bound :: secs
  lp_subprocess_idle :: secs
  lp_stop_grace :: secs
  lp_tree_window :: secs
  lp_wake_jump :: secs
  lp_hold_retry :: secs
  lp_hold_retry_min :: secs
  lp_hold_retry_max :: secs
  lp_max_attempts :: nat
  lp_max_holds :: nat

definition default_policy :: liveness_policy where
  "default_policy =
     \<lparr> lp_root_deadline = secs_minutes 1,
       lp_start_deadline = secs_minutes 3,
       lp_quiet_after = secs_minutes 10,
       lp_confirm_within = secs_minutes 5,
       lp_call_bound = secs_hours 3,
       lp_subprocess_idle = secs_minutes 30,
       lp_stop_grace = secs_minutes 5,
       lp_tree_window = secs_minutes 10,
       lp_wake_jump = secs_minutes 2,
       lp_hold_retry = secs_minutes 30,
       lp_hold_retry_min = secs_minutes 1,
       lp_hold_retry_max = secs_hours 24,
       lp_max_attempts = 3,
       lp_max_holds = 5 \<rparr>"

section \<open>Decisions, inputs, events\<close>

datatype decision =
    DE_RootRequested
  | DE_ClaimRequested
  | DE_RunQueued "run_id option" \<comment> \<open>behind\<close>
  | DE_StepStarted step_id nat nat "handle list" \<comment> \<open>step, visit, attempt, members\<close>
  | DE_StepFinished step_id nat step_outcome \<comment> \<open>step, visit, outcome\<close>
  | DE_Rework step_id step_id step_id nat \<comment> \<open>from, to, declaring, pass\<close>
  | DE_Escalated key slot message_id \<comment> \<open>question, slot, message\<close>
  | DE_Ceiling key step_id nat message_id \<comment> \<open>question, step, pass, last_verdict\<close>
  | DE_TimerSet string timestamp timer_purpose \<comment> \<open>timer, fire_at, purpose\<close>
  | DE_TimerCleared string \<comment> \<open>timer\<close>
  | DE_Liveness slot reason_code timestamp \<comment> \<open>slot, reason, since\<close>
  | DE_Held slot reason_code timestamp "timestamp option" \<comment> \<open>slot, reason, until, resets_at\<close>
  | DE_Parked "slot option" reason_code \<comment> \<open>slot, reason\<close>
  | DE_Finishing outcome "reason_code option" \<comment> \<open>outcome, reason\<close>
  | DE_WithdrawForced
  | DE_Finished outcome "reason_code option" \<comment> \<open>outcome, reason\<close>
  | DE_Ignored seq reason_code \<comment> \<open>input_seq, reason\<close>

datatype event_body =
    EB_Commissioned run_id string string string liveness_policy message_id handle
      \<comment> \<open>run, workspace_id, tenant, flow.hash, policy, root_thread, requester\<close>
  | EB_RootOpened message_id message_id \<comment> \<open>thread, message\<close>
  | EB_ClaimTaken
  | EB_ClaimBusy run_id \<comment> \<open>holder\<close>
  | EB_ClaimReleased
  | EB_TreePrepared base "park_outcome option" \<comment> \<open>base, found\<close>
  | EB_TreeRefused tree_refusal
  | EB_TreeParked park_outcome
  | EB_Delivered message_id
  | EB_Nudged session_key
  | EB_StopSignalled session_key nat stop_kind \<comment> \<open>session_key, nth, signal\<close>
  | EB_SessionFact session_key session_fact
  | EB_Reply session_key message_id bool bool \<comment> \<open>session_key, message, escalate, needs_rework\<close>
  | EB_Answer key disposition message_id \<comment> \<open>question, disposition, message\<close>
  | EB_Resume "slot option"
  | EB_ResumeRun
  | EB_Withdrawn "message_id option" withdrawn_by
  | EB_TimerFired string timestamp \<comment> \<open>timer, fire_at\<close>
  | EB_Decision decision
  | EB_Unknown unknown_body

record event =
  ev_run :: run_id
  ev_seq :: seq
  ev_at :: timestamp
  ev_v :: nat
  ev_key :: key
  ev_origin :: origin
  ev_body :: event_body
  ev_extra :: jmap

definition contract_v :: nat where "contract_v = 1"

definition event_new :: "run_id \<Rightarrow> seq \<Rightarrow> timestamp \<Rightarrow> key \<Rightarrow> origin \<Rightarrow> event_body \<Rightarrow> event" where
  "event_new run sq at key orig body =
     \<lparr> ev_run = run, ev_seq = sq, ev_at = at, ev_v = contract_v, ev_key = key, ev_origin = orig,
       ev_body = body, ev_extra = [] \<rparr>"

text \<open>Whether a decision holds a value of an enum only decisions carry that this version does not
  know. Folding past one would diverge, so a reader refuses it.\<close>

fun holds_unknown_value :: "decision \<Rightarrow> bool" where
  "holds_unknown_value (DE_StepFinished _ _ oc) = (case oc of SO_Unknown _ \<Rightarrow> True | _ \<Rightarrow> False)"
| "holds_unknown_value (DE_Finishing oc _) = (case oc of OU_Unknown _ \<Rightarrow> True | _ \<Rightarrow> False)"
| "holds_unknown_value (DE_Finished oc _) = (case oc of OU_Unknown _ \<Rightarrow> True | _ \<Rightarrow> False)"
| "holds_unknown_value (DE_TimerSet _ _ p) = (case p of TP_Unknown _ \<Rightarrow> True | _ \<Rightarrow> False)"
| "holds_unknown_value _ = False"

definition is_unknown_decision :: "event \<Rightarrow> bool" where
  "is_unknown_decision e =
     (case ev_body e of
        EB_Unknown _ \<Rightarrow> ev_origin e = OR_Reducer
      | EB_Decision d \<Rightarrow> holds_unknown_value d
      | _ \<Rightarrow> False)"

definition is_unknown_input :: "event \<Rightarrow> bool" where
  "is_unknown_input e =
     ((case ev_body e of EB_Unknown _ \<Rightarrow> True | _ \<Rightarrow> False) \<and> ev_origin e \<noteq> OR_Reducer)"

text \<open>The \<^verbatim>\<open>kind\<close> of a decision and of a body on the wire, and the two \<^verbatim>\<open>KINDS\<close> lists a
  reader tells them apart by.\<close>

fun decision_kind :: "decision \<Rightarrow> string" where
  "decision_kind DE_RootRequested = ''root_requested''"
| "decision_kind DE_ClaimRequested = ''claim_requested''"
| "decision_kind (DE_RunQueued _) = ''run_queued''"
| "decision_kind (DE_StepStarted _ _ _ _) = ''step_started''"
| "decision_kind (DE_StepFinished _ _ _) = ''step_finished''"
| "decision_kind (DE_Rework _ _ _ _) = ''rework''"
| "decision_kind (DE_Escalated _ _ _) = ''escalated''"
| "decision_kind (DE_Ceiling _ _ _ _) = ''ceiling''"
| "decision_kind (DE_TimerSet _ _ _) = ''timer_set''"
| "decision_kind (DE_TimerCleared _) = ''timer_cleared''"
| "decision_kind (DE_Liveness _ _ _) = ''liveness''"
| "decision_kind (DE_Held _ _ _ _) = ''held''"
| "decision_kind (DE_Parked _ _) = ''parked''"
| "decision_kind (DE_Finishing _ _) = ''finishing''"
| "decision_kind DE_WithdrawForced = ''withdraw_forced''"
| "decision_kind (DE_Finished _ _) = ''finished''"
| "decision_kind (DE_Ignored _ _) = ''ignored''"

fun body_kind :: "event_body \<Rightarrow> string" where
  "body_kind (EB_Commissioned _ _ _ _ _ _ _) = ''commissioned''"
| "body_kind (EB_RootOpened _ _) = ''root_opened''"
| "body_kind EB_ClaimTaken = ''claim_taken''"
| "body_kind (EB_ClaimBusy _) = ''claim_busy''"
| "body_kind EB_ClaimReleased = ''claim_released''"
| "body_kind (EB_TreePrepared _ _) = ''tree_prepared''"
| "body_kind (EB_TreeRefused _) = ''tree_refused''"
| "body_kind (EB_TreeParked _) = ''tree_parked''"
| "body_kind (EB_Delivered _) = ''delivered''"
| "body_kind (EB_Nudged _) = ''nudged''"
| "body_kind (EB_StopSignalled _ _ _) = ''stop_signalled''"
| "body_kind (EB_SessionFact _ _) = ''session_fact''"
| "body_kind (EB_Reply _ _ _ _) = ''reply''"
| "body_kind (EB_Answer _ _ _) = ''answer''"
| "body_kind (EB_Resume _) = ''resume''"
| "body_kind EB_ResumeRun = ''resume_run''"
| "body_kind (EB_Withdrawn _ _) = ''withdrawn''"
| "body_kind (EB_TimerFired _ _) = ''timer_fired''"
| "body_kind (EB_Decision d) = decision_kind d"
| "body_kind (EB_Unknown u) = ub_kind u"

definition decision_kinds :: "string list" where
  "decision_kinds =
     [''root_requested'', ''claim_requested'', ''run_queued'', ''step_started'', ''step_finished'',
      ''rework'', ''escalated'', ''ceiling'', ''timer_set'', ''timer_cleared'', ''liveness'', ''held'',
      ''parked'', ''finishing'', ''withdraw_forced'', ''finished'', ''ignored'']"

definition input_kinds :: "string list" where
  "input_kinds =
     [''commissioned'', ''root_opened'', ''claim_taken'', ''claim_busy'', ''claim_released'',
      ''tree_prepared'', ''tree_refused'', ''tree_parked'', ''delivered'', ''nudged'',
      ''stop_signalled'', ''session_fact'', ''reply'', ''answer'', ''resume'', ''resume_run'',
      ''withdrawn'', ''timer_fired'']"

lemma decision_kind_listed: "decision_kind d \<in> set decision_kinds"
  by (cases d) (simp_all add: decision_kinds_def)

lemma kinds_disjoint: "set decision_kinds \<inter> set input_kinds = {}"
  by (simp add: decision_kinds_def input_kinds_def)

section \<open>Unknown fields survive\<close>

text \<open>\<open>keeps raw out\<close>: every entry of \<open>raw\<close> is in \<open>out\<close>, an object possibly with entries added.
  \<open>agrees raw written\<close>: where both have a key, the writer of this version wrote what it read, again
  up to the entries of nested objects. \<open>wf_map\<close>: no object holds a key twice.\<close>

function keeps :: "jmap \<Rightarrow> jmap \<Rightarrow> bool" where
  "keeps [] out = True"
| "keeps ((k, v) # raw) out =
     ((case map_of out k of
         None \<Rightarrow> False
       | Some w \<Rightarrow>
           (case (as_obj v, as_obj w) of (Some a, Some b) \<Rightarrow> keeps a b | _ \<Rightarrow> w = v)) \<and> keeps raw out)"
  by pat_completeness auto
termination
  by (relation "measure (\<lambda>(raw, out). jmap_size raw)") (auto dest!: jmap_size_obj [OF sym])

function agrees :: "jmap \<Rightarrow> jmap \<Rightarrow> bool" where
  "agrees [] written = True"
| "agrees ((k, v) # raw) written =
     ((case map_of written k of
         None \<Rightarrow> True
       | Some w \<Rightarrow>
           (case (as_obj v, as_obj w) of (Some a, Some b) \<Rightarrow> agrees a b | _ \<Rightarrow> w = v)) \<and> agrees raw written)"
  by pat_completeness auto
termination
  by (relation "measure (\<lambda>(raw, written). jmap_size raw)") (auto dest!: jmap_size_obj [OF sym])

function wf_map :: "jmap \<Rightarrow> bool" where
  "wf_map [] = True"
| "wf_map ((k, v) # m) =
     (k \<notin> fst ` set m \<and> (case as_obj v of Some a \<Rightarrow> wf_map a | None \<Rightarrow> True) \<and> wf_map m)"
  by pat_completeness auto
termination
  by (relation "measure jmap_size") (auto dest!: jmap_size_obj)

lemma wf_map_distinct: "wf_map m \<Longrightarrow> distinct (map fst m)"
  by (induction m) force+

lemma wf_map_nested: "wf_map m \<Longrightarrow> (k, v) \<in> set m \<Longrightarrow> as_obj v = Some a \<Longrightarrow> wf_map a"
  by (induction m) auto

lemma jmap_size_nested: "(k, v) \<in> set m \<Longrightarrow> as_obj v = Some a \<Longrightarrow> jmap_size a < jmap_size m"
  by (induction m) (auto dest: jmap_size_obj)

lemma bt_ok_unknown_fields: "bt_ok (unknown_fields raw written)"
  by (induction raw written rule: unknown_fields.induct)
     (auto simp: bt_ok_insert Let_def bt.ok_empty split: option.splits)

lemma map_of_unknown_fields:
  assumes "distinct (map fst raw)"
  shows "map_of (unknown_fields raw written) k =
    (case (map_of raw k, map_of written k) of
       (None, _) \<Rightarrow> None
     | (Some v, None) \<Rightarrow> Some v
     | (Some v, Some w) \<Rightarrow>
         (case (as_obj v, as_obj w) of
            (Some a, Some b) \<Rightarrow>
              (if unknown_fields a b = [] then None else Some (JObj (unknown_fields a b)))
          | _ \<Rightarrow> None))"
  using assms
proof (induction raw)
  case Nil
  then show ?case by simp
next
  case (Cons e raw)
  obtain j v where e: "e = (j, v)" by (cases e)
  show ?case
  proof (cases "k = j")
    case True
    with Cons.prems e have "map_of raw k = None" by (auto simp: map_of_eq_None_iff)
    with True Cons e show ?thesis by (auto simp: Let_def split: option.splits)
  next
    case False
    with Cons e have "map_of (unknown_fields (e # raw) written) k = map_of (unknown_fields raw written) k"
      by (auto simp: Let_def split: option.splits)
    with False Cons e show ?thesis by simp
  qed
qed

lemma map_of_merge_unknown:
  assumes "distinct (map fst unknown)"
  shows "map_of (merge_unknown wire unknown) k =
    (case map_of unknown k of
       None \<Rightarrow> map_of wire k
     | Some v \<Rightarrow>
         (case (Option.bind (map_of wire k) as_obj, as_obj v) of
            (Some i, Some u) \<Rightarrow> Some (JObj (merge_unknown i u))
          | _ \<Rightarrow> Some v))"
  using assms
proof (induction unknown arbitrary: wire)
  case Nil
  then show ?case by simp
next
  case (Cons e unknown)
  obtain j v where e: "e = (j, v)" by (cases e)
  show ?case
  proof (cases "k = j")
    case True
    with Cons.prems e have "map_of unknown k = None" by (auto simp: map_of_eq_None_iff)
    with True Cons e show ?thesis by (auto split: option.splits)
  next
    case False
    with Cons e show ?thesis by (auto split: option.splits)
  qed
qed

lemma keeps_iff:
  "keeps raw out \<longleftrightarrow> (\<forall>(k, v)\<in>set raw.
     (case map_of out k of
         None \<Rightarrow> False
       | Some w \<Rightarrow> (case (as_obj v, as_obj w) of (Some a, Some b) \<Rightarrow> keeps a b | _ \<Rightarrow> w = v)))"
  by (induction raw) auto

lemma agrees_nested:
  "agrees raw written \<Longrightarrow> (k, v) \<in> set raw \<Longrightarrow> map_of written k = Some w \<Longrightarrow>
     (case (as_obj v, as_obj w) of (Some a, Some b) \<Rightarrow> agrees a b | _ \<Rightarrow> w = v)"
  by (induction raw) auto

lemma keeps_refl: "wf_map m \<Longrightarrow> keeps m m"
proof (induction m rule: measure_induct_rule [of jmap_size])
  case (less m)
  have "map_of m k = Some v" if "(k, v) \<in> set m" for k v
    using that less.prems by (simp add: wf_map_distinct)
  then show ?case
    by (intro keeps_iff [THEN iffD2])
       (use less.IH [OF jmap_size_nested] wf_map_nested [OF less.prems] in \<open>auto split: option.splits\<close>)
qed

lemma merge_keeps:
  "wf_map raw \<Longrightarrow> agrees raw written \<Longrightarrow> keeps raw (merge_unknown written (unknown_fields raw written))"
proof (induction raw arbitrary: written rule: measure_induct_rule [of jmap_size])
  case (less raw)
  note d = wf_map_distinct [OF less.prems(1)]
  let ?u = "unknown_fields raw written"
  have du: "distinct (map fst ?u)"
    using bt.distinct_keys [OF bt_ok_unknown_fields] by (simp add: bt_keys_def)
  have "case map_of (merge_unknown written ?u) k of
         None \<Rightarrow> False
       | Some w \<Rightarrow> (case (as_obj v, as_obj w) of (Some a, Some b) \<Rightarrow> keeps a b | _ \<Rightarrow> w = v)"
    if kv: "(k, v) \<in> set raw" for k v
  proof -
    from kv d have mk: "map_of raw k = Some v" by simp
    show ?thesis
    proof (cases "map_of written k")
      case None
      then show ?thesis
        using mk keeps_refl [OF wf_map_nested [OF less.prems(1) kv]]
        by (auto simp: map_of_merge_unknown [OF du] map_of_unknown_fields [OF d] split: option.splits)
    next
      case (Some w)
      note ag = agrees_nested [OF less.prems(2) kv Some]
      show ?thesis
      proof (cases "as_obj v = None \<or> as_obj w = None")
        case True
        with ag have "w = v" by (auto split: option.splits)
        with True Some mk show ?thesis
          by (auto simp: map_of_merge_unknown [OF du] map_of_unknown_fields [OF d])
      next
        case False
        then obtain a b where ab: "as_obj v = Some a" "as_obj w = Some b" by auto
        with ag have "agrees a b" by simp
        then have *: "keeps a (merge_unknown b (unknown_fields a b))"
          using less.IH [OF jmap_size_nested [OF kv ab(1)]] wf_map_nested [OF less.prems(1) kv ab(1)] by blast
        then have "unknown_fields a b = [] \<Longrightarrow> keeps a b" by simp
        with * show ?thesis using mk Some ab
          by (simp add: map_of_merge_unknown [OF du] map_of_unknown_fields [OF d])
      qed
    qed
  qed
  then show ?case by (intro keeps_iff [THEN iffD2]) auto
qed

end
