(* ===== verification/Flow.thy ===== *)
theory Flow
  imports Contract_Events
begin

text \<open>
  Flow definitions as data, from \<^verbatim>\<open>crates/run-engine/src/flow.rs\<close>: the channel declarations,
  the compiled definition a run is pinned to, and \<open>compile\<close> with every refusal. The canonical JSON
  of a definition and its SHA-256 belong to \<^verbatim>\<open>serde_json\<close> and \<^verbatim>\<open>sha2\<close> and are not here.
\<close>

section \<open>Declarations\<close>

definition SUPERVISOR :: handle where "SUPERVISOR = ''__channel__''"
definition SYNTH :: handle where "SYNTH = ''__synth__''"

datatype expects = EX_All | EX_Subset "handle list"
datatype on_complete = OC_PassThrough | OC_Summarize
datatype declared_tree = DT_Shared | DT_Exclusive

record step_decl =
  dc_id :: step_id
  dc_target :: string
  dc_next :: "step_id option"
  dc_on_needs_rework :: "step_id option"
  dc_max_passes :: "nat option"
  dc_input :: "step_id list option"
  dc_resume :: bool
  dc_task :: "string option"
  dc_stage :: "string option"
  dc_timeout :: "string option"

record channel_decl =
  ch_name :: string
  ch_members :: "handle list"
  ch_steps :: "step_decl list"
  ch_expects :: expects
  ch_on_complete :: on_complete
  ch_summary_prompt :: "string option"
  ch_summary_model :: "string option"
  ch_working_tree :: declared_tree
  ch_timeout :: "string option"

section \<open>Compiled flows\<close>

datatype fan_out_expects = FE_All
datatype working_tree = WT_Exclusive

record synthesis =
  sy_model :: "string option"
  sy_prompt :: string

datatype step_kind =
    SKD_Single handle \<comment> \<open>target\<close>
  | SKD_FanOut "handle list" fan_out_expects "synthesis option" \<comment> \<open>members, expects, synthesis\<close>

record step_def =
  sd_id :: step_id
  sd_kind :: step_kind
  sd_next :: "step_id option"
  sd_on_needs_rework :: "step_id option"
  sd_max_passes :: nat
  sd_input :: "step_id list option"
  sd_resume :: bool
  sd_task :: "string option"
  sd_stage :: "string option"
  sd_channel :: string
  sd_opener :: handle

record ignored_timeout =
  it_scope :: string
  it_value :: string

record flow_def =
  fd_name :: string
  fd_steps :: "step_def list"
  fd_working_tree :: working_tree
  fd_ignored_timeouts :: "ignored_timeout list"

definition sd_members :: "step_def \<Rightarrow> handle list" where
  "sd_members s = (case sd_kind s of SKD_Single target \<Rightarrow> [target] | SKD_FanOut members _ _ \<Rightarrow> members)"

definition sd_has_synthesis :: "step_def \<Rightarrow> bool" where
  "sd_has_synthesis s = (case sd_kind s of SKD_FanOut _ _ (Some _) \<Rightarrow> True | _ \<Rightarrow> False)"

definition sd_is_fan_out :: "step_def \<Rightarrow> bool" where
  "sd_is_fan_out s = (case sd_kind s of SKD_FanOut _ _ _ \<Rightarrow> True | _ \<Rightarrow> False)"

definition flow_step :: "flow_def \<Rightarrow> string \<Rightarrow> step_def option" where
  "flow_step d i = List.find (\<lambda>s. sd_id s = i) (fd_steps d)"

section \<open>Compilation\<close>

datatype compile_refusal =
    CR_SharedTree string
  | CR_ExpectsSubset string
  | CR_PassThroughFanOut string
  | CR_SummaryWithoutPrompt string
  | CR_BadId string
  | CR_UnknownStep string
  | CR_NoSteps string
  | CR_NoMembers string
  | CR_DuplicateStep string
  | CR_DuplicateMember string string \<comment> \<open>channel, handle\<close>
  | CR_ZeroMaxPasses string
  | CR_NextCycle string

definition is_ascii_alphanumeric :: "char \<Rightarrow> bool" where
  "is_ascii_alphanumeric c =
     (let n = (of_char c :: nat) in (48 \<le> n \<and> n \<le> 57) \<or> (65 \<le> n \<and> n \<le> 90) \<or> (97 \<le> n \<and> n \<le> 122))"

definition id_char :: "char \<Rightarrow> bool" where
  "id_char c = (is_ascii_alphanumeric c \<or> c = CHR ''_'' \<or> c = CHR ''-'')"

definition check_id :: "string \<Rightarrow> compile_refusal + unit" where
  "check_id i =
     (if i = [] \<or> \<not> list_all id_char i \<or> starts_with i ''__'' then Inl (CR_BadId i) else Inr ())"

definition first_duplicate :: "string list \<Rightarrow> string option" where
  "first_duplicate ids = first_dup {} ids"

fun check_ids :: "string list \<Rightarrow> compile_refusal + unit" where
  "check_ids [] = Inr ()"
| "check_ids (i # is) = (case check_id i of Inl e \<Rightarrow> Inl e | Inr _ \<Rightarrow> check_ids is)"

definition fan_out :: "channel_decl \<Rightarrow> compile_refusal + step_kind" where
  "fan_out review =
     (if ch_expects review \<noteq> EX_All then Inl (CR_ExpectsSubset (ch_name review))
      else if ch_on_complete review = OC_PassThrough then Inl (CR_PassThroughFanOut (ch_name review))
      else case ch_summary_prompt review of
        None \<Rightarrow> Inl (CR_SummaryWithoutPrompt (ch_name review))
      | Some prompt \<Rightarrow>
          if ch_members review = [] then Inl (CR_NoMembers (ch_name review))
          else case check_ids (ch_members review) of
            Inl e \<Rightarrow> Inl e
          | Inr _ \<Rightarrow>
              (case first_duplicate (ch_members review) of
                 Some h \<Rightarrow> Inl (CR_DuplicateMember (ch_name review) h)
               | None \<Rightarrow>
                   Inr (SKD_FanOut (ch_members review) FE_All
                          (Some \<lparr> sy_model = ch_summary_model review, sy_prompt = prompt \<rparr>))))"

definition step_kind_of ::
  "channel_decl \<Rightarrow> channel_decl \<Rightarrow> step_decl \<Rightarrow> bool \<Rightarrow> compile_refusal + (step_kind \<times> string)" where
  "step_kind_of flow review declared is_fan_out =
     (if is_fan_out then
        (case fan_out review of Inl e \<Rightarrow> Inl e | Inr k \<Rightarrow> Inr (k, ch_name review))
      else
        (case check_id (dc_target declared) of
           Inl e \<Rightarrow> Inl e
         | Inr _ \<Rightarrow> Inr (SKD_Single (dc_target declared), ch_name flow)))"

definition compile_step ::
  "channel_decl \<Rightarrow> channel_decl \<Rightarrow> step_decl \<Rightarrow> bool \<Rightarrow> compile_refusal + step_def" where
  "compile_step flow review declared is_fan_out =
     (case check_id (dc_id declared) of
        Inl e \<Rightarrow> Inl e
      | Inr _ \<Rightarrow>
          if dc_max_passes declared = Some 0 then Inl (CR_ZeroMaxPasses (dc_id declared))
          else case step_kind_of flow review declared is_fan_out of
            Inl e \<Rightarrow> Inl e
          | Inr (kind, channel) \<Rightarrow>
              Inr \<lparr> sd_id = dc_id declared,
                    sd_kind = kind,
                    sd_next = dc_next declared,
                    sd_on_needs_rework = dc_on_needs_rework declared,
                    sd_max_passes = (case dc_max_passes declared of Some n \<Rightarrow> n | None \<Rightarrow> 1),
                    sd_input = dc_input declared,
                    sd_resume = dc_resume declared,
                    sd_task = dc_task declared,
                    sd_stage = dc_stage declared,
                    sd_channel = channel,
                    sd_opener = SUPERVISOR \<rparr>)"

text \<open>\<open>note\<close>: a \<^verbatim>\<open>timeout:\<close> is recorded, never acted on.\<close>

definition note_timeout :: "string \<Rightarrow> string option \<Rightarrow> ignored_timeout list" where
  "note_timeout scope timeout =
     (case timeout of Some v \<Rightarrow> [\<lparr> it_scope = scope, it_value = v \<rparr>] | None \<Rightarrow> [])"

fun compile_steps ::
  "channel_decl \<Rightarrow> channel_decl \<Rightarrow> step_decl list \<Rightarrow> compile_refusal + (step_def list \<times> ignored_timeout list)" where
  "compile_steps flow review [] = Inr ([], [])"
| "compile_steps flow review (declared # rest) =
     (let is_fan_out = (dc_target declared = ch_name review);
          noted = note_timeout (dc_id declared) (dc_timeout declared) @
                  (if is_fan_out then note_timeout (ch_name review) (ch_timeout review) else [])
      in case compile_step flow review declared is_fan_out of
           Inl e \<Rightarrow> Inl e
         | Inr s \<Rightarrow>
             (case compile_steps flow review rest of
                Inl e \<Rightarrow> Inl e
              | Inr (ss, ts) \<Rightarrow> Inr (s # ss, noted @ ts)))"

definition references :: "step_def \<Rightarrow> step_id list" where
  "references s =
     (case sd_next s of Some n \<Rightarrow> [n] | None \<Rightarrow> []) @
     (case sd_on_needs_rework s of Some n \<Rightarrow> [n] | None \<Rightarrow> []) @
     (case sd_input s of Some is \<Rightarrow> is | None \<Rightarrow> [])"

definition check_references :: "step_def list \<Rightarrow> compile_refusal + unit" where
  "check_references steps =
     (case List.find (\<lambda>name. \<not> list_ex (\<lambda>s. sd_id s = name) steps) (concat (map references steps)) of
        Some name \<Rightarrow> Inl (CR_UnknownStep name)
      | None \<Rightarrow> Inr ())"

definition next_of :: "step_def list \<Rightarrow> step_def \<Rightarrow> step_def option" where
  "next_of steps s =
     (case sd_next s of None \<Rightarrow> None | Some n \<Rightarrow> List.find (\<lambda>c. sd_id c = n) steps)"

fun walk :: "step_def list \<Rightarrow> nat \<Rightarrow> step_def \<Rightarrow> step_def" where
  "walk steps 0 at = at"
| "walk steps (Suc n) at = (case next_of steps at of Some nx \<Rightarrow> walk steps n nx | None \<Rightarrow> at)"

definition check_next_chains :: "step_def list \<Rightarrow> compile_refusal + unit" where
  "check_next_chains steps =
     (case List.find (\<lambda>start. next_of steps (walk steps (length steps) start) \<noteq> None) steps of
        Some start \<Rightarrow> Inl (CR_NextCycle (sd_id start))
      | None \<Rightarrow> Inr ())"

definition compile :: "channel_decl \<Rightarrow> channel_decl \<Rightarrow> compile_refusal + flow_def" where
  "compile flow review =
     (if ch_working_tree flow \<noteq> DT_Exclusive then Inl (CR_SharedTree (ch_name flow))
      else if ch_steps flow = [] then Inl (CR_NoSteps (ch_name flow))
      else case compile_steps flow review (ch_steps flow) of
        Inl e \<Rightarrow> Inl e
      | Inr (steps, noted) \<Rightarrow>
          (case first_duplicate (map sd_id steps) of
             Some i \<Rightarrow> Inl (CR_DuplicateStep i)
           | None \<Rightarrow>
               (case check_references steps of
                  Inl e \<Rightarrow> Inl e
                | Inr _ \<Rightarrow>
                    (case check_next_chains steps of
                       Inl e \<Rightarrow> Inl e
                     | Inr _ \<Rightarrow>
                         Inr \<lparr> fd_name = ch_name flow,
                               fd_steps = steps,
                               fd_working_tree = WT_Exclusive,
                               fd_ignored_timeouts = note_timeout (ch_name flow) (ch_timeout flow) @ noted \<rparr>))))"

section \<open>What the checks establish\<close>

definition valid_id :: "string \<Rightarrow> bool" where
  "valid_id i \<longleftrightarrow> i \<noteq> [] \<and> (\<forall>c\<in>set i. id_char c) \<and> \<not> starts_with i ''__''"

lemma check_id_iff [simp]: "check_id i = Inr u \<longleftrightarrow> valid_id i" "check_id i = Inl e \<longleftrightarrow> \<not> valid_id i \<and> e = CR_BadId i"
  by (auto simp: check_id_def valid_id_def list_all_iff)

lemma check_ids_OkD: "check_ids is = Inr u \<Longrightarrow> \<forall>i\<in>set is. valid_id i"
  by (induction "is") (auto split: sum.splits)

lemma check_ids_ErrD: "check_ids is = Inl e \<Longrightarrow> \<exists>i\<in>set is. \<not> valid_id i \<and> e = CR_BadId i"
  by (induction "is") (auto split: sum.splits)

lemma first_duplicate_None_iff [simp]: "first_duplicate ids = None \<longleftrightarrow> distinct ids"
  by (simp add: first_duplicate_def first_dup_None_iff)

lemma first_duplicate_SomeD: "first_duplicate ids = Some i \<Longrightarrow> i \<in> set ids \<and> \<not> distinct ids"
  using first_dup_SomeD [of "{}" ids i] first_duplicate_None_iff [of ids]
  by (auto simp: first_duplicate_def simp del: first_duplicate_None_iff)

text \<open>Following \<open>next\<close> \<open>n\<close> times, if the chain is that long.\<close>

fun chain :: "step_def list \<Rightarrow> nat \<Rightarrow> step_def \<Rightarrow> step_def option" where
  "chain steps 0 s = Some s"
| "chain steps (Suc n) s = (case next_of steps s of None \<Rightarrow> None | Some nx \<Rightarrow> chain steps n nx)"

lemma next_of_walk: "next_of steps (walk steps n s) \<noteq> None \<longleftrightarrow> chain steps (Suc n) s \<noteq> None"
  by (induction n arbitrary: s) (auto split: option.splits)

lemma chain_add: "chain steps (m + n) s = Option.bind (chain steps m s) (chain steps n)"
  by (induction m arbitrary: s) (auto split: option.splits)

lemma next_of_in: "next_of steps s = Some n \<Longrightarrow> n \<in> set steps"
  by (auto simp: next_of_def split: option.splits dest: find_Some_in)

lemma chain_in: "s \<in> set steps \<Longrightarrow> chain steps n s = Some t \<Longrightarrow> t \<in> set steps"
  by (induction n arbitrary: s) (auto split: option.splits dest: next_of_in)

lemma chain_prefix: "chain steps n s \<noteq> None \<Longrightarrow> m \<le> n \<Longrightarrow> chain steps m s \<noteq> None"
  using chain_add [of steps m "n - m" s] by (cases "chain steps m s") auto

text \<open>A chain that comes back to a step it has left never ends.\<close>

lemma chain_cycle:
  assumes "chain steps p t = Some t" "0 < p"
  shows "chain steps n t \<noteq> None"
proof -
  have "chain steps (k * p) t = Some t" for k
    by (induction k) (auto simp: chain_add assms)
  then have "chain steps (n * p) t \<noteq> None" by simp
  then show ?thesis using assms(2) by (rule_tac chain_prefix) auto
qed

lemma long_chain_cycles:
  assumes s: "s \<in> set steps" and long: "chain steps (length steps) s \<noteq> None"
  shows "chain steps n s \<noteq> None"
proof -
  let ?f = "\<lambda>i. chain steps i s"
  have def: "\<exists>t\<in>set steps. ?f i = Some t" if "i \<le> length steps" for i
    using chain_prefix [OF long that] chain_in [OF s] by blast
  have "?f ` {..length steps} \<subseteq> Some ` set steps" using def by force
  then have "card (?f ` {..length steps}) \<le> card (Some ` set steps)"
    by (intro card_mono) auto
  also have "\<dots> \<le> length steps" by (metis card_image_le card_length finite_set le_trans)
  finally have "\<not> inj_on ?f {..length steps}" by (auto dest: card_image)
  then obtain i j where ij: "i < j" "j \<le> length steps" "?f i = ?f j"
    by (auto simp: inj_on_def) (metis linorder_neqE_nat)
  then obtain t where t: "?f i = Some t" using def [of i] by auto
  have "chain steps (j - i) t = Some t"
    using chain_add [of steps i "j - i" s] ij(1,2) ij(3) [symmetric] t by simp
  then have "chain steps n t \<noteq> None" using chain_cycle ij(1) by simp
  then have "chain steps (i + n) s \<noteq> None" using chain_add [of steps i n s] t by simp
  then show ?thesis by (rule chain_prefix) simp
qed

lemma check_next_chains_ok_iff:
  "check_next_chains steps = Inr u \<longleftrightarrow> (\<forall>s\<in>set steps. \<exists>n. chain steps n s = None)"
proof -
  have "check_next_chains steps = Inr u \<longleftrightarrow> (\<forall>s\<in>set steps. chain steps (Suc (length steps)) s = None)"
    unfolding check_next_chains_def next_of_walk
    by (auto simp: find_None_iff simp del: chain.simps split: option.splits dest!: find_Some_in)
  also have "\<dots> \<longleftrightarrow> (\<forall>s\<in>set steps. \<exists>n. chain steps n s = None)"
    using long_chain_cycles chain_prefix by (metis le_add2 plus_1_eq_Suc)
  finally show ?thesis .
qed

lemma check_next_chains_errD:
  "check_next_chains steps = Inl e \<Longrightarrow> \<exists>s\<in>set steps. e = CR_NextCycle (sd_id s) \<and> (\<forall>n. chain steps n s \<noteq> None)"
proof -
  assume "check_next_chains steps = Inl e"
  then obtain s where s: "s \<in> set steps" "e = CR_NextCycle (sd_id s)"
    "next_of steps (walk steps (length steps) s) \<noteq> None"
    by (auto simp: check_next_chains_def split: option.splits dest!: find_Some_in)
  then have "chain steps (length steps) s \<noteq> None"
    using next_of_walk chain_prefix by (metis le_add2 plus_1_eq_Suc)
  with s show ?thesis using long_chain_cycles by blast
qed

section \<open>Soundness of the compiler\<close>

definition step_ok :: "step_def \<Rightarrow> bool" where
  "step_ok s \<longleftrightarrow> valid_id (sd_id s) \<and> 1 \<le> sd_max_passes s \<and>
     (case sd_kind s of
        SKD_Single target \<Rightarrow> valid_id target
      | SKD_FanOut members _ syn \<Rightarrow>
          members \<noteq> [] \<and> distinct members \<and> (\<forall>m\<in>set members. valid_id m) \<and> syn \<noteq> None)"

definition flow_ok :: "flow_def \<Rightarrow> bool" where
  "flow_ok d \<longleftrightarrow> fd_steps d \<noteq> [] \<and> distinct (map sd_id (fd_steps d)) \<and>
     (\<forall>s\<in>set (fd_steps d). step_ok s \<and> set (references s) \<subseteq> sd_id ` set (fd_steps d) \<and>
        (\<exists>n. chain (fd_steps d) n s = None))"

text \<open>The fault a refusal names is there.\<close>

definition refusal_justified :: "channel_decl \<Rightarrow> channel_decl \<Rightarrow> compile_refusal \<Rightarrow> bool" where
  "refusal_justified flow review e \<longleftrightarrow>
     (let uses_review = (\<exists>d\<in>set (ch_steps flow). dc_target d = ch_name review) in
      case e of
        CR_SharedTree c \<Rightarrow> c = ch_name flow \<and> ch_working_tree flow = DT_Shared
      | CR_NoSteps c \<Rightarrow> c = ch_name flow \<and> ch_steps flow = []
      | CR_ExpectsSubset c \<Rightarrow> c = ch_name review \<and> uses_review \<and> ch_expects review \<noteq> EX_All
      | CR_PassThroughFanOut c \<Rightarrow> c = ch_name review \<and> uses_review \<and> ch_on_complete review = OC_PassThrough
      | CR_SummaryWithoutPrompt c \<Rightarrow> c = ch_name review \<and> uses_review \<and> ch_summary_prompt review = None
      | CR_NoMembers c \<Rightarrow> c = ch_name review \<and> uses_review \<and> ch_members review = []
      | CR_DuplicateMember c h \<Rightarrow>
          c = ch_name review \<and> uses_review \<and> h \<in> set (ch_members review) \<and> \<not> distinct (ch_members review)
      | CR_BadId i \<Rightarrow>
          \<not> valid_id i \<and>
          ((\<exists>d\<in>set (ch_steps flow). i = dc_id d \<or> i = dc_target d) \<or> uses_review \<and> i \<in> set (ch_members review))
      | CR_ZeroMaxPasses i \<Rightarrow> (\<exists>d\<in>set (ch_steps flow). dc_id d = i \<and> dc_max_passes d = Some 0)
      | CR_DuplicateStep i \<Rightarrow> i \<in> dc_id ` set (ch_steps flow) \<and> \<not> distinct (map dc_id (ch_steps flow))
      | CR_UnknownStep n \<Rightarrow>
          n \<notin> dc_id ` set (ch_steps flow) \<and>
          (\<exists>d\<in>set (ch_steps flow). dc_next d = Some n \<or> dc_on_needs_rework d = Some n \<or>
             (\<exists>is. dc_input d = Some is \<and> n \<in> set is))
      | CR_NextCycle i \<Rightarrow>
          (\<exists>ss ts s. compile_steps flow review (ch_steps flow) = Inr (ss, ts) \<and> s \<in> set ss \<and> sd_id s = i \<and>
             (\<forall>n. chain ss n s \<noteq> None)))"

lemma fan_out_OkD:
  "fan_out review = Inr k \<Longrightarrow> \<exists>ms syn. k = SKD_FanOut ms FE_All (Some syn) \<and> ms \<noteq> [] \<and> distinct ms \<and> (\<forall>m\<in>set ms. valid_id m)"
  by (auto simp: fan_out_def split: if_splits option.splits sum.splits dest: check_ids_OkD)

lemma compile_step_OkD:
  assumes "compile_step flow review d f = Inr s"
  shows "step_ok s \<and> sd_id s = dc_id d \<and> sd_next s = dc_next d \<and>
    sd_on_needs_rework s = dc_on_needs_rework d \<and> sd_input s = dc_input d"
  using assms
  by (auto simp: compile_step_def step_kind_of_def step_ok_def
      split: sum.splits if_splits option.splits dest!: fan_out_OkD)

lemma compile_step_ErrD:
  assumes "compile_step flow review d (dc_target d = ch_name review) = Inl e" "d \<in> set (ch_steps flow)"
  shows "refusal_justified flow review e"
  using assms
  by (auto simp: compile_step_def step_kind_of_def fan_out_def refusal_justified_def Let_def
      split: sum.splits if_splits option.splits prod.splits dest!: check_ids_ErrD dest: first_duplicate_SomeD)

lemma compile_steps_OkD:
  "compile_steps flow review ds = Inr (ss, ts) \<Longrightarrow>
     (\<forall>s\<in>set ss. step_ok s) \<and> map sd_id ss = map dc_id ds \<and> map sd_next ss = map dc_next ds \<and>
     map sd_on_needs_rework ss = map dc_on_needs_rework ds \<and> map sd_input ss = map dc_input ds"
  by (induction ds arbitrary: ss ts)
     (auto simp: Let_def split: sum.splits dest: compile_step_OkD)

lemma compile_steps_ErrD:
  "compile_steps flow review ds = Inl e \<Longrightarrow> set ds \<subseteq> set (ch_steps flow) \<Longrightarrow> refusal_justified flow review e"
  by (induction ds) (auto simp: Let_def split: sum.splits dest: compile_step_ErrD)

lemma check_references_OkD:
  "check_references steps = Inr u \<Longrightarrow> s \<in> set steps \<Longrightarrow> set (references s) \<subseteq> sd_id ` set steps"
  by (auto simp: check_references_def find_None_iff list_ex_iff split: option.splits)

lemma check_references_ErrD:
  "check_references steps = Inl e \<Longrightarrow>
     \<exists>s\<in>set steps. \<exists>n\<in>set (references s). e = CR_UnknownStep n \<and> n \<notin> sd_id ` set steps"
  by (auto simp: check_references_def list_ex_iff split: option.splits dest!: find_Some_in)

lemma compile_OkD:
  assumes "compile flow review = Inr d"
  obtains ts where "compile_steps flow review (ch_steps flow) = Inr (fd_steps d, ts)"
    "ch_steps flow \<noteq> []" "distinct (map sd_id (fd_steps d))" "check_references (fd_steps d) = Inr ()"
    "check_next_chains (fd_steps d) = Inr ()"
  using assms by (auto simp: compile_def split: if_splits sum.splits prod.splits option.splits)

lemma compile_flow_ok:
  assumes "compile flow review = Inr d"
  shows "flow_ok d"
proof -
  obtain ts where ok: "compile_steps flow review (ch_steps flow) = Inr (fd_steps d, ts)"
    and ne: "ch_steps flow \<noteq> []" and dist: "distinct (map sd_id (fd_steps d))"
    and refs: "check_references (fd_steps d) = Inr ()" and chains: "check_next_chains (fd_steps d) = Inr ()"
    using compile_OkD [OF assms] .
  have "map sd_id (fd_steps d) = map dc_id (ch_steps flow)" and "\<forall>s\<in>set (fd_steps d). step_ok s"
    using compile_steps_OkD [OF ok] by auto
  with ne dist check_references_OkD [OF refs] chains show ?thesis
    by (auto simp: flow_ok_def check_next_chains_ok_iff)
qed

lemma references_declared:
  assumes "compile_steps flow review ds = Inr (ss, ts)" "s \<in> set ss" "n \<in> set (references s)"
  shows "\<exists>d\<in>set ds. dc_next d = Some n \<or> dc_on_needs_rework d = Some n \<or> (\<exists>is. dc_input d = Some is \<and> n \<in> set is)"
proof -
  from assms(2) obtain i where i: "i < length ss" "s = ss ! i" by (auto simp: in_set_conv_nth)
  have m: "map sd_id ss = map dc_id ds" "map sd_next ss = map dc_next ds"
    "map sd_on_needs_rework ss = map dc_on_needs_rework ds" "map sd_input ss = map dc_input ds"
    using compile_steps_OkD [OF assms(1)] by auto
  have l: "length ds = length ss" using m(1) by (metis length_map)
  have "sd_next s = dc_next (ds ! i)" "sd_on_needs_rework s = dc_on_needs_rework (ds ! i)"
    "sd_input s = dc_input (ds ! i)"
    using m i l by (metis nth_map)+
  then have "dc_next (ds ! i) = Some n \<or> dc_on_needs_rework (ds ! i) = Some n \<or>
      (\<exists>is. dc_input (ds ! i) = Some is \<and> n \<in> set is)"
    using assms(3) by (auto simp: references_def split: option.splits)
  then show ?thesis using i l by (metis nth_mem)
qed

lemma compile_refusal_justified:
  assumes "compile flow review = Inl e"
  shows "refusal_justified flow review e"
proof (cases "ch_working_tree flow \<noteq> DT_Exclusive \<or> ch_steps flow = []")
  case True
  with assms show ?thesis
    by (cases "ch_working_tree flow") (auto simp: compile_def refusal_justified_def Let_def split: if_splits)
next
  case False
  show ?thesis
  proof (cases "compile_steps flow review (ch_steps flow)")
    case (Inl e')
    with False assms show ?thesis by (auto simp: compile_def dest: compile_steps_ErrD)
  next
    case (Inr p)
    then obtain ss ts where ok: "compile_steps flow review (ch_steps flow) = Inr (ss, ts)" by (cases p) auto
    have ids: "map sd_id ss = map dc_id (ch_steps flow)" using compile_steps_OkD [OF ok] by blast
    then have ids': "sd_id ` set ss = dc_id ` set (ch_steps flow)" by (metis list.set_map)
    consider (dup) i where "first_duplicate (map sd_id ss) = Some i" "e = CR_DuplicateStep i"
      | (refs) "check_references ss = Inl e" | (chains) "check_next_chains ss = Inl e"
      using False assms ok by (auto simp: compile_def split: option.splits sum.splits)
    then show ?thesis
    proof cases
      case dup
      then show ?thesis using first_duplicate_SomeD [OF dup(1)] ids ids'
        by (simp add: refusal_justified_def)
    next
      case refs
      then show ?thesis using check_references_ErrD [OF refs] references_declared [OF ok] ids'
        by (auto simp: refusal_justified_def Let_def)
    next
      case chains
      then show ?thesis using check_next_chains_errD [OF chains] ok
        by (auto simp: refusal_justified_def Let_def)
    qed
  qed
qed

lemma valid_id_plain: "valid_id i \<Longrightarrow> plain_id i"
  by (auto simp: valid_id_def plain_id_def id_char_def is_ascii_alphanumeric_def Let_def)

lemma plain_id_SYNTH [simp]: "plain_id SYNTH"
  by (simp add: plain_id_def SYNTH_def)

lemma valid_id_not_SYNTH: "valid_id i \<Longrightarrow> i \<noteq> SYNTH"
  by (auto simp: valid_id_def SYNTH_def starts_with_def)

end
