(* ===== verification/Run_State.thy ===== *)
theory Run_State
  imports Flow
begin

text \<open>
  Run state and member slot state, from \<^verbatim>\<open>crates/run-engine/src/state.rs\<close> and the row tables of
  \<^verbatim>\<open>state/examples.rs\<close>: the record \<open>run_state\<close>, the records of the slots, the projection
  \<open>view\<close>, the lookups over slots, and the ids of timers. Fields of \<open>run_state\<close> carry the prefix
  \<open>rs_\<close>, fields of a slot record \<open>sr_\<close>, fields of a stop ladder \<open>la_\<close>.
\<close>

section \<open>Slots\<close>

datatype grace_fired = GF_None | GF_First | GF_Second

text \<open>The derived order of the source: \<open>None < First < Second\<close>.\<close>

primrec grace_rank :: "grace_fired \<Rightarrow> nat" where
  "grace_rank GF_None = 0"
| "grace_rank GF_First = 1"
| "grace_rank GF_Second = 2"

instantiation grace_fired :: linorder
begin

definition less_eq_grace_fired :: "grace_fired \<Rightarrow> grace_fired \<Rightarrow> bool" where
  "less_eq_grace_fired a b = (grace_rank a \<le> grace_rank b)"

definition less_grace_fired :: "grace_fired \<Rightarrow> grace_fired \<Rightarrow> bool" where
  "less_grace_fired a b = (grace_rank a < grace_rank b)"

instance
proof
  show "x = y" if "x \<le> y" "y \<le> x" for x y :: grace_fired
    using that by (cases x; cases y) (auto simp: less_eq_grace_fired_def)
qed (auto simp: less_eq_grace_fired_def less_grace_fired_def)

end

record ladder =
  la_since :: timestamp
  la_forced :: bool
  la_signals_sent :: nat
  la_total :: nat
  la_fired :: grace_fired

definition ladder_new :: "timestamp \<Rightarrow> bool \<Rightarrow> ladder" where
  "ladder_new since forced =
     \<lparr> la_since = since, la_forced = forced, la_signals_sent = 0, la_total = 0, la_fired = GF_None \<rparr>"

datatype process = PR_Live | PR_Ended

datatype after_stop = AS_Nothing | AS_Restart reason_code \<comment> \<open>exhausted\<close>

datatype slot_state =
    SS_Pending
  | SS_Starting timestamp \<comment> \<open>deadline\<close>
  | SS_Running string "timestamp option" \<comment> \<open>session, open_call\<close>
  | SS_Quiet timestamp "timestamp option" \<comment> \<open>since, open_call\<close>
  | SS_Nudged timestamp "timestamp option" \<comment> \<open>at, open_call\<close>
  | SS_Stopping ladder after_stop
  | SS_Replied message_id bool bool process bool "ladder option"
      \<comment> \<open>message, escalate, needs_rework, process, overdue, ladder\<close>
  | SS_Ended end_cause

datatype slot_condition =
    SC_Held reason_code timestamp nat \<comment> \<open>reason, until, order\<close>
  | SC_Parked reason_code nat timestamp \<comment> \<open>reason, order, since\<close>

fun sc_order :: "slot_condition \<Rightarrow> nat" where
  "sc_order (SC_Held _ _ ord) = ord"
| "sc_order (SC_Parked _ ord _) = ord"

fun ss_is_live :: "slot_state \<Rightarrow> bool" where
  "ss_is_live SS_Pending = False"
| "ss_is_live (SS_Ended _) = False"
| "ss_is_live (SS_Replied _ _ _ p _ _) = (p = PR_Live)"
| "ss_is_live _ = True"

fun ss_ladder :: "slot_state \<Rightarrow> ladder option" where
  "ss_ladder (SS_Stopping l _) = Some l"
| "ss_ladder (SS_Replied _ _ _ _ _ l) = l"
| "ss_ladder _ = None"

text \<open>\<^verbatim>\<open>ladder_mut\<close>: a change of the ladder, where there is one.\<close>

fun ss_map_ladder :: "(ladder \<Rightarrow> ladder) \<Rightarrow> slot_state \<Rightarrow> slot_state" where
  "ss_map_ladder f (SS_Stopping l a) = SS_Stopping (f l) a"
| "ss_map_ladder f (SS_Replied m e n p od l) = SS_Replied m e n p od (map_option f l)"
| "ss_map_ladder f s = s"

datatype turn_kind =
    TK_Root
  | TK_Reply step_id handle
  | TK_Task
  | TK_Obligation
  | TK_Answer
  | TK_Reminder

record turn_part =
  tp_kind :: turn_kind
  tp_message :: "message_id option"

record slot_record =
  sr_slot :: slot
  sr_state :: slot_state
  sr_created_at :: timestamp
  sr_resume :: bool
  sr_turn :: "turn_part list"
  sr_base_turn :: "turn_part list"
  sr_restarts :: nat
  sr_holds :: nat
  sr_reminded :: bool
  sr_condition :: "slot_condition option"
  sr_fresh :: bool
  sr_blind :: bool
  sr_sampling :: bool
  sr_backend_session :: "string option"
  sr_last_fact :: "timestamp option"
  sr_pids :: "nat list"
  sr_refused :: "string option"

section \<open>The run\<close>

datatype tree_phase = TPH_Unprepared | TPH_Prepared

datatype park_phase = PP_Unparked | PP_Parked park_outcome

datatype phase =
    PH_Created
  | PH_Queued "run_id option" \<comment> \<open>behind\<close>
  | PH_Running tree_phase
  | PH_Finishing outcome "reason_code option" park_phase \<comment> \<open>outcome, reason, tree\<close>
  | PH_Finished outcome "reason_code option" \<comment> \<open>outcome, reason\<close>

record run_condition =
  cn_reason :: reason_code
  cn_order :: nat
  cn_since :: timestamp

record finished_step =
  fs_step :: step_id
  fs_visit :: nat
  fs_outcome :: step_outcome
  fs_at :: timestamp

record armed_timer =
  at_fire_at :: timestamp
  at_purpose :: timer_purpose

datatype asked =
    AK_Escalation slot message_id
  | AK_Ceiling step_id nat message_id \<comment> \<open>step, pass, last_verdict\<close>

record question =
  qu_id :: key
  qu_asked :: asked
  qu_since :: timestamp
  qu_answered :: bool

record verdict_ref =
  vr_step :: step_id
  vr_member :: handle
  vr_message :: message_id

datatype start_cause =
    CA_Rework verdict_ref
  | CA_Answer message_id
  | CA_Accept message_id verdict_ref \<comment> \<open>answer, verdict\<close>

record run_state =
  rs_run :: run_id
  rs_def :: flow_def
  rs_seq :: seq
  rs_commissioned :: bool
  rs_workspace :: string
  rs_flow_hash :: string
  rs_requester :: handle
  rs_policy :: liveness_policy
  rs_root_thread :: "message_id option"
  rs_root_message :: "message_id option"
  rs_phase :: phase
  rs_condition :: "run_condition option"
  rs_slots :: "slot_record list"
  rs_visits :: "(step_id, nat) btmap"
  rs_passes :: "(step_id, nat) btmap"
  rs_current_step :: "step_id option"
  rs_finished_steps :: "finished_step list"
  rs_questions :: "question list"
  rs_timers :: "(string, armed_timer) btmap"
  rs_pending_start :: "start_cause option"
  rs_claim_since :: "timestamp option"
  rs_claim_changes :: nat
  rs_tree_refusals :: nat
  rs_root_periods :: nat
  rs_tree_cancel_owed :: bool
  rs_base :: "base option"
  rs_found :: "park_outcome option"
  rs_parked :: "park_outcome option"
  rs_delivered :: "string set"
  rs_withdrawn :: bool
  rs_next_order :: nat

definition run_state_initial :: "run_id \<Rightarrow> flow_def \<Rightarrow> run_state" where
  "run_state_initial run d =
     \<lparr> rs_run = run, rs_def = d, rs_seq = 0, rs_commissioned = False, rs_workspace = [],
       rs_flow_hash = [], rs_requester = [], rs_policy = default_policy, rs_root_thread = None,
       rs_root_message = None, rs_phase = PH_Created, rs_condition = None, rs_slots = [],
       rs_visits = [], rs_passes = [], rs_current_step = None, rs_finished_steps = [],
       rs_questions = [], rs_timers = [], rs_pending_start = None, rs_claim_since = None,
       rs_claim_changes = 0, rs_tree_refusals = 0, rs_root_periods = 0, rs_tree_cancel_owed = False,
       rs_base = None, rs_found = None, rs_parked = None, rs_delivered = {}, rs_withdrawn = False,
       rs_next_order = 0 \<rparr>"

section \<open>Lookups over the slots\<close>

definition session_key_of :: "run_state \<Rightarrow> slot \<Rightarrow> session_key" where
  "session_key_of st s = slot_session_key s (rs_run st)"

definition find_session :: "run_state \<Rightarrow> session_key \<Rightarrow> nat option" where
  "find_session st k = position (\<lambda>r. session_key_of st (sr_slot r) = k) (rs_slots st)"

definition find_slot :: "run_state \<Rightarrow> slot \<Rightarrow> nat option" where
  "find_slot st s = position (\<lambda>r. sr_slot r = s) (rs_slots st)"

definition of_seat :: "string \<Rightarrow> nat \<Rightarrow> string \<Rightarrow> slot_record \<Rightarrow> bool" where
  "of_seat step visit member r =
     (sl_step (sr_slot r) = step \<and> sl_visit (sr_slot r) = visit \<and> sl_member (sr_slot r) = member)"

definition latest :: "run_state \<Rightarrow> string \<Rightarrow> nat \<Rightarrow> string \<Rightarrow> slot_record option" where
  "latest st step visit member = find_last (of_seat step visit member) (rs_slots st)"

definition is_superseded :: "run_state \<Rightarrow> slot_record \<Rightarrow> bool" where
  "is_superseded st r =
     is_some_and (latest st (sl_step (sr_slot r)) (sl_visit (sr_slot r)) (sl_member (sr_slot r)))
       (\<lambda>l. sl_attempt (sr_slot l) \<noteq> sl_attempt (sr_slot r))"

definition persona_is_live :: "run_state \<Rightarrow> string \<Rightarrow> bool" where
  "persona_is_live st member =
     list_ex (\<lambda>r. sl_member (sr_slot r) = member \<and> ss_is_live (sr_state r)) (rs_slots st)"

definition any_live :: "run_state \<Rightarrow> bool" where
  "any_live st = list_ex (\<lambda>r. ss_is_live (sr_state r)) (rs_slots st)"

definition verdict_of :: "run_state \<Rightarrow> string \<Rightarrow> verdict_ref option" where
  "verdict_of st step =
     (case map_of (rs_visits st) step of
        None \<Rightarrow> None
      | Some visit \<Rightarrow>
          (let fan = is_some_and (flow_step (rs_def st) step) sd_is_fan_out in
           find_map
             (\<lambda>r. case sr_state r of
                SS_Replied message _ _ _ _ _ \<Rightarrow>
                  Some \<lparr> vr_step = step, vr_member = sl_member (sr_slot r), vr_message = message \<rparr>
              | _ \<Rightarrow> None)
             (filter (\<lambda>r. \<not> fan \<or> sl_member (sr_slot r) = SYNTH)
                (filter (\<lambda>r. sl_step (sr_slot r) = step \<and> sl_visit (sr_slot r) = visit)
                   (rev (rs_slots st))))))"

definition pass_of :: "run_state \<Rightarrow> string \<Rightarrow> nat" where
  "pass_of st step = (case map_of (rs_passes st) step of Some n \<Rightarrow> n | None \<Rightarrow> 0)"

definition open_questions :: "run_state \<Rightarrow> question list" where
  "open_questions st = filter (\<lambda>q. \<not> qu_answered q) (rs_questions st)"

definition is_finished :: "run_state \<Rightarrow> bool" where
  "is_finished st = (case rs_phase st of PH_Finished _ _ \<Rightarrow> True | _ \<Rightarrow> False)"

definition is_finishing :: "run_state \<Rightarrow> bool" where
  "is_finishing st = (case rs_phase st of PH_Finishing _ _ _ \<Rightarrow> True | _ \<Rightarrow> False)"

definition tree_prepared :: "run_state \<Rightarrow> bool" where
  "tree_prepared st = (rs_phase st = PH_Running TPH_Prepared)"

definition rs_outcome :: "run_state \<Rightarrow> outcome option" where
  "rs_outcome st =
     (case rs_phase st of
        PH_Finishing oc _ _ \<Rightarrow> Some oc
      | PH_Finished oc _ \<Rightarrow> Some oc
      | _ \<Rightarrow> None)"

definition tree_refused_key :: "run_state \<Rightarrow> key" where
  "tree_refused_key st = ''tree_refused/'' @ rs_run st @ ''/'' @ show_nat (rs_tree_refusals st)"

definition claim_busy_key :: "run_state \<Rightarrow> key" where
  "claim_busy_key st = ''claim_busy/'' @ rs_run st @ ''/'' @ show_nat (rs_claim_changes st)"

section \<open>The projection a person reads\<close>

datatype run_view =
    RV_Created
  | RV_Queued "run_id option"
  | RV_Running tree_phase
  | RV_NeedsDecision "key list"
  | RV_Held reason_code timestamp \<comment> \<open>reason, until\<close>
  | RV_Parked reason_code
  | RV_Finishing outcome
  | RV_Finished outcome

definition current_conditions :: "run_state \<Rightarrow> slot_condition list" where
  "current_conditions st =
     filter_map sr_condition (filter (\<lambda>r. \<not> is_superseded st r) (rs_slots st))"

fun held_part :: "slot_condition \<Rightarrow> (reason_code \<times> timestamp) option" where
  "held_part (SC_Held reason until _) = Some (reason, until)"
| "held_part (SC_Parked _ _ _) = None"

fun parked_part :: "slot_condition \<Rightarrow> (nat \<times> reason_code) option" where
  "parked_part (SC_Parked reason ord _) = Some (ord, reason)"
| "parked_part (SC_Held _ _ _) = None"

fun parked_since_part :: "slot_condition \<Rightarrow> (nat \<times> timestamp) option" where
  "parked_since_part (SC_Parked _ ord since) = Some (ord, since)"
| "parked_since_part (SC_Held _ _ _) = None"

definition earliest_hold :: "run_state \<Rightarrow> (reason_code \<times> timestamp) option" where
  "earliest_hold st = min_by_key snd (filter_map held_part (current_conditions st))"

definition oldest_park :: "run_state \<Rightarrow> reason_code option" where
  "oldest_park st =
     map_option snd
       (min_by_key fst
          (filter_map parked_part (current_conditions st) @
           (case rs_condition st of Some c \<Rightarrow> [(cn_order c, cn_reason c)] | None \<Rightarrow> [])))"

definition parked_since :: "run_state \<Rightarrow> timestamp option" where
  "parked_since st =
     map_option snd
       (min_by_key fst
          (filter_map parked_since_part (current_conditions st) @
           (case rs_condition st of Some c \<Rightarrow> [(cn_order c, cn_since c)] | None \<Rightarrow> [])))"

definition view :: "run_state \<Rightarrow> run_view" where
  "view st =
     (case rs_phase st of
        PH_Finished oc _ \<Rightarrow> RV_Finished oc
      | PH_Finishing oc _ _ \<Rightarrow> RV_Finishing oc
      | PH_Queued behind \<Rightarrow> RV_Queued behind
      | ph \<Rightarrow>
          (let questions = map qu_id (open_questions st) in
           if questions \<noteq> [] then RV_NeedsDecision questions
           else case earliest_hold st of
             Some (reason, until) \<Rightarrow> RV_Held reason until
           | None \<Rightarrow>
               (case oldest_park st of
                  Some reason \<Rightarrow> RV_Parked reason
                | None \<Rightarrow> (case ph of PH_Running tree \<Rightarrow> RV_Running tree | _ \<Rightarrow> RV_Created))))"

text \<open>The rows of the remedy table a run and a slot are on.\<close>

definition run_remedy_row :: "run_state \<Rightarrow> nat option" where
  "run_remedy_row st =
     (case view st of
        RV_Created \<Rightarrow> Some 0
      | RV_Queued _ \<Rightarrow> Some 1
      | RV_Running TPH_Unprepared \<Rightarrow> Some 2
      | RV_Running TPH_Prepared \<Rightarrow> Some 3
      | RV_NeedsDecision _ \<Rightarrow> Some 4
      | RV_Held _ _ \<Rightarrow> Some 5
      | RV_Parked _ \<Rightarrow> Some 6
      | RV_Finishing _ \<Rightarrow>
          (case rs_phase st of PH_Finishing _ _ PP_Unparked \<Rightarrow> Some 7 | _ \<Rightarrow> Some 8)
      | RV_Finished _ \<Rightarrow> None)"

fun slot_row :: "slot_state \<Rightarrow> nat" where
  "slot_row SS_Pending = 0"
| "slot_row (SS_Starting _) = 1"
| "slot_row (SS_Running _ None) = 2"
| "slot_row (SS_Running _ (Some _)) = 3"
| "slot_row (SS_Quiet _ _) = 4"
| "slot_row (SS_Nudged _ _) = 5"
| "slot_row (SS_Stopping _ _) = 6"
| "slot_row (SS_Replied _ _ _ PR_Live _ _) = 7"
| "slot_row (SS_Replied _ _ _ PR_Ended _ _) = 8"
| "slot_row (SS_Ended cause) =
     (case cause of
        EC_TurnComplete \<Rightarrow> 9
      | EC_Exit _ \<Rightarrow> 10
      | EC_Unknown _ \<Rightarrow> 10
      | EC_UsageLimit _ \<Rightarrow> 11
      | EC_ProviderUnavailable \<Rightarrow> 12
      | EC_PermissionRefused _ _ \<Rightarrow> 13
      | EC_StoppedByHost \<Rightarrow> 14
      | EC_Lost \<Rightarrow> 15)"

section \<open>Timer ids\<close>

definition ROOT_DEADLINE_TIMER :: string where "ROOT_DEADLINE_TIMER = ''root_deadline''"
definition TREE_WINDOW_TIMER :: string where "TREE_WINDOW_TIMER = ''tree_window''"

definition slot_timer :: "timer_purpose \<Rightarrow> slot \<Rightarrow> string" where
  "slot_timer purpose s = timer_purpose_str purpose @ ''/'' @ slot_suffix s"

definition grace_timer :: "nat \<Rightarrow> slot \<Rightarrow> string" where
  "grace_timer n s = ''stop_grace/'' @ show_nat n @ ''/'' @ slot_suffix s"

definition grace_nth :: "string \<Rightarrow> nat option" where
  "grace_nth timer =
     (case strip_prefix ''stop_grace/'' timer of
        None \<Rightarrow> None
      | Some rest \<Rightarrow> parse_uint u8_max (hd (split_on (CHR ''/'') rest)))"

text \<open>\<^verbatim>\<open>rsplitn(5, '/')\<close>: the last four pieces, and something before them.\<close>

definition timer_slot :: "string \<Rightarrow> slot option" where
  "timer_slot timer =
     (case rev (split_on (CHR ''/'') timer) of
        a # member # v # step # _ # _ \<Rightarrow>
          (case (Option.bind (strip_prefix ''a'' a) (parse_uint u32_max),
                 Option.bind (strip_prefix ''v'' v) (parse_uint u32_max)) of
             (Some attempt, Some visit) \<Rightarrow>
               Some \<lparr> sl_step = step, sl_visit = visit, sl_member = member, sl_attempt = attempt \<rparr>
           | _ \<Rightarrow> None)
      | _ \<Rightarrow> None)"

section \<open>Facts about slots and timer ids\<close>

lemma split_on_append_gen: "split_on c (s @ c # t) = split_on c s @ split_on c t"
  by (induction s) (auto split: list.splits)

definition u32_slot :: "slot \<Rightarrow> bool" where
  "u32_slot s \<longleftrightarrow> sl_visit s \<le> u32_max \<and> sl_attempt s \<le> u32_max"

lemma timer_slot_suffix:
  assumes "plain_slot s" "u32_slot s"
  shows "timer_slot (x @ ''/'' @ slot_suffix s) = Some s"
proof -
  obtain p ps where p: "rev (split_on (CHR ''/'') x) = p # ps"
    by (cases "rev (split_on (CHR ''/'') x)") auto
  have "rev (split_on (CHR ''/'') (x @ ''/'' @ slot_suffix s)) =
    [CHR ''a'' # show_nat (sl_attempt s), sl_member s, CHR ''v'' # show_nat (sl_visit s), sl_step s] @ p # ps"
    using split_on_append_gen [of "CHR ''/''" x "slot_suffix s"]
    by (simp add: split_slot_suffix [OF assms(1)] p)
  then show ?thesis using assms(2)
    by (simp add: timer_slot_def parse_uint_show u32_slot_def)
qed

lemma timer_slot_slot_timer [simp]:
  "plain_slot s \<Longrightarrow> u32_slot s \<Longrightarrow> timer_slot (slot_timer p s) = Some s"
  by (simp add: slot_timer_def timer_slot_suffix [simplified])

lemma timer_slot_grace_timer [simp]:
  "plain_slot s \<Longrightarrow> u32_slot s \<Longrightarrow> timer_slot (grace_timer n s) = Some s"
  using timer_slot_suffix [of s "''stop_grace/'' @ show_nat n"] by (simp add: grace_timer_def)

lemma grace_nth_grace_timer [simp]: "n \<le> u8_max \<Longrightarrow> grace_nth (grace_timer n s) = Some n"
  by (simp add: grace_nth_def grace_timer_def split_on_append parse_uint_show
      del: strip_prefix.simps) (simp add: split_on_append parse_uint_show)

lemma timer_slot_run_timers [simp]:
  "timer_slot ROOT_DEADLINE_TIMER = None" "timer_slot TREE_WINDOW_TIMER = None"
  by (simp_all add: timer_slot_def ROOT_DEADLINE_TIMER_def TREE_WINDOW_TIMER_def)

lemma find_session_lt [dest]: "find_session st k = Some i \<Longrightarrow> i < length (rs_slots st)"
  by (auto simp: find_session_def)

lemma find_slot_lt [dest]: "find_slot st s = Some i \<Longrightarrow> i < length (rs_slots st)"
  by (auto simp: find_slot_def)

lemma find_slot_eq: "find_slot st s = Some i \<Longrightarrow> sr_slot (rs_slots st ! i) = s"
  by (auto simp: find_slot_def dest: position_sat)

lemma ss_ladder_map [simp]: "ss_ladder (ss_map_ladder f s) = map_option f (ss_ladder s)"
  by (cases s) auto

lemma ss_is_live_map [simp]: "ss_is_live (ss_map_ladder f s) = ss_is_live s"
  by (cases s) auto

lemma latest_SomeD:
  "latest st step visit member = Some r \<Longrightarrow>
     r \<in> set (rs_slots st) \<and> sl_step (sr_slot r) = step \<and> sl_visit (sr_slot r) = visit \<and> sl_member (sr_slot r) = member"
  unfolding latest_def by (drule find_last_SomeD) (simp add: of_seat_def)

end
