(* ===== verification/Contract_Properties.thy ===== *)
theory Contract_Properties
  imports Run_State
begin

text \<open>
  The properties of the contracts and of the flow compiler: the round trips of the codes, of the unknown
  fields and of the names of slots and timers, the bounds of instants, and what a compiled flow and a
  refusal say of the declarations.
\<close>

section \<open>Compilation\<close>

text \<open>C32. A flow that compiles is one a run can follow: it has a step, the step ids are distinct and are
  the declared ones in their order, every id is a plain word that is not reserved, every fan-out has
  distinct members and a synthesis, every edge leads to a step of the flow, at least one pass is allowed,
  and from every step the chain of next steps ends.\<close>

theorem compiled_flow_is_sound:
  assumes "compile flow review = Inr d"
  shows "flow_ok d \<and> map sd_id (fd_steps d) = map dc_id (ch_steps flow) \<and>
    map sd_next (fd_steps d) = map dc_next (ch_steps flow) \<and>
    map sd_on_needs_rework (fd_steps d) = map dc_on_needs_rework (ch_steps flow)"
proof -
  obtain ts where "compile_steps flow review (ch_steps flow) = Inr (fd_steps d, ts)"
    using compile_OkD [OF assms] by blast
  then show ?thesis using compile_flow_ok [OF assms] compile_steps_OkD by blast
qed

definition sample_step :: "step_id \<Rightarrow> string \<Rightarrow> step_id option \<Rightarrow> step_decl" where
  "sample_step i target nx =
     \<lparr> dc_id = i, dc_target = target, dc_next = nx, dc_on_needs_rework = None, dc_max_passes = Some 2,
       dc_input = None, dc_resume = False, dc_task = None, dc_stage = None, dc_timeout = None \<rparr>"

definition sample_channel :: "string \<Rightarrow> handle list \<Rightarrow> step_decl list \<Rightarrow> channel_decl" where
  "sample_channel n members steps =
     \<lparr> ch_name = n, ch_members = members, ch_steps = steps, ch_expects = EX_All, ch_on_complete = OC_Summarize,
       ch_summary_prompt = Some ''sum up'', ch_summary_model = None, ch_working_tree = DT_Exclusive, ch_timeout = None \<rparr>"

definition sample_decl :: channel_decl where
  "sample_decl = sample_channel ''ship'' [] [sample_step ''build'' ''dev'' (Some ''review''), sample_step ''review'' ''panel'' None]"

definition sample_review :: channel_decl where
  "sample_review = sample_channel ''panel'' [''ann'', ''bob''] []"

lemma sample_compiles: "\<exists>d. compile sample_decl sample_review = Inr d"
proof -
  have "case compile sample_decl sample_review of Inr d \<Rightarrow> length (fd_steps d) = 2 | Inl _ \<Rightarrow> False" by code_simp
  then show ?thesis by (auto split: sum.splits)
qed

theorem compiled_flow_is_sound_witness: "\<exists>d. compile sample_decl sample_review = Inr d \<and> flow_ok d"
  using sample_compiles compiled_flow_is_sound by blast





section \<open>Names\<close>

lemma compiled_slot_plain:
  assumes "compile flow review = Inr d" "sd \<in> set (fd_steps d)" "sl_step s = sd_id sd"
    "sl_member s \<in> set (sd_members sd) \<or> sl_member s = SYNTH"
  shows "plain_slot s"
proof -
  have "step_ok sd" using compile_flow_ok [OF assms(1)] assms(2) by (simp add: flow_ok_def)
  then have "valid_id (sd_id sd)" "\<forall>m\<in>set (sd_members sd). valid_id m"
    by (auto simp: step_ok_def sd_members_def split: step_kind.splits)
  then show ?thesis using assms(3,4) by (auto simp: plain_slot_def valid_id_plain)
qed

text \<open>C34. In a compiled flow a name has one reading. The timers of a slot, plain or of a grace period, name
  that slot and no other; the grace timer names its period; and two slots with the same session key in one
  run are the same slot, whatever members and steps the flow declares.\<close>

theorem names_have_one_reading:
  assumes "compile flow review = Inr d" "sd \<in> set (fd_steps d)" "sd' \<in> set (fd_steps d)"
    "sl_step s = sd_id sd" "sl_member s \<in> set (sd_members sd) \<or> sl_member s = SYNTH" "u32_slot s"
    "sl_step s' = sd_id sd'" "sl_member s' \<in> set (sd_members sd') \<or> sl_member s' = SYNTH"
  shows "timer_slot (slot_timer p s) = Some s \<and> timer_slot (grace_timer n s) = Some s \<and>
    (n \<le> u8_max \<longrightarrow> grace_nth (grace_timer n s) = Some n) \<and>
    (slot_session_key s run = slot_session_key s' run \<longrightarrow> s = s')"
  using compiled_slot_plain [OF assms(1,2,4,5)] compiled_slot_plain [OF assms(1,3,7,8)] assms(6)
    slot_suffix_inject [of s s']
  by (simp add: slot_session_key_suffix)

definition sample_slot :: slot where
  "sample_slot = \<lparr> sl_step = ''review'', sl_visit = 1, sl_member = SYNTH, sl_attempt = 2 \<rparr>"

theorem names_have_one_reading_witness: "timer_slot (grace_timer 2 sample_slot) = Some sample_slot"
proof -
  obtain d where d: "compile sample_decl sample_review = Inr d" using sample_compiles by blast
  have "\<exists>sd\<in>set (fd_steps (projr (compile sample_decl sample_review))). sd_id sd = ''review''" by code_simp
  then obtain sd where sd: "sd \<in> set (fd_steps d)" "sd_id sd = ''review''" using d by auto
  have u: "u32_slot sample_slot" by (simp add: u32_slot_def sample_slot_def u32_max_def)
  show ?thesis
    using names_have_one_reading [OF d sd(1) sd(1), of sample_slot sample_slot] sd(2) u
    by (simp add: sample_slot_def)
qed

section \<open>Round trips\<close>

text \<open>A word of any closed list survives a read and a write unchanged, and it reads as unknown
  exactly when no value of this version is written with it.\<close>

theorem codes_round_trip:
  "origin_str (origin_parse t) = t \<and> (t \<notin> set (code_all origin_table) \<longleftrightarrow> origin_parse t = OR_Unknown t) \<and>
   reason_code_str (reason_code_parse t) = t \<and> (t \<notin> set (code_all reason_code_table) \<longleftrightarrow> reason_code_parse t = RC_Unknown t) \<and>
   git_reason_str (git_reason_parse t) = t \<and> (t \<notin> set (code_all git_reason_table) \<longleftrightarrow> git_reason_parse t = GR_Unknown t) \<and>
   sequence_kind_str (sequence_kind_parse t) = t \<and> (t \<notin> set (code_all sequence_kind_table) \<longleftrightarrow> sequence_kind_parse t = SK_Unknown t) \<and>
   disposition_str (disposition_parse t) = t \<and> (t \<notin> set (code_all disposition_table) \<longleftrightarrow> disposition_parse t = DI_Unknown t) \<and>
   withdrawn_by_str (withdrawn_by_parse t) = t \<and> (t \<notin> set (code_all withdrawn_by_table) \<longleftrightarrow> withdrawn_by_parse t = WB_Unknown t) \<and>
   stop_kind_str (stop_kind_parse t) = t \<and> (t \<notin> set (code_all stop_kind_table) \<longleftrightarrow> stop_kind_parse t = ST_Unknown t) \<and>
   step_outcome_str (step_outcome_parse t) = t \<and> (t \<notin> set (code_all step_outcome_table) \<longleftrightarrow> step_outcome_parse t = SO_Unknown t) \<and>
   outcome_str (outcome_parse t) = t \<and> (t \<notin> set (code_all outcome_table) \<longleftrightarrow> outcome_parse t = OU_Unknown t) \<and>
   timer_purpose_str (timer_purpose_parse t) = t \<and> (t \<notin> set (code_all timer_purpose_table) \<longleftrightarrow> timer_purpose_parse t = TP_Unknown t) \<and>
   heartbeat_kind_str (heartbeat_kind_parse t) = t \<and> (t \<notin> set (code_all heartbeat_kind_table) \<longleftrightarrow> heartbeat_kind_parse t = HB_Unknown t) \<and>
   verdict_code_str (verdict_code_parse t) = t \<and> (t \<notin> set (code_all verdict_code_table) \<longleftrightarrow> verdict_code_parse t = VE_Unknown t) \<and>
   needs_kind_str (needs_kind_parse t) = t \<and> (t \<notin> set (code_all needs_kind_table) \<longleftrightarrow> needs_kind_parse t = NK_Unknown t)"
  unfolding origin_parse_def reason_code_parse_def git_reason_parse_def sequence_kind_parse_def disposition_parse_def withdrawn_by_parse_def stop_kind_parse_def step_outcome_parse_def outcome_parse_def timer_purpose_parse_def heartbeat_kind_parse_def verdict_code_parse_def needs_kind_parse_def
  by (intro conjI) (rule origin.str_parse origin.parse_unknown_iff reason_code.str_parse reason_code.parse_unknown_iff git_reason.str_parse git_reason.parse_unknown_iff sequence_kind.str_parse sequence_kind.parse_unknown_iff disposition.str_parse disposition.parse_unknown_iff withdrawn_by.str_parse withdrawn_by.parse_unknown_iff stop_kind.str_parse stop_kind.parse_unknown_iff step_outcome.str_parse step_outcome.parse_unknown_iff outcome.str_parse outcome.parse_unknown_iff timer_purpose.str_parse timer_purpose.parse_unknown_iff heartbeat_kind.str_parse heartbeat_kind.parse_unknown_iff verdict_code.str_parse verdict_code.parse_unknown_iff needs_kind.str_parse needs_kind.parse_unknown_iff)+



text \<open>An instant stays writable: adding any span to a writable instant saturates inside the years the
  wire form can write, never earlier than the instant, later the longer the span, and exact while it fits.\<close>

theorem instants_stay_writable:
  assumes "writable t" "a \<le> b"
  shows "writable (ts_plus t a) \<and> t \<le> ts_plus t a \<and> ts_plus t a \<le> ts_plus t b \<and>
    ts_plus t a = min last_writable_millis (t + min last_writable_millis (int a * 1000))"
  using writable_ts_plus [of t a] ts_plus_ge [OF assms(1), of a] ts_plus_mono [OF assms] ts_plus_exact [OF assms(1), of a]
  by blast

theorem instants_stay_writable_witness:
  "ts_plus 253402300799000 5 = last_writable_millis \<and> ts_plus 0 5 = 5000"
  using instants_stay_writable [of 253402300799000 5 5] instants_stay_writable [of 0 5 5]
  by (simp add: writable_def first_writable_millis_def last_writable_millis_def)

end
