(* ===== verification/Effects.thy ===== *)
theory Effects
  imports Run_State
begin

text \<open>
  What a run owes the outside world, derived from state alone: \<^verbatim>\<open>crates/run-engine/src/effects.rs\<close>.
  \<open>pending_effects\<close> is the whole derivation, \<open>stop_signal\<close> the stop table, \<open>owed_deliveries\<close> the
  messages not yet recorded, \<open>ready_to_release\<close> the condition on letting go of the claim.
\<close>

definition NUDGE_TEXT :: string where
  "NUDGE_TEXT = ''You have gone quiet. Say what you are doing, or reply on your thread.''"

datatype deliver_body =
    DB_Message message_id
  | DB_Discharge "step_id option" nat "message_id option" "park_outcome option"
      \<comment> \<open>step, pass, verdict, parked\<close>
  | DB_ParkNotice string string \<comment> \<open>branch, commit\<close>
  | DB_Question key

datatype effect =
    EF_OpenRoot run_id
  | EF_TakeClaim string
  | EF_PrepareTree string
  | EF_CancelTree string
  | EF_ParkTree string outcome \<comment> \<open>workspace, occasion\<close>
  | EF_ReleaseClaim string
  | EF_StartSession session_key "turn_part list" bool \<comment> \<open>session_key, turn, resume\<close>
  | EF_NudgeSession session_key string
  | EF_StopSession session_key stop_kind nat \<comment> \<open>session_key, kind, nth\<close>
  | EF_Deliver message_id deliver_body key \<comment> \<open>thread, body, key\<close>

text \<open>The stop table: the signal owed for (forced, signals sent, grace firings), or none.\<close>

definition stop_signal :: "bool \<Rightarrow> nat \<Rightarrow> grace_fired \<Rightarrow> stop_kind option" where
  "stop_signal forced signals_sent fired =
     (if signals_sent = 0 then Some ST_Term
      else if \<not> forced \<and> signals_sent = 1 \<and> (fired = GF_First \<or> fired = GF_Second) then Some ST_Term
      else if forced \<and> signals_sent = 1 \<and> (fired = GF_First \<or> fired = GF_Second) then Some ST_Kill
      else if forced \<and> signals_sent = 2 \<and> fired = GF_Second then Some ST_Kill
      else None)"

definition stop_effect :: "slot_record \<Rightarrow> session_key \<Rightarrow> effect option" where
  "stop_effect r k =
     (case ss_ladder (sr_state r) of
        None \<Rightarrow> None
      | Some l \<Rightarrow>
          (case stop_signal (la_forced l) (la_signals_sent l) (la_fired l) of
             None \<Rightarrow> None
           | Some kind \<Rightarrow> Some (EF_StopSession k kind (la_total l + 1))))"

definition slot_effect :: "run_state \<Rightarrow> slot_record \<Rightarrow> effect option" where
  "slot_effect st r =
     (let k = session_key_of st (sr_slot r) in
      case sr_state r of
        SS_Starting _ \<Rightarrow> Some (EF_StartSession k (sr_turn r) (sr_resume r))
      | SS_Quiet _ _ \<Rightarrow> Some (EF_NudgeSession k NUDGE_TEXT)
      | _ \<Rightarrow> stop_effect r k)"

text \<open>The newest verdict of any step, for a discharge.\<close>

definition last_verdict :: "run_state \<Rightarrow> message_id option" where
  "last_verdict st =
     map_option vr_message
       (find_map (\<lambda>f. verdict_of st (fs_step f)) (rev (rs_finished_steps st)))"

definition result_deliveries :: "run_state \<Rightarrow> outcome \<Rightarrow> park_outcome \<Rightarrow> (key \<times> deliver_body) list" where
  "result_deliveries st oc parked =
     (let step = rs_current_step st;
          verdict = Option.bind step (verdict_of st);
          discharge = DB_Discharge step
                        (case step of None \<Rightarrow> 0 | Some s \<Rightarrow> pass_of st s)
                        (last_verdict st) (Some parked);
          result = (''result/'' @ rs_run st,
                    (if oc = OU_Withdrawn \<or> oc = OU_Failed then discharge
                     else case verdict of None \<Rightarrow> discharge | Some v \<Rightarrow> DB_Message (vr_message v)));
          notice = (if oc = OU_Withdrawn then []
                    else case parked of
                      PO_Committed branch commit \<Rightarrow>
                        [(''park/'' @ rs_run st, DB_ParkNotice branch commit)]
                    | PO_OnOwnBranch branch commit \<Rightarrow>
                        [(''park/'' @ rs_run st, DB_ParkNotice branch commit)]
                    | _ \<Rightarrow> [])
      in result # notice)"

definition owed_deliveries :: "run_state \<Rightarrow> (key \<times> deliver_body) list" where
  "owed_deliveries st =
     (if rs_root_message st = None then []
      else
        filter (\<lambda>(k, _). k \<notin> rs_delivered st)
          (case rs_phase st of
             PH_Finishing oc _ (PP_Parked parked) \<Rightarrow> result_deliveries st oc parked
           | PH_Running _ \<Rightarrow>
               map (\<lambda>q. (''question/'' @ qu_id q, DB_Question (qu_id q))) (open_questions st)
           | _ \<Rightarrow> []))"

definition deliver_effects :: "run_state \<Rightarrow> effect list" where
  "deliver_effects st =
     (let thread = (case rs_root_thread st of Some t \<Rightarrow> t | None \<Rightarrow> []) in
      map (\<lambda>(k, body). EF_Deliver thread body k) (owed_deliveries st))"

definition running_effects :: "run_state \<Rightarrow> tree_phase \<Rightarrow> string \<Rightarrow> effect list" where
  "running_effects st tree workspace =
     (if rs_tree_cancel_owed st then [EF_CancelTree workspace]
      else if tree = TPH_Unprepared then
        (if rs_condition st \<noteq> None then [] else [EF_PrepareTree workspace])
      else filter_map (slot_effect st) (rs_slots st) @ deliver_effects st)"

definition finishing_effects :: "run_state \<Rightarrow> park_phase \<Rightarrow> outcome \<Rightarrow> string \<Rightarrow> effect list" where
  "finishing_effects st tree occasion workspace =
     (let stops = filter_map (\<lambda>r. stop_effect r (session_key_of st (sr_slot r))) (rs_slots st) in
      if any_live st then stops
      else if tree = PP_Unparked then [EF_ParkTree workspace occasion]
      else let deliveries = deliver_effects st in
        if deliveries \<noteq> [] then deliveries else [EF_ReleaseClaim workspace])"

definition pending_effects :: "run_state \<Rightarrow> effect list" where
  "pending_effects st =
     (case rs_phase st of
        PH_Finished _ _ \<Rightarrow> []
      | PH_Created \<Rightarrow>
          (if rs_commissioned st \<and> rs_root_message st = None \<and> rs_condition st = None
           then [EF_OpenRoot (rs_run st)] else [])
      | PH_Queued _ \<Rightarrow> [EF_TakeClaim (rs_workspace st)]
      | PH_Running tree \<Rightarrow> running_effects st tree (rs_workspace st)
      | PH_Finishing oc _ tree \<Rightarrow> finishing_effects st tree oc (rs_workspace st))"

definition ready_to_release :: "run_state \<Rightarrow> bool" where
  "ready_to_release st =
     ((case rs_phase st of PH_Finishing _ _ (PP_Parked _) \<Rightarrow> True | _ \<Rightarrow> False) \<and>
      \<not> any_live st \<and> owed_deliveries st = [])"

section \<open>Facts about the derivation\<close>

lemma stop_signal_unforced: "stop_signal False n f \<noteq> Some ST_Kill"
  by (simp add: stop_signal_def)

lemma stop_effect_kill: "stop_effect r k = Some (EF_StopSession k' ST_Kill n) \<Longrightarrow>
    \<exists>l. ss_ladder (sr_state r) = Some l \<and> la_forced l"
  by (auto simp: stop_effect_def stop_signal_def split: option.splits if_splits)

lemma stop_effect_is_stop: "stop_effect r k = Some e \<Longrightarrow> \<exists>kind n. e = EF_StopSession k kind n"
  by (auto simp: stop_effect_def split: option.splits)

lemma slot_effect_kill: "slot_effect st r = Some (EF_StopSession k' ST_Kill n) \<Longrightarrow>
    \<exists>l. ss_ladder (sr_state r) = Some l \<and> la_forced l"
  by (auto simp: slot_effect_def Let_def split: slot_state.splits dest: stop_effect_kill)

lemma deliver_effects_shape: "e \<in> set (deliver_effects st) \<Longrightarrow> \<exists>t b k. e = EF_Deliver t b k"
  by (auto simp: deliver_effects_def Let_def)

lemma deliver_effects_Nil [simp]: "deliver_effects st = [] \<longleftrightarrow> owed_deliveries st = []"
  by (simp add: deliver_effects_def Let_def)

lemma pending_effects_finishing:
  assumes "rs_phase st = PH_Finishing oc reason tree"
  shows "pending_effects st = finishing_effects st tree oc (rs_workspace st)"
  using assms by (simp add: pending_effects_def)

lemma kill_has_forced_ladder:
  assumes "EF_StopSession k ST_Kill n \<in> set (pending_effects st)"
  shows "\<exists>r\<in>set (rs_slots st). \<exists>l. ss_ladder (sr_state r) = Some l \<and> la_forced l"
  using assms
  by (fastforce simp: pending_effects_def running_effects_def finishing_effects_def Let_def set_filter_map
      split: phase.splits if_splits dest: stop_effect_kill slot_effect_kill deliver_effects_shape)

lemma release_iff_ready:
  "EF_ReleaseClaim w \<in> set (pending_effects st) \<longleftrightarrow> w = rs_workspace st \<and> ready_to_release st"
proof (cases "rs_phase st")
  case (PH_Finishing oc reason tree)
  then show ?thesis
    by (cases tree)
       (auto simp: pending_effects_def finishing_effects_def ready_to_release_def Let_def set_filter_map
        dest: stop_effect_is_stop deliver_effects_shape)
qed (auto simp: pending_effects_def running_effects_def ready_to_release_def Let_def set_filter_map slot_effect_def
      split: if_splits slot_state.splits dest: stop_effect_is_stop deliver_effects_shape)

end
