(* ===== verification/Guard.thy ===== *)
theory Guard
  imports Effects
begin

text \<open>
  Which inputs change nothing: \<^verbatim>\<open>crates/run-engine/src/guard.rs\<close>. \<open>ignored_reason\<close> is asked by
  the fold of an input and by \<open>decide\<close> alike.
\<close>

definition DELIVERED_PREFIX :: string where "DELIVERED_PREFIX = ''delivered/''"

definition delivered_key :: "string \<Rightarrow> key" where
  "delivered_key effect_key = DELIVERED_PREFIX @ effect_key"

definition delivery_key :: "event \<Rightarrow> string option" where
  "delivery_key input = strip_prefix DELIVERED_PREFIX (ev_key input)"

definition record_by_key :: "run_state \<Rightarrow> session_key \<Rightarrow> slot_record option" where
  "record_by_key st k = map_option (\<lambda>i. rs_slots st ! i) (find_session st k)"

definition is_permanent :: "tree_refusal \<Rightarrow> bool" where
  "is_permanent reason =
     (case reason of
        TR_NotARepository \<Rightarrow> True
      | TR_ForeignDirectory \<Rightarrow> True
      | TR_Unknown _ \<Rightarrow> True
      | _ \<Rightarrow> False)"

definition is_hold :: "end_cause \<Rightarrow> bool" where
  "is_hold cause =
     (case cause of EC_UsageLimit _ \<Rightarrow> True | EC_ProviderUnavailable \<Rightarrow> True | _ \<Rightarrow> False)"

definition out_of_state :: "bool \<Rightarrow> reason_code option" where
  "out_of_state applies = then_some (\<not> applies) RC_OutOfState"

definition fact_ignored :: "run_state \<Rightarrow> slot_record \<Rightarrow> session_fact \<Rightarrow> reason_code option" where
  "fact_ignored st r fct =
     (case fct of
        SF_Started _ _ \<Rightarrow>
          out_of_state
            (case sr_state r of
               SS_Starting _ \<Rightarrow> True
             | SS_Stopping _ _ \<Rightarrow> True
             | SS_Ended _ \<Rightarrow> is_superseded st r
             | _ \<Rightarrow> False)
      | SF_Heartbeat _ \<Rightarrow>
          out_of_state
            (case sr_state r of
               SS_Running _ _ \<Rightarrow> True
             | SS_Quiet _ _ \<Rightarrow> True
             | SS_Nudged _ _ \<Rightarrow> True
             | _ \<Rightarrow> False)
      | SF_Usage _ _ _ _ _ _ \<Rightarrow> None
      | SF_PermissionRefused _ _ \<Rightarrow> None
      | SF_GroupLingering _ \<Rightarrow> out_of_state (ss_is_live (sr_state r))
      | SF_Ended _ \<Rightarrow>
          (case sr_state r of
             SS_Ended _ \<Rightarrow> Some RC_FinalState
           | SS_Pending \<Rightarrow> Some RC_OutOfState
           | SS_Replied _ _ _ p _ _ \<Rightarrow> then_some (p = PR_Ended) RC_FinalState
           | _ \<Rightarrow> None)
      | SF_Unknown _ \<Rightarrow> Some RC_OutOfState)"

definition reply_ignored :: "run_state \<Rightarrow> slot_record \<Rightarrow> reason_code option" where
  "reply_ignored st r =
     (if (case sr_state r of SS_Replied _ _ _ _ _ _ \<Rightarrow> True | _ \<Rightarrow> False) then Some RC_DuplicateReply
      else if is_superseded st r then Some RC_LateReplyAfterSkip
      else if is_finishing st then Some RC_AlreadyFinishing
      else case sr_state r of
        SS_Ended _ \<Rightarrow> Some RC_FinalState
      | SS_Stopping _ _ \<Rightarrow> Some RC_LateReplyAfterSkip
      | SS_Pending \<Rightarrow> Some RC_OutOfState
      | _ \<Rightarrow> None)"

text \<open>The order of an optional age, \<open>None\<close> first, as \<^verbatim>\<open>Option<u64>\<close> compares.\<close>

definition condition_age :: "slot_condition option \<Rightarrow> nat" where
  "condition_age c = (case c of None \<Rightarrow> 0 | Some c \<Rightarrow> Suc (sc_order c))"

definition has_current_condition :: "run_state \<Rightarrow> nat \<Rightarrow> bool" where
  "has_current_condition st i =
     (sr_condition (rs_slots st ! i) \<noteq> None \<and> \<not> is_superseded st (rs_slots st ! i))"

definition resume_target :: "run_state \<Rightarrow> slot option \<Rightarrow> nat option" where
  "resume_target st s =
     (case s of
        Some s \<Rightarrow>
          (case find_slot st s of
             Some i \<Rightarrow> if has_current_condition st i then Some i else None
           | None \<Rightarrow> None)
      | None \<Rightarrow>
          min_by_key (\<lambda>i. condition_age (sr_condition (rs_slots st ! i)))
            (filter (has_current_condition st) [0..<length (rs_slots st)]))"

definition answers :: "key \<Rightarrow> disposition \<Rightarrow> question \<Rightarrow> bool" where
  "answers q_id disp q =
     (qu_id q = q_id \<and>
      (case disp of DI_Unknown _ \<Rightarrow> False | _ \<Rightarrow> True) \<and>
      \<not> (disp = DI_Accept \<and> (case qu_asked q of AK_Escalation _ _ \<Rightarrow> True | _ \<Rightarrow> False)))"

definition ignored_reason :: "run_state \<Rightarrow> event \<Rightarrow> reason_code option" where
  "ignored_reason st input =
     (if is_finished st then Some RC_FinalState
      else let finishing = then_some (is_finishing st) RC_AlreadyFinishing in
      case ev_body input of
        EB_Commissioned _ _ _ _ _ _ _ \<Rightarrow> out_of_state (\<not> rs_commissioned st)
      | EB_RootOpened _ _ \<Rightarrow>
          out_of_state
            (rs_root_message st = None \<and>
             (case rs_phase st of PH_Created \<Rightarrow> True | PH_Finishing _ _ _ \<Rightarrow> True | _ \<Rightarrow> False))
      | EB_ClaimTaken \<Rightarrow>
          opt_or finishing
            (out_of_state (case rs_phase st of PH_Queued _ \<Rightarrow> True | _ \<Rightarrow> False))
      | EB_ClaimBusy holder \<Rightarrow>
          opt_or finishing
            (out_of_state (case rs_phase st of PH_Queued behind \<Rightarrow> behind \<noteq> Some holder | _ \<Rightarrow> False))
      | EB_ClaimReleased \<Rightarrow> out_of_state (ready_to_release st)
      | EB_TreePrepared _ _ \<Rightarrow>
          opt_or finishing (out_of_state (rs_phase st = PH_Running TPH_Unprepared))
      | EB_TreeRefused _ \<Rightarrow>
          opt_or finishing (out_of_state (rs_phase st = PH_Running TPH_Unprepared))
      | EB_TreeParked _ \<Rightarrow>
          out_of_state (case rs_phase st of PH_Finishing _ _ PP_Unparked \<Rightarrow> True | _ \<Rightarrow> False)
      | EB_Delivered _ \<Rightarrow>
          out_of_state
            (is_some_and (delivery_key input) (\<lambda>k. list_ex (\<lambda>(owed, _). owed = k) (owed_deliveries st)))
      | EB_Nudged k \<Rightarrow>
          (case record_by_key st k of
             None \<Rightarrow> Some RC_UnknownSession
           | Some r \<Rightarrow> out_of_state (case sr_state r of SS_Quiet _ _ \<Rightarrow> True | _ \<Rightarrow> False))
      | EB_StopSignalled k n _ \<Rightarrow>
          (case record_by_key st k of
             None \<Rightarrow> Some RC_UnknownSession
           | Some r \<Rightarrow> out_of_state (is_some_and (ss_ladder (sr_state r)) (\<lambda>l. n = la_total l + 1)))
      | EB_SessionFact k fct \<Rightarrow>
          (case record_by_key st k of
             None \<Rightarrow> Some RC_UnknownSession
           | Some r \<Rightarrow> fact_ignored st r fct)
      | EB_Reply k _ _ _ \<Rightarrow>
          (case record_by_key st k of
             None \<Rightarrow> Some RC_UnknownSession
           | Some r \<Rightarrow> reply_ignored st r)
      | EB_Answer q disp _ \<Rightarrow>
          opt_or finishing (out_of_state (list_ex (answers q disp) (open_questions st)))
      | EB_Resume s \<Rightarrow> opt_or finishing (out_of_state (resume_target st s \<noteq> None))
      | EB_ResumeRun \<Rightarrow> opt_or finishing (out_of_state (rs_condition st \<noteq> None))
      | EB_Withdrawn _ _ \<Rightarrow>
          (let open_stop =
             list_ex (\<lambda>r. is_some_and (ss_ladder (sr_state r)) (\<lambda>l. \<not> la_forced l)) (rs_slots st)
           in then_some (is_finishing st \<and> \<not> open_stop) RC_AlreadyFinishing)
      | EB_TimerFired timer fire_at \<Rightarrow>
          then_some (map_option at_fire_at (map_of (rs_timers st) timer) \<noteq> Some fire_at) RC_StaleTimer
      | EB_Decision _ \<Rightarrow> Some RC_OutOfState
      | EB_Unknown _ \<Rightarrow> Some RC_OutOfState)"

text \<open>Whether this destructive timer fired so far past its instant that the host cannot have been
  looking. Both instants are inside the writable years, so their difference does not overflow.\<close>

definition destructive :: "timer_purpose \<Rightarrow> bool" where
  "destructive p =
     (case p of
        TP_StartDeadline \<Rightarrow> True
      | TP_Confirm \<Rightarrow> True
      | TP_StopGrace \<Rightarrow> True
      | TP_WindDown \<Rightarrow> True
      | TP_TreeWindow \<Rightarrow> True
      | TP_RootDeadline \<Rightarrow> True
      | _ \<Rightarrow> False)"

definition is_deferred :: "run_state \<Rightarrow> string \<Rightarrow> timestamp \<Rightarrow> timestamp \<Rightarrow> bool" where
  "is_deferred st timer fire_at at =
     (case map_of (rs_timers st) timer of
        None \<Rightarrow> False
      | Some armed \<Rightarrow>
          destructive (at_purpose armed) \<and> at - fire_at > span_millis (lp_wake_jump (rs_policy st)))"

section \<open>Facts about the guard\<close>

lemma delivery_key_delivered: "ev_key e = delivered_key k \<Longrightarrow> delivery_key e = Some k"
  by (simp add: delivery_key_def delivered_key_def)

lemma record_by_key_SomeD:
  "record_by_key st k = Some r \<Longrightarrow> \<exists>i. find_session st k = Some i \<and> i < length (rs_slots st) \<and> r = rs_slots st ! i"
  by (auto simp: record_by_key_def)

lemma resume_target_SomeD:
  "resume_target st s = Some i \<Longrightarrow> i < length (rs_slots st) \<and> has_current_condition st i"
  by (auto simp: resume_target_def split: option.splits if_splits dest!: min_by_key_SomeD)

lemma ignored_finished [simp]: "is_finished st \<Longrightarrow> ignored_reason st e = Some RC_FinalState"
  by (simp add: ignored_reason_def)

end
