(* ===== verification/Fold_Input.thy ===== *)
theory Fold_Input
  imports Guard
begin

text \<open>
  What an input does to state: \<^verbatim>\<open>crates/run-engine/src/input.rs\<close>. \<open>apply_input\<close> asks the guard
  first, so an ignored input folds to nothing; otherwise it records the fact and moves the slot it
  names. A \<^verbatim>\<open>&mut\<close> borrow of one slot is a change of that element of the list.
\<close>

definition upd_slot :: "nat \<Rightarrow> (slot_record \<Rightarrow> slot_record) \<Rightarrow> run_state \<Rightarrow> run_state" where
  "upd_slot i f st = st\<lparr>rs_slots := update_at i f (rs_slots st)\<rparr>"

definition revive :: "slot_record \<Rightarrow> slot_record" where
  "revive r =
     (let back = (\<lambda>open_call.
            r\<lparr>sr_state := SS_Running (case sr_backend_session r of Some s \<Rightarrow> s | None \<Rightarrow> []) open_call\<rparr>)
      in case sr_state r of
           SS_Quiet _ open_call \<Rightarrow> back open_call
         | SS_Nudged _ open_call \<Rightarrow> back open_call
         | _ \<Rightarrow> r)"

definition set_open_call :: "timestamp option \<Rightarrow> slot_record \<Rightarrow> slot_record" where
  "set_open_call v r =
     (case sr_state r of
        SS_Running session open_call \<Rightarrow>
          r\<lparr>sr_state := SS_Running session (case v of Some _ \<Rightarrow> opt_or open_call v | None \<Rightarrow> None)\<rparr>
      | _ \<Rightarrow> r)"

text \<open>A replied slot that is overdue, or whose group lingers, owes a stop ladder, begun once.\<close>

definition start_reply_stop :: "timestamp \<Rightarrow> bool \<Rightarrow> slot_state \<Rightarrow> slot_state" where
  "start_reply_stop at forced s =
     (case s of
        SS_Replied m e n p _ l \<Rightarrow>
          SS_Replied m e n p True (case l of Some l \<Rightarrow> Some l | None \<Rightarrow> Some (ladder_new at forced))
      | _ \<Rightarrow> s)"

definition apply_ended :: "end_cause \<Rightarrow> slot_record \<Rightarrow> slot_record" where
  "apply_ended cause r =
     (let r1 = (case cause of
                  EC_PermissionRefused rule program \<Rightarrow> r\<lparr>sr_refused := Some (rule @ '': '' @ program)\<rparr>
                | _ \<Rightarrow> r)
      in r1\<lparr>sr_condition := None,
            sr_state :=
              (case sr_state r1 of
                 SS_Replied m e n _ od _ \<Rightarrow> SS_Replied m e n PR_Ended od None
               | _ \<Rightarrow> SS_Ended cause)\<rparr>)"

definition fold_fact ::
  "timestamp \<Rightarrow> bool \<Rightarrow> bool \<Rightarrow> session_fact \<Rightarrow> slot_record \<Rightarrow> slot_record" where
  "fold_fact at forced superseded fct r0 =
     (let r = r0\<lparr>sr_last_fact := Some at\<rparr> in
      case fct of
        SF_Started backend _ \<Rightarrow>
          (let r = r\<lparr>sr_backend_session := Some backend\<rparr> in
           case sr_state r of
             SS_Starting _ \<Rightarrow> r\<lparr>sr_state := SS_Running backend None\<rparr>
           | SS_Ended _ \<Rightarrow>
               if superseded then r\<lparr>sr_state := SS_Stopping (ladder_new at forced) AS_Nothing\<rparr> else r
           | _ \<Rightarrow> r)
      | SF_Heartbeat beat \<Rightarrow>
          (let r = revive r in
           case beat of
             HB_CallsOpen \<Rightarrow> set_open_call (Some at) r
           | HB_CallsClosed \<Rightarrow> set_open_call None r
           | HB_SubprocessMoved \<Rightarrow> r\<lparr>sr_sampling := True\<rparr>
           | HB_Blind \<Rightarrow> r\<lparr>sr_blind := True\<rparr>
           | _ \<Rightarrow> r)
      | SF_Usage _ _ _ _ _ _ \<Rightarrow> revive r
      | SF_PermissionRefused rule program \<Rightarrow>
          revive (r\<lparr>sr_refused := Some (rule @ '': '' @ program)\<rparr>)
      | SF_GroupLingering pids \<Rightarrow>
          (let r = r\<lparr>sr_pids := pids\<rparr> in r\<lparr>sr_state := start_reply_stop at forced (sr_state r)\<rparr>)
      | SF_Ended cause \<Rightarrow> apply_ended cause r
      | SF_Unknown _ \<Rightarrow> r)"

definition apply_fact :: "run_state \<Rightarrow> nat \<Rightarrow> session_fact \<Rightarrow> event \<Rightarrow> run_state" where
  "apply_fact st i fct input =
     upd_slot i (fold_fact (ev_at input) (rs_withdrawn st) (is_superseded st (rs_slots st ! i)) fct) st"

definition apply_reply :: "run_state \<Rightarrow> nat \<Rightarrow> string \<Rightarrow> bool \<Rightarrow> bool \<Rightarrow> run_state" where
  "apply_reply st i message escalate needs_rework =
     (let s = sr_slot (rs_slots st ! i);
          is_synth = (sl_member s = SYNTH);
          has_edge = is_some_and (flow_step (rs_def st) (sl_step s)) (\<lambda>d. sd_on_needs_rework d \<noteq> None)
      in upd_slot i
           (\<lambda>r. r\<lparr>sr_state := SS_Replied message (escalate \<and> \<not> is_synth)
                                (needs_rework \<and> \<not> is_synth \<and> has_edge) PR_Live False None\<rparr>) st)"

definition apply_answer :: "run_state \<Rightarrow> string \<Rightarrow> disposition \<Rightarrow> string \<Rightarrow> run_state" where
  "apply_answer st q_id disp message =
     (case position (\<lambda>q. qu_id q = q_id) (rs_questions st) of
        None \<Rightarrow> st
      | Some i \<Rightarrow>
          (let st1 = st\<lparr>rs_questions := update_at i (\<lambda>q. q\<lparr>qu_answered := True\<rparr>) (rs_questions st)\<rparr> in
           st1\<lparr>rs_pending_start :=
             (case qu_asked (rs_questions st ! i) of
                AK_Escalation _ _ \<Rightarrow> Some (CA_Answer message)
              | AK_Ceiling step _ _ \<Rightarrow>
                  (case disp of
                     DI_Accept \<Rightarrow> map_option (CA_Accept message) (verdict_of st1 step)
                   | _ \<Rightarrow> None))\<rparr>))"

definition is_would_not_stop :: "slot_condition option \<Rightarrow> bool" where
  "is_would_not_stop c = (case c of Some (SC_Parked reason _ _) \<Rightarrow> reason = RC_WouldNotStop | _ \<Rightarrow> False)"

definition fold_resume :: "slot_record \<Rightarrow> slot_record" where
  "fold_resume r =
     (if is_would_not_stop (sr_condition r)
      then r\<lparr>sr_condition := None,
             sr_state := ss_map_ladder (\<lambda>l. l\<lparr>la_signals_sent := 0, la_fired := GF_None\<rparr>) (sr_state r)\<rparr>
      else r\<lparr>sr_condition := None, sr_fresh := True\<rparr>)"

definition fold_withdrawn :: "slot_record \<Rightarrow> slot_record" where
  "fold_withdrawn r =
     r\<lparr>sr_state := ss_map_ladder (\<lambda>l. l\<lparr>la_forced := True\<rparr>) (sr_state r),
       sr_condition := (if is_would_not_stop (sr_condition r) then None else sr_condition r)\<rparr>"

text \<open>What a sent nudge, a sent signal and a fired grace timer do to the slot they name.\<close>

definition slot_nudged :: "timestamp \<Rightarrow> slot_record \<Rightarrow> slot_record" where
  "slot_nudged at r =
     (case sr_state r of SS_Quiet _ open_call \<Rightarrow> r\<lparr>sr_state := SS_Nudged at open_call\<rparr> | _ \<Rightarrow> r)"

definition slot_signalled :: "slot_record \<Rightarrow> slot_record" where
  "slot_signalled r =
     r\<lparr>sr_state := ss_map_ladder
        (\<lambda>l. l\<lparr>la_signals_sent := min u8_max (la_signals_sent l + 1), la_total := la_total l + 1\<rparr>) (sr_state r)\<rparr>"

definition slot_grace :: "grace_fired \<Rightarrow> slot_record \<Rightarrow> slot_record" where
  "slot_grace fired r =
     r\<lparr>sr_state := ss_map_ladder (\<lambda>l. l\<lparr>la_fired := max (la_fired l) fired\<rparr>) (sr_state r)\<rparr>"

text \<open>The slot a timer id names, changed.\<close>

definition upd_timer_slot :: "string \<Rightarrow> (slot_record \<Rightarrow> slot_record) \<Rightarrow> run_state \<Rightarrow> run_state" where
  "upd_timer_slot timer f st =
     (case Option.bind (timer_slot timer) (find_slot st) of None \<Rightarrow> st | Some i \<Rightarrow> upd_slot i f st)"

definition apply_firing :: "run_state \<Rightarrow> string \<Rightarrow> timer_purpose \<Rightarrow> event \<Rightarrow> run_state" where
  "apply_firing st timer purpose input =
     (case purpose of
        TP_RootDeadline \<Rightarrow> st\<lparr>rs_root_periods := rs_root_periods st + 1\<rparr>
      | TP_TreeWindow \<Rightarrow> st\<lparr>rs_tree_cancel_owed := True\<rparr>
      | TP_StopGrace \<Rightarrow>
          (let fired = (if grace_nth timer = Some 2 then GF_Second else GF_First) in
           upd_timer_slot timer (slot_grace fired) st)
      | TP_WindDown \<Rightarrow>
          upd_timer_slot timer
            (\<lambda>r. r\<lparr>sr_state := start_reply_stop (ev_at input) (rs_withdrawn st) (sr_state r)\<rparr>) st
      | _ \<Rightarrow> st)"

definition set_park_tree :: "park_outcome \<Rightarrow> phase \<Rightarrow> phase" where
  "set_park_tree oc ph =
     (case ph of PH_Finishing out reason _ \<Rightarrow> PH_Finishing out reason (PP_Parked oc) | _ \<Rightarrow> ph)"

text \<open>The fold of an input the guard lets through.\<close>

definition fold_input :: "run_state \<Rightarrow> event \<Rightarrow> run_state" where
  "fold_input st input =
     (let at = ev_at input in
      case ev_body input of
        EB_Commissioned _ workspace_id _ hash policy root_thread requester \<Rightarrow>
          st\<lparr>rs_commissioned := True, rs_workspace := workspace_id, rs_flow_hash := hash,
             rs_policy := policy, rs_root_thread := Some root_thread, rs_requester := requester\<rparr>
      | EB_RootOpened thread message \<Rightarrow>
          st\<lparr>rs_root_thread := Some thread, rs_root_message := Some message, rs_condition := None\<rparr>
      | EB_ClaimTaken \<Rightarrow> st\<lparr>rs_claim_since := Some at\<rparr>
      | EB_TreePrepared b found \<Rightarrow>
          st\<lparr>rs_phase := PH_Running TPH_Prepared, rs_base := Some b, rs_found := found,
             rs_condition := None, rs_tree_cancel_owed := False\<rparr>
      | EB_TreeRefused _ \<Rightarrow>
          st\<lparr>rs_tree_refusals := rs_tree_refusals st + 1, rs_tree_cancel_owed := False\<rparr>
      | EB_TreeParked oc \<Rightarrow>
          st\<lparr>rs_parked := Some oc, rs_phase := set_park_tree oc (rs_phase st)\<rparr>
      | EB_Delivered _ \<Rightarrow>
          (case delivery_key input of
             Some k \<Rightarrow> st\<lparr>rs_delivered := insert k (rs_delivered st)\<rparr>
           | None \<Rightarrow> st)
      | EB_Nudged k \<Rightarrow>
          (case find_session st k of
             None \<Rightarrow> st
           | Some i \<Rightarrow>
               upd_slot i (slot_nudged at) st)
      | EB_StopSignalled k _ _ \<Rightarrow>
          (case find_session st k of
             None \<Rightarrow> st
           | Some i \<Rightarrow>
               upd_slot i slot_signalled st)
      | EB_SessionFact k fct \<Rightarrow>
          (case find_session st k of None \<Rightarrow> st | Some i \<Rightarrow> apply_fact st i fct input)
      | EB_Reply k message escalate needs_rework \<Rightarrow>
          (case find_session st k of None \<Rightarrow> st | Some i \<Rightarrow> apply_reply st i message escalate needs_rework)
      | EB_Answer q disp message \<Rightarrow> apply_answer st q disp message
      | EB_Resume s \<Rightarrow>
          (case resume_target st s of None \<Rightarrow> st | Some i \<Rightarrow> upd_slot i fold_resume st)
      | EB_ResumeRun \<Rightarrow> st\<lparr>rs_condition := None, rs_root_periods := 0\<rparr>
      | EB_Withdrawn _ _ \<Rightarrow>
          st\<lparr>rs_withdrawn := True, rs_slots := map fold_withdrawn (rs_slots st)\<rparr>
      | EB_TimerFired timer fire_at \<Rightarrow>
          (let deferred = is_deferred st timer fire_at at;
               armed = map_of (rs_timers st) timer;
               st1 = st\<lparr>rs_timers := bt_remove timer (rs_timers st)\<rparr>
           in case armed of
                Some a \<Rightarrow> if deferred then st1 else apply_firing st1 timer (at_purpose a) input
              | None \<Rightarrow> st1)
      | EB_ClaimBusy _ \<Rightarrow> st
      | EB_ClaimReleased \<Rightarrow> st
      | EB_Decision _ \<Rightarrow> st
      | EB_Unknown _ \<Rightarrow> st)"

definition apply_input :: "run_state \<Rightarrow> event \<Rightarrow> run_state" where
  "apply_input st input =
     (if ignored_reason st input \<noteq> None then st else fold_input st input)"

section \<open>What a fold of an input keeps\<close>

lemma apply_input_ignored [simp]: "ignored_reason st e = Some r \<Longrightarrow> apply_input st e = st"
  by (simp add: apply_input_def)

lemma apply_input_acted: "ignored_reason st e = None \<Longrightarrow> apply_input st e = fold_input st e"
  by (simp add: apply_input_def)

lemma upd_slot_simps [simp]:
  "rs_slots (upd_slot i f st) = update_at i f (rs_slots st)"
  "rs_run (upd_slot i f st) = rs_run st" "rs_def (upd_slot i f st) = rs_def st"
  "rs_seq (upd_slot i f st) = rs_seq st" "rs_phase (upd_slot i f st) = rs_phase st"
  "rs_timers (upd_slot i f st) = rs_timers st" "rs_withdrawn (upd_slot i f st) = rs_withdrawn st"
  "rs_policy (upd_slot i f st) = rs_policy st" "rs_visits (upd_slot i f st) = rs_visits st"
  "rs_passes (upd_slot i f st) = rs_passes st" "rs_questions (upd_slot i f st) = rs_questions st"
  "rs_condition (upd_slot i f st) = rs_condition st"
  "rs_next_order (upd_slot i f st) = rs_next_order st"
  "rs_current_step (upd_slot i f st) = rs_current_step st"
  by (simp_all add: upd_slot_def)

lemma revive_slot [simp]: "sr_slot (revive r) = sr_slot r"
  by (simp add: revive_def Let_def split: slot_state.split)

lemma set_open_call_slot [simp]: "sr_slot (set_open_call v r) = sr_slot r"
  by (simp add: set_open_call_def split: slot_state.split)

lemma apply_ended_slot [simp]: "sr_slot (apply_ended c r) = sr_slot r"
  by (simp add: apply_ended_def Let_def split: end_cause.split)

lemma fold_fact_slot [simp]: "sr_slot (fold_fact at f su fct r) = sr_slot r"
  by (simp add: fold_fact_def Let_def split: session_fact.split slot_state.split heartbeat_kind.split)

lemma fold_resume_slot [simp]: "sr_slot (fold_resume r) = sr_slot r"
  by (simp add: fold_resume_def)

lemma fold_withdrawn_slot [simp]: "sr_slot (fold_withdrawn r) = sr_slot r"
  by (simp add: fold_withdrawn_def)

lemma slot_nudged_slot [simp]: "sr_slot (slot_nudged at r) = sr_slot r"
  by (simp add: slot_nudged_def split: slot_state.split)

lemma slot_signal_slot [simp]:
  "sr_slot (slot_signalled r) = sr_slot r" "sr_slot (slot_grace g r) = sr_slot r"
  by (simp_all add: slot_signalled_def slot_grace_def)

lemma slots_upd_slot:
  "(\<And>r. sr_slot (f r) = sr_slot r) \<Longrightarrow> map sr_slot (rs_slots (upd_slot i f st)) = map sr_slot (rs_slots st)"
  by (simp add: map_update_at)

lemma slots_upd_timer_slot:
  "(\<And>r. sr_slot (f r) = sr_slot r) \<Longrightarrow> map sr_slot (rs_slots (upd_timer_slot t f st)) = map sr_slot (rs_slots st)"
  by (simp add: upd_timer_slot_def map_update_at split: option.split)

lemma slots_apply_firing: "map sr_slot (rs_slots (apply_firing st t p e)) = map sr_slot (rs_slots st)"
  by (simp add: apply_firing_def Let_def slots_upd_timer_slot split: timer_purpose.split)

lemma slots_apply_answer: "rs_slots (apply_answer st q d m) = rs_slots st"
  by (simp add: apply_answer_def Let_def split: option.split)

text \<open>No input adds, removes or renames a slot, so an index found before the fold names the same slot
  after it.\<close>

lemma slots_fold_input: "map sr_slot (rs_slots (fold_input st e)) = map sr_slot (rs_slots st)"
  unfolding fold_input_def Let_def
  by (auto simp: slots_apply_firing slots_apply_answer apply_fact_def apply_reply_def Let_def
      map_update_at comp_def split: event_body.splits option.splits slot_state.splits)

lemma slots_apply_input: "map sr_slot (rs_slots (apply_input st e)) = map sr_slot (rs_slots st)"
  by (simp add: apply_input_def slots_fold_input)

lemma length_slots_apply_input [simp]: "length (rs_slots (apply_input st e)) = length (rs_slots st)"
  using slots_apply_input by (metis length_map)

end
