(* ===== verification/Fold_Evolve.thy ===== *)
theory Fold_Evolve
  imports Fold_Input
begin

text \<open>
  \<open>evolve\<close> applies any event, \<open>apply_decision\<close> what a decision does to state:
  \<^verbatim>\<open>crates/run-engine/src/evolve.rs\<close>. A replay is the fold of \<open>evolve\<close> over the log; an unknown
  decision stops it with the error \<open>unknown_decision\<close>.
\<close>

record unknown_decision =
  ud_kind :: string
  ud_seq :: seq

section \<open>The turn a slot starts with\<close>

definition part :: "turn_kind \<Rightarrow> message_id option \<Rightarrow> turn_part" where
  "part kind message = \<lparr> tp_kind = kind, tp_message = message \<rparr>"

definition reply_part :: "verdict_ref \<Rightarrow> turn_part" where
  "reply_part v = part (TK_Reply (vr_step v) (vr_member v)) (Some (vr_message v))"

definition declared_inputs :: "run_state \<Rightarrow> string \<Rightarrow> step_id list" where
  "declared_inputs st step =
     (case Option.bind (flow_step (rs_def st) step) sd_input of
        Some declared \<Rightarrow> declared
      | None \<Rightarrow>
          (case position (\<lambda>s. sd_id s = step) (fd_steps (rs_def st)) of
             Some (Suc n) \<Rightarrow> [sd_id (fd_steps (rs_def st) ! n)]
           | _ \<Rightarrow> []))"

definition synthesis_turn :: "run_state \<Rightarrow> string \<Rightarrow> nat \<Rightarrow> turn_part list" where
  "synthesis_turn st step visit =
     (let members = (case flow_step (rs_def st) step of Some s \<Rightarrow> sd_members s | None \<Rightarrow> []) in
      filter_map
        (\<lambda>r. case sr_state r of
           SS_Replied message _ _ _ _ _ \<Rightarrow>
             Some (part (TK_Reply step (sl_member (sr_slot r))) (Some message))
         | _ \<Rightarrow> None)
        (filter_map (\<lambda>member. latest st step visit member) members) @
      [part TK_Task None, part TK_Obligation None])"

definition first_turn ::
  "run_state \<Rightarrow> string \<Rightarrow> string \<Rightarrow> nat \<Rightarrow> start_cause option \<Rightarrow> turn_part list" where
  "first_turn st step member visit cause =
     (if member = SYNTH then synthesis_turn st step visit
      else
        [part TK_Root (rs_root_message st)] @
        (case cause of
           Some (CA_Rework v) \<Rightarrow> [reply_part v]
         | Some (CA_Accept answer v) \<Rightarrow> [part TK_Answer (Some answer), reply_part v]
         | _ \<Rightarrow> map reply_part (filter_map (verdict_of st) (declared_inputs st step))) @
        (if is_some_and (flow_step (rs_def st) step) (\<lambda>s. sd_task s \<noteq> None) then [part TK_Task None] else []) @
        [part TK_Obligation None])"

section \<open>The record of an attempt\<close>

definition next_attempt ::
  "slot_record \<Rightarrow> slot_record \<Rightarrow> start_cause option \<Rightarrow> bool \<Rightarrow> slot_record" where
  "next_attempt r0 prior cause declared_resume =
     (let r = r0\<lparr>sr_base_turn := sr_base_turn prior, sr_restarts := sr_restarts prior,
                 sr_holds := sr_holds prior, sr_reminded := sr_reminded prior\<rparr>;
          plain = r\<lparr>sr_turn := sr_base_turn r, sr_resume := declared_resume, sr_restarts := sr_restarts r + 1\<rparr>;
          r1 = (case cause of
                  Some (CA_Answer message) \<Rightarrow>
                    r\<lparr>sr_turn := [part TK_Answer (Some message), part TK_Obligation None], sr_resume := True\<rparr>
                | _ \<Rightarrow>
                    (case sr_state prior of
                       SS_Ended ec \<Rightarrow>
                         if is_hold ec then r\<lparr>sr_turn := sr_turn prior, sr_resume := True\<rparr>
                         else if ec = EC_TurnComplete \<and> \<not> sr_reminded prior then
                           r\<lparr>sr_turn := [part TK_Reminder None, part TK_Obligation None],
                             sr_resume := True, sr_reminded := True, sr_restarts := sr_restarts r + 1\<rparr>
                         else plain
                     | _ \<Rightarrow> plain))
      in if sr_fresh prior then r1\<lparr>sr_restarts := 0, sr_holds := 0, sr_reminded := False\<rparr> else r1)"

definition blank_record :: "slot \<Rightarrow> bool \<Rightarrow> slot_record" where
  "blank_record s resume =
     \<lparr> sr_slot = s, sr_state = SS_Pending, sr_created_at = from_unix_millis 0, sr_resume = resume,
       sr_turn = [], sr_base_turn = [], sr_restarts = 0, sr_holds = 0, sr_reminded = False,
       sr_condition = None, sr_fresh = False, sr_blind = False, sr_sampling = False,
       sr_backend_session = None, sr_last_fact = None, sr_pids = [], sr_refused = None \<rparr>"

definition new_record ::
  "run_state \<Rightarrow> step_id \<Rightarrow> nat \<Rightarrow> nat \<Rightarrow> handle \<Rightarrow> start_cause option \<Rightarrow> slot_record" where
  "new_record st step visit attempt member cause =
     (let declared_resume = (member \<noteq> SYNTH \<and> is_some_and (flow_step (rs_def st) step) sd_resume);
          r = blank_record \<lparr> sl_step = step, sl_visit = visit, sl_member = member, sl_attempt = attempt \<rparr>
                declared_resume
      in case latest st step visit member of
           None \<Rightarrow>
             (let turn = first_turn st step member visit cause in
              r\<lparr>sr_base_turn := turn, sr_turn := turn\<rparr>)
         | Some prior \<Rightarrow> next_attempt r prior cause declared_resume)"

fun push_records ::
  "run_state \<Rightarrow> step_id \<Rightarrow> nat \<Rightarrow> nat \<Rightarrow> start_cause option \<Rightarrow> timestamp \<Rightarrow> handle list \<Rightarrow> run_state" where
  "push_records st step visit attempt cause at [] = st"
| "push_records st step visit attempt cause at (member # members) =
     push_records
       (st\<lparr>rs_slots := rs_slots st @ [(new_record st step visit attempt member cause)\<lparr>sr_created_at := at\<rparr>]\<rparr>)
       step visit attempt cause at members"

definition apply_step_started ::
  "run_state \<Rightarrow> step_id \<Rightarrow> nat \<Rightarrow> nat \<Rightarrow> handle list \<Rightarrow> timestamp \<Rightarrow> run_state" where
  "apply_step_started st step visit attempt members at =
     (let st1 = st\<lparr>rs_phase := (case rs_phase st of
                                PH_Queued _ \<Rightarrow> PH_Running TPH_Unprepared
                              | PH_Created \<Rightarrow> PH_Running TPH_Unprepared
                              | ph \<Rightarrow> ph),
                   rs_visits := bt_insert step visit (rs_visits st),
                   rs_current_step := Some step,
                   rs_pending_start := None\<rparr>
      in push_records st1 step visit attempt (rs_pending_start st) at members)"

section \<open>Decisions\<close>

definition upd_record :: "slot \<Rightarrow> (slot_record \<Rightarrow> slot_record) \<Rightarrow> run_state \<Rightarrow> run_state" where
  "upd_record s f st = (case find_slot st s of None \<Rightarrow> st | Some i \<Rightarrow> upd_slot i f st)"

text \<open>Arming the start deadline is what takes a waiting slot to \<open>Starting\<close>.\<close>

definition slot_starting :: "timestamp \<Rightarrow> slot_record \<Rightarrow> slot_record" where
  "slot_starting deadline r =
     (case sr_state r of
        SS_Pending \<Rightarrow> r\<lparr>sr_state := SS_Starting deadline\<rparr>
      | SS_Starting _ \<Rightarrow> r\<lparr>sr_state := SS_Starting deadline\<rparr>
      | _ \<Rightarrow> r)"

definition arm_start :: "run_state \<Rightarrow> string \<Rightarrow> timestamp \<Rightarrow> run_state" where
  "arm_start st timer deadline =
     (case timer_slot timer of
        None \<Rightarrow> st
      | Some s \<Rightarrow>
          upd_record s (slot_starting deadline) st)"

definition apply_liveness :: "run_state \<Rightarrow> slot \<Rightarrow> reason_code \<Rightarrow> timestamp \<Rightarrow> run_state" where
  "apply_liveness st s reason since =
     upd_record s
       (\<lambda>r. let open_call = (case sr_state r of
                               SS_Running _ oc \<Rightarrow> oc
                             | SS_Nudged _ oc \<Rightarrow> oc
                             | _ \<Rightarrow> None)
            in r\<lparr>sr_state :=
                 (if reason = RC_Quiet then SS_Quiet since open_call
                  else SS_Stopping (ladder_new since (rs_withdrawn st)) (AS_Restart reason))\<rparr>) st"

definition finish_slot :: "timestamp \<Rightarrow> bool \<Rightarrow> slot_record \<Rightarrow> slot_record" where
  "finish_slot at forced r =
     r\<lparr>sr_condition := None,
       sr_state :=
         (case sr_state r of
            SS_Pending \<Rightarrow> SS_Ended EC_StoppedByHost
          | SS_Starting _ \<Rightarrow> SS_Stopping (ladder_new at forced) AS_Nothing
          | SS_Running _ _ \<Rightarrow> SS_Stopping (ladder_new at forced) AS_Nothing
          | SS_Quiet _ _ \<Rightarrow> SS_Stopping (ladder_new at forced) AS_Nothing
          | SS_Nudged _ _ \<Rightarrow> SS_Stopping (ladder_new at forced) AS_Nothing
          | SS_Stopping l _ \<Rightarrow> SS_Stopping l AS_Nothing
          | other \<Rightarrow> other)\<rparr>"

definition apply_finishing ::
  "run_state \<Rightarrow> outcome \<Rightarrow> reason_code option \<Rightarrow> timestamp \<Rightarrow> run_state" where
  "apply_finishing st oc reason at =
     st\<lparr>rs_phase := PH_Finishing oc reason PP_Unparked,
        rs_condition := None,
        rs_tree_cancel_owed := False,
        rs_slots := map (finish_slot at (rs_withdrawn st)) (rs_slots st)\<rparr>"

definition push_question :: "run_state \<Rightarrow> key \<Rightarrow> asked \<Rightarrow> timestamp \<Rightarrow> run_state" where
  "push_question st q_id a since =
     st\<lparr>rs_questions := rs_questions st @
          [\<lparr> qu_id = q_id, qu_asked = a, qu_since = since, qu_answered = False \<rparr>]\<rparr>"

fun apply_decision :: "run_state \<Rightarrow> decision \<Rightarrow> timestamp \<Rightarrow> run_state" where
  "apply_decision st DE_RootRequested at = st"
| "apply_decision st DE_WithdrawForced at = st"
| "apply_decision st (DE_Ignored _ _) at = st"
| "apply_decision st DE_ClaimRequested at = st\<lparr>rs_phase := PH_Queued None\<rparr>"
| "apply_decision st (DE_RunQueued behind) at =
     st\<lparr>rs_phase := PH_Queued behind, rs_claim_changes := rs_claim_changes st + 1\<rparr>"
| "apply_decision st (DE_StepStarted step visit attempt members) at =
     apply_step_started st step visit attempt members at"
| "apply_decision st (DE_StepFinished step visit oc) at =
     st\<lparr>rs_finished_steps := rs_finished_steps st @
          [\<lparr> fs_step = step, fs_visit = visit, fs_outcome = oc, fs_at = at \<rparr>]\<rparr>"
| "apply_decision st (DE_Rework from to declaring pass) at =
     (let st1 = st\<lparr>rs_passes := bt_insert declaring pass (rs_passes st)\<rparr>
      in st1\<lparr>rs_pending_start := map_option CA_Rework (verdict_of st1 from)\<rparr>)"
| "apply_decision st (DE_Escalated q s message) at = push_question st q (AK_Escalation s message) at"
| "apply_decision st (DE_Ceiling q step pass verdict) at = push_question st q (AK_Ceiling step pass verdict) at"
| "apply_decision st (DE_TimerSet timer fire_at purpose) at =
     (let st1 = st\<lparr>rs_timers := bt_insert timer \<lparr> at_fire_at = fire_at, at_purpose = purpose \<rparr> (rs_timers st)\<rparr>
      in if purpose = TP_StartDeadline then arm_start st1 timer fire_at else st1)"
| "apply_decision st (DE_TimerCleared timer) at = st\<lparr>rs_timers := bt_remove timer (rs_timers st)\<rparr>"
| "apply_decision st (DE_Liveness s reason since) at = apply_liveness st s reason since"
| "apply_decision st (DE_Held s reason until resets_at) at =
     (let ord = rs_next_order st + 1; st1 = st\<lparr>rs_next_order := ord\<rparr>
      in upd_record s
           (\<lambda>r. r\<lparr>sr_holds := (if resets_at = None then sr_holds r + 1 else sr_holds r),
                  sr_condition := Some (SC_Held reason until ord)\<rparr>) st1)"
| "apply_decision st (DE_Parked (Some s) reason) at =
     (let ord = rs_next_order st + 1; st1 = st\<lparr>rs_next_order := ord\<rparr>
      in upd_record s (\<lambda>r. r\<lparr>sr_condition := Some (SC_Parked reason ord at)\<rparr>) st1)"
| "apply_decision st (DE_Parked None reason) at =
     (let ord = rs_next_order st + 1
      in st\<lparr>rs_next_order := ord,
            rs_condition := Some \<lparr> cn_reason = reason, cn_order = ord, cn_since = at \<rparr>\<rparr>)"
| "apply_decision st (DE_Finishing oc reason) at = apply_finishing st oc reason at"
| "apply_decision st (DE_Finished oc reason) at = st\<lparr>rs_phase := PH_Finished oc reason, rs_timers := []\<rparr>"

definition evolve :: "run_state \<Rightarrow> event \<Rightarrow> unknown_decision + run_state" where
  "evolve st e =
     (if is_unknown_decision e then Inl \<lparr> ud_kind = body_kind (ev_body e), ud_seq = ev_seq e \<rparr>
      else case ev_body e of
        EB_Decision d \<Rightarrow> Inr ((apply_decision st d (ev_at e))\<lparr>rs_seq := ev_seq e\<rparr>)
      | _ \<Rightarrow> Inr ((apply_input st e)\<lparr>rs_seq := ev_seq e\<rparr>))"

text \<open>A replay: \<^verbatim>\<open>fold(evolve, initial, log)\<close>, stopping at the first error.\<close>

fun replay :: "run_state \<Rightarrow> event list \<Rightarrow> unknown_decision + run_state" where
  "replay st [] = Inr st"
| "replay st (e # es) = (case evolve st e of Inl u \<Rightarrow> Inl u | Inr st' \<Rightarrow> replay st' es)"

lemma replay_append: "replay st (es @ fs) = (case replay st es of Inl u \<Rightarrow> Inl u | Inr st' \<Rightarrow> replay st' fs)"
  by (induction es arbitrary: st) (auto split: sum.splits)

end
