(* ===== verification/Decide.thy ===== *)
theory Decide
  imports Fold_Evolve
begin

text \<open>
  \<open>decide\<close> chooses every transition: \<^verbatim>\<open>crates/run-engine/src/decide.rs\<close> with its parts
  \<^verbatim>\<open>decide/route.rs\<close> (where a run goes when a step is done), \<^verbatim>\<open>decide/session.rs\<close> (what a
  session's facts and replies lead to) and \<^verbatim>\<open>decide/timers.rs\<close> (a timer fired). The list being
  written and the state it has reached are the record \<open>emit\<close>; every method of \<^verbatim>\<open>Emit\<close> is a
  function on it, and \<open>push\<close> folds each decision as it is emitted. A method that indexes the slots
  does so with an index found in them.
\<close>

record emit =
  em_before :: run_state
  em_state :: run_state
  em_at :: timestamp
  em_def :: flow_def
  em_out :: "decision list"

section \<open>Writing decisions and timers\<close>

definition push :: "decision \<Rightarrow> emit \<Rightarrow> emit" where
  "push d em = em\<lparr>em_state := apply_decision (em_state em) d (em_at em), em_out := em_out em @ [d]\<rparr>"

definition set_timer_at :: "string \<Rightarrow> timestamp \<Rightarrow> timer_purpose \<Rightarrow> emit \<Rightarrow> emit" where
  "set_timer_at timer fire_at purpose em = push (DE_TimerSet timer fire_at purpose) em"

definition set_timer :: "string \<Rightarrow> secs \<Rightarrow> timer_purpose \<Rightarrow> emit \<Rightarrow> emit" where
  "set_timer timer span purpose em = set_timer_at timer (ts_plus (em_at em) span) purpose em"

definition set_slot_timer :: "slot \<Rightarrow> secs \<Rightarrow> timer_purpose \<Rightarrow> emit \<Rightarrow> emit" where
  "set_slot_timer s span purpose em = set_timer (slot_timer purpose s) span purpose em"

definition clear_timer :: "string \<Rightarrow> emit \<Rightarrow> emit" where
  "clear_timer timer em =
     (if map_of (rs_timers (em_state em)) timer \<noteq> None then push (DE_TimerCleared timer) em else em)"

definition clear_slot_timer :: "slot \<Rightarrow> timer_purpose \<Rightarrow> emit \<Rightarrow> emit" where
  "clear_slot_timer s purpose em = clear_timer (slot_timer purpose s) em"

definition clear_slot_timers :: "slot \<Rightarrow> emit \<Rightarrow> emit" where
  "clear_slot_timers s em =
     fold clear_timer
       (filter (\<lambda>t. ends_with t (''/'' @ slot_suffix s)) (bt_keys (rs_timers (em_state em)))) em"

definition set_tree_window :: "emit \<Rightarrow> emit" where
  "set_tree_window em =
     set_timer TREE_WINDOW_TIMER (lp_tree_window (rs_policy (em_state em))) TP_TreeWindow em"

definition set_root_deadline :: "emit \<Rightarrow> emit" where
  "set_root_deadline em =
     set_timer ROOT_DEADLINE_TIMER (lp_root_deadline (rs_policy (em_state em))) TP_RootDeadline em"

section \<open>Routing\<close>

definition arm_ready_slot :: "secs \<Rightarrow> slot \<Rightarrow> emit \<Rightarrow> emit" where
  "arm_ready_slot span s em =
     (if \<not> persona_is_live (em_state em) (sl_member s) then set_slot_timer s span TP_StartDeadline em else em)"

definition arm_ready :: "emit \<Rightarrow> emit" where
  "arm_ready em =
     (if \<not> tree_prepared (em_state em) then em
      else
        (let span = lp_start_deadline (rs_policy (em_state em));
             waiting = map sr_slot (filter (\<lambda>r. sr_state r = SS_Pending) (rs_slots (em_state em)))
         in fold (arm_ready_slot span) waiting em))"

definition start_step :: "string \<Rightarrow> emit \<Rightarrow> emit" where
  "start_step step em =
     (case flow_step (em_def em) step of
        None \<Rightarrow> em
      | Some d \<Rightarrow>
          (let visit = (case map_of (rs_visits (em_state em)) step of Some v \<Rightarrow> v | None \<Rightarrow> 0) + 1
           in arm_ready (push (DE_StepStarted step visit 1 (sd_members d)) em)))"

definition restart :: "slot \<Rightarrow> emit \<Rightarrow> emit" where
  "restart s em =
     arm_ready (push (DE_StepStarted (sl_step s) (sl_visit s) (sl_attempt s + 1) [sl_member s]) em)"

definition member_verdict :: "slot_record \<Rightarrow> bool option" where
  "member_verdict r =
     (case sr_state r of SS_Replied _ False needs_rework _ _ _ \<Rightarrow> Some needs_rework | _ \<Rightarrow> None)"

definition ceiling_key :: "run_id \<Rightarrow> string \<Rightarrow> nat \<Rightarrow> nat \<Rightarrow> key" where
  "ceiling_key run step visit pass =
     ''ceiling/'' @ run @ ''/'' @ step @ ''/v'' @ show_nat visit @ ''/p'' @ show_nat pass"

definition rework :: "string \<Rightarrow> string \<Rightarrow> nat \<Rightarrow> emit \<Rightarrow> emit" where
  "rework from to pass em = start_step to (push (DE_Rework from to from pass) em)"

definition emit_ceiling :: "string \<Rightarrow> nat \<Rightarrow> nat \<Rightarrow> emit \<Rightarrow> emit" where
  "emit_ceiling step visit pass em =
     (case verdict_of (em_state em) step of
        None \<Rightarrow> em
      | Some v \<Rightarrow>
          push (DE_Ceiling (ceiling_key (rs_run (em_state em)) step visit pass) step pass (vr_message v)) em)"

definition finish_run :: "outcome \<Rightarrow> reason_code \<Rightarrow> emit \<Rightarrow> emit" where
  "finish_run oc reason em0 =
     (let em = push (DE_Finishing oc (Some reason)) em0;
          over = map fst (filter (\<lambda>(_, armed). at_purpose armed \<noteq> TP_StopGrace \<and> at_purpose armed \<noteq> TP_WindDown)
                            (rs_timers (em_state em)))
      in fold clear_timer over em)"

definition finish_step :: "string \<Rightarrow> nat \<Rightarrow> bool \<Rightarrow> emit \<Rightarrow> emit" where
  "finish_step step visit needs_rework em0 =
     (let em = push (DE_StepFinished step visit (if needs_rework then SO_NeedsRework else SO_Pass)) em0 in
      case flow_step (em_def em) step of
        None \<Rightarrow> em
      | Some d \<Rightarrow>
          (case (needs_rework, sd_on_needs_rework d) of
             (True, Some to) \<Rightarrow>
               (let pass = pass_of (em_state em) step + 1 in
                if pass \<le> sd_max_passes d then rework step to pass em
                else emit_ceiling step visit pass em)
           | _ \<Rightarrow>
               (case sd_next d of
                  Some nx \<Rightarrow> start_step nx em
                | None \<Rightarrow> finish_run OU_Delivered RC_Delivered em)))"

definition after_reply :: "slot \<Rightarrow> emit \<Rightarrow> emit" where
  "after_reply s em =
     (let step = sl_step s; visit = sl_visit s in
      if rs_current_step (em_state em) \<noteq> Some step \<or> map_of (rs_visits (em_state em)) step \<noteq> Some visit then em
      else case flow_step (em_def em) step of
        None \<Rightarrow> em
      | Some d \<Rightarrow>
          (case collect_opt
                  (map (\<lambda>member. Option.bind (latest (em_state em) step visit member) member_verdict)
                     (sd_members d)) of
             None \<Rightarrow> em
           | Some replies \<Rightarrow>
               (let needs_rework = list_ex (\<lambda>b. b) replies in
                if sd_has_synthesis d then
                  (case latest (em_state em) step visit SYNTH of
                     None \<Rightarrow> arm_ready (push (DE_StepStarted step visit 1 [SYNTH]) em)
                   | Some r \<Rightarrow>
                       (case sr_state r of
                          SS_Replied _ _ _ _ _ _ \<Rightarrow> finish_step step visit needs_rework em
                        | _ \<Rightarrow> em))
                else finish_step step visit needs_rework em)))"

definition one_more_pass :: "string \<Rightarrow> nat \<Rightarrow> emit \<Rightarrow> emit" where
  "one_more_pass step pass em =
     (case Option.bind (flow_step (em_def em) step) sd_on_needs_rework of
        None \<Rightarrow> em
      | Some to \<Rightarrow> rework step to pass em)"

definition accept_ceiling :: "string \<Rightarrow> emit \<Rightarrow> emit" where
  "accept_ceiling step em =
     (case Option.bind (flow_step (em_def em) step) sd_next of
        Some nx \<Rightarrow> start_step nx em
      | None \<Rightarrow> finish_run OU_Accepted RC_AcceptedByRequester em)"

section \<open>Sessions\<close>

definition emit_nudged :: "session_key \<Rightarrow> emit \<Rightarrow> emit" where
  "emit_nudged k em =
     (case find_session (em_state em) k of
        None \<Rightarrow> em
      | Some i \<Rightarrow>
          set_slot_timer (sr_slot (rs_slots (em_state em) ! i))
            (lp_confirm_within (rs_policy (em_state em))) TP_Confirm em)"

definition emit_stop_signalled :: "session_key \<Rightarrow> emit \<Rightarrow> emit" where
  "emit_stop_signalled k em =
     (case find_session (em_state em) k of
        None \<Rightarrow> em
      | Some i \<Rightarrow>
          (let r = rs_slots (em_state em) ! i;
               sent = (case ss_ladder (sr_state r) of None \<Rightarrow> 0 | Some l \<Rightarrow> la_signals_sent l)
           in if sent = 1 \<or> sent = 2
              then set_timer (grace_timer sent (sr_slot r)) (lp_stop_grace (rs_policy (em_state em))) TP_StopGrace em
              else em))"

definition restart_or_park :: "nat \<Rightarrow> slot \<Rightarrow> reason_code \<Rightarrow> emit \<Rightarrow> emit" where
  "restart_or_park i s exhausted em =
     (let attempts = sr_restarts (rs_slots (em_state em) ! i) + 1 in
      if attempts < lp_max_attempts (rs_policy (em_state em)) then restart s em
      else
        (let in_fan_out = (sl_member s \<noteq> SYNTH \<and> is_some_and (flow_step (em_def em) (sl_step s)) sd_is_fan_out)
         in push (DE_Parked (Some s) (if in_fan_out then RC_FanOutIncomplete else exhausted)) em))"

definition hold_until :: "timestamp option \<Rightarrow> emit \<Rightarrow> timestamp" where
  "hold_until resets_at em =
     (let policy = rs_policy (em_state em) in
      case resets_at of
        None \<Rightarrow> ts_plus (em_at em) (lp_hold_retry policy)
      | Some t \<Rightarrow>
          min (max t (ts_plus (em_at em) (lp_hold_retry_min policy)))
              (ts_plus (em_at em) (lp_hold_retry_max policy)))"

definition hold :: "nat \<Rightarrow> slot \<Rightarrow> reason_code \<Rightarrow> timestamp option \<Rightarrow> emit \<Rightarrow> emit" where
  "hold i s reason resets_at em =
     (if resets_at = None \<and> sr_holds (rs_slots (em_state em) ! i) \<ge> lp_max_holds (rs_policy (em_state em))
      then push (DE_Parked (Some s) RC_HoldLimit) em
      else
        (let until = hold_until resets_at em in
         set_timer_at (slot_timer TP_HoldRetry s) until TP_HoldRetry
           (push (DE_Held s reason until resets_at) em)))"

definition emit_ended :: "nat \<Rightarrow> slot \<Rightarrow> slot_state \<Rightarrow> end_cause \<Rightarrow> emit \<Rightarrow> emit" where
  "emit_ended i s was cause em0 =
     (let em = clear_slot_timers s em0 in
      if is_finishing (em_state em) then em
      else case was of
        SS_Replied _ _ _ _ _ _ \<Rightarrow> arm_ready em
      | SS_Stopping _ AS_Nothing \<Rightarrow> arm_ready em
      | SS_Stopping _ (AS_Restart exhausted) \<Rightarrow> restart_or_park i s exhausted em
      | _ \<Rightarrow>
          (case cause of
             EC_TurnComplete \<Rightarrow> restart_or_park i s RC_EndedWithoutReply em
           | EC_Exit _ \<Rightarrow> restart_or_park i s RC_StartFailed em
           | EC_Unknown _ \<Rightarrow> restart_or_park i s RC_StartFailed em
           | EC_Lost \<Rightarrow> restart_or_park i s RC_Lost em
           | EC_UsageLimit resets_at \<Rightarrow> hold i s RC_UsageLimit resets_at em
           | EC_ProviderUnavailable \<Rightarrow> hold i s RC_ProviderUnavailable None em
           | EC_PermissionRefused _ _ \<Rightarrow> push (DE_Parked (Some s) RC_PermissionRefused) em
           | EC_StoppedByHost \<Rightarrow> restart_or_park i s RC_Lost em))"

definition group_lingering :: "slot \<Rightarrow> slot_state \<Rightarrow> emit \<Rightarrow> emit" where
  "group_lingering s was em =
     (case was of
        SS_Stopping _ _ \<Rightarrow> em
      | SS_Replied _ _ _ _ _ _ \<Rightarrow> clear_slot_timer s TP_WindDown em
      | _ \<Rightarrow> (let em = clear_slot_timers s em in push (DE_Liveness s RC_Lost (em_at em)) em))"

definition rearm :: "nat \<Rightarrow> slot \<Rightarrow> bool \<Rightarrow> heartbeat_kind option \<Rightarrow> emit \<Rightarrow> emit" where
  "rearm i s was_quiet beat em0 =
     (let em = (if was_quiet then clear_slot_timer s TP_Confirm em0 else em0);
          r = rs_slots (em_state em) ! i;
          open_now = (case sr_state r of SS_Running _ (Some _) \<Rightarrow> True | _ \<Rightarrow> False);
          blind = sr_blind r; sampling = sr_sampling r;
          policy = rs_policy (em_state em)
      in if \<not> open_now then
           (let em = clear_slot_timer s TP_CallBound (clear_slot_timer s TP_SubprocessIdle em) in
            if was_quiet \<or> beat = Some HB_ModelOutput \<or> beat = Some HB_CallsClosed \<or> beat = Some HB_SubprocessMoved
            then set_slot_timer s (lp_quiet_after policy) TP_Quiet em
            else em)
         else
           (let em = clear_slot_timer s TP_Quiet em;
                em = (if blind then clear_slot_timer s TP_SubprocessIdle em else em);
                em = (if sampling then clear_slot_timer s TP_CallBound em else em);
                opened_or_back = (was_quiet \<or> beat = Some HB_CallsOpen);
                em = (if \<not> blind \<and> (opened_or_back \<or> beat = Some HB_SubprocessMoved)
                      then set_slot_timer s (lp_subprocess_idle policy) TP_SubprocessIdle em else em)
            in if \<not> sampling \<and> (opened_or_back \<or> beat = Some HB_Blind)
               then set_slot_timer s (lp_call_bound policy) TP_CallBound em else em))"

definition emit_fact :: "session_key \<Rightarrow> session_fact \<Rightarrow> emit \<Rightarrow> emit" where
  "emit_fact k fct em =
     (case find_session (em_state em) k of
        None \<Rightarrow> em
      | Some i \<Rightarrow>
          (let was = sr_state (rs_slots (em_before em) ! i);
               s = sr_slot (rs_slots (em_state em) ! i);
               was_quiet = (case was of SS_Quiet _ _ \<Rightarrow> True | SS_Nudged _ _ \<Rightarrow> True | _ \<Rightarrow> False)
           in case fct of
                SF_Started _ _ \<Rightarrow>
                  (case was of
                     SS_Starting _ \<Rightarrow>
                       (let em = clear_slot_timer s TP_StartDeadline em in
                        set_slot_timer s (lp_quiet_after (rs_policy (em_state em))) TP_Quiet em)
                   | _ \<Rightarrow> em)
              | SF_Heartbeat (HB_Unknown _) \<Rightarrow> (if was_quiet then rearm i s True None em else em)
              | SF_Usage _ _ _ _ _ _ \<Rightarrow> (if was_quiet then rearm i s True None em else em)
              | SF_PermissionRefused _ _ \<Rightarrow> (if was_quiet then rearm i s True None em else em)
              | SF_Heartbeat beat \<Rightarrow> rearm i s was_quiet (Some beat) em
              | SF_GroupLingering _ \<Rightarrow> group_lingering s was em
              | SF_Ended cause \<Rightarrow> emit_ended i s was cause em
              | SF_Unknown _ \<Rightarrow> em))"

definition emit_reply :: "session_key \<Rightarrow> emit \<Rightarrow> emit" where
  "emit_reply k em0 =
     (case find_session (em_state em0) k of
        None \<Rightarrow> em0
      | Some i \<Rightarrow>
          (let s = sr_slot (rs_slots (em_state em0) ! i);
               em = clear_slot_timers s em0;
               em = set_slot_timer s (lp_stop_grace (rs_policy (em_state em))) TP_WindDown em;
               em = (case sr_state (rs_slots (em_state em) ! i) of
                       SS_Replied message True _ _ _ _ \<Rightarrow> push (DE_Escalated (''escalated/'' @ k) s message) em
                     | _ \<Rightarrow> em)
           in after_reply s em))"

section \<open>Timers\<close>

definition root_period :: "emit \<Rightarrow> emit" where
  "root_period em =
     (if rs_root_periods (em_state em) \<ge> lp_max_attempts (rs_policy (em_state em))
      then push (DE_Parked None RC_RootFailed) em
      else set_root_deadline em)"

definition conclude :: "slot \<Rightarrow> reason_code \<Rightarrow> emit \<Rightarrow> emit" where
  "conclude s reason em = push (DE_Liveness s reason (em_at em)) em"

definition emit_quiet :: "slot \<Rightarrow> emit \<Rightarrow> emit" where
  "emit_quiet s em =
     (let em = conclude s RC_Quiet em in
      set_slot_timer s (lp_confirm_within (rs_policy (em_state em))) TP_Confirm em)"

definition emit_call_bound :: "slot \<Rightarrow> emit \<Rightarrow> emit" where
  "emit_call_bound s em =
     (if is_some_and (find_slot (em_state em) s) (\<lambda>i. sr_blind (rs_slots (em_state em) ! i))
      then emit_quiet s (clear_slot_timer s TP_SubprocessIdle em)
      else em)"

definition grace_over :: "string \<Rightarrow> slot \<Rightarrow> emit \<Rightarrow> emit" where
  "grace_over timer s em =
     (if grace_nth timer \<noteq> Some 2 then em
      else
        (let forced = is_some_and
               (Option.bind (find_slot (em_state em) s) (\<lambda>i. ss_ladder (sr_state (rs_slots (em_state em) ! i))))
               la_forced
         in if \<not> forced then push (DE_Parked (Some s) RC_WouldNotStop) em else em))"

definition emit_timer_fired :: "string \<Rightarrow> timestamp \<Rightarrow> emit \<Rightarrow> emit" where
  "emit_timer_fired timer fire_at em =
     (case map_of (rs_timers (em_before em)) timer of
        None \<Rightarrow> em
      | Some armed \<Rightarrow>
          if is_deferred (em_before em) timer fire_at (em_at em)
          then set_timer timer (lp_wake_jump (rs_policy (em_state em))) (at_purpose armed) em
          else
            (case at_purpose armed of
               TP_RootDeadline \<Rightarrow> root_period em
             | TP_TreeWindow \<Rightarrow> push (DE_Parked None RC_TreeRefused) em
             | p \<Rightarrow>
                 (case timer_slot timer of
                    None \<Rightarrow> em
                  | Some s \<Rightarrow>
                      (case p of
                         TP_StartDeadline \<Rightarrow> conclude s RC_StartFailed em
                       | TP_Quiet \<Rightarrow> emit_quiet s em
                       | TP_SubprocessIdle \<Rightarrow> emit_quiet s (clear_slot_timer s TP_CallBound em)
                       | TP_CallBound \<Rightarrow> emit_call_bound s em
                       | TP_Confirm \<Rightarrow> conclude s RC_Hung (clear_slot_timers s em)
                       | TP_StopGrace \<Rightarrow> grace_over timer s em
                       | TP_HoldRetry \<Rightarrow> restart s em
                       | _ \<Rightarrow> em))))"

section \<open>The dispatch\<close>

definition emit_finished :: "emit \<Rightarrow> emit" where
  "emit_finished em =
     (case rs_phase (em_state em) of
        PH_Finishing oc reason _ \<Rightarrow> push (DE_Finished oc reason) em
      | _ \<Rightarrow> em)"

definition emit_answer :: "string \<Rightarrow> disposition \<Rightarrow> emit \<Rightarrow> emit" where
  "emit_answer q_id disp em =
     (case List.find (\<lambda>q. qu_id q = q_id) (rs_questions (em_before em)) of
        None \<Rightarrow> em
      | Some q \<Rightarrow>
          (case qu_asked q of
             AK_Escalation s _ \<Rightarrow> restart s em
           | AK_Ceiling step pass _ \<Rightarrow>
               (case disp of
                  DI_Continue \<Rightarrow> one_more_pass step pass em
                | DI_Accept \<Rightarrow> accept_ceiling step em
                | DI_Unknown _ \<Rightarrow> em)))"

definition emit_resume :: "slot option \<Rightarrow> emit \<Rightarrow> emit" where
  "emit_resume so em =
     (case resume_target (em_before em) so of
        None \<Rightarrow> em
      | Some i \<Rightarrow>
          (let r = rs_slots (em_before em) ! i; s = sr_slot r in
           case sr_condition r of
             Some (SC_Held _ _ _) \<Rightarrow> restart s (clear_slot_timer s TP_HoldRetry em)
           | Some (SC_Parked reason _ _) \<Rightarrow> (if reason = RC_WouldNotStop then em else restart s em)
           | None \<Rightarrow> em))"

definition emit_resume_run :: "emit \<Rightarrow> emit" where
  "emit_resume_run em =
     (case rs_condition (em_before em) of
        None \<Rightarrow> em
      | Some c \<Rightarrow>
          (case cn_reason c of
             RC_RootFailed \<Rightarrow> set_root_deadline em
           | RC_TreeRefused \<Rightarrow> set_tree_window em
           | _ \<Rightarrow> em))"

definition withdrawn_reason :: "withdrawn_by \<Rightarrow> reason_code" where
  "withdrawn_reason b =
     (case b of
        WB_Requester \<Rightarrow> RC_WithdrawnByRequester
      | WB_Owner \<Rightarrow> RC_WithdrawnByOwner
      | WB_Unknown raw \<Rightarrow> RC_Unknown raw)"

definition emit_withdrawn :: "withdrawn_by \<Rightarrow> emit \<Rightarrow> emit" where
  "emit_withdrawn b em =
     (if is_finishing (em_before em) then push DE_WithdrawForced em
      else finish_run OU_Withdrawn (withdrawn_reason b) em)"

definition emit_input :: "event \<Rightarrow> emit \<Rightarrow> emit" where
  "emit_input input em =
     (case ev_body input of
        EB_Commissioned _ _ _ _ _ _ _ \<Rightarrow> set_root_deadline (push DE_RootRequested em)
      | EB_RootOpened _ _ \<Rightarrow>
          (if rs_phase (em_state em) = PH_Created
           then push DE_ClaimRequested (clear_timer ROOT_DEADLINE_TIMER em) else em)
      | EB_ClaimTaken \<Rightarrow>
          set_tree_window
            (case fd_steps (em_def em) of [] \<Rightarrow> em | first # _ \<Rightarrow> start_step (sd_id first) em)
      | EB_ClaimBusy holder \<Rightarrow> push (DE_RunQueued (Some holder)) em
      | EB_ClaimReleased \<Rightarrow> emit_finished em
      | EB_TreePrepared _ _ \<Rightarrow> arm_ready (clear_timer TREE_WINDOW_TIMER em)
      | EB_TreeRefused reason \<Rightarrow>
          (if is_permanent reason \<and> rs_condition (em_before em) = None
           then push (DE_Parked None RC_TreeRefused) (clear_timer TREE_WINDOW_TIMER em) else em)
      | EB_TreeParked _ \<Rightarrow> em
      | EB_Delivered _ \<Rightarrow> em
      | EB_Nudged k \<Rightarrow> emit_nudged k em
      | EB_StopSignalled k _ _ \<Rightarrow> emit_stop_signalled k em
      | EB_SessionFact k fct \<Rightarrow> emit_fact k fct em
      | EB_Reply k _ _ _ \<Rightarrow> emit_reply k em
      | EB_Answer q disp _ \<Rightarrow> emit_answer q disp em
      | EB_Resume so \<Rightarrow> emit_resume so em
      | EB_ResumeRun \<Rightarrow> emit_resume_run em
      | EB_Withdrawn _ b \<Rightarrow> emit_withdrawn b em
      | EB_TimerFired timer fire_at \<Rightarrow> emit_timer_fired timer fire_at em
      | EB_Decision _ \<Rightarrow> em
      | EB_Unknown _ \<Rightarrow> em)"

definition emit_start :: "run_state \<Rightarrow> event \<Rightarrow> flow_def \<Rightarrow> emit" where
  "emit_start st input d =
     \<lparr> em_before = st, em_state = apply_input st input, em_at = ev_at input, em_def = d, em_out = [] \<rparr>"

definition decide :: "run_state \<Rightarrow> event \<Rightarrow> flow_def \<Rightarrow> decision list" where
  "decide st input d =
     (case ignored_reason st input of
        Some reason \<Rightarrow> [DE_Ignored (ev_seq input) reason]
      | None \<Rightarrow> em_out (emit_input input (emit_start st input d)))"

definition decision_key :: "string \<Rightarrow> nat \<Rightarrow> decision \<Rightarrow> key" where
  "decision_key input_key index d =
     (case d of
        DE_Escalated question _ _ \<Rightarrow> question
      | DE_Ceiling question _ _ _ \<Rightarrow> question
      | _ \<Rightarrow> input_key @ ''/d'' @ show_nat index)"

end
