(* ===== verification/Emission.thy ===== *)
theory Emission
  imports Decide
begin

text \<open>
  What a method of \<^verbatim>\<open>Emit\<close> may do to the list it writes: the relation \<open>emits\<close> is the
  reflexive transitive closure of \<open>push\<close> with decisions that are \<open>lawful\<close> where they are written.
  One lemma per method of \<^verbatim>\<open>decide.rs\<close> and its parts shows the method only writes that way; the
  relation's consequences (the state is the fold of what was written, the input's instant and the
  definition stay, no decision is one a reader refuses) are proved once.
\<close>

section \<open>Lawful decisions\<close>

definition known_purpose :: "timer_purpose \<Rightarrow> bool" where
  "known_purpose p = (case p of TP_Unknown _ \<Rightarrow> False | _ \<Rightarrow> True)"

definition known_outcome :: "outcome \<Rightarrow> bool" where
  "known_outcome oc = (case oc of OU_Unknown _ \<Rightarrow> False | _ \<Rightarrow> True)"

definition open_run :: "run_state \<Rightarrow> bool" where
  "open_run st \<longleftrightarrow> \<not> is_finishing st \<and> \<not> is_finished st"

definition is_queued :: "run_state \<Rightarrow> bool" where
  "is_queued st = (case rs_phase st of PH_Queued _ \<Rightarrow> True | _ \<Rightarrow> False)"

text \<open>A timer is set for a purpose this version knows, or again for the purpose it was armed for. The claim
  is asked for by a created run and waited for by a queued one. Only an open run finishes a step or starts
  to finish, with a known outcome. An input that is acted on writes no \<open>Ignored\<close>, and \<open>Finished\<close> is
  written by one dispatch alone, which is treated on its own below.\<close>

fun lawful :: "emit \<Rightarrow> decision \<Rightarrow> bool" where
  "lawful em (DE_TimerSet timer _ p) =
     (known_purpose p \<or> map_option at_purpose (map_of (rs_timers (em_before em)) timer) = Some p)"
| "lawful em DE_ClaimRequested = (rs_phase (em_state em) = PH_Created)"
| "lawful em (DE_RunQueued _) = is_queued (em_state em)"
| "lawful em (DE_Finishing oc _) = (known_outcome oc \<and> open_run (em_state em))"
| "lawful em (DE_StepFinished _ _ oc) = ((oc = SO_Pass \<or> oc = SO_NeedsRework) \<and> open_run (em_state em))"
| "lawful em (DE_Finished _ _) = False"
| "lawful em (DE_Ignored _ _) = False"
| "lawful em d = True"

inductive emits :: "emit \<Rightarrow> emit \<Rightarrow> bool" for em where
  emits_refl [simp, intro!]: "emits em em"
| emits_push: "emits em em' \<Longrightarrow> lawful em' d \<Longrightarrow> emits em (push d em')"

lemma push_simps [simp]:
  "em_before (push d em) = em_before em" "em_at (push d em) = em_at em"
  "em_def (push d em) = em_def em" "em_out (push d em) = em_out em @ [d]"
  "em_state (push d em) = apply_decision (em_state em) d (em_at em)"
  by (simp_all add: push_def)

lemma emits_trans:
  assumes "emits em1 em2" "emits em2 em3" shows "emits em1 em3"
  using assms(2,1) by induction (auto intro: emits_push)

lemma emits_frame [dest]:
  assumes "emits em em'"
  shows "em_before em' = em_before em" "em_at em' = em_at em" "em_def em' = em_def em"
  using assms by induction auto

lemma emits_fold:
  assumes "\<And>x e. x \<in> set xs \<Longrightarrow> emits e (f x e)"
  shows "emits em (fold f xs em)"
  using assms
proof (induction xs arbitrary: em)
  case (Cons x xs)
  have "emits em (f x em)" "emits (f x em) (fold f xs (f x em))"
    using Cons by auto
  then show ?case by (auto intro: emits_trans)
qed simp

text \<open>What was written, and that the state is its fold.\<close>

definition fold_decisions :: "timestamp \<Rightarrow> decision list \<Rightarrow> run_state \<Rightarrow> run_state" where
  "fold_decisions at ds st = fold (\<lambda>d s. apply_decision s d at) ds st"

lemma fold_decisions_simps [simp]:
  "fold_decisions at [] st = st"
  "fold_decisions at (d # ds) st = fold_decisions at ds (apply_decision st d at)"
  "fold_decisions at (ds @ es) st = fold_decisions at es (fold_decisions at ds st)"
  by (simp_all add: fold_decisions_def)

lemma emits_written:
  assumes "emits em em'"
  shows "\<exists>ds. em_out em' = em_out em @ ds \<and> em_state em' = fold_decisions (em_at em) ds (em_state em)"
  using assms
proof induction
  case (emits_push em' d)
  then obtain ds where "em_out em' = em_out em @ ds" "em_state em' = fold_decisions (em_at em) ds (em_state em)"
    by blast
  with emits_push.hyps(1) show ?case
    by (intro exI [of _ "ds @ [d]"]) auto
qed simp

section \<open>Every method writes lawfully\<close>

text \<open>Each lemma extends a list written so far, so that a method's body is discharged by following its
  calls outwards.\<close>

named_theorems emit_intros

declare emits_push [emit_intros]

lemma emits_fold_from [emit_intros]:
  assumes "emits em0 em" "\<And>x e0 e. emits e0 e \<Longrightarrow> emits e0 (f x e)"
  shows "emits em0 (fold f xs em)"
  using assms emits_fold [of xs f em] by (blast intro: emits_trans)

lemma emits_set_timer_at [emit_intros]:
  "emits em0 em \<Longrightarrow> known_purpose p \<Longrightarrow> emits em0 (set_timer_at t f p em)"
  by (simp add: set_timer_at_def emit_intros)

lemma emits_set_timer [emit_intros]: "emits em0 em \<Longrightarrow> known_purpose p \<Longrightarrow> emits em0 (set_timer t f p em)"
  by (simp add: set_timer_def emit_intros)

lemma emits_set_slot_timer [emit_intros]:
  "emits em0 em \<Longrightarrow> known_purpose p \<Longrightarrow> emits em0 (set_slot_timer s f p em)"
  by (simp add: set_slot_timer_def emit_intros)

lemma emits_clear_timer [emit_intros]: "emits em0 em \<Longrightarrow> emits em0 (clear_timer t em)"
  by (simp add: clear_timer_def emit_intros)

lemma emits_clear_slot_timer [emit_intros]: "emits em0 em \<Longrightarrow> emits em0 (clear_slot_timer s p em)"
  by (simp add: clear_slot_timer_def emit_intros)

lemma emits_clear_slot_timers [emit_intros]: "emits em0 em \<Longrightarrow> emits em0 (clear_slot_timers s em)"
  by (simp add: clear_slot_timers_def emit_intros)

lemma known_purpose_simps [simp]:
  "known_purpose TP_StartDeadline" "known_purpose TP_Quiet" "known_purpose TP_Confirm"
  "known_purpose TP_CallBound" "known_purpose TP_SubprocessIdle" "known_purpose TP_StopGrace"
  "known_purpose TP_WindDown" "known_purpose TP_HoldRetry" "known_purpose TP_TreeWindow"
  "known_purpose TP_RootDeadline" "\<not> known_purpose (TP_Unknown r)"
  by (simp_all add: known_purpose_def)

text \<open>Setting and clearing timers leaves the phase alone.\<close>

lemma phase_upd_record [simp]: "rs_phase (upd_record s f st) = rs_phase st"
  by (simp add: upd_record_def split: option.split)

lemma phase_arm_start [simp]: "rs_phase (arm_start st t a) = rs_phase st"
  by (simp add: arm_start_def split: option.split)

lemma phase_timers [simp, frame_simps]:
  "rs_phase (em_state (set_timer_at t f p em)) = rs_phase (em_state em)"
  "rs_phase (em_state (set_timer t n p em)) = rs_phase (em_state em)"
  "rs_phase (em_state (set_slot_timer s n p em)) = rs_phase (em_state em)"
  "rs_phase (em_state (clear_timer t em)) = rs_phase (em_state em)"
  "rs_phase (em_state (clear_slot_timer s p em)) = rs_phase (em_state em)"
  by (simp_all add: set_timer_at_def set_timer_def set_slot_timer_def clear_timer_def clear_slot_timer_def
      Let_def)

lemma phase_clear_fold [simp]: "rs_phase (em_state (fold clear_timer ts em)) = rs_phase (em_state em)"
  by (induction ts arbitrary: em) simp_all

lemma phase_clear_slot_timers [simp, frame_simps]: "rs_phase (em_state (clear_slot_timers s em)) = rs_phase (em_state em)"
  by (simp add: clear_slot_timers_def)

lemma open_run_cong: "rs_phase st' = rs_phase st \<Longrightarrow> open_run st' = open_run st"
  by (simp add: open_run_def is_finishing_def is_finished_def)

lemma emits_run_timers [emit_intros]:
  "emits em0 em \<Longrightarrow> emits em0 (set_tree_window em)" "emits em0 em \<Longrightarrow> emits em0 (set_root_deadline em)"
  by (simp_all add: set_tree_window_def set_root_deadline_def emit_intros)

lemma emits_arm_ready [emit_intros]: "emits em0 em \<Longrightarrow> emits em0 (arm_ready em)"
  by (simp add: arm_ready_def arm_ready_slot_def Let_def emit_intros)

lemma emits_start_step [emit_intros]: "emits em0 em \<Longrightarrow> emits em0 (start_step s em)"
  by (simp add: start_step_def Let_def emit_intros split: option.split)

lemma emits_restart [emit_intros]: "emits em0 em \<Longrightarrow> emits em0 (restart s em)"
  by (simp add: restart_def emit_intros)

lemma emits_rework [emit_intros]: "emits em0 em \<Longrightarrow> emits em0 (rework f t p em)"
  by (simp add: rework_def emit_intros)

lemma emits_ceiling [emit_intros]: "emits em0 em \<Longrightarrow> emits em0 (emit_ceiling s v p em)"
  by (simp add: emit_ceiling_def emit_intros split: option.split)

lemma emits_finish_run [emit_intros]:
  "emits em0 em \<Longrightarrow> known_outcome oc \<Longrightarrow> open_run (em_state em) \<Longrightarrow> emits em0 (finish_run oc r em)"
  unfolding finish_run_def Let_def by (intro emit_intros) auto

lemma known_outcome_simps [simp]:
  "known_outcome OU_Delivered" "known_outcome OU_Accepted" "known_outcome OU_Withdrawn" "known_outcome OU_Failed"
  "\<not> known_outcome (OU_Unknown r)"
  by (simp_all add: known_outcome_def)

lemma emits_finish_step [emit_intros]:
  assumes "emits em0 em" "open_run (em_state em)"
  shows "emits em0 (finish_step s v n em)"
proof -
  have "open_run (apply_decision (em_state em) (DE_StepFinished s v oc) (em_at em))" for oc
    using assms(2) by (simp add: open_run_def is_finishing_def is_finished_def)
  with assms show ?thesis
    by (simp add: finish_step_def Let_def emit_intros split: option.split bool.split)
qed

lemma emits_after_reply [emit_intros]:
  "emits em0 em \<Longrightarrow> open_run (em_state em) \<Longrightarrow> emits em0 (after_reply s em)"
  by (simp add: after_reply_def Let_def emit_intros split: option.split slot_state.split)

lemma emits_ceiling_answer [emit_intros]:
  "emits em0 em \<Longrightarrow> emits em0 (one_more_pass s p em)"
  "emits em0 em \<Longrightarrow> open_run (em_state em) \<Longrightarrow> emits em0 (accept_ceiling s em)"
  by (simp_all add: one_more_pass_def accept_ceiling_def emit_intros split: option.split)

lemma emits_nudged [emit_intros]: "emits em0 em \<Longrightarrow> emits em0 (emit_nudged k em)"
  by (simp add: emit_nudged_def emit_intros split: option.split)

lemma emits_stop_signalled [emit_intros]: "emits em0 em \<Longrightarrow> emits em0 (emit_stop_signalled k em)"
  by (simp add: emit_stop_signalled_def Let_def emit_intros split: option.split)

lemma emits_restart_or_park [emit_intros]: "emits em0 em \<Longrightarrow> emits em0 (restart_or_park i s r em)"
  by (simp add: restart_or_park_def Let_def emit_intros)

lemma emits_hold [emit_intros]: "emits em0 em \<Longrightarrow> emits em0 (hold i s r t em)"
  by (simp add: hold_def Let_def emit_intros)

lemma emits_ended [emit_intros]: "emits em0 em \<Longrightarrow> emits em0 (emit_ended i s w c em)"
  by (simp add: emit_ended_def Let_def emit_intros split: slot_state.split after_stop.split end_cause.split)

lemma emits_group_lingering [emit_intros]: "emits em0 em \<Longrightarrow> emits em0 (group_lingering s w em)"
  by (simp add: group_lingering_def Let_def emit_intros split: slot_state.split)

lemma emits_rearm [emit_intros]: "emits em0 em \<Longrightarrow> emits em0 (rearm i s q b em)"
  unfolding rearm_def Let_def by (auto intro!: emit_intros)

lemma emits_fact [emit_intros]: "emits em0 em \<Longrightarrow> emits em0 (emit_fact k f em)"
  by (simp add: emit_fact_def Let_def emit_intros split: option.split session_fact.split slot_state.split heartbeat_kind.split)

lemma emits_reply [emit_intros]:
  "emits em0 em \<Longrightarrow> open_run (em_state em) \<Longrightarrow> emits em0 (emit_reply k em)"
  by (auto simp: emit_reply_def Let_def push_question_def open_run_def is_finishing_def is_finished_def
      intro!: emit_intros split: option.split slot_state.split bool.split)

lemma emits_quiet [emit_intros]: "emits em0 em \<Longrightarrow> emits em0 (emit_quiet s em)"
  by (simp add: emit_quiet_def conclude_def Let_def emit_intros)

lemma emits_conclude [emit_intros]: "emits em0 em \<Longrightarrow> emits em0 (conclude s r em)"
  by (simp add: conclude_def emit_intros)

lemma emits_firings [emit_intros]:
  "emits em0 em \<Longrightarrow> emits em0 (root_period em)" "emits em0 em \<Longrightarrow> emits em0 (emit_call_bound s em)"
  "emits em0 em \<Longrightarrow> emits em0 (grace_over t s em)"
  by (simp_all add: root_period_def emit_call_bound_def grace_over_def Let_def emit_intros)

lemma emits_timer_fired [emit_intros]: "emits em0 em \<Longrightarrow> emits em0 (emit_timer_fired t f em)"
  by (auto simp: emit_timer_fired_def set_timer_def set_timer_at_def intro!: emit_intros
      split: option.split timer_purpose.split)

lemma emits_answer [emit_intros]:
  "emits em0 em \<Longrightarrow> open_run (em_state em) \<Longrightarrow> emits em0 (emit_answer q d em)"
  by (simp add: emit_answer_def emit_intros split: option.split asked.split disposition.split)

lemma emits_resume [emit_intros]:
  "emits em0 em \<Longrightarrow> emits em0 (emit_resume so em)" "emits em0 em \<Longrightarrow> emits em0 (emit_resume_run em)"
  by (simp_all add: emit_resume_def emit_resume_run_def Let_def emit_intros
      split: option.split slot_condition.split reason_code.split)

lemma emits_withdrawn [emit_intros]:
  "emits em0 em \<Longrightarrow> \<not> is_finishing (em_before em) \<longrightarrow> open_run (em_state em) \<Longrightarrow> emits em0 (emit_withdrawn b em)"
  by (simp add: emit_withdrawn_def emit_intros)

section \<open>What follows for decide\<close>

lemma emit_start_simps [simp]:
  "em_before (emit_start st e d) = st" "em_state (emit_start st e d) = apply_input st e"
  "em_at (emit_start st e d) = ev_at e" "em_def (emit_start st e d) = d" "em_out (emit_start st e d) = []"
  by (simp_all add: emit_start_def)

text \<open>What the guard let through, by body.\<close>

lemma acted_open:
  assumes "ignored_reason st e = None"
  shows "\<not> is_finished st"
    "ev_body e = EB_Reply k m x n \<Longrightarrow> open_run st" "ev_body e = EB_Answer q di a \<Longrightarrow> open_run st"
    "ev_body e = EB_ClaimBusy holder \<Longrightarrow> is_queued st" "ev_body e = EB_ClaimTaken \<Longrightarrow> is_queued st"
    "ev_body e = EB_ClaimReleased \<Longrightarrow> ready_to_release st"
  using assms
  by (auto simp: ignored_reason_def open_run_def is_queued_def out_of_state_def reply_ignored_def
      split: if_splits option.splits phase.splits)

lemma phase_fold_input:
  "rs_phase (fold_input st e) =
     (case ev_body e of
        EB_TreePrepared _ _ \<Rightarrow> PH_Running TPH_Prepared
      | EB_TreeParked oc \<Rightarrow> set_park_tree oc (rs_phase st)
      | _ \<Rightarrow> rs_phase st)"
  by (auto simp: fold_input_def apply_fact_def apply_reply_def apply_answer_def apply_firing_def Let_def
      upd_timer_slot_def split: event_body.split option.split timer_purpose.split)

lemma emits_input:
  assumes "ignored_reason st e = None" "ev_body e \<noteq> EB_ClaimReleased"
  shows "emits (emit_start st e d) (emit_input e (emit_start st e d))"
proof -
  have st: "apply_input st e = fold_input st e" using assms(1) by (rule apply_input_acted)
  have ph: "rs_phase (fold_input st e) = rs_phase st"
    if "\<And>b f. ev_body e \<noteq> EB_TreePrepared b f" "\<And>oc. ev_body e \<noteq> EB_TreeParked oc"
    using that by (simp add: phase_fold_input split: event_body.split)
  have op: "open_run (fold_input st e) = open_run st" "is_queued (fold_input st e) = is_queued st"
    if "\<And>b f. ev_body e \<noteq> EB_TreePrepared b f" "\<And>oc. ev_body e \<noteq> EB_TreeParked oc"
    using ph [OF that] by (simp_all add: open_run_def is_finishing_def is_finished_def is_queued_def)
  show ?thesis
  proof (cases "ev_body e")
    case (EB_Reply k m x n)
    then show ?thesis using acted_open(2) [OF assms(1)] op by (simp add: emit_input_def st emit_intros)
  next
    case (EB_Answer q di a)
    then show ?thesis using acted_open(3) [OF assms(1)] op by (simp add: emit_input_def st emit_intros)
  next
    case (EB_ClaimBusy h)
    then show ?thesis using acted_open(4) [OF assms(1)] op by (simp add: emit_input_def st emit_intros)
  next
    case (EB_Withdrawn m b)
    then show ?thesis using acted_open(1) [OF assms(1)] op
      by (auto simp: emit_input_def st open_run_def intro!: emit_intros)
  next
    case EB_ClaimTaken
    then show ?thesis by (auto simp: emit_input_def intro!: emit_intros split: list.split)
  next
    case (EB_RootOpened t m)
    then show ?thesis by (auto simp: emit_input_def intro!: emit_intros)
  qed (use assms(2) in \<open>auto simp: emit_input_def intro!: emit_intros\<close>)
qed

text \<open>Releasing the claim is the end of the run: one decision, which repeats what finishing said.\<close>

lemma emit_input_released:
  assumes "ignored_reason st e = None" "ev_body e = EB_ClaimReleased"
  obtains oc reason parked where "rs_phase st = PH_Finishing oc reason (PP_Parked parked)"
    "emit_input e (emit_start st e d) = push (DE_Finished oc reason) (emit_start st e d)"
  using acted_open(6) [OF assms] assms
  by (auto simp: ready_to_release_def emit_input_def emit_finished_def apply_input_acted fold_input_def
      split: phase.splits park_phase.splits)

text \<open>The list an acted-on input leads to folds to the state the dispatch reached.\<close>

lemma decide_state:
  assumes "ignored_reason st e = None"
  shows "em_state (emit_input e (emit_start st e d)) = fold_decisions (ev_at e) (decide st e d) (apply_input st e)"
proof (cases "ev_body e = EB_ClaimReleased")
  case True
  show ?thesis by (rule emit_input_released [OF assms True, of d]) (simp add: decide_def assms)
next
  case False
  from emits_written [OF emits_input [OF assms False, of d]] assms show ?thesis by (auto simp: decide_def)
qed

lemma lawful_written:
  assumes "emits em em'" "\<forall>d\<in>set (em_out em). \<exists>e. em_before e = em_before em \<and> lawful e d"
  shows "\<forall>d\<in>set (em_out em'). \<exists>e. em_before e = em_before em \<and> lawful e d"
  using assms by induction auto

text \<open>No acted-on input is answered with \<open>Ignored\<close>; only the release of the claim writes \<open>Finished\<close>.\<close>

lemma decide_lawful:
  assumes "ignored_reason st e = None" "x \<in> set (decide st e d)"
  shows "(\<exists>em. em_before em = st \<and> lawful em x) \<or>
    ev_body e = EB_ClaimReleased \<and> (\<exists>oc reason parked. rs_phase st = PH_Finishing oc reason (PP_Parked parked) \<and> x = DE_Finished oc reason)"
proof (cases "ev_body e = EB_ClaimReleased")
  case True
  show ?thesis
    by (rule emit_input_released [OF assms(1) True, of d]) (use assms True in \<open>auto simp: decide_def\<close>)
next
  case False
  from lawful_written [OF emits_input [OF assms(1) False, of d]] assms show ?thesis by (auto simp: decide_def)
qed

end
