(* ===== verification/Replay.thy ===== *)
theory Replay
  imports Emission
begin

text \<open>
  The fold of a log. The locale \<open>log_invariant\<close> states what an invariant of every replay has to meet
  (it holds initially, an acted-on input and a decision this version can fold keep it) and gives that
  every state a replay ends in has it; it is interpreted for each invariant below. The last section
  shows that folding the list \<open>decide\<close> wrote reaches the state \<open>decide\<close> worked on.
\<close>

section \<open>The sequence number is read by no fold\<close>

lemma seq_lookups [simp]:
  "find_session (st\<lparr>rs_seq := n\<rparr>) = find_session st"
  "find_slot (st\<lparr>rs_seq := n\<rparr>) = find_slot st"
  "latest (st\<lparr>rs_seq := n\<rparr>) = latest st"
  "verdict_of (st\<lparr>rs_seq := n\<rparr>) = verdict_of st"
  by (auto simp: fun_eq_iff find_session_def find_slot_def latest_def verdict_of_def session_key_of_def
      split: option.split)

lemma seq_declared_inputs [simp]: "declared_inputs (st\<lparr>rs_seq := n\<rparr>) = declared_inputs st"
  by (simp add: fun_eq_iff declared_inputs_def split: option.split nat.split)

lemma seq_first_turn [simp]: "first_turn (st\<lparr>rs_seq := n\<rparr>) = first_turn st"
  by (simp add: fun_eq_iff first_turn_def synthesis_turn_def split: option.split start_cause.split)

lemma seq_new_record [simp]: "new_record (st\<lparr>rs_seq := n\<rparr>) = new_record st"
  by (simp add: fun_eq_iff new_record_def Let_def split: option.split)

text \<open>Stated over an equation, so that the order of the record's updates does not matter.\<close>

lemma seq_push_records:
  "st' = st\<lparr>rs_seq := n\<rparr> \<Longrightarrow> push_records st' step v a c at ms = (push_records st step v a c at ms)\<lparr>rs_seq := n\<rparr>"
proof (induction ms arbitrary: st st')
  case (Cons m ms)
  show ?case unfolding push_records.simps using Cons.prems by (intro Cons.IH) simp
qed simp

lemma seq_upd_record: "st' = st\<lparr>rs_seq := n\<rparr> \<Longrightarrow> upd_record s f st' = (upd_record s f st)\<lparr>rs_seq := n\<rparr>"
  by (simp add: upd_record_def upd_slot_def split: option.split)

lemma seq_verdict_of: "st' = st\<lparr>rs_seq := n\<rparr> \<Longrightarrow> verdict_of st' = verdict_of st"
  by simp

lemma seq_decision: "apply_decision (st\<lparr>rs_seq := n\<rparr>) d at = (apply_decision st d at)\<lparr>rs_seq := n\<rparr>"
proof (cases d)
  case (DE_StepStarted step visit attempt members)
  then show ?thesis
    unfolding DE_StepStarted apply_decision.simps apply_step_started_def Let_def
    by (simp, intro seq_push_records) simp
next
  case (DE_Rework f t dcl p)
  let ?st = "st\<lparr>rs_passes := bt_insert dcl p (rs_passes st)\<rparr>"
  have "verdict_of (st\<lparr>rs_seq := n, rs_passes := bt_insert dcl p (rs_passes st)\<rparr>) = verdict_of ?st"
    by (intro seq_verdict_of [where st = ?st and n = n]) simp
  then show ?thesis by (simp add: DE_Rework Let_def)
next
  case (DE_TimerSet t f p)
  then show ?thesis
    by (auto simp: arm_start_def Let_def split: option.split intro: seq_upd_record)
next
  case (DE_Held s r u o)
  show ?thesis
    unfolding DE_Held apply_decision.simps Let_def by (simp, intro seq_upd_record) simp
next
  case (DE_Parked so r)
  then show ?thesis
    by (cases so) (simp_all add: Let_def seq_upd_record)
qed (simp_all add: apply_liveness_def apply_finishing_def push_question_def seq_upd_record [OF refl] cong: if_cong)

lemma seq_fold_decisions:
  "fold_decisions at ds (st\<lparr>rs_seq := n\<rparr>) = (fold_decisions at ds st)\<lparr>rs_seq := n\<rparr>"
  by (induction ds arbitrary: st) (simp_all add: seq_decision)

section \<open>Invariants of every replay\<close>

lemma evolve_cases:
  assumes "evolve st e = Inr st'"
  obtains
    (Decision) d where "ev_body e = EB_Decision d" "\<not> holds_unknown_value d"
      "st' = (apply_decision st d (ev_at e))\<lparr>rs_seq := ev_seq e\<rparr>"
  | (Input) "\<And>d. ev_body e \<noteq> EB_Decision d" "st' = (apply_input st e)\<lparr>rs_seq := ev_seq e\<rparr>"
  using assms by (cases "ev_body e") (auto simp: evolve_def is_unknown_decision_def split: if_splits)

locale log_invariant =
  fixes I :: "run_state \<Rightarrow> bool"
  assumes initial: "I (run_state_initial run d)"
    and input: "I st \<Longrightarrow> ignored_reason st e = None \<Longrightarrow> I (fold_input st e)"
    and decision: "I st \<Longrightarrow> \<not> holds_unknown_value x \<Longrightarrow> I (apply_decision st x at)"
    and sequence: "I st \<Longrightarrow> I (st\<lparr>rs_seq := n\<rparr>)"
begin

lemma apply_input_keeps: "I st \<Longrightarrow> I (apply_input st e)"
  by (cases "ignored_reason st e") (auto simp: apply_input_def input)

lemma evolve_keeps: "I st \<Longrightarrow> evolve st e = Inr st' \<Longrightarrow> I st'"
  by (erule evolve_cases) (auto intro!: sequence decision apply_input_keeps)

lemma replay_keeps: "I st \<Longrightarrow> replay st es = Inr st' \<Longrightarrow> I st'"
  by (induction es arbitrary: st) (auto split: sum.splits dest: evolve_keeps)

lemma replay_initial: "replay (run_state_initial run d) es = Inr st \<Longrightarrow> I st"
  using replay_keeps initial by blast

end

text \<open>What a fold does to the fields the invariants read.\<close>

lemma push_records_fields [simp]:
  "rs_timers (push_records st step v a c at ms) = rs_timers st"
  "rs_phase (push_records st step v a c at ms) = rs_phase st"
  "rs_withdrawn (push_records st step v a c at ms) = rs_withdrawn st"
  "rs_visits (push_records st step v a c at ms) = rs_visits st"
  "rs_passes (push_records st step v a c at ms) = rs_passes st"
  "rs_run (push_records st step v a c at ms) = rs_run st"
  "rs_def (push_records st step v a c at ms) = rs_def st"
  "rs_seq (push_records st step v a c at ms) = rs_seq st"
  "rs_policy (push_records st step v a c at ms) = rs_policy st"
  "rs_condition (push_records st step v a c at ms) = rs_condition st"
  "rs_questions (push_records st step v a c at ms) = rs_questions st"
  "rs_next_order (push_records st step v a c at ms) = rs_next_order st"
  "rs_current_step (push_records st step v a c at ms) = rs_current_step st"
  by (induction ms arbitrary: st) simp_all

lemma upd_record_fields [simp]:
  "rs_timers (upd_record s f st) = rs_timers st" "rs_phase (upd_record s f st) = rs_phase st"
  "rs_withdrawn (upd_record s f st) = rs_withdrawn st" "rs_visits (upd_record s f st) = rs_visits st"
  "rs_passes (upd_record s f st) = rs_passes st" "rs_run (upd_record s f st) = rs_run st"
  "rs_def (upd_record s f st) = rs_def st" "rs_seq (upd_record s f st) = rs_seq st"
  "rs_policy (upd_record s f st) = rs_policy st" "rs_condition (upd_record s f st) = rs_condition st"
  "rs_questions (upd_record s f st) = rs_questions st" "rs_next_order (upd_record s f st) = rs_next_order st"
  "rs_current_step (upd_record s f st) = rs_current_step st"
  by (simp_all add: upd_record_def split: option.split)

lemma arm_start_fields [simp]:
  "rs_timers (arm_start st t a) = rs_timers st" "rs_phase (arm_start st t a) = rs_phase st"
  "rs_withdrawn (arm_start st t a) = rs_withdrawn st" "rs_visits (arm_start st t a) = rs_visits st"
  "rs_passes (arm_start st t a) = rs_passes st" "rs_run (arm_start st t a) = rs_run st"
  "rs_def (arm_start st t a) = rs_def st" "rs_policy (arm_start st t a) = rs_policy st"
  "rs_condition (arm_start st t a) = rs_condition st" "rs_questions (arm_start st t a) = rs_questions st"
  "rs_next_order (arm_start st t a) = rs_next_order st" "rs_current_step (arm_start st t a) = rs_current_step st"
  by (simp_all add: arm_start_def split: option.split)

lemma upd_timer_slot_fields [simp]:
  "rs_timers (upd_timer_slot t f st) = rs_timers st" "rs_phase (upd_timer_slot t f st) = rs_phase st"
  "rs_withdrawn (upd_timer_slot t f st) = rs_withdrawn st" "rs_visits (upd_timer_slot t f st) = rs_visits st"
  "rs_passes (upd_timer_slot t f st) = rs_passes st" "rs_run (upd_timer_slot t f st) = rs_run st"
  "rs_def (upd_timer_slot t f st) = rs_def st" "rs_policy (upd_timer_slot t f st) = rs_policy st"
  "rs_condition (upd_timer_slot t f st) = rs_condition st" "rs_questions (upd_timer_slot t f st) = rs_questions st"
  "rs_next_order (upd_timer_slot t f st) = rs_next_order st"
  "rs_current_step (upd_timer_slot t f st) = rs_current_step st"
  by (simp_all add: upd_timer_slot_def split: option.split)

lemmas input_fold_defs =
  fold_input_def apply_fact_def apply_reply_def apply_answer_def apply_firing_def Let_def

lemmas decision_fold_defs =
  apply_step_started_def apply_liveness_def apply_finishing_def push_question_def Let_def

section \<open>The log holds only values this version knows\<close>

definition known_state :: "run_state \<Rightarrow> bool" where
  "known_state st \<longleftrightarrow>
     (\<forall>(t, a)\<in>set (rs_timers st). known_purpose (at_purpose a)) \<and>
     (\<forall>oc. rs_outcome st = Some oc \<longrightarrow> known_outcome oc)"

lemma known_state_cong:
  "rs_timers st' = rs_timers st \<Longrightarrow> rs_phase st' = rs_phase st \<Longrightarrow> known_state st' = known_state st"
  by (simp add: known_state_def rs_outcome_def)

lemma known_decision:
  assumes "known_state st" "\<not> holds_unknown_value d"
  shows "known_state (apply_decision st d at)"
proof (cases d)
  case (DE_TimerSet t f p)
  with assms show ?thesis
    using set_bt_insert [of t "\<lparr>at_fire_at = f, at_purpose = p\<rparr>" "rs_timers st"]
    by (fastforce simp: known_state_def rs_outcome_def known_purpose_def Let_def split: timer_purpose.splits)
next
  case (DE_TimerCleared t)
  with assms show ?thesis
    using set_bt_remove [of t "rs_timers st"] by (fastforce simp: known_state_def rs_outcome_def)
next
  case (DE_Parked so r)
  with assms show ?thesis
    by (cases so) (auto simp: known_state_def rs_outcome_def Let_def)
qed (use assms in \<open>auto simp: known_state_def rs_outcome_def decision_fold_defs known_outcome_def
       split: phase.splits outcome.splits\<close>)

lemma phase_fold_input_outcome: "rs_outcome (fold_input st e) = rs_outcome st \<or> (\<exists>b f. ev_body e = EB_TreePrepared b f)"
  by (auto simp: input_fold_defs rs_outcome_def set_park_tree_def split: event_body.splits option.splits
      phase.splits timer_purpose.splits asked.splits)

lemma timers_fold_input: "set (rs_timers (fold_input st e)) \<subseteq> set (rs_timers st)"
  by (auto simp: input_fold_defs bt_remove_def split: event_body.splits option.splits timer_purpose.splits asked.splits
      if_splits)

lemma known_input:
  assumes "known_state st"
  shows "known_state (fold_input st e)"
proof -
  have "known_outcome oc" if "rs_outcome (fold_input st e) = Some oc" for oc
    using phase_fold_input_outcome [of st e] that assms
    by (auto simp: known_state_def fold_input_def rs_outcome_def)
  then show ?thesis using assms timers_fold_input [of st e] by (auto simp: known_state_def)
qed

lemma known_state_initial: "known_state (run_state_initial run d)"
  by (simp add: known_state_def run_state_initial_def rs_outcome_def)

lemma known_state_seq: "known_state (st\<lparr>rs_seq := n\<rparr>) = known_state st"
  by (simp add: known_state_def rs_outcome_def)

interpretation known: log_invariant known_state
  by unfold_locales (simp_all add: known_state_initial known_input known_decision known_state_seq)

section \<open>Invariants of one slot\<close>

lemma new_record_blank [simp]:
  "sr_state (new_record st step v a m c) = SS_Pending" "sr_condition (new_record st step v a m c) = None"
  "sr_slot (new_record st step v a m c) = \<lparr> sl_step = step, sl_visit = v, sl_member = m, sl_attempt = a \<rparr>"
  by (simp_all add: new_record_def next_attempt_def blank_record_def Let_def
      split: option.split start_cause.split slot_state.split)

text \<open>
  A property \<open>P w r\<close> of one slot, where \<open>w\<close> says whether a withdrawal was folded, that every change a
  fold makes to a slot keeps, holds of every slot of every state a replay ends in.
\<close>

locale slot_invariant =
  fixes P :: "bool \<Rightarrow> slot_record \<Rightarrow> bool"
  assumes new: "sr_state r = SS_Pending \<Longrightarrow> sr_condition r = None \<Longrightarrow> P w r"
    and fact_: "P w r \<Longrightarrow> fact_ignored st r f = None \<Longrightarrow> P w (fold_fact at w su f r)"
    and reply: "P w r \<Longrightarrow> reply_ignored st r = None \<Longrightarrow> P w (r\<lparr>sr_state := SS_Replied m e n PR_Live False None\<rparr>)"
    and nudged: "P w r \<Longrightarrow> P w (slot_nudged at r)"
    and signalled: "P w r \<Longrightarrow> P w (slot_signalled r)"
    and grace: "P w r \<Longrightarrow> P w (slot_grace g r)"
    and overdue: "P w r \<Longrightarrow> P w (r\<lparr>sr_state := start_reply_stop at w (sr_state r)\<rparr>)"
    and resumed: "P w r \<Longrightarrow> P w (fold_resume r)"
    and withdrawn: "P w r \<Longrightarrow> P True (fold_withdrawn r)"
    and starting: "P w r \<Longrightarrow> P w (slot_starting at r)"
    and quiet: "P w r \<Longrightarrow> P w (r\<lparr>sr_state := SS_Quiet since oc\<rparr>)"
    and stopping: "P w r \<Longrightarrow> P w (r\<lparr>sr_state := SS_Stopping (ladder_new since w) a\<rparr>)"
    and held: "P w r \<Longrightarrow> P w (r\<lparr>sr_holds := h, sr_condition := Some (SC_Held reason until ord)\<rparr>)"
    and parked: "P w r \<Longrightarrow> P w (r\<lparr>sr_condition := Some (SC_Parked reason ord at)\<rparr>)"
    and finishing: "P w r \<Longrightarrow> P w (finish_slot at w r)"
begin

definition all_slots :: "run_state \<Rightarrow> bool" where
  "all_slots st \<longleftrightarrow> (\<forall>r\<in>set (rs_slots st). P (rs_withdrawn st) r)"

lemma all_slots_upd:
  assumes "all_slots st" "P (rs_withdrawn st) (rs_slots st ! i) \<Longrightarrow> P (rs_withdrawn st) (f (rs_slots st ! i))"
  shows "all_slots (upd_slot i f st)"
proof -
  have "\<forall>r\<in>set (update_at i f (rs_slots st)). P (rs_withdrawn st) r"
    by (rule ball_update_at) (use assms in \<open>simp_all add: all_slots_def\<close>)
  then show ?thesis by (simp add: all_slots_def)
qed

lemma all_slots_upd_record:
  assumes "all_slots st" "\<And>r. P (rs_withdrawn st) r \<Longrightarrow> P (rs_withdrawn st) (f r)"
  shows "all_slots (upd_record s f st)"
  using assms by (auto simp: upd_record_def split: option.split intro!: all_slots_upd)

lemma all_slots_upd_timer_slot:
  assumes "all_slots st" "\<And>r. P (rs_withdrawn st) r \<Longrightarrow> P (rs_withdrawn st) (f r)"
  shows "all_slots (upd_timer_slot t f st)"
  using assms by (auto simp: upd_timer_slot_def split: option.split intro!: all_slots_upd)

lemma all_slots_cong:
  "rs_slots st' = rs_slots st \<Longrightarrow> rs_withdrawn st' = rs_withdrawn st \<Longrightarrow> all_slots st' = all_slots st"
  by (simp add: all_slots_def)

lemma all_slots_push_records:
  "all_slots st \<Longrightarrow> all_slots (push_records st step v a c at ms)"
proof (induction ms arbitrary: st)
  case (Cons m ms)
  have "P (rs_withdrawn st) ((new_record st step v a m c)\<lparr>sr_created_at := at\<rparr>)"
    by (rule new) (simp_all add: new_record_blank)
  then show ?case
    unfolding push_records.simps using Cons.prems by (intro Cons.IH) (simp add: all_slots_def)
qed simp

lemma all_slots_decision:
  assumes "all_slots st"
  shows "all_slots (apply_decision st d at)"
proof (cases d)
  case (DE_StepStarted step visit attempt members)
  have "all_slots (st\<lparr>rs_phase := a, rs_visits := b, rs_current_step := c, rs_pending_start := e\<rparr>)" for a b c e
    using assms by (simp add: all_slots_def)
  then show ?thesis by (simp add: DE_StepStarted apply_step_started_def Let_def all_slots_push_records)
next
  case (DE_TimerSet t f p)
  have "all_slots (st\<lparr>rs_timers := x\<rparr>)" for x using assms by (simp add: all_slots_def)
  then show ?thesis
    by (auto simp: DE_TimerSet arm_start_def Let_def split: option.split intro!: all_slots_upd_record starting)
next
  case (DE_Liveness s reason since)
  then show ?thesis
    by (simp add: apply_liveness_def Let_def)
       (rule all_slots_upd_record [OF assms], simp add: quiet stopping)
next
  case (DE_Held s r u o)
  have "all_slots (st\<lparr>rs_next_order := x\<rparr>)" for x using assms by (simp add: all_slots_def)
  then show ?thesis by (simp add: DE_Held Let_def, intro all_slots_upd_record) (simp_all add: held)
next
  case (DE_Parked so r)
  have "all_slots (st\<lparr>rs_next_order := x\<rparr>)" for x using assms by (simp add: all_slots_def)
  then show ?thesis using assms
    by (cases so) (auto simp: DE_Parked Let_def all_slots_def [of "st\<lparr>rs_next_order := x, rs_condition := y\<rparr>" for x y]
        all_slots_def [of st] intro!: all_slots_upd_record parked)
next
  case (DE_Finishing oc r)
  then show ?thesis using assms by (simp add: apply_finishing_def all_slots_def finishing)
qed (use assms in \<open>simp_all add: all_slots_def decision_fold_defs\<close>)

lemma all_slots_input:
  assumes "all_slots st" "ignored_reason st e = None"
  shows "all_slots (fold_input st e)"
proof -
  note frame = assms(1) [unfolded all_slots_def]
  have t: "all_slots (st\<lparr>rs_timers := x\<rparr>)" for x using frame by (simp add: all_slots_def)
  show ?thesis
  proof (cases "ev_body e")
    case (EB_SessionFact k f)
    then obtain i where i: "find_session st k = Some i" "fact_ignored st (rs_slots st ! i) f = None"
      using assms(2) by (auto simp: ignored_reason_def record_by_key_def split: if_splits option.splits)
    then show ?thesis
      by (simp add: EB_SessionFact fold_input_def apply_fact_def all_slots_upd [OF assms(1)] fact_ [OF _ i(2)])
  next
    case (EB_Reply k m x n)
    then obtain i where i: "find_session st k = Some i" "reply_ignored st (rs_slots st ! i) = None"
      using assms(2) by (auto simp: ignored_reason_def record_by_key_def split: if_splits option.splits)
    then show ?thesis
      by (simp add: EB_Reply fold_input_def apply_reply_def Let_def all_slots_upd [OF assms(1)] reply [OF _ i(2)])
  next
    case (EB_TimerFired timer f)
    then show ?thesis using t
      by (auto simp: fold_input_def apply_firing_def Let_def all_slots_def [of "st\<lparr>rs_timers := x, rs_root_periods := y\<rparr>" for x y]
          all_slots_def [of "st\<lparr>rs_timers := x, rs_tree_cancel_owed := y\<rparr>" for x y] frame grace overdue
          split: option.split timer_purpose.split
          intro!: all_slots_upd_timer_slot)
  next
    case (EB_Withdrawn m b)
    then show ?thesis
      using withdrawn frame by (auto simp: fold_input_def all_slots_def)
  qed (use assms(1) in \<open>auto simp: fold_input_def apply_answer_def Let_def frame all_slots_def [of "_\<lparr>rs_withdrawn := _\<rparr>"]
         nudged signalled resumed intro!: all_slots_upd
         intro: all_slots_cong [THEN iffD2] split: option.split\<close>)
qed

end

sublocale slot_invariant \<subseteq> log_invariant all_slots
  by unfold_locales (simp_all add: all_slots_input all_slots_decision,
      simp_all add: all_slots_def run_state_initial_def)

section \<open>Stop ladders\<close>

text \<open>A ladder is forced only once a withdrawal was folded; the signals of the current climb are among
  the signals sent at all.\<close>

definition slot_forced_ok :: "bool \<Rightarrow> slot_record \<Rightarrow> bool" where
  "slot_forced_ok w r \<longleftrightarrow> (is_some_and (ss_ladder (sr_state r)) la_forced \<longrightarrow> w)"

definition slot_ladder_ok :: "bool \<Rightarrow> slot_record \<Rightarrow> bool" where
  "slot_ladder_ok w r \<longleftrightarrow>
     (\<forall>l. ss_ladder (sr_state r) = Some l \<longrightarrow> la_signals_sent l \<le> la_total l \<and> la_signals_sent l \<le> u8_max)"

lemmas slot_fold_defs =
  fold_fact_def revive_def set_open_call_def start_reply_stop_def apply_ended_def slot_nudged_def
  slot_signalled_def slot_grace_def fold_resume_def fold_withdrawn_def slot_starting_def finish_slot_def
  ladder_new_def Let_def

lemma ladder_fold_fact:
  "ss_ladder (sr_state (fold_fact at w su f r)) \<in> {ss_ladder (sr_state r), Some (ladder_new at w), None}"
  by (cases "sr_state r"; cases f)
     (simp_all add: slot_fold_defs split: option.split heartbeat_kind.split end_cause.split)

lemma ladder_start_reply_stop:
  "ss_ladder (start_reply_stop at w s) \<in> {ss_ladder s, Some (ladder_new at w)}"
  by (cases s) (simp_all add: start_reply_stop_def split: option.split)

lemma ladder_finish_slot:
  "ss_ladder (sr_state (finish_slot at w r)) \<in> {ss_ladder (sr_state r), Some (ladder_new at w), None}"
  by (cases "sr_state r") (simp_all add: finish_slot_def)

lemma ladder_starting: "ss_ladder (sr_state (slot_starting at r)) = ss_ladder (sr_state r)"
  by (cases "sr_state r") (simp_all add: slot_starting_def)

lemma ladder_nudged: "ss_ladder (sr_state (slot_nudged at r)) = ss_ladder (sr_state r)"
  by (cases "sr_state r") (simp_all add: slot_nudged_def)

interpretation forced: slot_invariant slot_forced_ok
proof unfold_locales
  fix w r st f at su assume "slot_forced_ok w r"
  then show "slot_forced_ok w (fold_fact at w su f r)"
    using ladder_fold_fact [of at w su f r] by (auto simp: slot_forced_ok_def ladder_new_def)
next
  fix w r at assume "slot_forced_ok w r"
  then show "slot_forced_ok w (r\<lparr>sr_state := start_reply_stop at w (sr_state r)\<rparr>)"
    using ladder_start_reply_stop [of at w "sr_state r"] by (auto simp: slot_forced_ok_def ladder_new_def)
next
  fix w r at assume "slot_forced_ok w r"
  then show "slot_forced_ok w (finish_slot at w r)"
    using ladder_finish_slot [of at w r] by (auto simp: slot_forced_ok_def ladder_new_def)
qed (auto simp: slot_forced_ok_def ladder_starting ladder_nudged slot_signalled_def slot_grace_def fold_resume_def
      fold_withdrawn_def ladder_new_def is_some_and_iff)

interpretation ladders: slot_invariant slot_ladder_ok
proof unfold_locales
  fix w r st f at su assume "slot_ladder_ok w r"
  then show "slot_ladder_ok w (fold_fact at w su f r)"
    using ladder_fold_fact [of at w su f r] by (auto simp: slot_ladder_ok_def ladder_new_def)
next
  fix w r at assume "slot_ladder_ok w r"
  then show "slot_ladder_ok w (r\<lparr>sr_state := start_reply_stop at w (sr_state r)\<rparr>)"
    using ladder_start_reply_stop [of at w "sr_state r"] by (auto simp: slot_ladder_ok_def ladder_new_def)
next
  fix w r at assume "slot_ladder_ok w r"
  then show "slot_ladder_ok w (finish_slot at w r)"
    using ladder_finish_slot [of at w r] by (auto simp: slot_ladder_ok_def ladder_new_def)
qed (auto simp: slot_ladder_ok_def ladder_starting ladder_nudged slot_signalled_def slot_grace_def fold_resume_def
      fold_withdrawn_def ladder_new_def)

text \<open>No session is killed before a withdrawal was folded.\<close>

lemma kill_only_withdrawn:
  assumes "replay (run_state_initial run d) es = Inr st" "EF_StopSession k ST_Kill n \<in> set (pending_effects st)"
  shows "rs_withdrawn st"
proof -
  obtain r l where "r \<in> set (rs_slots st)" "ss_ladder (sr_state r) = Some l" "la_forced l"
    using kill_has_forced_ladder [OF assms(2)] by blast
  then show ?thesis using forced.replay_initial [OF assms(1)]
    by (metis forced.all_slots_def slot_forced_ok_def is_some_and_simps(1))
qed

lemma withdrawn_decision [simp]: "rs_withdrawn (apply_decision st d at) = rs_withdrawn st"
  by (cases "(st, d, at)" rule: apply_decision.cases) (simp_all add: decision_fold_defs)

lemma withdrawn_fold_input:
  "rs_withdrawn (fold_input st e) \<Longrightarrow> rs_withdrawn st \<or> (\<exists>m b. ev_body e = EB_Withdrawn m b)"
  by (auto simp: input_fold_defs split: event_body.splits option.splits timer_purpose.splits asked.splits if_splits)

lemma withdrawn_evolve:
  "evolve st e = Inr st' \<Longrightarrow> rs_withdrawn st' \<Longrightarrow> rs_withdrawn st \<or> (\<exists>m b. ev_body e = EB_Withdrawn m b)"
  by (erule evolve_cases) (auto simp: apply_input_def dest: withdrawn_fold_input split: if_splits)

lemma withdrawn_replay:
  "replay st es = Inr st' \<Longrightarrow> rs_withdrawn st' \<Longrightarrow> rs_withdrawn st \<or> (\<exists>e\<in>set es. \<exists>m b. ev_body e = EB_Withdrawn m b)"
  by (induction es arbitrary: st) (auto split: sum.splits dest: withdrawn_evolve)

end
