(* ===== verification/Host_Reduce.thy ===== *)
theory Host_Reduce
  imports Replay
begin

text \<open>
  How the host folds one input, from \<^verbatim>\<open>crates/run-host/src/fold.rs\<close>: \<open>reduce\<close> asks
  \<open>decide\<close>, writes the input and every decision as events of one list and folds that list;
  \<open>fold_events\<close> is the fold of a whole log with what stopped it. The section on agreement shows that
  the fold of the written list reaches the state \<open>decide\<close> worked on, so what a later reader replays is
  what the reducer saw.
\<close>

definition true_origin :: "event_body \<Rightarrow> origin" where
  "true_origin body =
     (case body of
        EB_Commissioned _ _ _ _ _ _ _ \<Rightarrow> OR_Cli
      | EB_Reply _ _ _ _ \<Rightarrow> OR_Cli
      | EB_Answer _ _ _ \<Rightarrow> OR_Cli
      | EB_Resume _ \<Rightarrow> OR_Cli
      | EB_ResumeRun \<Rightarrow> OR_Cli
      | EB_Withdrawn _ _ \<Rightarrow> OR_Cli
      | EB_SessionFact _ _ \<Rightarrow> OR_Adapter
      | EB_TimerFired _ _ \<Rightarrow> OR_Timer
      | _ \<Rightarrow> OR_Host)"

datatype folded =
    Whole run_state
  | NewerNxs "run_state option"
  | Unfoldable "run_state option"

fun fold_events_from :: "run_state \<Rightarrow> event list \<Rightarrow> folded" where
  "fold_events_from st [] = Whole st"
| "fold_events_from st (e # es) =
     (case evolve st e of Inr st' \<Rightarrow> fold_events_from st' es | Inl _ \<Rightarrow> NewerNxs (Some st))"

definition fold_events :: "run_id \<Rightarrow> flow_def \<Rightarrow> event list \<Rightarrow> folded" where
  "fold_events run d es = fold_events_from (run_state_initial run d) es"

text \<open>The input as it is logged, and the decisions as events after it.\<close>

definition logged_input :: "run_state \<Rightarrow> event \<Rightarrow> event" where
  "logged_input st input = input\<lparr>ev_seq := rs_seq st + 1, ev_origin := true_origin (ev_body input)\<rparr>"

definition decision_event :: "run_id \<Rightarrow> event \<Rightarrow> nat \<times> decision \<Rightarrow> event" where
  "decision_event run logged = (\<lambda>(index, d).
     event_new run (ev_seq logged + 1 + index) (ev_at logged) (decision_key (ev_key logged) index d)
       OR_Reducer (EB_Decision d))"

definition reduce :: "run_state \<Rightarrow> event \<Rightarrow> (event list \<times> run_state) option" where
  "reduce st input =
     (let logged = logged_input st input;
          decisions = decide st logged (rs_def st);
          events = logged # map (decision_event (rs_run st) logged) (enumerate 0 decisions)
      in case replay st events of Inr next_st \<Rightarrow> Some (events, next_st) | Inl _ \<Rightarrow> None)"

text \<open>\<open>decide\<close> answered this input with one \<open>Ignored\<close>.\<close>

definition is_ignored :: "event list \<Rightarrow> bool" where
  "is_ignored events =
     (case events of
        _ # e # _ \<Rightarrow> (case ev_body e of EB_Decision (DE_Ignored _ _) \<Rightarrow> True | _ \<Rightarrow> False)
      | _ \<Rightarrow> False)"

section \<open>Agreement of a replay with the reducer\<close>

lemma fold_events_replay:
  "fold_events run d es = Whole st \<longleftrightarrow> replay (run_state_initial run d) es = Inr st"
proof -
  have "fold_events_from s es = Whole st \<longleftrightarrow> replay s es = Inr st" for s
    by (induction es arbitrary: s) (auto split: sum.split)
  then show ?thesis by (simp add: fold_events_def)
qed

lemma logged_input_simps [simp]:
  "ev_seq (logged_input st e) = rs_seq st + 1" "ev_at (logged_input st e) = ev_at e"
  "ev_key (logged_input st e) = ev_key e" "ev_body (logged_input st e) = ev_body e"
  "ev_origin (logged_input st e) = true_origin (ev_body e)"
  by (simp_all add: logged_input_def)

lemma ignored_logged [simp]: "ignored_reason st (logged_input st' e) = ignored_reason st e"
  by (cases "ev_body e") (simp_all add: ignored_reason_def delivery_key_def)

lemma known_emits:
  assumes "emits em em'" "known_state (em_before em)" "known_state (em_state em)"
    "\<forall>d\<in>set (em_out em). \<not> holds_unknown_value d"
  shows "known_state (em_state em') \<and> (\<forall>d\<in>set (em_out em'). \<not> holds_unknown_value d)"
  using assms
proof induction
  case (emits_push em' d)
  then have st: "known_state (em_state em')" "known_state (em_before em')" by auto
  have "\<not> holds_unknown_value d"
  proof (cases d)
    case (DE_TimerSet t f p)
    then show ?thesis using emits_push.hyps(2) st(2) map_of_SomeD
      by (fastforce simp: known_state_def known_purpose_def split: timer_purpose.splits)
  qed (use emits_push.hyps(2) st in \<open>auto simp: known_state_def known_outcome_def rs_outcome_def split: outcome.splits\<close>)
  with emits_push st show ?case by (simp add: known_decision)
qed simp

lemma decide_known:
  assumes "known_state st"
  shows "\<forall>x\<in>set (decide st e d). \<not> holds_unknown_value x"
proof (cases "ignored_reason st e")
  case None
  have k: "known_state (apply_input st e)" using assms by (rule known.apply_input_keeps)
  show ?thesis
  proof (cases "ev_body e = EB_ClaimReleased")
    case True
    show ?thesis
      by (rule emit_input_released [OF None True, of d])
         (use assms None in \<open>auto simp: decide_def known_state_def rs_outcome_def known_outcome_def split: outcome.splits\<close>)
  next
    case False
    then show ?thesis using known_emits [OF emits_input [OF None False, of d]] k assms None by (simp add: decide_def)
  qed
qed (simp add: decide_def)

lemma replay_decisions:
  assumes "\<forall>x\<in>set ds. \<not> holds_unknown_value x"
  shows "replay st (map (decision_event run e) (enumerate n ds)) =
    Inr ((fold_decisions (ev_at e) ds st)\<lparr>rs_seq := (if ds = [] then rs_seq st else ev_seq e + n + length ds)\<rparr>)"
  using assms
proof (induction ds arbitrary: st n)
  case (Cons x ds)
  let ?st = "(apply_decision st x (ev_at e))\<lparr>rs_seq := ev_seq e + 1 + n\<rparr>"
  have "evolve st (decision_event run e (n, x)) = Inr ?st"
    using Cons.prems by (simp add: decision_event_def evolve_def is_unknown_decision_def event_new_def)
  then show ?case
    using Cons.IH [of ?st "Suc n"] Cons.prems by (auto simp: seq_fold_decisions)
qed simp

lemma replay_reduced:
  assumes known: "known_state st" and input: "\<And>d. ev_body e \<noteq> EB_Decision d"
    and e': "e' = logged_input st e" and ds: "ds = decide st e' (rs_def st)"
  shows "replay st (e' # map (decision_event (rs_run st) e') (enumerate 0 ds)) =
    Inr ((fold_decisions (ev_at e) ds (apply_input st e'))\<lparr>rs_seq := rs_seq st + 1 + length ds\<rparr>)"
proof -
  have "\<not> is_unknown_decision e'"
    using input by (auto simp: e' is_unknown_decision_def true_origin_def split: event_body.split)
  then have "evolve st e' = Inr ((apply_input st e')\<lparr>rs_seq := rs_seq st + 1\<rparr>)"
    using input by (cases "ev_body e") (auto simp: evolve_def e')
  moreover have "\<forall>x\<in>set ds. \<not> holds_unknown_value x"
    using decide_known [OF known] by (simp add: ds)
  ultimately show ?thesis
    by (simp add: replay_decisions seq_fold_decisions e')
qed

lemma reduce_Some:
  assumes "known_state st" "\<And>d. ev_body e \<noteq> EB_Decision d"
  shows "reduce st e = Some (logged_input st e # map (decision_event (rs_run st) (logged_input st e))
      (enumerate 0 (decide st (logged_input st e) (rs_def st))),
    (fold_decisions (ev_at e) (decide st (logged_input st e) (rs_def st)) (apply_input st (logged_input st e)))
      \<lparr>rs_seq := rs_seq st + 1 + length (decide st (logged_input st e) (rs_def st))\<rparr>)"
  using replay_reduced [OF assms refl refl] by (simp add: reduce_def Let_def)

lemma reduce_state:
  assumes "known_state st" "\<And>d. ev_body e \<noteq> EB_Decision d" "ignored_reason st e = None"
  shows "\<exists>evs. reduce st e = Some (evs,
    (em_state (emit_input (logged_input st e) (emit_start st (logged_input st e) (rs_def st))))
      \<lparr>rs_seq := rs_seq st + length evs\<rparr>)"
  using assms reduce_Some [OF assms(1,2)] decide_state [of st "logged_input st e" "rs_def st"]
  by simp

lemma reduce_ignored:
  assumes "known_state st" "\<And>d. ev_body e \<noteq> EB_Decision d" "ignored_reason st e = Some r"
  shows "reduce st e = Some ([logged_input st e,
     decision_event (rs_run st) (logged_input st e) (0, DE_Ignored (rs_seq st + 1) r)], st\<lparr>rs_seq := rs_seq st + 2\<rparr>)"
  using assms reduce_Some [OF assms(1,2)]
  by (simp add: decide_def)

lemma is_ignored_reduce:
  assumes "known_state st" "\<And>d. ev_body e \<noteq> EB_Decision d" "reduce st e = Some (evs, st')"
  shows "is_ignored evs \<longleftrightarrow> ignored_reason st e \<noteq> None"
proof (cases "ignored_reason st e")
  case None
  let ?ds = "decide st (logged_input st e) (rs_def st)"
  have no: "DE_Ignored n r \<notin> set ?ds" for n r
    using decide_lawful [of st "logged_input st e" "DE_Ignored n r" "rs_def st"] None by auto
  have "evs = logged_input st e # map (decision_event (rs_run st) (logged_input st e)) (enumerate 0 ?ds)"
    using reduce_Some [OF assms(1,2)] assms(3) by simp
  with None no show ?thesis
    by (cases ?ds) (auto simp: is_ignored_def decision_event_def event_new_def split: decision.split)
next
  case (Some r)
  then show ?thesis using reduce_ignored [OF assms(1,2) Some] assms(3)
    by (auto simp: is_ignored_def decision_event_def event_new_def)
qed

end
