(* ===== verification/Store_Contract.thy ===== *)
theory Store_Contract
  imports Contract_Events "HOL-Library.Product_Lexorder"
begin

text \<open>
  The storage contract: the value types and errors of \<^verbatim>\<open>crates/run-contracts/src/store.rs\<close>, and
  the tables of \<^verbatim>\<open>crates/run-store-sqlite/src/schema.rs\<close> as records. Each table is the list of its
  rows in row order; \<open>kv\<close> is an ordered map. The encodings of \<^verbatim>\<open>serde_json\<close> are the fields of a
  \<open>codec\<close>, a parameter of every operation that reads or writes one.
\<close>

type_synonym bytes = "char list"

section \<open>Values\<close>

record cas =
  ca_key :: key
  ca_from :: "bytes option"
  ca_to :: "bytes option"

datatype enqueued = EN_Accepted | EN_Duplicate

datatype timer_change_kind = CK_Armed | CK_Cleared | CK_Fired

record timer_change =
  tc_timer :: string
  tc_change :: timer_change_kind
  tc_fire_at :: timestamp

record appended =
  ap_last_seq :: seq
  ap_timers :: "timer_change list"

record due_timer =
  dt_run :: run_id
  dt_timer :: string
  dt_fire_at :: timestamp
  dt_purpose :: timer_purpose

datatype store_error =
    SE_Fenced
  | SE_SeqMismatch
  | SE_DuplicateKey seq
  | SE_CasFailed key
  | SE_VersionTooOld nat
  | SE_Busy
  | SE_Protected key
  | SE_UnknownRun
  | SE_InvalidEvent string
  | SE_Backend string
  | SE_DamagedRow key "seq option"

fun store_error_kind :: "store_error \<Rightarrow> string" where
  "store_error_kind SE_Fenced = ''fenced''"
| "store_error_kind SE_SeqMismatch = ''seq_mismatch''"
| "store_error_kind (SE_DuplicateKey _) = ''duplicate_key''"
| "store_error_kind (SE_CasFailed _) = ''cas_failed''"
| "store_error_kind (SE_VersionTooOld _) = ''version_too_old''"
| "store_error_kind SE_Busy = ''busy''"
| "store_error_kind (SE_Protected _) = ''protected''"
| "store_error_kind SE_UnknownRun = ''unknown_run''"
| "store_error_kind (SE_InvalidEvent _) = ''invalid_event''"
| "store_error_kind (SE_Backend _) = ''backend''"
| "store_error_kind (SE_DamagedRow _ _) = ''damaged_row''"

section \<open>Tables\<close>

record event_row =
  er_run :: run_id
  er_seq :: seq
  er_at :: int
  er_v :: nat
  er_key :: key
  er_origin :: string
  er_body :: string

record inbox_row =
  ib_run :: run_id
  ib_key :: key
  ib_at :: int
  ib_origin :: string
  ib_body :: string

datatype timer_state = TS_Armed | TS_Cleared | TS_Fired

record timer_row =
  tr_run :: run_id
  tr_timer :: string
  tr_fire_at :: int
  tr_purpose :: string
  tr_state :: timer_state

record run_row =
  rw_run :: run_id
  rw_workspace_id :: string
  rw_tenant :: string
  rw_finished :: bool
  rw_last_seq :: seq
  rw_max_v :: nat
  rw_commissioned_at :: int

record store =
  db_events :: "event_row list"
  db_inbox :: "inbox_row list"
  db_timers :: "timer_row list"
  db_kv :: "(key, bytes) btmap"
  db_runs :: "run_row list"

definition empty_store :: store where
  "empty_store = \<lparr> db_events = [], db_inbox = [], db_timers = [], db_kv = [], db_runs = [] \<rparr>"

section \<open>Encodings\<close>

text \<open>The value of \<^verbatim>\<open>owner/<run>\<close> and of an \<^verbatim>\<open>effect/<run>/<key>\<close> entry, in
  \<^verbatim>\<open>crates/run-store-sqlite/src/lease.rs\<close>.\<close>

record lease =
  le_owner_id :: string
  le_epoch :: epoch
  le_expires_at :: timestamp

record effect_entry =
  ee_state :: string
  ee_epoch :: epoch

text \<open>What \<^verbatim>\<open>serde_json\<close> writes and reads for the types the store holds, and what the ULID library
  accepts.\<close>

record codec =
  co_event_write :: "event \<Rightarrow> string option"
  co_event_read :: "string \<Rightarrow> event option"
  co_lease_write :: "lease \<Rightarrow> bytes option"
  co_lease_read :: "bytes \<Rightarrow> lease option"
  co_entry_read :: "bytes \<Rightarrow> effect_entry option"
  co_instant_write :: "timestamp \<Rightarrow> bytes option"
  co_instant_read :: "bytes \<Rightarrow> timestamp option"
  co_ulid_ok :: "string \<Rightarrow> bool"

text \<open>The round trips a reader relies on: what was written reads back as it was.\<close>

definition codec_ok :: "codec \<Rightarrow> bool" where
  "codec_ok c \<longleftrightarrow>
     (\<forall>e w. co_event_write c e = Some w \<longrightarrow> co_event_read c w = Some e) \<and>
     (\<forall>l b. co_lease_write c l = Some b \<longrightarrow> co_lease_read c b = Some l) \<and>
     (\<forall>t b. co_instant_write c t = Some b \<longrightarrow> co_instant_read c b = Some t)"

section \<open>Results\<close>

definition and_then :: "'e + 'a \<Rightarrow> ('a \<Rightarrow> 'e + 'b) \<Rightarrow> 'e + 'b" where
  "and_then r f = (case r of Inl e \<Rightarrow> Inl e | Inr x \<Rightarrow> f x)"

lemma and_then_simps [simp]: "and_then (Inl e) f = Inl e" "and_then (Inr x) f = f x"
  by (simp_all add: and_then_def)

lemma and_then_Inr_iff [simp]: "and_then r f = Inr y \<longleftrightarrow> (\<exists>x. r = Inr x \<and> f x = Inr y)"
  by (cases r) auto

text \<open>A fold that stops at the first error.\<close>

fun try_fold :: "('x \<Rightarrow> 's \<Rightarrow> 'e + 's) \<Rightarrow> 'x list \<Rightarrow> 's \<Rightarrow> 'e + 's" where
  "try_fold f [] s = Inr s"
| "try_fold f (x # xs) s = and_then (f x s) (try_fold f xs)"

lemma try_fold_invariant:
  assumes "try_fold f xs s = Inr s'" "I s" "\<And>x s s'. x \<in> set xs \<Longrightarrow> I s \<Longrightarrow> f x s = Inr s' \<Longrightarrow> I s'"
  shows "I s'"
  using assms by (induction xs arbitrary: s) auto

end
