(* ===== verification/Store_Lease.thy ===== *)
theory Store_Lease
  imports Store_Contract
begin

text \<open>
  The per-run owner lease and the values that hang off it, from
  \<^verbatim>\<open>crates/run-store-sqlite/src/lease.rs\<close>, with the compare-and-set of
  \<^verbatim>\<open>append.rs\<close> that writes every named value. \<open>acquire_or_renew\<close> reads a value and then
  compares-and-sets on exactly that value: \<open>acquire_plan\<close> is what it makes of the value it read, so that
  another host's write may fall between the two.
\<close>

definition OWNER_PREFIX :: string where "OWNER_PREFIX = ''owner/''"
definition HOST_SEEN_PREFIX :: string where "HOST_SEEN_PREFIX = ''host-seen/''"
definition EFFECT_PREFIX :: string where "EFFECT_PREFIX = ''effect/''"
definition LEASE_EXPIRY :: secs where "LEASE_EXPIRY = 30"

definition expiry_ms :: int where "expiry_ms = int LEASE_EXPIRY * 1000"

definition owner_key :: "string \<Rightarrow> key" where "owner_key run = OWNER_PREFIX @ run"

definition is_owner_key :: "key \<Rightarrow> bool" where "is_owner_key k = starts_with k OWNER_PREFIX"

definition store_get :: "key \<Rightarrow> store \<Rightarrow> bytes option" where
  "store_get k db = map_of (db_kv db) k"

definition decode_lease :: "codec \<Rightarrow> key \<Rightarrow> bytes \<Rightarrow> store_error + lease" where
  "decode_lease c k b =
     (case co_lease_read c b of Some l \<Rightarrow> Inr l | None \<Rightarrow> Inl (SE_DamagedRow k None))"

definition encode_lease :: "codec \<Rightarrow> lease \<Rightarrow> store_error + bytes" where
  "encode_lease c l =
     (case co_lease_write c l of Some b \<Rightarrow> Inr b | None \<Rightarrow> Inl (SE_Backend ''a kv value cannot be written''))"

definition current_epoch :: "codec \<Rightarrow> run_id \<Rightarrow> store \<Rightarrow> store_error + epoch option" where
  "current_epoch c run db =
     (case store_get (owner_key run) db of
        None \<Rightarrow> Inr None
      | Some b \<Rightarrow> and_then (decode_lease c (owner_key run) b) (\<lambda>l. Inr (Some (le_epoch l))))"

definition check_owner_value :: "codec \<Rightarrow> key \<Rightarrow> bytes option \<Rightarrow> store_error + unit" where
  "check_owner_value c k new =
     (case new of
        None \<Rightarrow> Inl (SE_Protected k)
      | Some b \<Rightarrow>
          (case co_lease_read c b of
             Some _ \<Rightarrow> Inr ()
           | None \<Rightarrow> Inl (SE_InvalidEvent (k @ '' holds a lease''))))"

definition check_epoch_keeps_rising ::
  "codec \<Rightarrow> key \<Rightarrow> bytes option \<Rightarrow> bytes option \<Rightarrow> store_error + unit" where
  "check_epoch_keeps_rising c k current new =
     (case (current, new) of
        (Some cur, Some nw) \<Rightarrow>
          and_then (decode_lease c k nw) (\<lambda>n.
          and_then (decode_lease c k cur) (\<lambda>old.
            if le_epoch n < le_epoch old then Inl (SE_Protected k) else Inr ()))
      | _ \<Rightarrow> Inr ())"

text \<open>\<^verbatim>\<open>split_once('/')\<close>.\<close>

fun split_once :: "char \<Rightarrow> string \<Rightarrow> (string \<times> string) option" where
  "split_once c [] = None"
| "split_once c (x # xs) =
     (if x = c then Some ([], xs) else map_option (\<lambda>(a, b). (x # a, b)) (split_once c xs))"

definition check_effect_write :: "codec \<Rightarrow> key \<Rightarrow> bytes \<Rightarrow> store \<Rightarrow> store_error + unit" where
  "check_effect_write c k value db =
     (case Option.bind (strip_prefix EFFECT_PREFIX k)
             (\<lambda>rest. Option.bind (split_once (CHR ''/'') rest) (\<lambda>(run, _). run_id_parse (co_ulid_ok c) run)) of
        None \<Rightarrow> Inl (SE_InvalidEvent (k @ '': an effect key is effect/<run>/<key>''))
      | Some run \<Rightarrow>
          (case co_entry_read c value of
             None \<Rightarrow> Inl (SE_InvalidEvent (k @ '': an effect entry records its state and its epoch''))
           | Some entry \<Rightarrow>
               and_then (current_epoch c run db) (\<lambda>ep.
                 if ep \<noteq> Some (ee_epoch entry) then Inl SE_Fenced else Inr ())))"

definition write_kv :: "key \<Rightarrow> bytes option \<Rightarrow> store \<Rightarrow> store" where
  "write_kv k v db =
     db\<lparr>db_kv := (case v of Some b \<Rightarrow> bt_insert k b (db_kv db) | None \<Rightarrow> bt_remove k (db_kv db))\<rparr>"

definition apply_cas :: "codec \<Rightarrow> cas \<Rightarrow> store \<Rightarrow> store_error + store" where
  "apply_cas c item db =
     (let k = ca_key item; owner = is_owner_key k in
      and_then (if owner then check_owner_value c k (ca_to item) else Inr ()) (\<lambda>_.
      and_then
        (case ca_to item of
           Some value \<Rightarrow> if starts_with k EFFECT_PREFIX then check_effect_write c k value db else Inr ()
         | None \<Rightarrow> Inr ()) (\<lambda>_.
      let current = store_get k db in
      if current \<noteq> ca_from item then Inl (SE_CasFailed k)
      else
        and_then (if owner then check_epoch_keeps_rising c k current (ca_to item) else Inr ()) (\<lambda>_.
          Inr (write_kv k (ca_to item) db)))))"

text \<open>A call on the store: the answer, and the store after it. An error rolls back.\<close>

definition compare_and_set ::
  "codec \<Rightarrow> key \<Rightarrow> bytes option \<Rightarrow> bytes option \<Rightarrow> store \<Rightarrow> (store_error + unit) \<times> store" where
  "compare_and_set c k from to db =
     (case apply_cas c \<lparr> ca_key = k, ca_from = from, ca_to = to \<rparr> db of
        Inl e \<Rightarrow> (Inl e, db)
      | Inr db' \<Rightarrow> (Inr (), db'))"

section \<open>Taking and keeping the lease\<close>

datatype lease_plan = LP_Keep lease | LP_Write lease

definition acquire_plan ::
  "codec \<Rightarrow> run_id \<Rightarrow> string \<Rightarrow> timestamp \<Rightarrow> bytes option \<Rightarrow> store_error + lease_plan" where
  "acquire_plan c run owner_id now current =
     (let k = owner_key run;
          take_epoch = (\<lambda>ep. LP_Write \<lparr> le_owner_id = owner_id, le_epoch = ep, le_expires_at = ts_plus now LEASE_EXPIRY \<rparr>)
      in case current of
        None \<Rightarrow> Inr (take_epoch 1)
      | Some b \<Rightarrow>
          and_then (decode_lease c k b) (\<lambda>held.
            let remaining_ms = le_expires_at held - now in
            if remaining_ms \<le> 0 then Inr (take_epoch (le_epoch held + 1))
            else if le_owner_id held \<noteq> owner_id then Inl (SE_CasFailed k)
            else if remaining_ms \<ge> expiry_ms div 2 then Inr (LP_Keep held)
            else Inr (take_epoch (le_epoch held))))"

text \<open>The second half, on the store as it is by then, with the value read before.\<close>

definition acquire_finish ::
  "codec \<Rightarrow> run_id \<Rightarrow> bytes option \<Rightarrow> store_error + lease_plan \<Rightarrow> store \<Rightarrow> (store_error + lease) \<times> store" where
  "acquire_finish c run current plan db =
     (case plan of
        Inl e \<Rightarrow> (Inl e, db)
      | Inr (LP_Keep l) \<Rightarrow> (Inr l, db)
      | Inr (LP_Write l) \<Rightarrow>
          (case encode_lease c l of
             Inl e \<Rightarrow> (Inl e, db)
           | Inr b \<Rightarrow>
               (case compare_and_set c (owner_key run) current (Some b) db of
                  (Inl e, db') \<Rightarrow> (Inl e, db')
                | (Inr _, db') \<Rightarrow> (Inr l, db'))))"

definition acquire_or_renew ::
  "codec \<Rightarrow> run_id \<Rightarrow> string \<Rightarrow> timestamp \<Rightarrow> store \<Rightarrow> (store_error + lease) \<times> store" where
  "acquire_or_renew c run owner_id now db =
     (let current = store_get (owner_key run) db
      in acquire_finish c run current (acquire_plan c run owner_id now current) db)"

definition host_seen :: "codec \<Rightarrow> string \<Rightarrow> store \<Rightarrow> timestamp option" where
  "host_seen c workspace_id db = Option.bind (store_get (HOST_SEEN_PREFIX @ workspace_id) db) (co_instant_read c)"

definition mark_host_seen :: "codec \<Rightarrow> string \<Rightarrow> timestamp \<Rightarrow> store \<Rightarrow> (store_error + unit) \<times> store" where
  "mark_host_seen c workspace_id now db =
     (let k = HOST_SEEN_PREFIX @ workspace_id; stored = store_get k db in
      if is_some_and (Option.bind stored (co_instant_read c)) (\<lambda>at. \<bar>now - at\<bar> < expiry_ms)
      then (Inr (), db)
      else case co_instant_write c now of
        None \<Rightarrow> (Inl (SE_Backend ''a kv value cannot be written''), db)
      | Some value \<Rightarrow>
          (case compare_and_set c k stored (Some value) db of
             (Inl (SE_CasFailed _), db') \<Rightarrow> (Inr (), db')
           | other \<Rightarrow> other))"

section \<open>Facts about named values\<close>

lemma store_get_write_kv [simp]: "store_get j (write_kv k v db) = (if j = k then v else store_get j db)"
  by (cases v) (simp_all add: store_get_def write_kv_def)

lemma apply_cas_Inr:
  assumes "apply_cas c item db = Inr db'"
  shows "store_get (ca_key item) db = ca_from item \<and> db' = write_kv (ca_key item) (ca_to item) db"
  using assms by (auto simp: apply_cas_def Let_def split: if_splits option.splits)

lemma write_kv_tables [simp]:
  "db_events (write_kv k v db) = db_events db" "db_inbox (write_kv k v db) = db_inbox db"
  "db_timers (write_kv k v db) = db_timers db" "db_runs (write_kv k v db) = db_runs db"
  by (simp_all add: write_kv_def)

text \<open>The epoch of a readable lease, as a number; 0 while nobody ever held it.\<close>

definition epoch_of :: "codec \<Rightarrow> run_id \<Rightarrow> store \<Rightarrow> nat" where
  "epoch_of c run db =
     (case Option.bind (store_get (owner_key run) db) (co_lease_read c) of None \<Rightarrow> 0 | Some l \<Rightarrow> le_epoch l)"

lemma owner_key_is_owner [simp]: "is_owner_key (owner_key run)"
  by (simp add: is_owner_key_def owner_key_def starts_with_iff)

lemma owner_key_inject [simp]: "owner_key a = owner_key b \<longleftrightarrow> a = b"
  by (simp add: owner_key_def)

lemma current_epoch_Some:
  "current_epoch c run db = Inr (Some ep) \<longleftrightarrow>
     (\<exists>b l. store_get (owner_key run) db = Some b \<and> co_lease_read c b = Some l \<and> le_epoch l = ep)"
  by (auto simp: current_epoch_def decode_lease_def split: option.splits)

text \<open>A compare-and-set never lowers an epoch, never deletes a lease and never leaves a value there that
  is not one.\<close>

lemma apply_cas_owner:
  assumes "apply_cas c item db = Inr db'" "is_owner_key (ca_key item)"
  shows "\<exists>b l. ca_to item = Some b \<and> co_lease_read c b = Some l \<and>
    (\<forall>b0. store_get (ca_key item) db = Some b0 \<longrightarrow>
       (\<exists>l0. co_lease_read c b0 = Some l0 \<and> le_epoch l0 \<le> le_epoch l))"
  using assms
  by (auto simp: apply_cas_def Let_def check_owner_value_def check_epoch_keeps_rising_def decode_lease_def
      split: if_splits option.splits)

lemma apply_cas_epoch:
  assumes "apply_cas c item db = Inr db'"
  shows "epoch_of c run db \<le> epoch_of c run db'"
proof (cases "ca_key item = owner_key run")
  case True
  then obtain b l where b: "ca_to item = Some b" "co_lease_read c b = Some l"
    "\<forall>b0. store_get (owner_key run) db = Some b0 \<longrightarrow> (\<exists>l0. co_lease_read c b0 = Some l0 \<and> le_epoch l0 \<le> le_epoch l)"
    using apply_cas_owner [OF assms] by auto
  then have "epoch_of c run db' = le_epoch l"
    using apply_cas_Inr [OF assms] True by (simp add: epoch_of_def)
  moreover have "epoch_of c run db \<le> le_epoch l"
    using b(3) by (cases "store_get (owner_key run) db") (auto simp: epoch_of_def)
  ultimately show ?thesis by simp
next
  case False
  then show ?thesis using apply_cas_Inr [OF assms] by (auto simp: epoch_of_def)
qed

lemma compare_and_set_cases:
  assumes "compare_and_set c k f t db = (r, db')"
  obtains (ok) "apply_cas c \<lparr> ca_key = k, ca_from = f, ca_to = t \<rparr> db = Inr db'" "r = Inr ()"
    | (err) e where "r = Inl e" "db' = db"
  using assms by (auto simp: compare_and_set_def split: sum.splits)

lemma compare_and_set_epoch: "epoch_of c run db \<le> epoch_of c run (snd (compare_and_set c k f t db))"
  by (cases "compare_and_set c k f t db") (auto elim!: compare_and_set_cases intro: apply_cas_epoch)

section \<open>The lease excludes\<close>

lemma acquire_plan_write:
  assumes "acquire_plan c run me now current = Inr (LP_Write l)"
  shows "le_owner_id l = me \<and> le_expires_at l = ts_plus now LEASE_EXPIRY \<and>
    (case current of
       None \<Rightarrow> le_epoch l = 1
     | Some b \<Rightarrow> \<exists>held. co_lease_read c b = Some held \<and>
         (if le_expires_at held \<le> now then le_epoch l = le_epoch held + 1
          else le_owner_id held = me \<and> le_epoch l = le_epoch held \<and> le_expires_at held - now < expiry_ms div 2))"
  using assms by (auto simp: acquire_plan_def Let_def decode_lease_def split: option.splits if_splits)

lemma acquire_plan_keep:
  assumes "acquire_plan c run me now current = Inr (LP_Keep l)"
  shows "\<exists>b. current = Some b \<and> co_lease_read c b = Some l \<and> le_owner_id l = me \<and> now < le_expires_at l"
  using assms by (auto simp: acquire_plan_def Let_def decode_lease_def split: option.splits if_splits)

text \<open>A lease written is never the bytes it replaces.\<close>

lemma acquire_plan_fresh:
  assumes "codec_ok c" "acquire_plan c run me now current = Inr (LP_Write l)" "co_lease_write c l = Some b"
    "writable now" "now + expiry_ms \<le> last_writable_millis"
  shows "current \<noteq> Some b"
proof
  assume cur: "current = Some b"
  from assms(1,3) have l: "co_lease_read c b = Some l" by (simp add: codec_ok_def)
  have "le_expires_at l = now + expiry_ms"
    using acquire_plan_write [OF assms(2)] assms(4,5)
    by (simp add: ts_plus_exact expiry_ms_def LEASE_EXPIRY_def time_defs)
  with acquire_plan_write [OF assms(2)] cur l show False
    by (auto simp: expiry_ms_def LEASE_EXPIRY_def split: if_splits)
qed

lemma acquire_finish_write:
  assumes "acquire_finish c run current (Inr (LP_Write l)) db = (Inr l', db')"
  shows "\<exists>b. co_lease_write c l = Some b \<and> l' = l \<and> store_get (owner_key run) db = current \<and>
    db' = write_kv (owner_key run) (Some b) db"
  using assms
  by (auto simp: acquire_finish_def encode_lease_def compare_and_set_def split: option.splits sum.splits
      dest!: apply_cas_Inr)

lemma acquire_finish_stale:
  assumes "store_get (owner_key run) db \<noteq> current" "co_lease_write c l = Some b" "co_lease_read c b = Some l"
  shows "acquire_finish c run current (Inr (LP_Write l)) db = (Inl (SE_CasFailed (owner_key run)), db)"
  using assms
  by (auto simp: acquire_finish_def encode_lease_def compare_and_set_def apply_cas_def Let_def check_owner_value_def
      check_effect_write_def EFFECT_PREFIX_def owner_key_def OWNER_PREFIX_def starts_with_iff)

text \<open>Of two hosts that read the same value, the second to write loses.\<close>

lemma lease_race:
  assumes ok: "codec_ok c" and a: "acquire_plan c run a now_a current = Inr (LP_Write la)"
    and win: "acquire_finish c run current (Inr (LP_Write la)) db = (Inr la', db1)"
    and w: "writable now_a" "now_a + expiry_ms \<le> last_writable_millis"
    and lb: "co_lease_write c lb = Some bb"
  shows "acquire_finish c run current (Inr (LP_Write lb)) db1 = (Inl (SE_CasFailed (owner_key run)), db1)"
proof -
  obtain b where b: "co_lease_write c la = Some b" "db1 = write_kv (owner_key run) (Some b) db"
    using acquire_finish_write [OF win] by blast
  have "store_get (owner_key run) db1 \<noteq> current"
    using acquire_plan_fresh [OF ok a b(1) w] b(2) by auto
  then show ?thesis
    using acquire_finish_stale ok lb by (simp add: codec_ok_def)
qed

lemma acquire_holds:
  assumes "codec_ok c" "acquire_or_renew c run me now db = (Inr l, db')"
  shows "le_owner_id l = me \<and> current_epoch c run db' = Inr (Some (le_epoch l))"
proof -
  let ?cur = "store_get (owner_key run) db"
  consider (keep) k where "acquire_plan c run me now ?cur = Inr (LP_Keep k)"
    | (take_it) w where "acquire_plan c run me now ?cur = Inr (LP_Write w)"
    | (err) e where "acquire_plan c run me now ?cur = Inl e"
    by (metis lease_plan.exhaust sum.exhaust)
  then show ?thesis
  proof cases
    case keep
    then show ?thesis using acquire_plan_keep [OF keep] assms(2)
      by (auto simp: acquire_or_renew_def acquire_finish_def current_epoch_Some)
  next
    case take_it
    have fin: "acquire_finish c run ?cur (Inr (LP_Write w)) db = (Inr l, db')"
      using assms(2) by (simp add: acquire_or_renew_def Let_def take_it)
    obtain b where "co_lease_write c w = Some b" "l = w" "db' = write_kv (owner_key run) (Some b) db"
      using acquire_finish_write [OF fin] by blast
    then show ?thesis
      using acquire_plan_write [OF take_it] assms(1) by (auto simp: current_epoch_Some codec_ok_def)
  next
    case err
    then show ?thesis using assms(2) by (simp add: acquire_or_renew_def acquire_finish_def)
  qed
qed

lemma live_lease_not_taken:
  assumes "store_get (owner_key run) db = Some b" "co_lease_read c b = Some held"
    "le_owner_id held \<noteq> me" "now < le_expires_at held"
  shows "acquire_or_renew c run me now db = (Inl (SE_CasFailed (owner_key run)), db)"
  using assms by (simp add: acquire_or_renew_def acquire_plan_def decode_lease_def acquire_finish_def)

end
