(* ===== verification/Store_Timers.thy ===== *)
theory Store_Timers
  imports Store_Contract
begin

text \<open>
  The timer index, from \<^verbatim>\<open>crates/run-store-sqlite/src/timers.rs\<close>: rows derived from the events of
  an append, in its transaction. \<open>armed_map\<close> reads the armed rows of one run as a map; the lemmas say
  what each event does to it.
\<close>

definition is_timer_of :: "run_id \<Rightarrow> string \<Rightarrow> timer_row \<Rightarrow> bool" where
  "is_timer_of run timer r = (tr_run r = run \<and> tr_timer r = timer)"

text \<open>\<^verbatim>\<open>INSERT .. ON CONFLICT (run, timer) DO UPDATE\<close>.\<close>

definition timer_arm :: "run_id \<Rightarrow> string \<Rightarrow> timestamp \<Rightarrow> timer_purpose \<Rightarrow> timer_row list \<Rightarrow> timer_row list" where
  "timer_arm run timer fire_at purpose rows =
     (if list_ex (is_timer_of run timer) rows
      then map (\<lambda>r. if is_timer_of run timer r
                    then r\<lparr>tr_fire_at := fire_at, tr_purpose := timer_purpose_str purpose, tr_state := TS_Armed\<rparr>
                    else r) rows
      else rows @ [\<lparr> tr_run = run, tr_timer = timer, tr_fire_at = fire_at,
                     tr_purpose = timer_purpose_str purpose, tr_state = TS_Armed \<rparr>])"

definition timer_clear :: "run_id \<Rightarrow> string \<Rightarrow> timer_row list \<Rightarrow> timestamp option \<times> timer_row list" where
  "timer_clear run timer rows =
     (let hit = (\<lambda>r. is_timer_of run timer r \<and> tr_state r = TS_Armed) in
      (map_option (\<lambda>r. from_unix_millis (tr_fire_at r)) (List.find hit rows),
       map (\<lambda>r. if hit r then r\<lparr>tr_state := TS_Cleared\<rparr> else r) rows))"

definition timer_fire :: "run_id \<Rightarrow> string \<Rightarrow> timestamp \<Rightarrow> timer_row list \<Rightarrow> bool \<times> timer_row list" where
  "timer_fire run timer fire_at rows =
     (let hit = (\<lambda>r. is_timer_of run timer r \<and> tr_state r = TS_Armed \<and> tr_fire_at r = fire_at) in
      (length (filter hit rows) = 1,
       map (\<lambda>r. if hit r then r\<lparr>tr_state := TS_Fired\<rparr> else r) rows))"

definition change_of :: "string \<Rightarrow> timer_change_kind \<Rightarrow> timestamp \<Rightarrow> timer_change" where
  "change_of timer kind fire_at = \<lparr> tc_timer = timer, tc_change = kind, tc_fire_at = fire_at \<rparr>"

fun clear_listed :: "run_id \<Rightarrow> string list \<Rightarrow> timer_row list \<Rightarrow> timer_change list \<times> timer_row list" where
  "clear_listed run [] rows = ([], rows)"
| "clear_listed run (timer # timers) rows =
     (let (fire_at, rows1) = timer_clear run timer rows;
          (changes, rows2) = clear_listed run timers rows1
      in ((case fire_at of Some f \<Rightarrow> [change_of timer CK_Cleared f] | None \<Rightarrow> []) @ changes, rows2))"

definition clear_all :: "run_id \<Rightarrow> timer_row list \<Rightarrow> timer_change list \<times> timer_row list" where
  "clear_all run rows =
     clear_listed run
       (map tr_timer
          (sort_key (\<lambda>r. (tr_fire_at r, tr_timer r))
             (filter (\<lambda>r. tr_run r = run \<and> tr_state r = TS_Armed) rows))) rows"

definition timer_event :: "run_id \<Rightarrow> event_body \<Rightarrow> timer_row list \<Rightarrow> timer_change list \<times> timer_row list" where
  "timer_event run body rows =
     (case body of
        EB_Decision (DE_TimerSet timer fire_at purpose) \<Rightarrow>
          ([change_of timer CK_Armed fire_at], timer_arm run timer fire_at purpose rows)
      | EB_Decision (DE_TimerCleared timer) \<Rightarrow>
          (let (fire_at, rows') = timer_clear run timer rows
           in ((case fire_at of Some f \<Rightarrow> [change_of timer CK_Cleared f] | None \<Rightarrow> []), rows'))
      | EB_TimerFired timer fire_at \<Rightarrow>
          (let (hit, rows') = timer_fire run timer fire_at rows
           in ((if hit then [change_of timer CK_Fired fire_at] else []), rows'))
      | EB_Decision (DE_Finished _ _) \<Rightarrow> clear_all run rows
      | _ \<Rightarrow> ([], rows))"

fun timers_apply :: "run_id \<Rightarrow> event list \<Rightarrow> timer_row list \<Rightarrow> timer_change list \<times> timer_row list" where
  "timers_apply run [] rows = ([], rows)"
| "timers_apply run (e # es) rows =
     (let (c1, rows1) = timer_event run (ev_body e) rows;
          (c2, rows2) = timers_apply run es rows1
      in (c1 @ c2, rows2))"

text \<open>One row of the query; a purpose this version does not know is skipped.\<close>

definition due_row :: "(string \<Rightarrow> bool) \<Rightarrow> timer_row \<Rightarrow> due_timer list \<Rightarrow> store_error + due_timer list" where
  "due_row ulid_ok r acc =
     (case timer_purpose_parse (tr_purpose r) of
        TP_Unknown _ \<Rightarrow> Inr acc
      | purpose \<Rightarrow>
          (case run_id_parse ulid_ok (tr_run r) of
             None \<Rightarrow> Inl (SE_Backend ''a run row holds no run id'')
           | Some run \<Rightarrow>
               Inr (acc @ [\<lparr> dt_run = run, dt_timer = tr_timer r, dt_fire_at = from_unix_millis (tr_fire_at r),
                             dt_purpose = purpose \<rparr>])))"

definition timers_due :: "(string \<Rightarrow> bool) \<Rightarrow> timestamp \<Rightarrow> timer_row list \<Rightarrow> store_error + due_timer list" where
  "timers_due ulid_ok now rows =
     try_fold (due_row ulid_ok)
       (sort_key (\<lambda>r. (tr_fire_at r, tr_run r, tr_timer r))
          (filter (\<lambda>r. tr_state r = TS_Armed \<and> tr_fire_at r \<le> now) rows))
       []"

section \<open>The armed rows of a run as a map\<close>

definition timers_unique :: "timer_row list \<Rightarrow> bool" where
  "timers_unique rows \<longleftrightarrow> distinct (map (\<lambda>r. (tr_run r, tr_timer r)) rows)"

definition armed_map :: "run_id \<Rightarrow> timer_row list \<Rightarrow> string \<Rightarrow> (timestamp \<times> string) option" where
  "armed_map run rows timer =
     map_option (\<lambda>r. (tr_fire_at r, tr_purpose r))
       (List.find (\<lambda>r. is_timer_of run timer r \<and> tr_state r = TS_Armed) rows)"

lemma timers_unique_simps [simp]:
  "timers_unique []"
  "timers_unique (r # rows) \<longleftrightarrow> (\<forall>x\<in>set rows. \<not> is_timer_of (tr_run r) (tr_timer r) x) \<and> timers_unique rows"
  by (auto simp: timers_unique_def is_timer_of_def image_iff)

lemma armed_map_Cons [simp]:
  "armed_map run (r # rows) timer =
     (if is_timer_of run timer r \<and> tr_state r = TS_Armed then Some (tr_fire_at r, tr_purpose r)
      else armed_map run rows timer)"
  by (simp add: armed_map_def)

lemma armed_map_Nil [simp]: "armed_map run [] timer = None"
  by (simp add: armed_map_def)

lemma armed_map_append:
  "armed_map run (xs @ ys) timer = (case armed_map run xs timer of None \<Rightarrow> armed_map run ys timer | Some v \<Rightarrow> Some v)"
  by (induction xs) auto

lemma armed_map_absent: "\<forall>x\<in>set rows. \<not> is_timer_of run timer x \<Longrightarrow> armed_map run rows timer = None"
  by (induction rows) auto

text \<open>A statement that changes rows in place keeps their keys.\<close>

lemma timers_unique_map:
  assumes "\<And>r. tr_run (f r) = tr_run r \<and> tr_timer (f r) = tr_timer r"
  shows "timers_unique (map f rows) = timers_unique rows"
  using assms by (simp add: timers_unique_def comp_def)

lemma unique_arm: "timers_unique rows \<Longrightarrow> timers_unique (timer_arm run timer f p rows)"
proof (cases "list_ex (is_timer_of run timer) rows")
  case True
  assume "timers_unique rows"
  with True show ?thesis by (simp add: timer_arm_def timers_unique_map)
next
  case False
  assume "timers_unique rows"
  with False show ?thesis
    by (auto simp: timer_arm_def list_ex_iff timers_unique_def is_timer_of_def image_iff)
qed

lemma armed_arm:
  assumes "timers_unique rows"
  shows "armed_map run (timer_arm run timer f p rows) t =
    (if t = timer then Some (f, timer_purpose_str p) else armed_map run rows t)"
    "run' \<noteq> run \<Longrightarrow> armed_map run' (timer_arm run timer f p rows) t = armed_map run' rows t"
proof -
  let ?f = "\<lambda>r. if is_timer_of run timer r
              then r\<lparr>tr_fire_at := f, tr_purpose := timer_purpose_str p, tr_state := TS_Armed\<rparr> else r"
  have m: "armed_map run (map ?f rows) t =
      (if t = timer \<and> list_ex (is_timer_of run timer) rows then Some (f, timer_purpose_str p) else armed_map run rows t)"
    by (induction rows) (auto simp: is_timer_of_def)
  have m': "run' \<noteq> run \<Longrightarrow> armed_map run' (map ?f rows) t = armed_map run' rows t"
    by (induction rows) (auto simp: is_timer_of_def)
  show "armed_map run (timer_arm run timer f p rows) t =
    (if t = timer then Some (f, timer_purpose_str p) else armed_map run rows t)"
  proof (cases "list_ex (is_timer_of run timer) rows")
    case True
    then show ?thesis using m by (simp add: timer_arm_def)
  next
    case False
    then have "armed_map run rows timer = None" by (intro armed_map_absent) (auto simp: list_ex_iff)
    with False show ?thesis
      by (auto simp: timer_arm_def armed_map_append is_timer_of_def split: option.split)
  qed
  show "run' \<noteq> run \<Longrightarrow> armed_map run' (timer_arm run timer f p rows) t = armed_map run' rows t"
    using m' by (auto simp: timer_arm_def armed_map_append is_timer_of_def split: option.split)
qed

lemma unique_clear: "timers_unique rows \<Longrightarrow> timers_unique (snd (timer_clear run timer rows))"
  by (simp add: timer_clear_def timers_unique_map)

lemma armed_clear:
  "armed_map run' (snd (timer_clear run timer rows)) t =
     (if run' = run \<and> t = timer then None else armed_map run' rows t)"
  by (induction rows) (auto simp: timer_clear_def is_timer_of_def)

lemma unique_fire: "timers_unique rows \<Longrightarrow> timers_unique (snd (timer_fire run timer f rows))"
  by (simp add: timer_fire_def timers_unique_map)

lemma armed_fire:
  assumes "timers_unique rows"
  shows "armed_map run' (snd (timer_fire run timer f rows)) t =
     (if run' = run \<and> t = timer \<and> map_option fst (armed_map run rows timer) = Some f then None
      else armed_map run' rows t)"
  using assms
proof (induction rows)
  case (Cons r rows)
  have IH: "armed_map run' (snd (timer_fire run timer f rows)) t =
     (if run' = run \<and> t = timer \<and> map_option fst (armed_map run rows timer) = Some f then None
      else armed_map run' rows t)"
    using Cons by simp
  have step: "snd (timer_fire run timer f (r # rows)) =
      (if is_timer_of run timer r \<and> tr_state r = TS_Armed \<and> tr_fire_at r = f then r\<lparr>tr_state := TS_Fired\<rparr> else r)
      # snd (timer_fire run timer f rows)"
    by (simp add: timer_fire_def Let_def)
  show ?case
  proof (cases "is_timer_of run timer r")
    case True
    then have "armed_map run rows timer = None"
      using Cons.prems by (intro armed_map_absent) (auto simp: is_timer_of_def)
    with True IH show ?thesis unfolding step by (auto simp: is_timer_of_def)
  next
    case False
    with IH show ?thesis unfolding step by (auto split: if_splits)
  qed
qed (simp add: timer_fire_def)

lemma unique_clear_listed: "timers_unique rows \<Longrightarrow> timers_unique (snd (clear_listed run ts rows))"
proof (induction ts arbitrary: rows)
  case (Cons t ts)
  then show ?case using unique_clear [of rows run t] by (simp add: case_prod_unfold Let_def)
qed simp

lemma armed_clear_listed:
  "armed_map run' (snd (clear_listed run ts rows)) t =
     (if run' = run \<and> t \<in> set ts then None else armed_map run' rows t)"
  by (induction ts arbitrary: rows) (auto simp: case_prod_unfold Let_def armed_clear)

lemma armed_clear_all:
  "armed_map run' (snd (clear_all run rows)) t = (if run' = run then None else armed_map run' rows t)"
proof -
  have "armed_map run rows t = None"
    if "t \<notin> tr_timer ` {r \<in> set rows. tr_run r = run \<and> tr_state r = TS_Armed}"
    using that by (fastforce simp: armed_map_def find_None_iff is_timer_of_def)
  then show ?thesis by (simp add: clear_all_def armed_clear_listed)
qed

lemma unique_timer_event: "timers_unique rows \<Longrightarrow> timers_unique (snd (timer_event run body rows))"
  using unique_clear [of rows] unique_fire [of rows]
  by (auto simp: timer_event_def case_prod_unfold Let_def unique_arm clear_all_def unique_clear_listed
      split: event_body.split decision.split)

lemma unique_timers_apply: "timers_unique rows \<Longrightarrow> timers_unique (snd (timers_apply run es rows))"
proof (induction es arbitrary: rows)
  case (Cons e es)
  then show ?case using unique_timer_event [of rows run "ev_body e"] by (simp add: case_prod_unfold Let_def)
qed simp

lemma timers_apply_append:
  "snd (timers_apply run (es @ fs) rows) = snd (timers_apply run fs (snd (timers_apply run es rows)))"
  by (induction es arbitrary: rows) (simp_all add: case_prod_unfold Let_def)

text \<open>The rows of another run are left alone.\<close>

lemma armed_timer_event_other:
  "timers_unique rows \<Longrightarrow> run' \<noteq> run \<Longrightarrow> armed_map run' (snd (timer_event run body rows)) t = armed_map run' rows t"
  by (auto simp: timer_event_def case_prod_unfold Let_def armed_arm armed_clear armed_fire armed_clear_all
      split: event_body.split decision.split)

lemma armed_timers_apply_other:
  "timers_unique rows \<Longrightarrow> run' \<noteq> run \<Longrightarrow> armed_map run' (snd (timers_apply run es rows)) t = armed_map run' rows t"
proof (induction es arbitrary: rows)
  case (Cons e es)
  then show ?case
    using unique_timer_event [of rows run "ev_body e"] by (simp add: case_prod_unfold Let_def armed_timer_event_other)
qed simp

end
