(* ===== verification/Store_Append.thy ===== *)
theory Store_Append
  imports Store_Lease Store_Timers
begin

text \<open>
  The two write paths and the reads of the SQLite store, from
  \<^verbatim>\<open>crates/run-store-sqlite/src/append.rs\<close> and \<^verbatim>\<open>lib.rs\<close>. A call takes the store and
  answers with a result and the store after it; a return before the commit leaves the store as it was. A
  key constraint of a table is checked where a row is inserted. The database being locked
  (\<open>SE_Busy\<close>) is the environment's doing and not part of a call here.
\<close>

section \<open>Checks that read no table\<close>

definition has_slash :: "string \<Rightarrow> bool" where
  "has_slash s = (CHR ''/'' \<in> set s \<or> CHR 92 \<in> set s)"

definition check_event :: "codec \<Rightarrow> run_id \<Rightarrow> event \<Rightarrow> store_error + unit" where
  "check_event c run e =
     (if ev_run e \<noteq> run then Inl (SE_InvalidEvent (''event '' @ ev_key e @ '' is of another run''))
      else case ev_body e of
        EB_Commissioned named workspace_id tenant _ _ root_thread _ \<Rightarrow>
          if named \<noteq> run then Inl (SE_InvalidEvent ''commissioned names another run'')
          else if workspace_id = [] \<or> has_slash workspace_id
          then Inl (SE_InvalidEvent ''commissioned.workspace_id is the opaque id, never a path'')
          else if tenant = [] \<or> has_slash tenant
          then Inl (SE_InvalidEvent ''commissioned.tenant is an opaque id, never a path'')
          else if Option.bind (strip_prefix ''m-'' root_thread)
                    (\<lambda>ulid. run_id_parse (co_ulid_ok c) (''r-'' @ ulid)) = None
          then Inl (SE_InvalidEvent ''commissioned.root_thread is a message id'')
          else Inr ()
      | _ \<Rightarrow> Inr ())"

fun check_events :: "codec \<Rightarrow> run_id \<Rightarrow> key list \<Rightarrow> event list \<Rightarrow> store_error + unit" where
  "check_events c run seen [] = Inr ()"
| "check_events c run seen (e # es) =
     and_then (check_event c run e) (\<lambda>_.
       if ev_key e \<in> set seen then Inl (SE_InvalidEvent (''key '' @ ev_key e @ '' twice in one call''))
       else check_events c run (ev_key e # seen) es)"

fun check_cas_keys :: "key list \<Rightarrow> cas list \<Rightarrow> store_error + unit" where
  "check_cas_keys seen [] = Inr ()"
| "check_cas_keys seen (item # items) =
     (if is_owner_key (ca_key item) then Inl (SE_Protected (ca_key item))
      else if ca_key item \<in> set seen then Inl (SE_InvalidEvent (''CAS on '' @ ca_key item @ '' twice in one call''))
      else check_cas_keys (ca_key item # seen) items)"

definition check_call :: "codec \<Rightarrow> run_id \<Rightarrow> event list \<Rightarrow> cas list \<Rightarrow> store_error + unit" where
  "check_call c run events items =
     and_then (check_events c run [] events) (\<lambda>_. check_cas_keys [] items)"

section \<open>Statements\<close>

definition read_run :: "run_id \<Rightarrow> store \<Rightarrow> run_row option" where
  "read_run run db = List.find (\<lambda>r. rw_run r = run) (db_runs db)"

definition logged_seq :: "run_id \<Rightarrow> key \<Rightarrow> store \<Rightarrow> seq option" where
  "logged_seq run k db =
     map_option er_seq (List.find (\<lambda>r. er_run r = run \<and> er_key r = k) (db_events db))"

definition is_commissioned :: "event_body \<Rightarrow> bool" where
  "is_commissioned body = (case body of EB_Commissioned _ _ _ _ _ _ _ \<Rightarrow> True | _ \<Rightarrow> False)"

definition body_finishes :: "event_body \<Rightarrow> bool" where
  "body_finishes body = (case body of EB_Decision (DE_Finished _ _) \<Rightarrow> True | _ \<Rightarrow> False)"

definition create_run :: "run_id \<Rightarrow> event \<Rightarrow> store \<Rightarrow> store_error + store" where
  "create_run run e db =
     (case ev_body e of
        EB_Commissioned _ workspace_id tenant _ _ _ _ \<Rightarrow>
          if read_run run db \<noteq> None then Inl (SE_Backend ''UNIQUE constraint failed: runs.run'')
          else Inr (db\<lparr>db_runs := db_runs db @
            [\<lparr> rw_run = run, rw_workspace_id = workspace_id, rw_tenant = tenant, rw_finished = False,
               rw_last_seq = 0, rw_max_v = 0, rw_commissioned_at = ev_at e \<rparr>]\<rparr>)
      | _ \<Rightarrow> Inl SE_UnknownRun)"

fun check_commissioned_position ::
  "nat \<Rightarrow> event list \<Rightarrow> seq \<Rightarrow> run_row option \<Rightarrow> store_error + unit" where
  "check_commissioned_position i [] last_seq row = Inr ()"
| "check_commissioned_position i (e # es) last_seq row =
     (case ev_body e of
        EB_Commissioned _ workspace_id tenant _ _ _ _ \<Rightarrow>
          if last_seq \<noteq> 0 \<or> i \<noteq> 0
          then Inl (SE_InvalidEvent (''commissioned '' @ ev_key e @ '' is not the first event of its run''))
          else if is_some_and row (\<lambda>r. rw_workspace_id r \<noteq> workspace_id)
          then Inl (SE_InvalidEvent ''commissioned changes workspace_id'')
          else if is_some_and row (\<lambda>r. rw_tenant r \<noteq> tenant)
          then Inl (SE_InvalidEvent ''commissioned changes tenant'')
          else check_commissioned_position (i + 1) es last_seq row
      | _ \<Rightarrow> check_commissioned_position (i + 1) es last_seq row)"

definition delete_inbox_rows :: "run_id \<Rightarrow> key list \<Rightarrow> store \<Rightarrow> store" where
  "delete_inbox_rows run consume db =
     db\<lparr>db_inbox := filter (\<lambda>r. \<not> (ib_run r = run \<and> ib_key r \<in> set consume)) (db_inbox db)\<rparr>"

definition wire :: "codec \<Rightarrow> event \<Rightarrow> store_error + string" where
  "wire c e =
     (case co_event_write c e of
        Some w \<Rightarrow> Inr w
      | None \<Rightarrow> Inl (SE_InvalidEvent (''event '' @ ev_key e @ '' cannot be written'')))"

definition insert_event :: "codec \<Rightarrow> event \<Rightarrow> seq \<Rightarrow> store \<Rightarrow> store_error + store" where
  "insert_event c e sq db =
     and_then (wire c (e\<lparr>ev_seq := sq\<rparr>)) (\<lambda>w.
       if list_ex (\<lambda>r. er_run r = ev_run e \<and> (er_seq r = sq \<or> er_key r = ev_key e)) (db_events db)
       then Inl (SE_Backend ''UNIQUE constraint failed: events'')
       else Inr (db\<lparr>db_events := db_events db @
         [\<lparr> er_run = ev_run e, er_seq = sq, er_at = ev_at e, er_v = ev_v e, er_key = ev_key e,
            er_origin = origin_str (ev_origin e), er_body = w \<rparr>]\<rparr>))"

fun insert_events :: "codec \<Rightarrow> event list \<Rightarrow> seq \<Rightarrow> store \<Rightarrow> store_error + store" where
  "insert_events c [] sq db = Inr db"
| "insert_events c (e # es) sq db = and_then (insert_event c e (sq + 1) db) (insert_events c es (sq + 1))"

definition update_run :: "run_id \<Rightarrow> seq \<Rightarrow> nat \<Rightarrow> bool \<Rightarrow> store \<Rightarrow> store" where
  "update_run run sq highest finishes db =
     db\<lparr>db_runs := map (\<lambda>r. if rw_run r = run
          then r\<lparr>rw_last_seq := sq, rw_max_v := max (rw_max_v r) highest, rw_finished := rw_finished r \<or> finishes\<rparr>
          else r) (db_runs db)\<rparr>"

section \<open>append\<close>

text \<open>What follows the checks that commit nothing.\<close>

definition append_tx ::
  "codec \<Rightarrow> run_id \<Rightarrow> run_row option \<Rightarrow> event list \<Rightarrow> key list \<Rightarrow> cas list \<Rightarrow> store \<Rightarrow> store_error + appended \<times> store"
where
  "append_tx c run row events consume items db =
     (let last_seq = (case row of Some r \<Rightarrow> rw_last_seq r | None \<Rightarrow> 0);
          sq = last_seq + length events
      in
      and_then (case (row, events) of (None, e # _) \<Rightarrow> create_run run e db | _ \<Rightarrow> Inr db) (\<lambda>db1.
      and_then (check_commissioned_position 0 events last_seq row) (\<lambda>_.
      and_then (insert_events c events last_seq db1) (\<lambda>db2.
      let db3 = delete_inbox_rows run consume db2;
          (changes, rows) = timers_apply run events (db_timers db3);
          db4 = db3\<lparr>db_timers := rows\<rparr>
      in
      and_then (try_fold (apply_cas c) items db4) (\<lambda>db5.
      let highest = foldr max (map ev_v events) 0;
          finishes = list_ex (\<lambda>e. body_finishes (ev_body e)) events
      in Inr (\<lparr> ap_last_seq = sq, ap_timers = changes \<rparr>, update_run run sq highest finishes db5))))))"

definition store_append ::
  "codec \<Rightarrow> run_id \<Rightarrow> seq \<Rightarrow> epoch \<Rightarrow> event list \<Rightarrow> key list \<Rightarrow> cas list \<Rightarrow> store \<Rightarrow> (store_error + appended) \<times> store"
where
  "store_append c run expected_seq fence events consume items db =
     (case check_call c run events items of
        Inl e \<Rightarrow> (Inl e, db)
      | Inr _ \<Rightarrow>
      case current_epoch c run db of
        Inl e \<Rightarrow> (Inl e, db)
      | Inr ep \<Rightarrow>
      if ep \<noteq> Some fence then (Inl SE_Fenced, db)
      else
        let row = read_run run db;
            first_is_commissioned = (case events of e # _ \<Rightarrow> is_commissioned (ev_body e) | [] \<Rightarrow> False)
        in
        if row = None \<and> \<not> first_is_commissioned then (Inl SE_UnknownRun, db)
        else if (case row of Some r \<Rightarrow> rw_last_seq r | None \<Rightarrow> 0) \<noteq> expected_seq then (Inl SE_SeqMismatch, db)
        else
          let max_v = (case row of Some r \<Rightarrow> rw_max_v r | None \<Rightarrow> 0) in
          if list_ex (\<lambda>e. ev_v e < max_v) events then (Inl (SE_VersionTooOld max_v), db)
          else case find_map (\<lambda>e. logged_seq run (ev_key e) db) events of
            Some sq \<Rightarrow> (Inl (SE_DuplicateKey sq), delete_inbox_rows run consume db)
          | None \<Rightarrow>
              (case append_tx c run row events consume items db of
                 Inl e \<Rightarrow> (Inl e, db)
               | Inr (a, db') \<Rightarrow> (Inr a, db')))"

section \<open>enqueue\<close>

definition enqueue_tx :: "codec \<Rightarrow> run_id \<Rightarrow> event \<Rightarrow> cas list \<Rightarrow> store \<Rightarrow> store_error + store" where
  "enqueue_tx c run e items db =
     and_then
       (case (read_run run db, is_commissioned (ev_body e)) of
          (None, True) \<Rightarrow> create_run run e db
        | (None, False) \<Rightarrow> Inl SE_UnknownRun
        | (Some _, True) \<Rightarrow> Inl (SE_InvalidEvent (''commissioned '' @ ev_key e @ '' for a run that has one''))
        | (Some _, False) \<Rightarrow> Inr db) (\<lambda>db1.
     and_then (try_fold (apply_cas c) items db1) (\<lambda>db2.
     and_then (wire c (e\<lparr>ev_seq := 0\<rparr>)) (\<lambda>w.
       Inr (db2\<lparr>db_inbox := db_inbox db2 @
         [\<lparr> ib_run = run, ib_key = ev_key e, ib_at = ev_at e, ib_origin = origin_str (ev_origin e), ib_body = w \<rparr>]\<rparr>))))"

definition enqueue ::
  "codec \<Rightarrow> run_id \<Rightarrow> event \<Rightarrow> cas list \<Rightarrow> store \<Rightarrow> (store_error + enqueued) \<times> store" where
  "enqueue c run e items db =
     (case check_call c run [e] items of
        Inl err \<Rightarrow> (Inl err, db)
      | Inr _ \<Rightarrow>
          if list_ex (\<lambda>r. ib_run r = run \<and> ib_key r = ev_key e) (db_inbox db) \<or> logged_seq run (ev_key e) db \<noteq> None
          then (Inr EN_Duplicate, db)
          else case enqueue_tx c run e items db of
            Inl err \<Rightarrow> (Inl err, db)
          | Inr db' \<Rightarrow> (Inr EN_Accepted, db'))"

section \<open>Reads\<close>

definition decode_event :: "codec \<Rightarrow> key \<Rightarrow> seq option \<Rightarrow> string \<Rightarrow> store_error + event" where
  "decode_event c k sq body =
     (case co_event_read c body of Some e \<Rightarrow> Inr e | None \<Rightarrow> Inl (SE_DamagedRow k sq))"

definition next_input :: "codec \<Rightarrow> run_id \<Rightarrow> store \<Rightarrow> store_error + event option" where
  "next_input c run db =
     (case List.find (\<lambda>r. ib_run r = run) (db_inbox db) of
        None \<Rightarrow> Inr None
      | Some r \<Rightarrow> and_then (decode_event c (ib_key r) None (ib_body r)) (\<lambda>e. Inr (Some e)))"

definition waiting_inputs :: "codec \<Rightarrow> run_id \<Rightarrow> store \<Rightarrow> (store_error + event) list" where
  "waiting_inputs c run db =
     map (\<lambda>r. decode_event c (ib_key r) None (ib_body r)) (filter (\<lambda>r. ib_run r = run) (db_inbox db))"

fun collect_results :: "('e + 'a) list \<Rightarrow> 'e + 'a list" where
  "collect_results [] = Inr []"
| "collect_results (r # rs) = and_then r (\<lambda>x. and_then (collect_results rs) (\<lambda>xs. Inr (x # xs)))"

definition run_rows :: "run_id \<Rightarrow> store \<Rightarrow> event_row list" where
  "run_rows run db = sort_key er_seq (filter (\<lambda>r. er_run r = run) (db_events db))"

definition load :: "codec \<Rightarrow> run_id \<Rightarrow> seq \<Rightarrow> store \<Rightarrow> store_error + event list" where
  "load c run from_seq db =
     collect_results
       (map (\<lambda>r. decode_event c (er_key r) (Some (er_seq r)) (er_body r))
          (filter (\<lambda>r. er_seq r > from_seq) (run_rows run db)))"

definition load_readable :: "codec \<Rightarrow> run_id \<Rightarrow> store \<Rightarrow> event list" where
  "load_readable c run db = filter_map (\<lambda>r. co_event_read c (er_body r)) (run_rows run db)"

definition open_runs :: "codec \<Rightarrow> store \<Rightarrow> store_error + run_row list" where
  "open_runs c db =
     collect_results
       (map (\<lambda>r. case run_id_parse (co_ulid_ok c) (rw_run r) of
                   None \<Rightarrow> Inl (SE_Backend ''a run row holds no run id'')
                 | Some run \<Rightarrow> Inr (r\<lparr>rw_run := run, rw_finished := False,
                                      rw_commissioned_at := from_unix_millis (rw_commissioned_at r)\<rparr>))
          (sort_key (\<lambda>r. (rw_commissioned_at r, rw_run r)) (filter (\<lambda>r. \<not> rw_finished r) (db_runs db))))"

definition due_timers :: "codec \<Rightarrow> timestamp \<Rightarrow> store \<Rightarrow> store_error + due_timer list" where
  "due_timers c now db = timers_due (co_ulid_ok c) now (db_timers db)"

end
