(* ===== verification/Store_Props.thy ===== *)
theory Store_Props
  imports Store_Append
begin

text \<open>
  What the store promises: the invariant \<open>store_ok\<close> (one row per key, a gap-free log per run whose rows
  read back, no event above the run's \<open>max_v\<close>) is kept by every call; \<open>log_of\<close> is the log a reader
  sees, and each call's effect on it. The locale \<open>run_log\<close> is the part of the contract the host relies
  on; it is interpreted on the SQLite model.
\<close>

section \<open>The invariant\<close>

definition last_seq_of :: "run_id \<Rightarrow> store \<Rightarrow> seq" where
  "last_seq_of run db = (case read_run run db of Some r \<Rightarrow> rw_last_seq r | None \<Rightarrow> 0)"

definition max_v_of :: "run_id \<Rightarrow> store \<Rightarrow> nat" where
  "max_v_of run db = (case read_run run db of Some r \<Rightarrow> rw_max_v r | None \<Rightarrow> 0)"

definition rows_of :: "run_id \<Rightarrow> store \<Rightarrow> event_row list" where
  "rows_of run db = filter (\<lambda>r. er_run r = run) (db_events db)"

definition row_reads :: "codec \<Rightarrow> event_row \<Rightarrow> bool" where
  "row_reads c r \<longleftrightarrow>
     (\<exists>e. co_event_read c (er_body r) = Some e \<and> ev_run e = er_run r \<and> ev_seq e = er_seq r \<and>
          ev_key e = er_key r \<and> ev_v e = er_v r)"

definition run_ok :: "codec \<Rightarrow> run_id \<Rightarrow> store \<Rightarrow> bool" where
  "run_ok c run db \<longleftrightarrow>
     map er_seq (rows_of run db) = [1..<Suc (last_seq_of run db)] \<and>
     distinct (map er_key (rows_of run db)) \<and>
     (\<forall>r\<in>set (rows_of run db). row_reads c r \<and> er_v r \<le> max_v_of run db)"

definition keys_ok :: "store \<Rightarrow> bool" where
  "keys_ok db \<longleftrightarrow>
     distinct (map rw_run (db_runs db)) \<and>
     distinct (map (\<lambda>r. (ib_run r, ib_key r)) (db_inbox db)) \<and>
     timers_unique (db_timers db)"

definition store_ok :: "codec \<Rightarrow> store \<Rightarrow> bool" where
  "store_ok c db \<longleftrightarrow> keys_ok db \<and> (\<forall>run. run_ok c run db)"

definition log_of :: "codec \<Rightarrow> run_id \<Rightarrow> store \<Rightarrow> event list" where
  "log_of c run db = map (\<lambda>r. the (co_event_read c (er_body r))) (rows_of run db)"

lemma store_ok_empty: "store_ok c empty_store"
  by (simp add: store_ok_def keys_ok_def run_ok_def empty_store_def rows_of_def last_seq_of_def read_run_def)

text \<open>The log is what \<open>load\<close> reads, its positions are 1, 2, .. without a gap.\<close>

lemma run_ok_sorted:
  assumes "run_ok c run db"
  shows "run_rows run db = rows_of run db"
proof -
  have "sorted (map er_seq (rows_of run db))"
    using assms by (simp add: run_ok_def del: upt_Suc)
  then show ?thesis by (simp add: run_rows_def rows_of_def sort_key_id_if_sorted)
qed

lemma collect_results_Inr: "\<forall>r\<in>set rs. f r = Inr (g r) \<Longrightarrow> collect_results (map f rs) = Inr (map g rs)"
  by (induction rs) auto

lemma log_of_seqs:
  assumes "run_ok c run db"
  shows "map ev_seq (log_of c run db) = [1..<Suc (last_seq_of run db)]"
proof -
  have "map ev_seq (log_of c run db) = map er_seq (rows_of run db)"
    unfolding log_of_def map_map
    by (rule map_cong [OF refl]) (use assms in \<open>auto simp: run_ok_def row_reads_def\<close>)
  with assms show ?thesis by (simp add: run_ok_def)
qed

lemma load_log:
  assumes "store_ok c db"
  shows "load c run n db = Inr (filter (\<lambda>e. n < ev_seq e) (log_of c run db))"
proof -
  have ok: "run_ok c run db" using assms by (simp add: store_ok_def)
  then have "\<forall>r\<in>set (rows_of run db). row_reads c r" by (simp add: run_ok_def)
  then have "load c run n db =
      Inr (map (\<lambda>r. the (co_event_read c (er_body r))) (filter (\<lambda>r. n < er_seq r) (rows_of run db)))"
    unfolding load_def run_ok_sorted [OF ok]
    by (intro collect_results_Inr) (auto simp: decode_event_def row_reads_def)
  also have "filter (\<lambda>r. n < er_seq r) (rows_of run db) =
      filter (\<lambda>r. n < ev_seq (the (co_event_read c (er_body r)))) (rows_of run db)"
    using ok by (intro filter_cong) (auto simp: run_ok_def row_reads_def)
  finally show ?thesis by (simp add: log_of_def filter_map comp_def)
qed

lemma load_all:
  assumes "store_ok c db"
  shows "load c run 0 db = Inr (log_of c run db)"
proof -
  have "\<forall>e\<in>set (log_of c run db). 0 < ev_seq e"
  proof
    fix e assume "e \<in> set (log_of c run db)"
    then have "ev_seq e \<in> set (map ev_seq (log_of c run db))" by simp
    also have "map ev_seq (log_of c run db) = [1..<Suc (last_seq_of run db)]"
      using assms by (intro log_of_seqs) (simp add: store_ok_def)
    finally show "0 < ev_seq e" by (simp del: upt_Suc)
  qed
  then show ?thesis using load_log [OF assms] by simp
qed

section \<open>What the statements of a transaction keep\<close>

lemma rows_of_cong: "db_events db' = db_events db \<Longrightarrow> rows_of run db' = rows_of run db"
  by (simp add: rows_of_def)

lemma read_run_cong: "db_runs db' = db_runs db \<Longrightarrow> read_run run db' = read_run run db"
  by (simp add: read_run_def)

lemma run_ok_cong:
  "db_events db' = db_events db \<Longrightarrow> db_runs db' = db_runs db \<Longrightarrow> run_ok c run db' = run_ok c run db"
  by (simp add: run_ok_def rows_of_def last_seq_of_def max_v_of_def read_run_def)

lemma log_of_cong: "db_events db' = db_events db \<Longrightarrow> log_of c run db' = log_of c run db"
  by (simp add: log_of_def rows_of_def)

lemma apply_cas_tables:
  assumes "apply_cas c item db = Inr db'"
  shows "db_events db' = db_events db" "db_inbox db' = db_inbox db" "db_timers db' = db_timers db" "db_runs db' = db_runs db"
  using apply_cas_Inr [OF assms] by auto

lemma try_cas_tables:
  assumes "try_fold (apply_cas c) items db = Inr db'"
  shows "db_events db' = db_events db" "db_inbox db' = db_inbox db" "db_timers db' = db_timers db" "db_runs db' = db_runs db"
proof -
  let ?I = "\<lambda>d. db_events d = db_events db \<and> db_inbox d = db_inbox db \<and> db_timers d = db_timers db \<and> db_runs d = db_runs db"
  have "?I db'"
    using assms by (rule try_fold_invariant [where I = ?I]) (auto dest: apply_cas_tables)
  then show "db_events db' = db_events db" "db_inbox db' = db_inbox db" "db_timers db' = db_timers db" "db_runs db' = db_runs db"
    by auto
qed

lemma try_cas_epoch:
  assumes "try_fold (apply_cas c) items db = Inr db'"
  shows "epoch_of c run db \<le> epoch_of c run db'"
  by (rule try_fold_invariant [where I = "\<lambda>d. epoch_of c run db \<le> epoch_of c run d", OF assms])
     (auto dest: apply_cas_epoch [of c _ _ _ run])

text \<open>A list of compare-and-sets that rides in a call holds no owner key, so the leases stay as they are.\<close>

lemma check_cas_keys_no_owner:
  "check_cas_keys seen items = Inr u \<Longrightarrow> \<forall>item\<in>set items. \<not> is_owner_key (ca_key item)"
  by (induction items arbitrary: seen) (auto split: if_splits)

lemma try_cas_lease:
  assumes "try_fold (apply_cas c) items db = Inr db'" "\<forall>item\<in>set items. \<not> is_owner_key (ca_key item)"
  shows "store_get (owner_key run) db' = store_get (owner_key run) db"
proof (rule try_fold_invariant [where I = "\<lambda>d. store_get (owner_key run) d = store_get (owner_key run) db", OF assms(1)])
  fix x s s'
  assume "x \<in> set items" "store_get (owner_key run) s = store_get (owner_key run) db" "apply_cas c x s = Inr s'"
  moreover from this have "ca_key x \<noteq> owner_key run" using assms(2) owner_key_is_owner [of run] by metis
  ultimately show "store_get (owner_key run) s' = store_get (owner_key run) db"
    by (auto dest!: apply_cas_Inr)
qed simp

lemma keys_ok_delete: "keys_ok db \<Longrightarrow> keys_ok (delete_inbox_rows run ks db)"
  by (auto simp: keys_ok_def delete_inbox_rows_def distinct_map_filter)

lemma create_run_Inr:
  assumes "create_run run e db = Inr db'"
  shows "\<exists>ws t. read_run run db = None \<and> is_commissioned (ev_body e) \<and>
    db' = db\<lparr>db_runs := db_runs db @ [\<lparr> rw_run = run, rw_workspace_id = ws, rw_tenant = t, rw_finished = False,
      rw_last_seq = 0, rw_max_v = 0, rw_commissioned_at = ev_at e \<rparr>]\<rparr>"
  using assms by (auto simp: create_run_def is_commissioned_def split: event_body.splits if_splits)

lemma read_run_None_iff: "read_run run db = None \<longleftrightarrow> run \<notin> rw_run ` set (db_runs db)"
  by (auto simp: read_run_def find_None_iff)

lemma create_run_ok:
  assumes "create_run run e db = Inr db'" "store_ok c db"
  shows "store_ok c db'" "\<And>r. last_seq_of r db' = last_seq_of r db" "read_run run db' \<noteq> None"
proof -
  obtain ws t where new: "read_run run db = None"
    "db' = db\<lparr>db_runs := db_runs db @ [\<lparr> rw_run = run, rw_workspace_id = ws, rw_tenant = t, rw_finished = False,
      rw_last_seq = 0, rw_max_v = 0, rw_commissioned_at = ev_at e \<rparr>]\<rparr>"
    using create_run_Inr [OF assms(1)] by blast
  then have rd: "read_run r db' = (if r = run then Some \<lparr> rw_run = run, rw_workspace_id = ws, rw_tenant = t, rw_finished = False,
      rw_last_seq = 0, rw_max_v = 0, rw_commissioned_at = ev_at e \<rparr> else read_run r db)" for r
    by (auto simp: read_run_def find_append split: option.split)
  show seq: "last_seq_of r db' = last_seq_of r db" for r
    using new(1) by (simp add: last_seq_of_def rd)
  have v: "max_v_of r db' = max_v_of r db" for r
    using new(1) by (simp add: max_v_of_def rd)
  have rows: "rows_of r db' = rows_of r db" for r by (simp add: rows_of_def new(2))
  have "keys_ok db'"
    using assms(2) new by (auto simp: store_ok_def keys_ok_def read_run_None_iff)
  then show "store_ok c db'"
    using assms(2) by (simp add: store_ok_def run_ok_def seq v rows)
  show "read_run run db' \<noteq> None" by (simp add: rd)
qed

text \<open>Inserting a list of events: each at the next position, the rest of the store as it was.\<close>

fun positioned :: "seq \<Rightarrow> event list \<Rightarrow> event list" where
  "positioned n [] = []"
| "positioned n (e # es) = e\<lparr>ev_seq := n + 1\<rparr> # positioned (n + 1) es"

lemma positioned_append: "positioned n (xs @ ys) = positioned n xs @ positioned (n + length xs) ys"
  by (induction xs arbitrary: n) auto

lemma positioned_id: "map ev_seq es = [Suc n..<Suc (n + length es)] \<Longrightarrow> positioned n es = es"
proof (induction es arbitrary: n)
  case (Cons e es)
  then have "ev_seq e = Suc n" "map ev_seq es = [Suc (Suc n)..<Suc (Suc n + length es)]"
    by (simp_all add: upt_rec [of "Suc n"] del: upt_Suc)
  with Cons.IH [of "Suc n"] show ?case by simp
qed simp

lemma insert_events_frame:
  assumes "insert_events c es n db = Inr db'"
  shows "db_inbox db' = db_inbox db" "db_timers db' = db_timers db" "db_kv db' = db_kv db" "db_runs db' = db_runs db"
  using assms by (induction es arbitrary: n db) (fastforce simp: insert_event_def split: if_splits)+

lemma insert_events_rows:
  assumes "codec_ok c" "insert_events c es n db = Inr db'" "\<forall>e\<in>set es. ev_run e = run"
  shows "\<exists>rows. db_events db' = db_events db @ rows \<and> (\<forall>r\<in>set rows. er_run r = run \<and> row_reads c r) \<and>
    map er_seq rows = [Suc n..<Suc (n + length es)] \<and> map er_key rows = map ev_key es \<and> map er_v rows = map ev_v es \<and>
    map (\<lambda>r. the (co_event_read c (er_body r))) rows = positioned n es"
  using assms(2,3)
proof (induction es arbitrary: n db)
  case (Cons e es)
  then obtain db1 where db1: "insert_event c e (n + 1) db = Inr db1" "insert_events c es (n + 1) db1 = Inr db'"
    by auto
  then obtain w where w: "co_event_write c (e\<lparr>ev_seq := n + 1\<rparr>) = Some w"
    "db_events db1 = db_events db @ [\<lparr> er_run = ev_run e, er_seq = n + 1, er_at = ev_at e, er_v = ev_v e,
       er_key = ev_key e, er_origin = origin_str (ev_origin e), er_body = w \<rparr>]" (is "_ = _ @ [?r]")
    by (auto simp: insert_event_def wire_def split: option.splits if_splits)
  then have rd: "co_event_read c w = Some (e\<lparr>ev_seq := n + 1\<rparr>)" using assms(1) by (simp add: codec_ok_def)
  obtain rows where rows: "db_events db' = db_events db1 @ rows" "\<forall>r\<in>set rows. er_run r = run \<and> row_reads c r"
    "map er_seq rows = [Suc (n + 1)..<Suc (n + 1 + length es)]" "map er_key rows = map ev_key es"
    "map er_v rows = map ev_v es" "map (\<lambda>r. the (co_event_read c (er_body r))) rows = positioned (n + 1) es"
    using Cons.IH [OF db1(2)] Cons.prems(2) by auto
  have "row_reads c ?r" using rd by (simp add: row_reads_def)
  with rows w rd Cons.prems(2) show ?case
    by (intro exI [of _ "?r # rows"]) (simp add: upt_rec [of "Suc n"] del: upt_Suc)
qed simp

lemma read_update_run:
  "read_run run' (update_run run n v f db) =
     (if run' = run then map_option (\<lambda>r. r\<lparr>rw_last_seq := n, rw_max_v := max (rw_max_v r) v, rw_finished := rw_finished r \<or> f\<rparr>) (read_run run db)
      else read_run run' db)"
proof -
  have "List.find (\<lambda>r. rw_run r = run') (map (\<lambda>r. if rw_run r = run then h r else r) rs) =
      (if run' = run then map_option h (List.find (\<lambda>r. rw_run r = run) rs) else List.find (\<lambda>r. rw_run r = run') rs)"
    if "\<And>r. rw_run (h r) = rw_run r" for h :: "run_row \<Rightarrow> run_row" and rs
    by (induction rs) (auto simp: that)
  then show ?thesis by (simp add: read_run_def update_run_def)
qed

lemma update_run_frame [simp]:
  "db_events (update_run run n v f db) = db_events db" "db_inbox (update_run run n v f db) = db_inbox db"
  "db_timers (update_run run n v f db) = db_timers db" "db_kv (update_run run n v f db) = db_kv db"
  "map rw_run (db_runs (update_run run n v f db)) = map rw_run (db_runs db)"
  by (simp_all add: update_run_def)

section \<open>append\<close>

text \<open>The outcomes of a call: an answer other than success leaves the store as it was, but for the inbox
  rows a duplicate key consumes.\<close>

lemma store_append_cases:
  assumes "store_append c run n fence es ks items db = (res, db')"
  obtains (ok) a where "res = Inr a" "check_call c run es items = Inr ()"
      "current_epoch c run db = Inr (Some fence)" "last_seq_of run db = n"
      "\<forall>e\<in>set es. max_v_of run db \<le> ev_v e" "\<forall>e\<in>set es. logged_seq run (ev_key e) db = None"
      "read_run run db = None \<Longrightarrow> \<exists>e es'. es = e # es'"
      "append_tx c run (read_run run db) es ks items db = Inr (a, db')"
    | (dup) sq e where "res = Inl (SE_DuplicateKey sq)" "e \<in> set es" "logged_seq run (ev_key e) db = Some sq"
      "current_epoch c run db = Inr (Some fence)" "db' = delete_inbox_rows run ks db"
    | (err) x where "res = Inl x" "db' = db"
proof -
  have none: "find_map f xs = None \<Longrightarrow> \<forall>x\<in>set xs. f x = None" for f :: "event \<Rightarrow> seq option" and xs
    by (induction xs) (auto split: option.splits)
  show thesis
    using assms
    by (auto simp: store_append_def Let_def last_seq_of_def max_v_of_def list_ex_iff not_less
        split: sum.splits if_splits option.splits list.splits prod.splits
        dest!: none find_map_SomeD intro: ok dup err)
      (rule ok, auto simp: last_seq_of_def max_v_of_def)
qed

lemma check_events_run: "check_events c run seen es = Inr u \<Longrightarrow> \<forall>e\<in>set es. ev_run e = run"
  by (induction es arbitrary: seen) (auto simp: check_event_def split: if_splits)

lemma check_events_keys:
  "check_events c run seen es = Inr u \<Longrightarrow> distinct (map ev_key es) \<and> set (map ev_key es) \<inter> set seen = {}"
  by (induction es arbitrary: seen) (fastforce split: if_splits)+

lemma check_call_Inr:
  assumes "check_call c run es items = Inr u"
  shows "\<forall>e\<in>set es. ev_run e = run" "distinct (map ev_key es)" "\<forall>item\<in>set items. \<not> is_owner_key (ca_key item)"
  using assms
  by (auto simp: check_call_def dest: check_events_run check_events_keys check_cas_keys_no_owner)

lemma append_tx_steps:
  assumes "append_tx c run row es ks items db = Inr (a, db')"
  obtains db1 db2 db4 db5 where
    "(case (row, es) of (None, e # _) \<Rightarrow> create_run run e db | _ \<Rightarrow> Inr db) = Inr db1"
    "insert_events c es (case row of Some r \<Rightarrow> rw_last_seq r | None \<Rightarrow> 0) db1 = Inr db2"
    "db4 = (delete_inbox_rows run ks db2)\<lparr>db_timers := snd (timers_apply run es (db_timers db2))\<rparr>"
    "try_fold (apply_cas c) items db4 = Inr db5"
    "ap_last_seq a = (case row of Some r \<Rightarrow> rw_last_seq r | None \<Rightarrow> 0) + length es"
    "db' = update_run run (ap_last_seq a) (foldr max (map ev_v es) 0) (list_ex (\<lambda>e. body_finishes (ev_body e)) es) db5"
proof -
  let ?n = "case row of Some r \<Rightarrow> rw_last_seq r | None \<Rightarrow> 0"
  let ?db4 = "\<lambda>d. (delete_inbox_rows run ks d)\<lparr>db_timers := snd (timers_apply run es (db_timers (delete_inbox_rows run ks d)))\<rparr>"
  from assms obtain db1 db2 db5 where
    s: "(case (row, es) of (None, e # _) \<Rightarrow> create_run run e db | _ \<Rightarrow> Inr db) = Inr db1"
      "insert_events c es ?n db1 = Inr db2" "try_fold (apply_cas c) items (?db4 db2) = Inr db5"
      "a = \<lparr> ap_last_seq = ?n + length es, ap_timers = fst (timers_apply run es (db_timers (delete_inbox_rows run ks db2))) \<rparr>"
      "db' = update_run run (?n + length es) (foldr max (map ev_v es) 0) (list_ex (\<lambda>e. body_finishes (ev_body e)) es) db5"
    unfolding append_tx_def Let_def case_prod_unfold and_then_Inr_iff by auto
  show thesis by (rule that [OF s(1,2) refl]) (use s(3-5) in \<open>simp_all add: delete_inbox_rows_def\<close>)
qed

lemma delete_inbox_rows_frame [simp]:
  "db_events (delete_inbox_rows run ks db) = db_events db" "db_timers (delete_inbox_rows run ks db) = db_timers db"
  "db_kv (delete_inbox_rows run ks db) = db_kv db" "db_runs (delete_inbox_rows run ks db) = db_runs db"
  by (simp_all add: delete_inbox_rows_def)

lemma create_run_frame:
  assumes "create_run run e db = Inr db'"
  shows "db_events db' = db_events db" "db_inbox db' = db_inbox db" "db_timers db' = db_timers db" "db_kv db' = db_kv db"
  using create_run_Inr [OF assms] by auto

text \<open>A successful append, table by table.\<close>

lemma append_effect:
  assumes ok: "codec_ok c" "store_ok c db" and app: "store_append c run n fence es ks items db = (Inr a, db')"
  obtains rows db1 db5 where
    "store_ok c db1" "\<And>r. last_seq_of r db1 = last_seq_of r db" "read_run run db1 \<noteq> None"
    "db_events db' = db_events db1 @ rows" "db_events db1 = db_events db" "db_inbox db1 = db_inbox db"
    "\<forall>r\<in>set rows. er_run r = run \<and> row_reads c r"
    "map er_seq rows = [Suc n..<Suc (n + length es)]" "map er_key rows = map ev_key es" "map er_v rows = map ev_v es"
    "map (\<lambda>r. the (co_event_read c (er_body r))) rows = positioned n es"
    "db_inbox db' = db_inbox (delete_inbox_rows run ks db)"
    "db_timers db' = snd (timers_apply run es (db_timers db))"
    "db' = update_run run (n + length es) (foldr max (map ev_v es) 0) (list_ex (\<lambda>e. body_finishes (ev_body e)) es) db5"
    "db_runs db5 = db_runs db1" "ap_last_seq a = n + length es" "last_seq_of run db = n"
    "\<And>r. store_get (owner_key r) db' = store_get (owner_key r) db"
  using app
proof (cases rule: store_append_cases)
  case (ok a')
  then have n: "(case read_run run db of Some r \<Rightarrow> rw_last_seq r | None \<Rightarrow> 0) = n" by (simp add: last_seq_of_def)
  have tx: "append_tx c run (read_run run db) es ks items db = Inr (a, db')" using ok(1,8) by simp
  obtain db1 db2 db4 db5 where s:
    "(case (read_run run db, es) of (None, e # _) \<Rightarrow> create_run run e db | _ \<Rightarrow> Inr db) = Inr db1"
    "insert_events c es n db1 = Inr db2"
    "db4 = (delete_inbox_rows run ks db2)\<lparr>db_timers := snd (timers_apply run es (db_timers db2))\<rparr>"
    "try_fold (apply_cas c) items db4 = Inr db5"
    "ap_last_seq a = n + length es"
    "db' = update_run run (ap_last_seq a) (foldr max (map ev_v es) 0) (list_ex (\<lambda>e. body_finishes (ev_body e)) es) db5"
    by (rule append_tx_steps [OF tx, unfolded n])
  have db1: "store_ok c db1 \<and> (\<forall>r. last_seq_of r db1 = last_seq_of r db) \<and> read_run run db1 \<noteq> None \<and>
      db_events db1 = db_events db \<and> db_inbox db1 = db_inbox db \<and> db_timers db1 = db_timers db \<and> db_kv db1 = db_kv db"
  proof (cases "read_run run db")
    case None
    then obtain e es' where "es = e # es'" using ok(7) by blast
    with s(1) None have cr: "create_run run e db = Inr db1" by simp
    show ?thesis using create_run_ok [OF cr assms(2)] create_run_frame [OF cr] by auto
  next
    case (Some r)
    with s(1) assms(2) show ?thesis by auto
  qed
  note cc = check_call_Inr [OF ok(2)]
  note ins = insert_events_frame [OF s(2)]
  obtain rows where rows: "db_events db2 = db_events db1 @ rows" "\<forall>r\<in>set rows. er_run r = run \<and> row_reads c r"
    "map er_seq rows = [Suc n..<Suc (n + length es)]" "map er_key rows = map ev_key es" "map er_v rows = map ev_v es"
    "map (\<lambda>r. the (co_event_read c (er_body r))) rows = positioned n es"
    using insert_events_rows [OF assms(1) s(2) cc(1)] by blast
  note tc = try_cas_tables [OF s(4)]
  have own: "store_get (owner_key r) db' = store_get (owner_key r) db" for r
    using try_cas_lease [OF s(4) cc(3), of r] db1 ins s(3,6) by (simp add: store_get_def)
  show thesis
    by (rule that [of db1 rows db5]) (use db1 rows tc ins s(3,5,6) own ok(4) in \<open>auto simp: delete_inbox_rows_def\<close>)
qed auto

lemma append_log:
  assumes "codec_ok c" "store_ok c db" "store_append c run n fence es ks items db = (Inr a, db')"
  shows "log_of c run' db' = (if run' = run then log_of c run db @ positioned n es else log_of c run' db)"
  using append_effect [OF assms]
proof cases
  case (1 rows db1 db5)
  then have "rows_of run' db' = rows_of run' db @ (if run' = run then rows else [])"
    by (auto simp: rows_of_def filter_empty_conv)
  with 1 show ?thesis by (simp add: log_of_def)
qed

lemma foldr_max_ge: "x \<in> set xs \<Longrightarrow> x \<le> foldr max xs (0::nat)"
  by (induction xs) (auto simp: le_max_iff_disj)

lemma logged_seq_None_iff: "logged_seq run k db = None \<longleftrightarrow> k \<notin> er_key ` set (rows_of run db)"
  by (auto simp: logged_seq_def find_None_iff rows_of_def)

lemma append_keeps:
  assumes "codec_ok c" "store_ok c db" "store_append c run n fence es ks items db = (Inr a, db')"
  shows "store_ok c db' \<and> last_seq_of run db' = n + length es"
  using append_effect [OF assms]
proof cases
  case (1 rows db1 db5)
  have dup: "\<forall>e\<in>set es. logged_seq run (ev_key e) db = None" "distinct (map ev_key es)"
    using assms(3) by (cases rule: store_append_cases; auto dest: check_call_Inr)+
  have run_rows: "rows_of r db' = rows_of r db1 @ (if r = run then rows else [])" for r
    using 1(4,7) by (auto simp: rows_of_def filter_empty_conv)
  have read: "read_run r db5 = read_run r db1" for r using 1(15) by (rule read_run_cong)
  have seq: "last_seq_of r db' = (if r = run then n + length es else last_seq_of r db1)" for r
    using 1(3) unfolding 1(14) by (auto simp: last_seq_of_def read_update_run read)
  have v: "max_v_of r db' = (if r = run then max (max_v_of run db1) (foldr max (map ev_v es) 0) else max_v_of r db1)" for r
    using 1(3) unfolding 1(14) by (auto simp: max_v_of_def read_update_run read)
  have old: "run_ok c r db1" for r using 1(1) by (simp add: store_ok_def)
  have "run_ok c r db'" for r
  proof (cases "r = run")
    case False
    with old [of r] show ?thesis by (simp add: run_ok_def run_rows seq v)
  next
    case True
    have "map er_seq (rows_of run db1) = [1..<Suc n]"
      using old [of run] 1(2,17) by (simp add: run_ok_def)
    then have s: "map er_seq (rows_of run db') = [1..<Suc (n + length es)]"
      using 1(8) upt_add_eq_append [of 1 "Suc n" "length es"] by (simp add: run_rows del: upt_Suc)
    have "er_key ` set (rows_of run db1) \<inter> ev_key ` set es = {}"
      using dup(1) rows_of_cong [OF 1(5), of run] unfolding logged_seq_None_iff by (simp add: disjoint_iff) blast
    then have k: "distinct (map er_key (rows_of run db'))"
      using old [of run] dup(2) 1(9) by (simp add: run_rows run_ok_def)
    have "er_v x \<le> foldr max (map ev_v es) 0" if "x \<in> set rows" for x
      using that 1(10) by (metis foldr_max_ge imageI list.set_map)
    then have "\<forall>x\<in>set (rows_of run db'). row_reads c x \<and> er_v x \<le> max_v_of run db'"
      using old [of run] 1(7) by (auto simp: run_rows run_ok_def v max.coboundedI1 max.coboundedI2)
    with s k True show ?thesis by (simp add: run_ok_def seq del: upt_Suc)
  qed
  moreover have "keys_ok db'"
  proof -
    have "map rw_run (db_runs db') = map rw_run (db_runs db1)" unfolding 1(14) by (simp add: 1(15))
    moreover have "timers_unique (db_timers db')"
      unfolding 1(13) using assms(2) by (simp add: store_ok_def keys_ok_def unique_timers_apply)
    ultimately show ?thesis
      using 1(1,6,12) assms(2)
      by (auto simp: store_ok_def keys_ok_def delete_inbox_rows_def distinct_map_filter)
  qed
  ultimately show ?thesis using seq [of run] by (simp add: store_ok_def)
qed

lemma append_fence:
  assumes "store_append c run n fence es ks items db = (Inr a, db')"
  shows "current_epoch c run db = Inr (Some fence)" "n = last_seq_of run db"
  using assms by (cases rule: store_append_cases; auto)+

lemma store_ok_delete: "store_ok c db \<Longrightarrow> store_ok c (delete_inbox_rows run ks db)"
  by (simp add: store_ok_def keys_ok_delete run_ok_cong [of "delete_inbox_rows run ks db" db])

lemma append_store_ok:
  assumes "codec_ok c" "store_ok c db"
  shows "store_ok c (snd (store_append c run n fence es ks items db))"
proof -
  obtain res db' where r: "store_append c run n fence es ks items db = (res, db')" by fastforce
  then show ?thesis
  proof (cases rule: store_append_cases)
    case (ok a)
    with append_keeps [OF assms, of run n fence es ks items a db'] r show ?thesis by simp
  qed (use r assms in \<open>auto simp: store_ok_delete\<close>)
qed

lemma append_owner_kept:
  "codec_ok c \<Longrightarrow> store_ok c db \<Longrightarrow>
   store_get (owner_key r) (snd (store_append c run n fence es ks items db)) = store_get (owner_key r) db"
proof -
  assume a: "codec_ok c" "store_ok c db"
  obtain res db' where r: "store_append c run n fence es ks items db = (res, db')" by fastforce
  then show ?thesis
  proof (cases rule: store_append_cases)
    case (ok x)
    from r ok(1) have "store_append c run n fence es ks items db = (Inr x, db')" by simp
    then have "store_get (owner_key r) db' = store_get (owner_key r) db"
      by (rule append_effect [OF a]) simp
    with r show ?thesis by simp
  qed (use r in \<open>auto simp: store_get_def\<close>)
qed

section \<open>enqueue\<close>

lemma enqueue_cases:
  assumes "enqueue c run e items db = (res, db')"
  obtains (accepted) "res = Inr EN_Accepted" "check_call c run [e] items = Inr ()"
      "\<forall>r\<in>set (db_inbox db). \<not> (ib_run r = run \<and> ib_key r = ev_key e)" "logged_seq run (ev_key e) db = None"
      "enqueue_tx c run e items db = Inr db'"
    | (duplicate) "res = Inr EN_Duplicate" "db' = db"
      "(\<exists>r\<in>set (db_inbox db). ib_run r = run \<and> ib_key r = ev_key e) \<or> logged_seq run (ev_key e) db \<noteq> None"
    | (err) x where "res = Inl x" "db' = db"
  using assms by (auto simp: enqueue_def list_ex_iff split: sum.splits if_splits intro: that)

lemma enqueue_tx_Inr:
  assumes "codec_ok c" "store_ok c db" "enqueue_tx c run e items db = Inr db'" "check_call c run [e] items = Inr u"
  shows "\<exists>w db2. co_event_write c (e\<lparr>ev_seq := 0\<rparr>) = Some w \<and> store_ok c db2 \<and> db_events db2 = db_events db \<and>
    db_inbox db2 = db_inbox db \<and> db_timers db2 = db_timers db \<and>
    (\<forall>r. store_get (owner_key r) db2 = store_get (owner_key r) db) \<and>
    (\<forall>r. last_seq_of r db2 = last_seq_of r db) \<and> read_run run db2 \<noteq> None \<and>
    db' = db2\<lparr>db_inbox := db_inbox db @
      [\<lparr> ib_run = run, ib_key = ev_key e, ib_at = ev_at e, ib_origin = origin_str (ev_origin e), ib_body = w \<rparr>]\<rparr>"
proof -
  obtain db1 db2 w where s:
    "(case (read_run run db, is_commissioned (ev_body e)) of
          (None, True) \<Rightarrow> create_run run e db
        | (None, False) \<Rightarrow> Inl SE_UnknownRun
        | (Some _, True) \<Rightarrow> Inl (SE_InvalidEvent (''commissioned '' @ ev_key e @ '' for a run that has one''))
        | (Some _, False) \<Rightarrow> Inr db) = Inr db1"
    "try_fold (apply_cas c) items db1 = Inr db2" "co_event_write c (e\<lparr>ev_seq := 0\<rparr>) = Some w"
    "db' = db2\<lparr>db_inbox := db_inbox db2 @
      [\<lparr> ib_run = run, ib_key = ev_key e, ib_at = ev_at e, ib_origin = origin_str (ev_origin e), ib_body = w \<rparr>]\<rparr>"
    using assms(3) by (auto simp: enqueue_tx_def wire_def split: option.splits)
  have db1: "store_ok c db1 \<and> db_events db1 = db_events db \<and> db_inbox db1 = db_inbox db \<and> db_timers db1 = db_timers db
      \<and> db_kv db1 = db_kv db \<and> (\<forall>r. last_seq_of r db1 = last_seq_of r db) \<and> read_run run db1 \<noteq> None"
  proof (cases "read_run run db")
    case None
    with s(1) have cr: "create_run run e db = Inr db1" by (simp split: bool.splits)
    show ?thesis using create_run_ok [OF cr assms(2)] create_run_frame [OF cr] by auto
  next
    case (Some r)
    with s(1) assms(2) show ?thesis by (auto split: bool.splits)
  qed
  note tc = try_cas_tables [OF s(2)]
  have "store_ok c db2"
    using db1 tc by (auto simp: store_ok_def keys_ok_def run_ok_cong [of db2 db1])
  moreover have "store_get (owner_key r) db2 = store_get (owner_key r) db" for r
    using try_cas_lease [OF s(2) check_call_Inr(3) [OF assms(4)], of r] db1 by (simp add: store_get_def)
  ultimately show ?thesis using s db1 tc by (auto simp: last_seq_of_def read_run_def)
qed

lemma enqueue_keeps:
  assumes "codec_ok c" "store_ok c db" "enqueue c run e items db = (res, db')"
  shows "store_ok c db' \<and> db_events db' = db_events db \<and> db_timers db' = db_timers db \<and>
    (\<forall>r. store_get (owner_key r) db' = store_get (owner_key r) db)"
  using assms(3)
proof (cases rule: enqueue_cases)
  case accepted
  obtain w db2 where d: "store_ok c db2" "db_events db2 = db_events db" "db_inbox db2 = db_inbox db"
    "db_timers db2 = db_timers db" "\<forall>r. store_get (owner_key r) db2 = store_get (owner_key r) db"
    "db' = db2\<lparr>db_inbox := db_inbox db @
      [\<lparr> ib_run = run, ib_key = ev_key e, ib_at = ev_at e, ib_origin = origin_str (ev_origin e), ib_body = w \<rparr>]\<rparr>"
    using enqueue_tx_Inr [OF assms(1,2) accepted(5,2)] by blast
  have "keys_ok db'" using d(1,3,6) accepted(3) by (auto simp: store_ok_def keys_ok_def)
  moreover have "run_ok c r db'" for r
    using d(1,6) run_ok_cong [of db' db2] by (simp add: store_ok_def)
  ultimately show ?thesis using d by (simp add: store_ok_def store_get_def)
qed (use assms in auto)

lemma compare_and_set_keeps:
  assumes "store_ok c db" "compare_and_set c k f t db = (res, db')"
  shows "store_ok c db' \<and> db_events db' = db_events db \<and> db_timers db' = db_timers db \<and> db_inbox db' = db_inbox db"
  using assms(2)
proof (cases rule: compare_and_set_cases)
  case ok
  note tc = apply_cas_tables [OF ok(1)]
  then show ?thesis using assms(1) by (simp add: store_ok_def keys_ok_def run_ok_cong [of db' db])
qed (use assms in auto)

section \<open>Any sequence of calls\<close>

definition leases_ok :: "codec \<Rightarrow> store \<Rightarrow> bool" where
  "leases_ok c db \<longleftrightarrow> (\<forall>run b. store_get (owner_key run) db = Some b \<longrightarrow> co_lease_read c b \<noteq> None)"

inductive store_step :: "codec \<Rightarrow> store \<Rightarrow> store \<Rightarrow> bool" for c where
  step_append: "store_step c db (snd (store_append c run n fence es ks items db))"
| step_enqueue: "store_step c db (snd (enqueue c run e items db))"
| step_cas: "store_step c db (snd (compare_and_set c k f t db))"

inductive_cases store_step_elims: "store_step c db db'"

lemma leases_ok_cas:
  assumes "leases_ok c db" "apply_cas c item db = Inr db'"
  shows "leases_ok c db'"
  unfolding leases_ok_def
proof (intro allI impI)
  fix run b assume b: "store_get (owner_key run) db' = Some b"
  show "co_lease_read c b \<noteq> None"
  proof (cases "ca_key item = owner_key run")
    case True
    then have "is_owner_key (ca_key item)" by simp
    from apply_cas_owner [OF assms(2) this] apply_cas_Inr [OF assms(2)] True b show ?thesis by auto
  next
    case False
    with assms(1) b apply_cas_Inr [OF assms(2)] show ?thesis by (auto simp: leases_ok_def split: if_splits)
  qed
qed

lemma epoch_of_lease: "store_get (owner_key run) db' = store_get (owner_key run) db \<Longrightarrow> epoch_of c run db' = epoch_of c run db"
  by (simp add: epoch_of_def)

lemma leases_ok_cong: "(\<And>r. store_get (owner_key r) db' = store_get (owner_key r) db) \<Longrightarrow> leases_ok c db' = leases_ok c db"
  by (simp add: leases_ok_def)

lemma store_step_keeps:
  assumes "codec_ok c" "store_step c db db'" "store_ok c db \<and> leases_ok c db"
  shows "store_ok c db' \<and> leases_ok c db' \<and> epoch_of c run db \<le> epoch_of c run db'"
  using assms(2)
proof cases
  case (step_append run n fence es ks items)
  note own = append_owner_kept [OF assms(1) conjunct1 [OF assms(3)], of _ run n fence es ks items]
  show ?thesis
    unfolding step_append
    using append_store_ok [OF assms(1)] assms(3) leases_ok_cong [OF own, of c] epoch_of_lease [OF own, of c]
    by simp
next
  case (step_enqueue r e items)
  obtain res d where d: "enqueue c r e items db = (res, d)" by fastforce
  note k = enqueue_keeps [OF assms(1) conjunct1 [OF assms(3)] d]
  then have own: "\<And>r. store_get (owner_key r) d = store_get (owner_key r) db" by blast
  show ?thesis
    unfolding step_enqueue d using k leases_ok_cong [OF own, of c] epoch_of_lease [OF own, of c] assms(3) by simp
next
  case (step_cas k f t)
  obtain res d where d: "compare_and_set c k f t db = (res, d)" by fastforce
  show ?thesis
    unfolding step_cas d snd_conv
    using compare_and_set_keeps [OF conjunct1 [OF assms(3)] d] compare_and_set_epoch [of c run db k f t] d assms(3)
    by (auto elim!: compare_and_set_cases intro: leases_ok_cas)
qed

lemma store_steps_keep:
  assumes "codec_ok c" "(store_step c)\<^sup>*\<^sup>* db db'" "store_ok c db \<and> leases_ok c db"
  shows "store_ok c db' \<and> leases_ok c db' \<and> epoch_of c run db \<le> epoch_of c run db'"
  using assms(2)
proof (induction rule: rtranclp_induct)
  case base
  with assms(3) show ?case by simp
next
  case (step y z)
  then show ?case using store_step_keeps [OF assms(1) step.hyps(2), of run] by auto
qed

text \<open>An owner whose epoch was passed writes nothing more, whatever the other calls are.\<close>

lemma stale_append_fenced:
  assumes "codec_ok c" "store_ok c db" "leases_ok c db" "fence < epoch_of c run db"
    "(store_step c)\<^sup>*\<^sup>* db db'" "check_call c run es items = Inr ()"
  shows "store_append c run n fence es ks items db' = (Inl SE_Fenced, db')"
proof -
  have "leases_ok c db'" "fence < epoch_of c run db'"
    using store_steps_keep [OF assms(1,5), of run] assms(2-4) by auto
  then obtain b l where "store_get (owner_key run) db' = Some b" "co_lease_read c b = Some l" "fence < le_epoch l"
    by (cases "store_get (owner_key run) db'") (auto simp: epoch_of_def leases_ok_def split: option.splits)
  then have "current_epoch c run db' = Inr (Some (le_epoch l))" "le_epoch l \<noteq> fence"
    by (auto simp: current_epoch_Some)
  with assms(6) show ?thesis by (simp add: store_append_def)
qed

section \<open>The contract the host relies on\<close>

text \<open>A log per run: an append that succeeds was made at the end of the log and adds the events there, one
  that does not leaves every log as it was.\<close>

locale run_log =
  fixes valid :: "'s \<Rightarrow> bool"
    and log :: "run_id \<Rightarrow> 's \<Rightarrow> event list"
    and app :: "run_id \<Rightarrow> seq \<Rightarrow> epoch \<Rightarrow> event list \<Rightarrow> key list \<Rightarrow> cas list \<Rightarrow> 's \<Rightarrow> (store_error + appended) \<times> 's"
  assumes valid_app: "valid s \<Longrightarrow> valid (snd (app run n fence es ks items s))"
    and log_seqs: "valid s \<Longrightarrow> map ev_seq (log run s) = [1..<Suc (length (log run s))]"
    and app_seq: "valid s \<Longrightarrow> app run n fence es ks items s = (Inr a, s') \<Longrightarrow> n = length (log run s)"
    and app_log: "valid s \<Longrightarrow> app run n fence es ks items s = (Inr a, s') \<Longrightarrow>
      log r s' = (if r = run then log run s @ positioned n es else log r s)"
    and app_refused: "valid s \<Longrightarrow> app run n fence es ks items s = (Inl x, s') \<Longrightarrow> log r s' = log r s"
begin

text \<open>The log only grows: what was read stays a prefix of what is there.\<close>

lemma log_grows:
  assumes "valid s"
  shows "\<exists>new. log r (snd (app run n fence es ks items s)) = log r s @ new"
proof (cases "app run n fence es ks items s")
  case (Pair res s')
  show ?thesis
  proof (cases res)
    case (Inl x)
    then show ?thesis using Pair app_refused [OF assms, of run n fence es ks items x s' r] by simp
  next
    case (Inr a)
    then show ?thesis using Pair app_log [OF assms, of run n fence es ks items a s' r] by auto
  qed
qed

end

lemma length_log_of: "run_ok c run db \<Longrightarrow> length (log_of c run db) = last_seq_of run db"
  using log_of_seqs [of c run db] by (metis diff_Suc_1 length_map length_upt One_nat_def)

lemma append_refused_log:
  assumes "store_append c run n fence es ks items db = (Inl x, db')"
  shows "log_of c r db' = log_of c r db"
  using assms by (cases rule: store_append_cases) (auto simp: log_of_cong [of "delete_inbox_rows run ks db" db])

interpretation sqlite: run_log "\<lambda>db. codec_ok c \<and> store_ok c db" "log_of c" "store_append c" for c
proof unfold_locales
  show "codec_ok c \<and> store_ok c s \<Longrightarrow> codec_ok c \<and> store_ok c (snd (store_append c run n fence es ks items s))"
    for s run n fence es ks items using append_store_ok by blast
  show "codec_ok c \<and> store_ok c s \<Longrightarrow> map ev_seq (log_of c run s) = [1..<Suc (length (log_of c run s))]" for s run
    using log_of_seqs [of c run s] length_log_of [of c run s] by (simp add: store_ok_def)
  show "codec_ok c \<and> store_ok c s \<Longrightarrow> store_append c run n fence es ks items s = (Inr a, s') \<Longrightarrow> n = length (log_of c run s)"
    for s run n fence es ks items a s'
    using append_fence(2) [of c run n fence es ks items s a s'] length_log_of [of c run s] by (simp add: store_ok_def)
  show "codec_ok c \<and> store_ok c s \<Longrightarrow> store_append c run n fence es ks items s = (Inr a, s') \<Longrightarrow>
      log_of c r s' = (if r = run then log_of c run s @ positioned n es else log_of c r s)"
    for s run n fence es ks items a s' r using append_log [of c s run n fence es ks items a s' r] by blast
  show "codec_ok c \<and> store_ok c s \<Longrightarrow> store_append c run n fence es ks items s = (Inl x, s') \<Longrightarrow> log_of c r s' = log_of c r s"
    for s run n fence es ks items x s' r by (rule append_refused_log)
qed

section \<open>The inbox\<close>

text \<open>An accepted input is waiting, once; offering it again is a duplicate that writes nothing.\<close>

lemma enqueue_again:
  assumes "codec_ok c" "store_ok c db" "enqueue c run e items db = (Inr r, db')" "check_call c run [e] items' = Inr ()"
  shows "enqueue c run e items' db' = (Inr EN_Duplicate, db')"
  using assms(3)
proof (cases rule: enqueue_cases)
  case accepted
  then obtain w db2 where "db' = db2\<lparr>db_inbox := db_inbox db @
      [\<lparr> ib_run = run, ib_key = ev_key e, ib_at = ev_at e, ib_origin = origin_str (ev_origin e), ib_body = w \<rparr>]\<rparr>"
    using enqueue_tx_Inr [OF assms(1,2) accepted(5,2)] by blast
  then show ?thesis using assms(4) by (simp add: enqueue_def)
next
  case duplicate
  then show ?thesis using assms(4) by (auto simp: enqueue_def list_ex_iff)
qed simp

text \<open>The inbox is a queue: an accepted input goes behind those waiting.\<close>

lemma waiting_enqueue:
  assumes "codec_ok c" "store_ok c db" "enqueue c run e items db = (Inr EN_Accepted, db')"
  shows "waiting_inputs c r db' = waiting_inputs c r db @ (if r = run then [Inr (e\<lparr>ev_seq := 0\<rparr>)] else [])"
  using assms(3)
proof (cases rule: enqueue_cases)
  case accepted
  then obtain w db2 where "co_event_write c (e\<lparr>ev_seq := 0\<rparr>) = Some w" "db' = db2\<lparr>db_inbox := db_inbox db @
      [\<lparr> ib_run = run, ib_key = ev_key e, ib_at = ev_at e, ib_origin = origin_str (ev_origin e), ib_body = w \<rparr>]\<rparr>"
    using enqueue_tx_Inr [OF assms(1,2) accepted(5,2)] by blast
  then show ?thesis using assms(1) by (auto simp: waiting_inputs_def decode_event_def codec_ok_def)
qed auto

lemma next_input_waiting:
  "next_input c run db = (case waiting_inputs c run db of [] \<Rightarrow> Inr None | r # _ \<Rightarrow> and_then r (\<lambda>e. Inr (Some e)))"
proof -
  have "List.find P xs = (case filter P xs of [] \<Rightarrow> None | x # _ \<Rightarrow> Some x)" for P and xs :: "inbox_row list"
    by (induction xs) auto
  then show ?thesis by (auto simp: next_input_def waiting_inputs_def split: list.split)
qed

end
