(* ===== verification/Host_State.thy ===== *)
theory Host_State
  imports Host_Reduce Store_Props
begin

text \<open>
  What a host keeps in memory, from \<^verbatim>\<open>crates/run-host/src/host.rs\<close> and
  \<^verbatim>\<open>tree_effects.rs\<close>: the cache of each run, the operation the tree worker was handed and the
  refusals counted against it, the report of the tick, the place of each part in its rotation. All of it can be lost:
  a restart begins with \<open>host_new\<close>. The record \<open>host\<close> adds the store, for the parts of the host that are
  modelled as one call after the other on it.
\<close>

section \<open>The tree operation in flight\<close>

datatype tree_op =
    TO_Prepare run_id string \<comment> \<open>run, dir\<close>
  | TO_Park run_id string outcome \<comment> \<open>run, dir, occasion\<close>

fun tree_op_run :: "tree_op \<Rightarrow> run_id" where
  "tree_op_run (TO_Prepare run _) = run"
| "tree_op_run (TO_Park run _ _) = run"

fun tree_op_name :: "tree_op \<Rightarrow> string" where
  "tree_op_name (TO_Prepare _ _) = ''prepare''"
| "tree_op_name (TO_Park _ _ _) = ''park''"

datatype tree_result =
    RS_Prepared base "park_outcome option"
  | RS_Parked park_outcome
  | RS_Refused tree_refusal string

text \<open>What the status read of a directory answers.\<close>

record tree_state =
  tn_commit :: "string option"
  tn_branch :: "string option"
  tn_dirty :: bool
  tn_mid_sequence :: bool
  tn_missing :: bool

record attempts =
  at_refused :: nat
  at_next_at :: "timestamp option"

record tree_track =
  tt_running :: "tree_op option"
  tt_cancelled :: bool
  tt_attempts :: "(run_id, attempts) btmap"

definition empty_track :: tree_track where
  "empty_track = \<lparr> tt_running = None, tt_cancelled = False, tt_attempts = [] \<rparr>"

section \<open>The cache of a run\<close>

datatype read_only = RO_NewerNxs | RO_Unfoldable

record run_cache =
  hc_state :: "run_state option"
  hc_read_only :: "read_only option"
  hc_offsets :: "(session_key, nat) btmap"
  hc_started :: "session_key set"
  hc_logged :: "string set"

definition empty_cache :: run_cache where
  "empty_cache = \<lparr> hc_state = None, hc_read_only = None, hc_offsets = [], hc_started = {}, hc_logged = {} \<rparr>"

section \<open>The host\<close>

datatype tick_part = PT_Drain | PT_Fold | PT_Execute

record host_mem =
  ho_owner_id :: string
  ho_runs :: "(run_id, run_cache) btmap"
  ho_track :: tree_track
  ho_yielded :: bool
  ho_busy :: bool
  ho_folded :: nat
  ho_lines :: "string list"
  ho_next_turn :: "tick_part \<Rightarrow> nat"

record host = host_mem +
  ho_store :: store

definition host_new :: "string \<Rightarrow> host_mem" where
  "host_new owner_id =
     \<lparr> ho_owner_id = owner_id, ho_runs = [], ho_track = empty_track, ho_yielded = False, ho_busy = False, ho_folded = 0,
       ho_lines = [], ho_next_turn = (\<lambda>_. 0) \<rparr>"

definition cache_of :: "run_id \<Rightarrow> 'a host_mem_scheme \<Rightarrow> run_cache" where
  "cache_of run h = (case map_of (ho_runs h) run of Some rc \<Rightarrow> rc | None \<Rightarrow> empty_cache)"

definition set_cache :: "run_id \<Rightarrow> run_cache \<Rightarrow> 'a host_mem_scheme \<Rightarrow> 'a host_mem_scheme" where
  "set_cache run rc h = h\<lparr>ho_runs := bt_insert run rc (ho_runs h)\<rparr>"

definition drop_cache :: "run_id \<Rightarrow> 'a host_mem_scheme \<Rightarrow> 'a host_mem_scheme" where
  "drop_cache run h = h\<lparr>ho_runs := bt_remove run (ho_runs h)\<rparr>"

definition log_line :: "run_id \<Rightarrow> string \<Rightarrow> string \<Rightarrow> 'a host_mem_scheme \<Rightarrow> 'a host_mem_scheme" where
  "log_line run what code h = h\<lparr>ho_lines := ho_lines h @ [''run-host '' @ run @ '': '' @ what @ '' '' @ code]\<rparr>"

definition note_store_error :: "store_error \<Rightarrow> 'a host_mem_scheme \<Rightarrow> 'a host_mem_scheme" where
  "note_store_error e h = (if e = SE_Busy then h\<lparr>ho_busy := True\<rparr> else h)"


lemma cache_of_set [simp]: "cache_of r (set_cache run rc h) = (if r = run then rc else cache_of r h)"
  by (simp add: cache_of_def set_cache_def)

end
