(* ===== verification/Host_Fold.thy ===== *)
theory Host_Fold
  imports Host_State
begin

text \<open>
  The host's side of one fold, from \<^verbatim>\<open>crates/run-host/src/fold.rs\<close> and the parts of
  \<^verbatim>\<open>host.rs\<close> it uses: the cached state of a run, reading it from the log, folding one input into one
  append with the compare-and-sets that ride in it, counting the failures of an input that does not fold,
  and the withdrawal of a run that cannot be folded. The host's state is the record \<open>host\<close>. Other
  processes write the same store: \<open>world n\<close> is what they did between the two calls of attempt \<open>n\<close>, and
  a panic is no outcome of a fold here, because every fold of the model is total.
\<close>

text \<open>What \<^verbatim>\<open>serde_json\<close> reads for a pinned definition and a failure count.\<close>

record host_codec =
  hk_store :: codec
  hk_flow_read :: "bytes \<Rightarrow> flow_def option"
  hk_count_read :: "bytes \<Rightarrow> nat option"
  hk_count_write :: "nat \<Rightarrow> bytes"

definition DEFAULT_MAX_ATTEMPTS :: nat where "DEFAULT_MAX_ATTEMPTS = 3"

definition set_state :: "run_id \<Rightarrow> run_state option \<Rightarrow> 'a host_mem_scheme \<Rightarrow> 'a host_mem_scheme" where
  "set_state run st h = set_cache run ((cache_of run h)\<lparr>hc_state := st\<rparr>) h"

definition mark_read_only :: "run_id \<Rightarrow> read_only \<Rightarrow> string \<Rightarrow> 'a host_mem_scheme \<Rightarrow> 'a host_mem_scheme" where
  "mark_read_only run why what h =
     (let rc = cache_of run h;
          h1 = set_cache run (rc\<lparr>hc_read_only := Some why, hc_state := None, hc_logged := insert what (hc_logged rc)\<rparr>) h
      in if what \<in> hc_logged rc then h1 else log_line run ''not stepped:'' what h1)"

section \<open>Reading a run\<close>

definition pinned_def :: "host_codec \<Rightarrow> store \<Rightarrow> event \<Rightarrow> flow_def option" where
  "pinned_def c db first =
     (case ev_body first of
        EB_Commissioned _ _ _ hash _ _ _ \<Rightarrow> Option.bind (store_get (''flow/'' @ hash) db) (hk_flow_read c)
      | _ \<Rightarrow> None)"

definition fold_pinned :: "host_codec \<Rightarrow> run_id \<Rightarrow> event \<Rightarrow> event list \<Rightarrow> host \<Rightarrow> run_state option \<times> host" where
  "fold_pinned c run first events h =
     (case pinned_def c (ho_store h) first of
        None \<Rightarrow> (None, mark_read_only run RO_Unfoldable ''the pinned definition does not read'' h)
      | Some d \<Rightarrow>
          (case fold_events run d events of
             Whole st \<Rightarrow> (Some st, set_state run (Some st) h)
           | NewerNxs _ \<Rightarrow> (None, mark_read_only run RO_NewerNxs ''a decision this version cannot fold'' h)
           | Unfoldable _ \<Rightarrow> (None, mark_read_only run RO_Unfoldable ''a fold panicked'' h)))"

definition fold_loaded :: "host_codec \<Rightarrow> run_id \<Rightarrow> event list \<Rightarrow> host \<Rightarrow> run_state option \<times> host" where
  "fold_loaded c run events h =
     (case events of
        first # _ \<Rightarrow> fold_pinned c run first events h
      | [] \<Rightarrow>
          (case next_input (hk_store c) run (ho_store h) of
             Inr (Some first) \<Rightarrow> fold_pinned c run first events h
           | Inr None \<Rightarrow> (None, h)
           | Inl e \<Rightarrow> (None, note_store_error e h)))"

definition loaded_state :: "host_codec \<Rightarrow> run_id \<Rightarrow> host \<Rightarrow> run_state option \<times> host" where
  "loaded_state c run h =
     (if hc_read_only (cache_of run h) \<noteq> None then (None, h)
      else case hc_state (cache_of run h) of
        Some st \<Rightarrow> (Some st, h)
      | None \<Rightarrow>
          (case load (hk_store c) run 0 (ho_store h) of
             Inr events \<Rightarrow> fold_loaded c run events h
           | Inl (SE_DamagedRow _ (Some _)) \<Rightarrow>
               (None, mark_read_only run RO_Unfoldable ''a logged row does not decode'' h)
           | Inl e \<Rightarrow> (None, note_store_error e h)))"

section \<open>What rides in an append\<close>

definition delete_if_present :: "store \<Rightarrow> key \<Rightarrow> cas list" where
  "delete_if_present db k =
     (case store_get k db of Some v \<Rightarrow> [\<lparr> ca_key = k, ca_from = Some v, ca_to = None \<rparr>] | None \<Rightarrow> [])"

definition writes_finished :: "event list \<Rightarrow> bool" where
  "writes_finished events = list_ex (\<lambda>e. body_finishes (ev_body e)) events"

definition poison_key :: "run_id \<Rightarrow> key \<Rightarrow> key" where
  "poison_key run k = ''poison/'' @ run @ ''/'' @ k"

definition fold_cas :: "run_id \<Rightarrow> run_state \<Rightarrow> event list \<Rightarrow> key \<Rightarrow> store \<Rightarrow> cas list" where
  "fold_cas run st events input_key db =
     (if is_ignored events then []
      else case events of
        [] \<Rightarrow> []
      | first # _ \<Rightarrow>
          (case ev_body first of
             EB_RootOpened _ _ \<Rightarrow> delete_if_present db (''pending/'' @ run)
           | EB_SessionFact k (SF_Started backend _) \<Rightarrow>
               (case find_session st k of
                  None \<Rightarrow> []
                | Some i \<Rightarrow>
                    (let pk = ''persona_session/'' @ run @ ''/'' @ sl_member (sr_slot (rs_slots st ! i));
                         current = store_get pk db
                     in if current \<noteq> Some backend
                        then [\<lparr> ca_key = pk, ca_from = current, ca_to = Some backend \<rparr>] else []))
           | _ \<Rightarrow> [])) @
     (if writes_finished events
      then delete_if_present db (''pending/'' @ run) @ delete_if_present db (''tree_refusal/'' @ run) else []) @
     delete_if_present db (poison_key run input_key)"

section \<open>Committing\<close>

definition append_refused :: "run_id \<Rightarrow> store_error \<Rightarrow> host \<Rightarrow> host" where
  "append_refused run e h =
     (case e of
        SE_Fenced \<Rightarrow> drop_cache run (log_line run ''append refused:'' (store_error_kind e) h)
      | SE_DuplicateKey _ \<Rightarrow> set_state run None h
      | SE_SeqMismatch \<Rightarrow> set_state run None h
      | SE_VersionTooOld _ \<Rightarrow> mark_read_only run RO_NewerNxs ''a newer version wrote to this run'' h
      | _ \<Rightarrow> note_store_error e h)"

definition poison_event :: "run_id \<Rightarrow> run_state \<Rightarrow> timestamp \<Rightarrow> key \<Rightarrow> event" where
  "poison_event run st at k =
     event_new run (rs_seq st + 1) at (poison_key run k) OR_Host (EB_Decision (DE_Parked None RC_PoisonInput))"

definition consume_poison :: "host_codec \<Rightarrow> run_id \<Rightarrow> epoch \<Rightarrow> timestamp \<Rightarrow> key \<Rightarrow> host \<Rightarrow> host" where
  "consume_poison c run epoch now k h =
     (case loaded_state c run h of
        (None, h1) \<Rightarrow> h1
      | (Some st, h1) \<Rightarrow>
          (let items = delete_if_present (ho_store h1) (poison_key run k);
               (res, db) = store_append (hk_store c) run (rs_seq st) epoch [poison_event run st now k] [k] items (ho_store h1);
               h2 = h1\<lparr>ho_store := db\<rparr>
           in case res of
                Inr _ \<Rightarrow> set_state run None (log_line run ''parked:'' ''poison_input'' h2)
              | Inl e \<Rightarrow> append_refused run e h2))"

definition count_poison :: "host_codec \<Rightarrow> run_id \<Rightarrow> epoch \<Rightarrow> timestamp \<Rightarrow> key \<Rightarrow> host \<Rightarrow> host" where
  "count_poison c run epoch now k h =
     (let budget = (case hc_state (cache_of run h) of
            None \<Rightarrow> DEFAULT_MAX_ATTEMPTS | Some st \<Rightarrow> lp_max_attempts (rs_policy st));
          current = store_get (poison_key run k) (ho_store h);
          count = (case Option.bind current (hk_count_read c) of Some n \<Rightarrow> n | None \<Rightarrow> 0) + 1;
          h1 = log_line run ''an input did not fold:'' k h
      in if count \<ge> budget then consume_poison c run epoch now k h1
         else
           (let (res, db) = compare_and_set (hk_store c) (poison_key run k) current (Some (hk_count_write c count)) (ho_store h1);
                h2 = h1\<lparr>ho_store := db\<rparr>
            in case res of Inr _ \<Rightarrow> h2 | Inl e \<Rightarrow> note_store_error e h2))"

text \<open>The loop runs at most twice: a comparison that failed is tried once more with values read again.
  \<open>attempt\<close> 0 is the first.\<close>

definition commit_attempt ::
  "host_codec \<Rightarrow> (nat \<Rightarrow> store \<Rightarrow> store) \<Rightarrow> run_id \<Rightarrow> epoch \<Rightarrow> run_state \<Rightarrow> key \<Rightarrow> event list \<Rightarrow> nat \<Rightarrow> store \<Rightarrow>
   (store_error + appended) \<times> store" where
  "commit_attempt c world run epoch st k events n db =
     (let items = fold_cas run st events k db
      in store_append (hk_store c) run (rs_seq st) epoch events [k] items (world n db))"

definition commit_input ::
  "host_codec \<Rightarrow> (nat \<Rightarrow> store \<Rightarrow> store) \<Rightarrow> run_id \<Rightarrow> epoch \<Rightarrow> timestamp \<Rightarrow> run_state \<Rightarrow> key \<Rightarrow> event list \<Rightarrow> run_state \<Rightarrow>
   host \<Rightarrow> bool \<times> host" where
  "commit_input c world run epoch now st k events next_st h =
     (let done = (\<lambda>db. (True, (set_state run (Some next_st) (h\<lparr>ho_store := db, ho_folded := ho_folded h + 1\<rparr>)))) in
      case commit_attempt c world run epoch st k events 0 (ho_store h) of
        (Inr _, db) \<Rightarrow> done db
      | (Inl (SE_CasFailed _), db) \<Rightarrow>
          (case commit_attempt c world run epoch st k events 1 db of
             (Inr _, db') \<Rightarrow> done db'
           | (Inl (SE_CasFailed _), db') \<Rightarrow> (False, count_poison c run epoch now k (h\<lparr>ho_store := db'\<rparr>))
           | (Inl e, db') \<Rightarrow> (False, append_refused run e (h\<lparr>ho_store := db'\<rparr>)))
      | (Inl e, db) \<Rightarrow> (False, append_refused run e (h\<lparr>ho_store := db\<rparr>)))"

definition step_input ::
  "host_codec \<Rightarrow> (nat \<Rightarrow> store \<Rightarrow> store) \<Rightarrow> run_id \<Rightarrow> epoch \<Rightarrow> timestamp \<Rightarrow> host \<Rightarrow> bool \<times> host" where
  "step_input c world run epoch now h =
     (case next_input (hk_store c) run (ho_store h) of
        Inr None \<Rightarrow> (False, h)
      | Inl (SE_DamagedRow k None) \<Rightarrow> (False, count_poison c run epoch now k h)
      | Inl e \<Rightarrow> (False, note_store_error e h)
      | Inr (Some input) \<Rightarrow>
          (case ev_body input of
             EB_Decision _ \<Rightarrow> (False, count_poison c run epoch now (ev_key input) h)
           | _ \<Rightarrow>
               (case loaded_state c run h of
                  (None, h1) \<Rightarrow> (False, h1)
                | (Some st, h1) \<Rightarrow>
                    (case reduce st input of
                       None \<Rightarrow> (False, count_poison c run epoch now (ev_key input) h1)
                     | Some (events, next_st) \<Rightarrow>
                         commit_input c world run epoch now st (ev_key input) events next_st h1))))"

text \<open>\<^verbatim>\<open>fold_run\<close>: input by input while the tick may go on; \<open>may_work n\<close> is whether it may
  before input \<open>n\<close>. The fuel is the number of inputs the tick is given at most.\<close>

fun fold_run ::
  "host_codec \<Rightarrow> (nat \<Rightarrow> nat \<Rightarrow> store \<Rightarrow> store) \<Rightarrow> (nat \<Rightarrow> bool) \<Rightarrow> run_id \<Rightarrow> epoch \<Rightarrow> timestamp \<Rightarrow> nat \<Rightarrow> host \<Rightarrow> host" where
  "fold_run c world may_work run epoch now 0 h = h"
| "fold_run c world may_work run epoch now (Suc n) h =
     (if \<not> may_work n then h
      else case loaded_state c run h of
        (None, h1) \<Rightarrow> h1
      | (Some _, h1) \<Rightarrow>
          (case step_input c (world n) run epoch now h1 of
             (False, h2) \<Rightarrow> h2
           | (True, h2) \<Rightarrow> fold_run c world may_work run epoch now n h2))"

section \<open>The withdrawal of a run that cannot be folded\<close>

definition exit_sessions :: "run_id \<Rightarrow> event list \<Rightarrow> session_key list" where
  "exit_sessions run es =
     concat (map (\<lambda>e. case ev_body e of
        EB_Decision (DE_StepStarted step visit attempt members) \<Rightarrow>
          map (\<lambda>m. slot_session_key \<lparr> sl_step = step, sl_visit = visit, sl_member = m, sl_attempt = attempt \<rparr> run) members
      | _ \<Rightarrow> []) es)"

definition find_withdrawal :: "(store_error + event) list \<Rightarrow> event option" where
  "find_withdrawal ws =
     find_map (\<lambda>w. case w of
        Inr e \<Rightarrow> (case ev_body e of EB_Withdrawn _ _ \<Rightarrow> Some e | _ \<Rightarrow> None)
      | Inl _ \<Rightarrow> None) ws"

definition exit_events :: "run_id \<Rightarrow> seq \<Rightarrow> timestamp \<Rightarrow> event \<Rightarrow> event list" where
  "exit_events run last_seq now withdrawal =
     [withdrawal\<lparr>ev_seq := last_seq + 1, ev_origin := OR_Cli\<rparr>,
      event_new run (last_seq + 2) now (ev_key withdrawal @ ''/finished'') OR_Host
        (EB_Decision (DE_Finished OU_Withdrawn (Some RC_WithdrawnByRequester)))]"

text \<open>\<open>dead k\<close>: the backend confirms that the session \<open>k\<close> is dead.\<close>

definition withdraw_exit ::
  "host_codec \<Rightarrow> (session_key \<Rightarrow> bool) \<Rightarrow> run_row \<Rightarrow> epoch \<Rightarrow> timestamp \<Rightarrow> host \<Rightarrow> host" where
  "withdraw_exit c dead row epoch now h =
     (let run = rw_run row in
      if hc_read_only (cache_of run h) \<noteq> Some RO_Unfoldable then h
      else case find_withdrawal (waiting_inputs (hk_store c) run (ho_store h)) of
        None \<Rightarrow> h
      | Some withdrawal \<Rightarrow>
          if list_ex (\<lambda>k. \<not> dead k) (exit_sessions run (load_readable (hk_store c) run (ho_store h))) then h
          else
            (let claim = ''claim/'' @ rw_workspace_id row;
                 holder = store_get claim (ho_store h);
                 (released, db) =
                   (if holder = Some run then compare_and_set (hk_store c) claim holder None (ho_store h)
                    else (Inr (), ho_store h))
             in case released of
                  Inl _ \<Rightarrow> h\<lparr>ho_store := db\<rparr>
                | Inr _ \<Rightarrow>
                    (let items = delete_if_present db (''pending/'' @ run) @ delete_if_present db (''tree_refusal/'' @ run);
                         (res, db') = store_append (hk_store c) run (rw_last_seq row) epoch
                            (exit_events run (rw_last_seq row) now withdrawal) [ev_key withdrawal] items db;
                         h1 = h\<lparr>ho_store := db'\<rparr>
                     in case res of
                          Inr _ \<Rightarrow> drop_cache run (log_line run ''withdrawn with no fold:'' ''claim released'' h1)
                        | Inl e \<Rightarrow> append_refused run e h1)))"

section \<open>The log under the host\<close>

lemma run_def_decision [simp]:
  "rs_run (apply_decision st d at) = rs_run st" "rs_def (apply_decision st d at) = rs_def st"
  by (cases "(st, d, at)" rule: apply_decision.cases; simp add: decision_fold_defs)+

lemma run_def_fold_input [simp]: "rs_run (fold_input st e) = rs_run st" "rs_def (fold_input st e) = rs_def st"
  by (auto simp: input_fold_defs split: event_body.splits option.splits timer_purpose.splits asked.splits)

lemma run_def_apply_input [simp]: "rs_run (apply_input st e) = rs_run st" "rs_def (apply_input st e) = rs_def st"
  by (simp_all add: apply_input_def)

lemma evolve_frame:
  "evolve st e = Inr st' \<Longrightarrow> rs_run st' = rs_run st \<and> rs_def st' = rs_def st \<and> rs_seq st' = ev_seq e"
  by (erule evolve_cases) auto

lemma replay_frame:
  "replay st es = Inr st' \<Longrightarrow>
     rs_run st' = rs_run st \<and> rs_def st' = rs_def st \<and> rs_seq st' = (if es = [] then rs_seq st else ev_seq (last es))"
proof (induction es arbitrary: st)
  case (Cons e es)
  then obtain st1 where st1: "evolve st e = Inr st1" "replay st1 es = Inr st'" by (auto split: sum.splits)
  show ?case using Cons.IH [OF st1(2)] evolve_frame [OF st1(1)] by simp
qed simp

lemma fold_events_seq:
  assumes "fold_events run d es = Whole st" "map ev_seq es = [1..<Suc (length es)]"
  shows "rs_seq st = length es" "rs_run st = run" "rs_def st = d"
proof -
  have r: "replay (run_state_initial run d) es = Inr st" using assms(1) by (simp add: fold_events_replay)
  have "ev_seq (last es) = length es" if "es \<noteq> []"
  proof -
    have "ev_seq (last es) = last (map ev_seq es)" using that by (simp add: last_map)
    also have "\<dots> = length es" using that unfolding assms(2) by (cases es) simp_all
    finally show ?thesis .
  qed
  then show "rs_seq st = length es" using replay_frame [OF r] by (simp add: run_state_initial_def)
  show "rs_run st = run" "rs_def st = d" using replay_frame [OF r] by (simp_all add: run_state_initial_def)
qed

lemma reduce_seqs:
  assumes "known_state st" "\<And>x. ev_body e \<noteq> EB_Decision x" "reduce st e = Some (evs, st')"
  shows "map ev_seq evs = [Suc (rs_seq st)..<Suc (rs_seq st + length evs)]" "replay st evs = Inr st'"
proof -
  let ?e = "logged_input st e"
  let ?ds = "decide st ?e (rs_def st)"
  have evs: "evs = ?e # map (decision_event (rs_run st) ?e) (enumerate 0 ?ds)"
    using reduce_Some [OF assms(1,2)] assms(3) by simp
  have "map ev_seq (map (decision_event r ?e) (enumerate n ds)) = [rs_seq st + 2 + n..<rs_seq st + 2 + n + length ds]" for r n ds
    by (induction ds arbitrary: n) (simp_all add: decision_event_def event_new_def upt_conv_Cons del: upt_Suc)
  from this [of "rs_run st" 0 ?ds] show "map ev_seq evs = [Suc (rs_seq st)..<Suc (rs_seq st + length evs)]"
    unfolding evs by (simp add: upt_conv_Cons del: upt_Suc)
  show "replay st evs = Inr st'" using assms(3) by (auto simp: reduce_def Let_def split: sum.splits)
qed

lemma fold_events_append:
  assumes "fold_events run d es = Whole st" "replay st evs = Inr st'"
  shows "fold_events run d (es @ evs) = Whole st'"
  using assms by (simp add: fold_events_replay replay_append)

context run_log
begin

text \<open>An input folded on the state of the log and appended at its end leaves a log whose fold is the state
  the fold reached.\<close>

lemma commit_folds:
  assumes "valid s" "fold_events run d (log run s) = Whole st" "reduce st e = Some (evs, st')"
    "\<And>x. ev_body e \<noteq> EB_Decision x" "app run (rs_seq st) fence evs ks items s = (Inr a, s')"
  shows "fold_events run d (log run s') = Whole st'"
proof -
  have known: "known_state st"
    using assms(2) known.replay_initial by (simp add: fold_events_replay)
  have n: "rs_seq st = length (log run s)" using app_seq [OF assms(1,5)] .
  have "log run s' = log run s @ positioned (rs_seq st) evs" using app_log [OF assms(1,5), of run] by simp
  moreover have "positioned (rs_seq st) evs = evs"
    using reduce_seqs(1) [OF known assms(4,3)] by (rule positioned_id)
  ultimately show ?thesis
    using fold_events_append [OF assms(2) reduce_seqs(2) [OF known assms(4,3)]] by simp
qed

text \<open>The same when the state was read earlier and the log may have grown since: a success shows it has
  not.\<close>

lemma commit_folds_stale:
  assumes "valid s" "log run s = old @ new" "fold_events run d old = Whole st" "reduce st e = Some (evs, st')"
    "\<And>x. ev_body e \<noteq> EB_Decision x" "app run (rs_seq st) fence evs ks items s = (Inr a, s')"
  shows "fold_events run d (log run s') = Whole st'"
proof -
  have seqs: "map ev_seq (old @ new) = [1..<Suc (length (old @ new))]" using log_seqs [OF assms(1), of run] assms(2) by simp
  have "map ev_seq old = take (length old) (map ev_seq (old @ new))" by simp
  also have "\<dots> = [1..<Suc (length old)]" unfolding seqs by (simp add: take_upt del: upt_Suc)
  finally have "rs_seq st = length old" using fold_events_seq(1) [OF assms(3)] by simp
  then have "new = []" using app_seq [OF assms(1,6)] assms(2) by simp
  then show ?thesis using commit_folds [OF assms(1) _ assms(4,5,6)] assms(2,3) by simp
qed

end

section \<open>The cached state\<close>

lemma set_cache_store [simp]: "ho_store (set_cache run rc h) = ho_store h" "ho_store (set_state run st h) = ho_store h"
  by (simp_all add: set_cache_def set_state_def)

lemma store_step_log:
  assumes "codec_ok c" "store_ok c db" "store_step c db db'"
  shows "\<exists>new. log_of c r db' = log_of c r db @ new"
  using assms(3)
proof cases
  case (step_append run n fence es ks items)
  then show ?thesis using sqlite.log_grows [of c db r run n fence es ks items] assms by simp
next
  case (step_enqueue run e items)
  obtain res d where d: "enqueue c run e items db = (res, d)" by fastforce
  with enqueue_keeps [OF assms(1,2) d] step_enqueue show ?thesis by (simp add: log_of_cong [of d db])
next
  case (step_cas k f t)
  obtain res d where d: "compare_and_set c k f t db = (res, d)" by fastforce
  with compare_and_set_keeps [OF assms(2) d] step_cas show ?thesis by (simp add: log_of_cong [of d db])
qed

lemma store_steps_log:
  assumes "codec_ok c" "(store_step c)\<^sup>*\<^sup>* db db'" "store_ok c db" "leases_ok c db"
  shows "\<exists>new. log_of c r db' = log_of c r db @ new"
  using assms(2)
proof (induction rule: rtranclp_induct)
  case (step y z)
  have "store_ok c y" using store_steps_keep [OF assms(1) step.hyps(1)] assms(3,4) by blast
  with store_step_log [OF assms(1) _ step.hyps(2), of r] step.IH show ?case by auto
qed simp

lemma commit_attempt_step:
  "(store_step (hk_store c)) (world n db) (snd (commit_attempt c world run epoch st k evs n db))"
  by (auto simp: commit_attempt_def Let_def intro: store_step.intros)

lemma commit_input_True:
  assumes "commit_input c world run epoch now st k evs next_st h = (True, h')"
  shows "hc_state (cache_of run h') = Some next_st \<and>
    (\<exists>n a db. commit_attempt c world run epoch st k evs n db = (Inr a, ho_store h') \<and>
      (n = 0 \<and> db = ho_store h \<or> n = 1 \<and> db = snd (commit_attempt c world run epoch st k evs 0 (ho_store h))))"
  using assms
  by (auto simp: commit_input_def Let_def set_state_def split: prod.splits sum.splits store_error.splits)
     (metis One_nat_def)+

end
