(* ===== verification/Run_Log.thy ===== *)
theory Run_Log
  imports Host_Fold
begin

text \<open>
  The logs the host writes: the step relation \<open>written\<close> grows a log by one folded input, or by the park
  of an input that does not fold, from the empty log on. The locale \<open>reducer_invariant\<close> says what an
  invariant of every state such a log folds to has to meet; it is interpreted for the ones below. The
  phases only move forward and an outcome never changes; a finished run has no timer; and the timer index
  of the store holds exactly the timers of the state.
\<close>

inductive written :: "run_id \<Rightarrow> flow_def \<Rightarrow> event list \<Rightarrow> run_state \<Rightarrow> bool" for run d where
  written_start: "written run d [] (run_state_initial run d)"
| written_input: "written run d es st \<Longrightarrow> (\<And>x. ev_body e \<noteq> EB_Decision x) \<Longrightarrow> reduce st e = Some (evs, st') \<Longrightarrow>
    written run d (es @ evs) st'"
| written_poison: "written run d es st \<Longrightarrow> evolve st (poison_event run st at k) = Inr st' \<Longrightarrow>
    written run d (es @ [poison_event run st at k]) st'"

lemma written_replay: "written run d es st \<Longrightarrow> replay (run_state_initial run d) es = Inr st"
proof (induction rule: written.induct)
  case (written_input es st e evs st')
  then show ?case by (auto simp: reduce_def Let_def replay_append split: sum.splits)
qed (simp_all add: replay_append)

lemma written_known: "written run d es st \<Longrightarrow> known_state st"
  using written_replay known.replay_initial by blast

lemma written_frame: "written run d es st \<Longrightarrow> rs_run st = run \<and> rs_def st = d"
  using replay_frame [OF written_replay] by (simp add: run_state_initial_def)

locale reducer_invariant =
  fixes d :: flow_def and I :: "run_state \<Rightarrow> bool"
  assumes initial: "I (run_state_initial run d)"
    and acted: "I st \<Longrightarrow> rs_def st = d \<Longrightarrow> known_state st \<Longrightarrow> ignored_reason st e = None \<Longrightarrow>
      I (em_state (emit_input e (emit_start st e d)))"
    and poison: "I st \<Longrightarrow> I (apply_decision st (DE_Parked None RC_PoisonInput) at)"
    and sequence: "I st \<Longrightarrow> I (st\<lparr>rs_seq := n\<rparr>)"
begin

lemma reduce_keeps:
  assumes "I st" "rs_def st = d" "known_state st" "\<And>x. ev_body e \<noteq> EB_Decision x" "reduce st e = Some (evs, st')"
  shows "I st'"
proof (cases "ignored_reason st e")
  case None
  obtain n where "st' = (em_state (emit_input (logged_input st e) (emit_start st (logged_input st e) (rs_def st))))\<lparr>rs_seq := n\<rparr>"
    using reduce_state [OF assms(3,4) None] assms(5) by auto
  moreover have "I (em_state (emit_input (logged_input st e) (emit_start st (logged_input st e) d)))"
    using assms None by (intro acted) simp_all
  ultimately show ?thesis using assms(2) sequence by simp
next
  case (Some r)
  then show ?thesis using reduce_ignored [OF assms(3,4) Some] assms(1,5) sequence by auto
qed

lemma written_keeps: "written run d es st \<Longrightarrow> I st"
proof (induction rule: written.induct)
  case (written_input es st e evs st')
  then show ?case using reduce_keeps written_frame written_known by blast
next
  case (written_poison es st at k st')
  then show ?case
    by (auto simp: poison_event_def event_new_def elim!: evolve_cases intro!: sequence poison)
qed (rule initial)

end

section \<open>Phases\<close>

definition phase_rank :: "phase \<Rightarrow> nat" where
  "phase_rank ph =
     (case ph of
        PH_Created \<Rightarrow> 0 | PH_Queued _ \<Rightarrow> 1 | PH_Running TPH_Unprepared \<Rightarrow> 2 | PH_Running TPH_Prepared \<Rightarrow> 3
      | PH_Finishing _ _ PP_Unparked \<Rightarrow> 4 | PH_Finishing _ _ (PP_Parked _) \<Rightarrow> 5 | PH_Finished _ _ \<Rightarrow> 6)"

definition phase_le :: "run_state \<Rightarrow> run_state \<Rightarrow> bool" where
  "phase_le st st' \<longleftrightarrow>
     phase_rank (rs_phase st) \<le> phase_rank (rs_phase st') \<and>
     (\<forall>oc. rs_outcome st = Some oc \<longrightarrow> rs_outcome st' = Some oc)"

lemma phase_le_refl [simp]: "phase_le st st"
  by (simp add: phase_le_def)

lemma phase_le_trans: "phase_le a b \<Longrightarrow> phase_le b c \<Longrightarrow> phase_le a c"
  by (auto simp: phase_le_def)

lemma phase_le_same: "rs_phase st' = rs_phase st \<Longrightarrow> phase_le st st'"
  by (simp add: phase_le_def rs_outcome_def)

lemma phase_decision:
  "rs_phase (apply_decision st d at) =
     (case d of
        DE_ClaimRequested \<Rightarrow> PH_Queued None
      | DE_RunQueued b \<Rightarrow> PH_Queued b
      | DE_StepStarted _ _ _ _ \<Rightarrow>
          (case rs_phase st of PH_Queued _ \<Rightarrow> PH_Running TPH_Unprepared | PH_Created \<Rightarrow> PH_Running TPH_Unprepared | ph \<Rightarrow> ph)
      | DE_Finishing oc r \<Rightarrow> PH_Finishing oc r PP_Unparked
      | DE_Finished oc r \<Rightarrow> PH_Finished oc r
      | _ \<Rightarrow> rs_phase st)"
  by (cases "(st, d, at)" rule: apply_decision.cases) (simp_all add: decision_fold_defs)

lemma phase_le_lawful: "lawful em x \<Longrightarrow> phase_le (em_state em) (apply_decision (em_state em) x at)"
  by (auto simp: phase_le_def phase_decision phase_rank_def rs_outcome_def open_run_def is_finishing_def
      is_finished_def is_queued_def split: decision.splits phase.splits tree_phase.splits park_phase.splits)

lemma phase_le_emits: "emits em em' \<Longrightarrow> phase_le (em_state em) (em_state em')"
  by (induction rule: emits.induct) (auto intro: phase_le_trans phase_le_lawful)

lemma phase_le_input: "ignored_reason st e = None \<Longrightarrow> phase_le st (fold_input st e)"
  by (auto simp: phase_le_def phase_fold_input ignored_reason_def out_of_state_def phase_rank_def rs_outcome_def
      set_park_tree_def split: event_body.splits if_splits phase.splits park_phase.splits tree_phase.splits)

lemma phase_le_acted:
  assumes "ignored_reason st e = None"
  shows "phase_le st (em_state (emit_input e (emit_start st e d)))"
proof (cases "ev_body e = EB_ClaimReleased")
  case True
  show ?thesis
    by (rule emit_input_released [OF assms True, of d])
       (auto simp: phase_le_def phase_rank_def rs_outcome_def)
next
  case False
  have "phase_le (fold_input st e) (em_state (emit_input e (emit_start st e d)))"
    using phase_le_emits [OF emits_input [OF assms False, of d]] assms by (simp add: apply_input_acted)
  then show ?thesis using phase_le_input [OF assms] phase_le_trans by blast
qed

lemma phase_le_reduce:
  assumes "known_state st" "\<And>x. ev_body e \<noteq> EB_Decision x" "reduce st e = Some (evs, st')"
  shows "phase_le st st'"
proof (cases "ignored_reason st e")
  case None
  then show ?thesis
    using reduce_state [OF assms(1,2) None] assms(3) phase_le_acted [of st "logged_input st e" "rs_def st"]
    by (auto simp: phase_le_def rs_outcome_def)
next
  case (Some r)
  then show ?thesis using reduce_ignored [OF assms(1,2) Some] assms(3) by (auto simp: phase_le_same)
qed

section \<open>A finished run has no timer\<close>

definition finished_quiet :: "run_state \<Rightarrow> bool" where
  "finished_quiet st \<longleftrightarrow> (is_finished st \<longrightarrow> rs_timers st = [])"

lemma is_finished_decision:
  "is_finished (apply_decision st x at) \<Longrightarrow> is_finished st \<or> (\<exists>oc r. x = DE_Finished oc r)"
  unfolding is_finished_def phase_decision by (auto split: decision.splits phase.splits)

lemma finished_emits: "emits em em' \<Longrightarrow> \<not> is_finished (em_state em) \<Longrightarrow> \<not> is_finished (em_state em')"
proof (induction rule: emits.induct)
  case (emits_push em' x)
  then show ?case using is_finished_decision [of "em_state em'" x "em_at em'"] by auto
qed simp

interpretation finished: reducer_invariant d finished_quiet for d
proof unfold_locales
  fix st e assume a: "finished_quiet st" "ignored_reason st e = None"
  show "finished_quiet (em_state (emit_input e (emit_start st e d)))"
  proof (cases "ev_body e = EB_ClaimReleased")
    case True
    show ?thesis
      by (rule emit_input_released [OF a(2) True, of d]) (simp add: finished_quiet_def)
  next
    case False
    have "\<not> is_finished (fold_input st e)"
      using acted_open(1) [OF a(2)]
      by (auto simp: is_finished_def phase_fold_input set_park_tree_def split: event_body.splits phase.splits)
    then show ?thesis
      using finished_emits [OF emits_input [OF a(2) False, of d]] a(2)
      by (simp add: finished_quiet_def apply_input_acted)
  qed
qed (auto simp: finished_quiet_def run_state_initial_def is_finished_def)

section \<open>The timer index holds the timers of the state\<close>

definition armed_of :: "run_state \<Rightarrow> string \<Rightarrow> (timestamp \<times> string) option" where
  "armed_of st t = map_option (\<lambda>a. (at_fire_at a, timer_purpose_str (at_purpose a))) (map_of (rs_timers st) t)"

definition timers_agree :: "run_id \<Rightarrow> run_state \<Rightarrow> timer_row list \<Rightarrow> bool" where
  "timers_agree run st rows \<longleftrightarrow> (\<forall>t. armed_map run rows t = armed_of st t)"

lemma timers_fold_input_eq:
  "rs_timers (fold_input st e) =
     (case ev_body e of EB_TimerFired timer _ \<Rightarrow> bt_remove timer (rs_timers st) | _ \<Rightarrow> rs_timers st)"
  by (auto simp: input_fold_defs split: event_body.splits option.splits timer_purpose.splits asked.splits)

lemma timers_decision:
  "rs_timers (apply_decision st d at) =
     (case d of
        DE_TimerSet timer f p \<Rightarrow> bt_insert timer \<lparr> at_fire_at = f, at_purpose = p \<rparr> (rs_timers st)
      | DE_TimerCleared timer \<Rightarrow> bt_remove timer (rs_timers st)
      | DE_Finished _ _ \<Rightarrow> []
      | _ \<Rightarrow> rs_timers st)"
  by (cases "(st, d, at)" rule: apply_decision.cases) (simp_all add: decision_fold_defs)

lemma agree_decision:
  assumes "timers_agree run st rows" "timers_unique rows"
  shows "timers_agree run (apply_decision st x at) (snd (timer_event run (EB_Decision x) rows))"
  using assms unfolding timers_agree_def armed_of_def timers_decision
  by (auto simp: timer_event_def case_prod_unfold Let_def armed_arm armed_clear armed_clear_all split: decision.split)

lemma fires_iff:
  assumes "ev_body e = EB_TimerFired t f" "\<not> is_finished st"
  shows "ignored_reason st e = None \<longleftrightarrow> map_option at_fire_at (map_of (rs_timers st) t) = Some f"
  using assms by (simp add: ignored_reason_def)

lemma agree_input:
  assumes "timers_agree run st rows" "timers_unique rows" "finished_quiet st" "\<And>x. ev_body e \<noteq> EB_Decision x"
  shows "timers_agree run (apply_input st e) (snd (timer_event run (ev_body e) rows))"
proof (cases "\<exists>t f. ev_body e = EB_TimerFired t f")
  case False
  then have "snd (timer_event run (ev_body e) rows) = rows" "rs_timers (apply_input st e) = rs_timers st"
    using assms(4) by (auto simp: timer_event_def apply_input_def timers_fold_input_eq split: event_body.split)
  with assms(1) show ?thesis by (simp add: timers_agree_def armed_of_def)
next
  case True
  then obtain t f where e: "ev_body e = EB_TimerFired t f" by blast
  have ev: "armed_map run (snd (timer_event run (EB_TimerFired t f) rows)) s =
      (if s = t \<and> map_option fst (armed_map run rows t) = Some f then None else armed_map run rows s)" for s
    using armed_fire [OF assms(2), of run run t f s] by (simp add: timer_event_def case_prod_unfold Let_def)
  show ?thesis
  proof (cases "ignored_reason st e = None")
    case True
    then have "\<not> is_finished st" by (rule acted_open(1))
    then have "map_option fst (armed_map run rows t) = Some f"
      using True fires_iff [OF e] assms(1) by (simp add: timers_agree_def armed_of_def option.map_comp comp_def)
    with True e assms(1) show ?thesis
      by (simp add: timers_agree_def armed_of_def ev apply_input_acted timers_fold_input_eq)
  next
    case False
    have "map_option fst (armed_map run rows t) \<noteq> Some f"
    proof (cases "is_finished st")
      case True
      with assms(1,3) show ?thesis by (simp add: timers_agree_def armed_of_def finished_quiet_def)
    next
      case unfinished: False
      with False fires_iff [OF e] assms(1) show ?thesis
        by (simp add: timers_agree_def armed_of_def option.map_comp comp_def)
    qed
    with False assms(1) show ?thesis by (auto simp: timers_agree_def e ev apply_input_def armed_of_def)
  qed
qed

lemma agree_evolve:
  assumes "evolve st e = Inr st'" "timers_agree run st rows" "timers_unique rows" "finished_quiet st"
  shows "timers_agree run st' (snd (timer_event run (ev_body e) rows))"
  using assms(1)
proof (cases rule: evolve_cases)
  case (Decision x)
  then show ?thesis using agree_decision [OF assms(2,3), of x "ev_at e"] by (simp add: timers_agree_def armed_of_def)
next
  case Input
  then show ?thesis using agree_input [OF assms(2-4), of e] by (simp add: timers_agree_def armed_of_def)
qed

text \<open>Within one fold of an input the run finishes only at the end, so a firing never meets a finished run
  that still has a timer.\<close>

lemma agree_decisions:
  assumes "replay st (map (decision_event r e) xs) = Inr st'" "timers_agree run st rows" "timers_unique rows"
  shows "timers_agree run st' (snd (timers_apply run (map (decision_event r e) xs) rows))"
  using assms
proof (induction xs arbitrary: st rows)
  case (Cons x xs)
  obtain n y where x: "x = (n, y)" by fastforce
  let ?ev = "decision_event r e x"
  have body: "ev_body ?ev = EB_Decision y" by (simp add: x decision_event_def event_new_def)
  from Cons.prems(1) obtain st1 where st1: "evolve st ?ev = Inr st1" "replay st1 (map (decision_event r e) xs) = Inr st'"
    by (auto split: sum.splits)
  have "timers_agree run st1 (snd (timer_event run (ev_body ?ev) rows))"
    using st1(1) body agree_decision [OF Cons.prems(2,3), of y "ev_at ?ev"]
    by (auto simp: timers_agree_def armed_of_def elim!: evolve_cases)
  then show ?case
    using Cons.IH [OF st1(2)] unique_timer_event [OF Cons.prems(3)] by (simp add: case_prod_unfold Let_def)
qed simp

lemma agree_reduce:
  assumes "known_state st" "\<And>x. ev_body e \<noteq> EB_Decision x" "reduce st e = Some (evs, st')" "finished_quiet st"
    "timers_agree run st rows" "timers_unique rows"
  shows "timers_agree run st' (snd (timers_apply run evs rows))"
proof -
  let ?e = "logged_input st e"
  obtain xs where evs: "evs = ?e # map (decision_event (rs_run st) ?e) xs"
    using reduce_Some [OF assms(1,2)] assms(3) by auto
  obtain st1 where st1: "evolve st ?e = Inr st1" "replay st1 (map (decision_event (rs_run st) ?e) xs) = Inr st'"
    using reduce_seqs(2) [OF assms(1-3)] by (auto simp: evs split: sum.splits)
  have "timers_agree run st1 (snd (timer_event run (ev_body ?e) rows))"
    using agree_evolve [OF st1(1) assms(5,6,4)] .
  then show ?thesis
    using agree_decisions [OF st1(2)] unique_timer_event [OF assms(6)] by (simp add: evs case_prod_unfold Let_def)
qed

text \<open>The log of a run in the store is one the host wrote, and the index agrees with its fold.\<close>

definition indexed :: "codec \<Rightarrow> run_id \<Rightarrow> flow_def \<Rightarrow> run_state \<Rightarrow> store \<Rightarrow> bool" where
  "indexed c run d st db \<longleftrightarrow>
     store_ok c db \<and> written run d (log_of c run db) st \<and> timers_agree run st (db_timers db)"

lemma indexed_commit:
  assumes "codec_ok c" "indexed c run d st db" "\<And>x. ev_body e \<noteq> EB_Decision x" "reduce st e = Some (evs, st')"
    "store_append c run (rs_seq st) fence evs ks items db = (Inr a, db')"
  shows "indexed c run d st' db'"
proof -
  have w: "store_ok c db" "written run d (log_of c run db) st" "timers_agree run st (db_timers db)"
    using assms(2) by (auto simp: indexed_def)
  note known = written_known [OF w(2)]
  have "positioned (rs_seq st) evs = evs"
    using reduce_seqs(1) [OF known assms(3,4)] by (rule positioned_id)
  then have "log_of c run db' = log_of c run db @ evs"
    using append_log [OF assms(1) w(1) assms(5), of run] by simp
  moreover have "written run d (log_of c run db @ evs) st'" using w(2) assms(3,4) by (rule written_input)
  moreover have "db_timers db' = snd (timers_apply run evs (db_timers db))"
    by (rule append_effect [OF assms(1) w(1) assms(5)]) simp
  moreover have "timers_agree run st' (snd (timers_apply run evs (db_timers db)))"
    using agree_reduce [OF known assms(3,4) finished.written_keeps [OF w(2)] w(3)] w(1)
    by (simp add: store_ok_def keys_ok_def)
  moreover have "store_ok c db'" using append_keeps [OF assms(1) w(1) assms(5)] by simp
  ultimately show ?thesis by (simp add: indexed_def)
qed

lemma indexed_other:
  assumes "codec_ok c" "indexed c run d st db" "run' \<noteq> run"
    "store_append c run' n fence es ks items db = (res, db')"
  shows "indexed c run d st db'"
  using assms(4)
proof (cases rule: store_append_cases)
  case (ok a)
  have s: "store_ok c db" using assms(2) by (simp add: indexed_def)
  have app: "store_append c run' n fence es ks items db = (Inr a, db')" using assms(4) ok(1) by simp
  have "db_timers db' = snd (timers_apply run' es (db_timers db))"
    by (rule append_effect [OF assms(1) s app]) simp
  moreover have "timers_unique (db_timers db)" using s by (simp add: store_ok_def keys_ok_def)
  ultimately show ?thesis
    using assms(2,3) append_log [OF assms(1) s app, of run] append_keeps [OF assms(1) s app]
      armed_timers_apply_other [of "db_timers db" run run' es]
    by (simp add: indexed_def timers_agree_def)
next
  case (dup sq e)
  then show ?thesis using assms(2)
    by (simp add: indexed_def store_ok_delete log_of_cong [of "delete_inbox_rows run' ks db" db])
qed (use assms in simp)

section \<open>The cached state is the fold of the log\<close>

lemma commit_coherent:
  assumes ok: "codec_ok (hk_store c)" "store_ok (hk_store c) db0" "leases_ok (hk_store c) db0"
    and st: "fold_events run d (log_of (hk_store c) run db0) = Whole st"
    and env: "(store_step (hk_store c))\<^sup>*\<^sup>* db0 (ho_store h)"
      "\<And>n db. (store_step (hk_store c))\<^sup>*\<^sup>* db (world n db)"
    and red: "\<And>x. ev_body e \<noteq> EB_Decision x" "reduce st e = Some (evs, next_st)"
    and com: "commit_input c world run epoch now st k evs next_st h = (True, h')"
  shows "hc_state (cache_of run h') = Some next_st \<and>
    fold_events run d (log_of (hk_store c) run (ho_store h')) = Whole next_st"
proof -
  obtain n a db where cm: "commit_attempt c world run epoch st k evs n db = (Inr a, ho_store h')"
    "n = 0 \<and> db = ho_store h \<or> n = 1 \<and> db = snd (commit_attempt c world run epoch st k evs 0 (ho_store h))"
    "hc_state (cache_of run h') = Some next_st"
    using commit_input_True [OF com] by blast
  have "(store_step (hk_store c))\<^sup>*\<^sup>* (ho_store h) db"
    using cm(2) env(2) [of "ho_store h" 0] commit_attempt_step [of c world 0 "ho_store h" run epoch st k evs]
    by (auto intro: rtranclp.rtrancl_into_rtrancl)
  then have reach: "(store_step (hk_store c))\<^sup>*\<^sup>* db0 (world n db)"
    using env by (meson rtranclp_trans)
  obtain new where log: "log_of (hk_store c) run (world n db) = log_of (hk_store c) run db0 @ new"
    using store_steps_log [OF ok(1) reach ok(2,3)] by blast
  have valid: "codec_ok (hk_store c) \<and> store_ok (hk_store c) (world n db)"
    using store_steps_keep [OF ok(1) reach] ok by blast
  have app: "store_append (hk_store c) run (rs_seq st) epoch evs [k] (fold_cas run st evs k db) (world n db) = (Inr a, ho_store h')"
    using cm(1) by (simp add: commit_attempt_def Let_def)
  show ?thesis
    using sqlite.commit_folds_stale [OF valid log st red(2,1) app] cm(3) by blast
qed

end
