(* ===== verification/Behaviour.thy ===== *)
theory Behaviour
  imports Run_Log
begin

text \<open>
  Which decisions a method may write, method by method, and what follows for the routing of a flow: a step
  is finished only by the reply that completes it, a rework by a verdict stays within the declared passes,
  a session is restarted within its budget, and a withdrawal takes every open run to its end.
\<close>

section \<open>The kinds of decisions a method writes\<close>

definition news :: "(decision \<Rightarrow> bool) \<Rightarrow> emit \<Rightarrow> emit \<Rightarrow> bool" where
  "news P em em' \<longleftrightarrow> (\<exists>ds. em_out em' = em_out em @ ds \<and> (\<forall>x\<in>set ds. P x))"

fun is_timer_decision :: "decision \<Rightarrow> bool" where
  "is_timer_decision (DE_TimerSet _ _ _) = True"
| "is_timer_decision (DE_TimerCleared _) = True"
| "is_timer_decision _ = False"

text \<open>Neither the end of a step nor a rework.\<close>

definition is_plain :: "decision \<Rightarrow> bool" where
  "is_plain x \<longleftrightarrow> (case x of DE_StepFinished _ _ _ \<Rightarrow> False | DE_Rework _ _ _ _ \<Rightarrow> False | _ \<Rightarrow> True)"

named_theorems news_intros

lemma news_refl [news_intros]: "news P em em"
  by (simp add: news_def)

lemma news_push [news_intros]: "news P em0 em \<Longrightarrow> P x \<Longrightarrow> news P em0 (push x em)"
  by (auto simp: news_def)

lemma news_trans: "news P a b \<Longrightarrow> news P b c \<Longrightarrow> news P a c"
  by (fastforce simp: news_def)

lemma news_mono: "news P a b \<Longrightarrow> (\<And>x. P x \<Longrightarrow> Q x) \<Longrightarrow> news Q a b"
  by (auto simp: news_def)

lemma news_mem: "news P em em' \<Longrightarrow> x \<in> set (em_out em') \<Longrightarrow> x \<in> set (em_out em) \<or> P x"
  by (auto simp: news_def)

lemma news_fold:
  assumes "\<And>x e. news P e (f x e)"
  shows "news P em (fold f xs em)"
  by (induction xs arbitrary: em) (auto intro: news_trans [OF assms] news_refl)

text \<open>Every method that touches timers alone.\<close>

definition timed :: "emit \<Rightarrow> emit \<Rightarrow> bool" where "timed = news is_timer_decision"

lemma timed_basic:
  "timed em (set_timer_at t f p em)" "timed em (set_timer t n p em)" "timed em (set_slot_timer s n p em)"
  "timed em (clear_timer t em)" "timed em (clear_slot_timer s p em)" "timed em (set_tree_window em)"
  "timed em (set_root_deadline em)"
  by (simp_all add: timed_def set_timer_at_def set_timer_def set_slot_timer_def clear_timer_def clear_slot_timer_def
      set_tree_window_def set_root_deadline_def news_intros)

lemma timed_clear_slot_timers: "timed em (clear_slot_timers s em)"
  unfolding clear_slot_timers_def timed_def by (rule news_fold) (rule timed_basic(4) [unfolded timed_def])

lemma timed_arm_ready: "timed em (arm_ready em)"
  by (auto simp: arm_ready_def Let_def timed_def arm_ready_slot_def
      intro!: news_fold news_refl timed_basic(3) [unfolded timed_def])

lemma timed_trans: "timed a b \<Longrightarrow> timed b c \<Longrightarrow> timed a c"
  unfolding timed_def by (rule news_trans)

lemma timed_news:
  assumes "news P em0 em" "timed em em'" "\<And>x. is_timer_decision x \<Longrightarrow> P x"
  shows "news P em0 em'"
  using assms news_trans news_mono unfolding timed_def by metis

lemma is_plain_timer: "is_timer_decision x \<Longrightarrow> is_plain x"
  by (cases x) (simp_all add: is_plain_def)

lemma plain_timed [news_intros]:
  "news is_plain em0 em \<Longrightarrow> news is_plain em0 (set_timer_at t f p em)"
  "news is_plain em0 em \<Longrightarrow> news is_plain em0 (set_timer t n p em)"
  "news is_plain em0 em \<Longrightarrow> news is_plain em0 (set_slot_timer s n p em)"
  "news is_plain em0 em \<Longrightarrow> news is_plain em0 (clear_timer t em)"
  "news is_plain em0 em \<Longrightarrow> news is_plain em0 (clear_slot_timer s p em)"
  "news is_plain em0 em \<Longrightarrow> news is_plain em0 (clear_slot_timers s em)"
  "news is_plain em0 em \<Longrightarrow> news is_plain em0 (set_tree_window em)"
  "news is_plain em0 em \<Longrightarrow> news is_plain em0 (set_root_deadline em)"
  "news is_plain em0 em \<Longrightarrow> news is_plain em0 (arm_ready em)"
  by (auto intro: timed_news timed_basic timed_clear_slot_timers timed_arm_ready is_plain_timer)

lemma plain_fold_clear [news_intros]: "news is_plain em0 em \<Longrightarrow> news is_plain em0 (fold clear_timer ts em)"
  by (induction ts arbitrary: em) (auto intro: news_intros)

lemma plain_starts [news_intros]:
  "news is_plain em0 em \<Longrightarrow> news is_plain em0 (start_step s em)"
  "news is_plain em0 em \<Longrightarrow> news is_plain em0 (restart sl em)"
  "news is_plain em0 em \<Longrightarrow> news is_plain em0 (finish_run oc r em)"
  "news is_plain em0 em \<Longrightarrow> news is_plain em0 (emit_ceiling s v p em)"
  "news is_plain em0 em \<Longrightarrow> news is_plain em0 (accept_ceiling s em)"
  "news is_plain em0 em \<Longrightarrow> news is_plain em0 (restart_or_park i sl r em)"
  "news is_plain em0 em \<Longrightarrow> news is_plain em0 (hold i sl r t em)"
  by (auto simp: start_step_def restart_def finish_run_def emit_ceiling_def accept_ceiling_def restart_or_park_def
      hold_def Let_def is_plain_def intro!: news_intros split: option.split)

lemma plain_sessions [news_intros]:
  "news is_plain em0 em \<Longrightarrow> news is_plain em0 (emit_nudged k em)"
  "news is_plain em0 em \<Longrightarrow> news is_plain em0 (emit_stop_signalled k em)"
  "news is_plain em0 em \<Longrightarrow> news is_plain em0 (emit_ended i sl w ca em)"
  "news is_plain em0 em \<Longrightarrow> news is_plain em0 (group_lingering sl w em)"
  by (auto simp: emit_nudged_def emit_stop_signalled_def emit_ended_def group_lingering_def Let_def is_plain_def
      intro!: news_intros split: option.split slot_state.split after_stop.split end_cause.split)

lemma plain_rearm [news_intros]: "news is_plain em0 em \<Longrightarrow> news is_plain em0 (rearm i s q b em)"
  unfolding rearm_def Let_def by (auto intro!: news_intros)

lemma plain_fact [news_intros]: "news is_plain em0 em \<Longrightarrow> news is_plain em0 (emit_fact k f em)"
  by (simp add: emit_fact_def Let_def news_intros
      split: option.split session_fact.split slot_state.split heartbeat_kind.split)

lemma plain_timers [news_intros]:
  "news is_plain em0 em \<Longrightarrow> news is_plain em0 (emit_timer_fired t f em)"
  by (auto simp: emit_timer_fired_def root_period_def conclude_def emit_quiet_def emit_call_bound_def grace_over_def
      Let_def is_plain_def intro!: news_intros split: option.split timer_purpose.split)

lemma plain_rest [news_intros]:
  "news is_plain em0 em \<Longrightarrow> news is_plain em0 (emit_finished em)"
  "news is_plain em0 em \<Longrightarrow> news is_plain em0 (emit_resume so em)"
  "news is_plain em0 em \<Longrightarrow> news is_plain em0 (emit_resume_run em)"
  "news is_plain em0 em \<Longrightarrow> news is_plain em0 (emit_withdrawn b em)"
  by (auto simp: emit_finished_def emit_resume_def emit_resume_run_def emit_withdrawn_def Let_def is_plain_def
      intro!: news_intros split: option.split phase.split slot_condition.split reason_code.split)

text \<open>Only a reply ends a step, only a reply or an answer sends one back.\<close>

lemma plain_input:
  assumes "\<And>k m x n. ev_body e \<noteq> EB_Reply k m x n" "\<And>q di a. ev_body e \<noteq> EB_Answer q di a"
  shows "news is_plain em (emit_input e em)"
  using assms by (auto simp: emit_input_def is_plain_def intro!: news_intros split: event_body.split list.split)

section \<open>The reply that completes a step\<close>

text \<open>Setting a timer other than a start deadline, and clearing one, leaves everything but the timers.\<close>

definition same_but_timers :: "run_state \<Rightarrow> run_state \<Rightarrow> bool" where
  "same_but_timers st st' \<longleftrightarrow> st' = st\<lparr>rs_timers := rs_timers st'\<rparr>"

lemma sbt_refl [simp]: "same_but_timers st st"
  by (simp add: same_but_timers_def)

lemma sbt_trans: "same_but_timers a b \<Longrightarrow> same_but_timers b c \<Longrightarrow> same_but_timers a c"
  unfolding same_but_timers_def by (metis run_state.surjective run_state.update_convs(19))

lemma sbt_clear_timer: "same_but_timers (em_state em) (em_state (clear_timer t em))"
  by (simp add: clear_timer_def same_but_timers_def)

lemma sbt_fold_clear: "same_but_timers (em_state em) (em_state (fold clear_timer ts em))"
  by (induction ts arbitrary: em) (auto intro: sbt_trans sbt_clear_timer)

lemma sbt_clear:
  "same_but_timers (em_state em) (em_state (clear_slot_timer s p em))"
  "same_but_timers (em_state em) (em_state (clear_slot_timers s em))"
  by (simp_all add: clear_slot_timer_def clear_slot_timers_def sbt_clear_timer sbt_fold_clear)

lemma sbt_set:
  "p \<noteq> TP_StartDeadline \<Longrightarrow> same_but_timers (em_state em) (em_state (set_slot_timer s n p em))"
  "p \<noteq> TP_StartDeadline \<Longrightarrow> same_but_timers (em_state em) (em_state (set_timer t n p em))"
  "p \<noteq> TP_StartDeadline \<Longrightarrow> same_but_timers (em_state em) (em_state (set_timer_at t f p em))"
  by (simp_all add: set_slot_timer_def set_timer_def set_timer_at_def same_but_timers_def Let_def)

lemma sbtD:
  assumes "same_but_timers st st'"
  shows "rs_slots st' = rs_slots st" "rs_visits st' = rs_visits st" "rs_passes st' = rs_passes st"
    "rs_current_step st' = rs_current_step st" "rs_def st' = rs_def st" "rs_run st' = rs_run st"
    "rs_policy st' = rs_policy st" "rs_phase st' = rs_phase st" "latest st' = latest st"
    "find_session st' = find_session st" "find_slot st' = find_slot st" "rs_withdrawn st' = rs_withdrawn st"
    "rs_questions st' = rs_questions st" "pass_of st' = pass_of st" "persona_is_live st' = persona_is_live st"
    "is_superseded st' = is_superseded st" "rs_condition st' = rs_condition st"
proof -
  obtain x where x: "st' = st\<lparr>rs_timers := x\<rparr>" using assms unfolding same_but_timers_def by blast
  show "rs_slots st' = rs_slots st" "rs_visits st' = rs_visits st" "rs_passes st' = rs_passes st"
    "rs_current_step st' = rs_current_step st" "rs_def st' = rs_def st" "rs_run st' = rs_run st"
    "rs_policy st' = rs_policy st" "rs_phase st' = rs_phase st" "rs_withdrawn st' = rs_withdrawn st"
    "rs_questions st' = rs_questions st" "rs_condition st' = rs_condition st"
    by (simp_all add: x)
  show l: "latest st' = latest st" by (simp add: x latest_def fun_eq_iff)
  show "find_session st' = find_session st" "find_slot st' = find_slot st"
    by (simp_all add: x find_session_def find_slot_def fun_eq_iff session_key_of_def)
  show "pass_of st' = pass_of st" "persona_is_live st' = persona_is_live st"
    by (simp_all add: x pass_of_def persona_is_live_def fun_eq_iff)
  show "is_superseded st' = is_superseded st" by (simp add: is_superseded_def fun_eq_iff l)
qed

lemma finish_step_writes:
  assumes "x \<in> set (em_out (finish_step step visit nr em))" "x \<notin> set (em_out em)"
  shows "is_plain x \<or> x = DE_StepFinished step visit (if nr then SO_NeedsRework else SO_Pass) \<or>
    (\<exists>sd to. flow_step (em_def em) step = Some sd \<and> sd_on_needs_rework sd = Some to \<and> nr \<and>
       pass_of (em_state em) step + 1 \<le> sd_max_passes sd \<and> x = DE_Rework step to step (pass_of (em_state em) step + 1))"
proof -
  let ?em = "push (DE_StepFinished step visit (if nr then SO_NeedsRework else SO_Pass)) em"
  have pass: "pass_of (st\<lparr>rs_finished_steps := fs\<rparr>) = pass_of st" for st fs by (simp add: pass_of_def fun_eq_iff)
  have plain: "x \<in> set (em_out (f ?em)) \<Longrightarrow> x = DE_StepFinished step visit (if nr then SO_NeedsRework else SO_Pass) \<or> is_plain x"
    if "news is_plain ?em (f ?em)" for f
    using news_mem [OF that, of x] assms(2) by auto
  have rw: "x \<in> set (em_out (rework step to p ?em)) \<Longrightarrow>
      x = DE_StepFinished step visit (if nr then SO_NeedsRework else SO_Pass) \<or> is_plain x \<or> x = DE_Rework step to step p" for to p
    using news_mem [OF plain_starts(1) [OF news_refl], of x to "push (DE_Rework step to step p) ?em"] assms(2)
    by (auto simp: rework_def)
  show ?thesis
    using assms plain [of "start_step _", OF plain_starts(1) [OF news_refl]]
      plain [of "finish_run _ _", OF plain_starts(3) [OF news_refl]]
      plain [of "emit_ceiling _ _ _", OF plain_starts(4) [OF news_refl]] rw
    by (auto simp: finish_step_def Let_def pass split: option.splits bool.splits if_splits) blast+
qed

definition step_complete :: "run_state \<Rightarrow> flow_def \<Rightarrow> step_id \<Rightarrow> nat \<Rightarrow> bool \<Rightarrow> bool" where
  "step_complete st d step visit nr \<longleftrightarrow>
     rs_current_step st = Some step \<and> map_of (rs_visits st) step = Some visit \<and>
     (\<exists>sd vs. flow_step d step = Some sd \<and>
        map (\<lambda>m. Option.bind (latest st step visit m) member_verdict) (sd_members sd) = map Some vs \<and>
        nr = (\<exists>b\<in>set vs. b) \<and>
        (sd_has_synthesis sd \<longrightarrow>
           (\<exists>r m es n p od l. latest st step visit SYNTH = Some r \<and> sr_state r = SS_Replied m es n p od l)))"

lemma after_reply_writes:
  assumes "x \<in> set (em_out (after_reply s em))" "x \<notin> set (em_out em)"
  shows "is_plain x \<or>
    (\<exists>nr. step_complete (em_state em) (em_def em) (sl_step s) (sl_visit s) nr \<and>
       x \<in> set (em_out (finish_step (sl_step s) (sl_visit s) nr em)))"
proof -
  have arm: "x \<in> set (em_out (arm_ready (push y em))) \<Longrightarrow> is_plain y \<Longrightarrow> is_plain x" for y
    using news_mem [OF plain_timed(9) [OF news_refl], of x "push y em"] assms(2) by auto
  show ?thesis
    using assms arm [of "DE_StepStarted _ _ _ _"]
    by (auto simp: after_reply_def Let_def step_complete_def collect_opt_Some_iff list_ex_iff is_plain_def
        split: option.splits if_splits slot_state.splits)
qed

lemma step_complete_cong: "same_but_timers st st' \<Longrightarrow> step_complete st' = step_complete st"
  by (simp add: step_complete_def fun_eq_iff sbtD)

lemma questions_step_complete [simp]:
  "step_complete (st\<lparr>rs_questions := qs\<rparr>) = step_complete st" "pass_of (st\<lparr>rs_questions := qs\<rparr>) = pass_of st"
  by (simp_all add: step_complete_def latest_def pass_of_def fun_eq_iff)

text \<open>What a reply writes, in terms of the state the reply was folded into.\<close>

lemma reply_writes:
  assumes "x \<in> set (em_out (emit_reply k em))" "x \<notin> set (em_out em)" "\<not> is_plain x"
  shows "\<exists>i s nr. find_session (em_state em) k = Some i \<and> s = sr_slot (rs_slots (em_state em) ! i) \<and>
    step_complete (em_state em) (em_def em) (sl_step s) (sl_visit s) nr \<and>
    (x = DE_StepFinished (sl_step s) (sl_visit s) (if nr then SO_NeedsRework else SO_Pass) \<or>
     (\<exists>sd to. flow_step (em_def em) (sl_step s) = Some sd \<and> sd_on_needs_rework sd = Some to \<and> nr \<and>
       pass_of (em_state em) (sl_step s) + 1 \<le> sd_max_passes sd \<and>
       x = DE_Rework (sl_step s) to (sl_step s) (pass_of (em_state em) (sl_step s) + 1)))"
proof -
  obtain i where i: "find_session (em_state em) k = Some i"
    using assms(1,2) by (auto simp: emit_reply_def split: option.splits)
  define s where "s = sr_slot (rs_slots (em_state em) ! i)"
  define em1 where "em1 = (let em1 = clear_slot_timers s em in
    set_slot_timer s (lp_stop_grace (rs_policy (em_state em1))) TP_WindDown em1)"
  define em2 where "em2 = (case sr_state (rs_slots (em_state em1) ! i) of
                       SS_Replied message True _ _ _ _ \<Rightarrow> push (DE_Escalated (''escalated/'' @ k) s message) em1
                     | _ \<Rightarrow> em1)"
  have x: "x \<in> set (em_out (after_reply s em2))"
    using assms(1) unfolding emit_reply_def i option.case Let_def em2_def em1_def s_def .
  have sbt: "same_but_timers (em_state em) (em_state em1)"
    unfolding em1_def Let_def by (rule sbt_trans [OF sbt_clear(2) sbt_set(1)]) simp
  have "news is_plain em em2"
    unfolding em2_def em1_def Let_def by (auto simp: is_plain_def intro!: news_intros split: slot_state.split bool.split)
  then have new: "x \<notin> set (em_out em2)" using news_mem assms(2,3) by blast
  have fr: "step_complete (em_state em2) = step_complete (em_state em)" "pass_of (em_state em2) = pass_of (em_state em)"
    using step_complete_cong [OF sbt] sbtD(14) [OF sbt]
    by (auto simp: em2_def push_question_def split: slot_state.split bool.split)
  have d: "em_def em2 = em_def em"
    using emits_frame(3) [OF emits_set_slot_timer [OF emits_clear_slot_timers [OF emits_refl]]]
    by (simp add: em2_def em1_def Let_def split: slot_state.split bool.split)
  obtain nr where nr: "step_complete (em_state em2) (em_def em2) (sl_step s) (sl_visit s) nr"
      "x \<in> set (em_out (finish_step (sl_step s) (sl_visit s) nr em2))"
    using after_reply_writes [OF x new] assms(3) by blast
  show ?thesis
    using finish_step_writes [OF nr(2) new] assms(3) nr(1) i
    by (intro exI [of _ i] exI [of _ s] exI [of _ nr]) (simp add: fr d s_def)
qed

text \<open>An answer writes a rework only for the pass the ceiling named.\<close>

lemma answer_writes:
  assumes "x \<in> set (em_out (emit_answer q di em))" "x \<notin> set (em_out em)" "\<not> is_plain x"
  shows "\<exists>qu step pass v to sd. qu \<in> set (rs_questions (em_before em)) \<and> qu_id qu = q \<and> qu_asked qu = AK_Ceiling step pass v \<and>
    di = DI_Continue \<and> flow_step (em_def em) step = Some sd \<and> sd_on_needs_rework sd = Some to \<and> x = DE_Rework step to step pass"
proof -
  have res: "x \<notin> set (em_out (restart s em))" "x \<notin> set (em_out (accept_ceiling st em))" for s st
    using news_mem [OF plain_starts(2) [OF news_refl], of x s em] news_mem [OF plain_starts(5) [OF news_refl], of x st em] assms(2,3)
    by blast+
  have rw: "x \<in> set (em_out (rework step to p em)) \<Longrightarrow> x = DE_Rework step to step p" for step to p
    using news_mem [OF plain_starts(1) [OF news_refl], of x to "push (DE_Rework step to step p) em"] assms(2,3)
    by (auto simp: rework_def)
  obtain qu where qu: "List.find (\<lambda>y. qu_id y = q) (rs_questions (em_before em)) = Some qu"
    using assms(1,2) by (auto simp: emit_answer_def split: option.splits)
  obtain step pass v where ask: "qu_asked qu = AK_Ceiling step pass v" "di = DI_Continue"
      "x \<in> set (em_out (one_more_pass step pass em))"
    using assms(1,2) res by (auto simp: emit_answer_def qu split: asked.splits disposition.splits)
  then obtain sd to where "flow_step (em_def em) step = Some sd" "sd_on_needs_rework sd = Some to"
      "x \<in> set (em_out (rework step to pass em))"
    using assms(2) by (auto simp: one_more_pass_def bind_eq_Some_conv split: option.splits)
  with ask find_Some_in [OF qu] rw show ?thesis by blast
qed

section \<open>What decide writes\<close>

lemma decide_not_plain:
  assumes "ignored_reason st e = None" "x \<in> set (decide st e d)" "\<not> is_plain x"
  shows "(\<exists>k m es n. ev_body e = EB_Reply k m es n \<and> x \<in> set (em_out (emit_reply k (emit_start st e d)))) \<or>
    (\<exists>q di a. ev_body e = EB_Answer q di a \<and> x \<in> set (em_out (emit_answer q di (emit_start st e d))))"
proof -
  have x: "x \<in> set (em_out (emit_input e (emit_start st e d)))" using assms by (simp add: decide_def)
  then have "\<not> news is_plain (emit_start st e d) (emit_input e (emit_start st e d))"
    using news_mem assms(3) by fastforce
  then consider k m es n where "ev_body e = EB_Reply k m es n" | q di a where "ev_body e = EB_Answer q di a"
    using plain_input by blast
  then show ?thesis using x by cases (auto simp: emit_input_def)
qed

lemma decide_step_finished:
  assumes "ignored_reason st e = None" "DE_StepFinished step visit oc \<in> set (decide st e d)"
  shows "\<exists>k m es n nr. ev_body e = EB_Reply k m es n \<and> step_complete (apply_input st e) d step visit nr \<and>
    oc = (if nr then SO_NeedsRework else SO_Pass)"
proof -
  have np: "\<not> is_plain (DE_StepFinished step visit oc)" by (simp add: is_plain_def)
  have "\<nexists>q di. DE_StepFinished step visit oc \<in> set (em_out (emit_answer q di (emit_start st e d)))"
    using answer_writes [OF _ _ np, of _ _ "emit_start st e d"] by auto
  then obtain k m es n where k: "ev_body e = EB_Reply k m es n"
      "DE_StepFinished step visit oc \<in> set (em_out (emit_reply k (emit_start st e d)))"
    using decide_not_plain [OF assms np] by blast
  have new: "DE_StepFinished step visit oc \<notin> set (em_out (emit_start st e d))" by simp
  obtain nr where "step_complete (apply_input st e) d step visit nr" "oc = (if nr then SO_NeedsRework else SO_Pass)"
    using reply_writes [OF k(2) new np] by (elim exE conjE disjE) simp_all
  with k(1) show ?thesis by blast
qed

lemma passes_fold_input [simp]: "rs_passes (fold_input st e) = rs_passes st"
  by (simp add: input_fold_defs split: event_body.split option.split timer_purpose.split asked.split)

lemma pass_of_apply_input [simp]: "pass_of (apply_input st e) = pass_of st"
  by (simp add: pass_of_def fun_eq_iff apply_input_def)

lemma decide_rework:
  assumes "ignored_reason st e = None" "DE_Rework from to dcl pass \<in> set (decide st e d)"
  shows "dcl = from \<and> (\<exists>sd. flow_step d from = Some sd \<and> sd_on_needs_rework sd = Some to \<and>
    (pass = pass_of st from + 1 \<and> pass \<le> sd_max_passes sd \<or>
     (\<exists>q a qu v. ev_body e = EB_Answer q DI_Continue a \<and> qu \<in> set (rs_questions st) \<and> qu_id qu = q \<and>
        qu_asked qu = AK_Ceiling from pass v)))"
proof -
  have np: "\<not> is_plain (DE_Rework from to dcl pass)" by (simp add: is_plain_def)
  have new: "DE_Rework from to dcl pass \<notin> set (em_out (emit_start st e d))" by simp
  from decide_not_plain [OF assms np] show ?thesis
  proof (elim disjE exE conjE)
    fix k m es n
    assume "DE_Rework from to dcl pass \<in> set (em_out (emit_reply k (emit_start st e d)))"
    from reply_writes [OF this new np] show ?thesis by (elim exE conjE disjE) simp_all
  next
    fix q di a
    assume a: "ev_body e = EB_Answer q di a" "DE_Rework from to dcl pass \<in> set (em_out (emit_answer q di (emit_start st e d)))"
    from answer_writes [OF a(2) new np] a(1) show ?thesis by (elim exE conjE) auto
  qed
qed

section \<open>The human exit\<close>

lemma timers_clear_timer:
  "map_of (rs_timers (em_state (clear_timer t em))) j = (if j = t then None else map_of (rs_timers (em_state em)) j)"
  by (simp add: clear_timer_def)

lemma timers_fold_clear:
  "map_of (rs_timers (em_state (fold clear_timer ts em))) j =
     (if j \<in> set ts then None else map_of (rs_timers (em_state em)) j)"
  by (induction ts arbitrary: em) (auto simp: timers_clear_timer)

text \<open>A slot a finishing run may hold: its process is being stopped, or it has replied or ended.\<close>

definition wound_down :: "slot_state \<Rightarrow> bool" where
  "wound_down s = (case s of SS_Stopping _ AS_Nothing \<Rightarrow> True | SS_Replied _ _ _ _ _ _ \<Rightarrow> True | SS_Ended _ \<Rightarrow> True | _ \<Rightarrow> False)"

lemma wound_down_finish_slot: "wound_down (sr_state (finish_slot at w r))"
  by (cases "sr_state r") (simp_all add: finish_slot_def wound_down_def)

lemma finish_run_state:
  "rs_phase (em_state (finish_run oc reason em)) = PH_Finishing oc (Some reason) PP_Unparked"
  "rs_slots (em_state (finish_run oc reason em)) =
     map (finish_slot (em_at em) (rs_withdrawn (em_state em))) (rs_slots (em_state em))"
  "map_of (rs_timers (em_state (finish_run oc reason em))) t = Some a \<Longrightarrow>
     at_purpose a = TP_StopGrace \<or> at_purpose a = TP_WindDown"
  "rs_withdrawn (em_state (finish_run oc reason em)) = rs_withdrawn (em_state em)"
proof -
  let ?em = "push (DE_Finishing oc (Some reason)) em"
  let ?over = "map fst (filter (\<lambda>(_, armed). at_purpose armed \<noteq> TP_StopGrace \<and> at_purpose armed \<noteq> TP_WindDown)
                            (rs_timers (em_state ?em)))"
  have fr: "finish_run oc reason em = fold clear_timer ?over ?em" by (simp add: finish_run_def)
  note sbt = sbtD [OF sbt_fold_clear [of ?em ?over]]
  show "rs_phase (em_state (finish_run oc reason em)) = PH_Finishing oc (Some reason) PP_Unparked"
    "rs_slots (em_state (finish_run oc reason em)) = map (finish_slot (em_at em) (rs_withdrawn (em_state em))) (rs_slots (em_state em))"
    "rs_withdrawn (em_state (finish_run oc reason em)) = rs_withdrawn (em_state em)"
    unfolding fr sbt by (simp_all add: apply_finishing_def)
  assume "map_of (rs_timers (em_state (finish_run oc reason em))) t = Some a"
  then have "t \<notin> set ?over" "(t, a) \<in> set (rs_timers (em_state ?em))"
    unfolding fr timers_fold_clear by (auto split: if_splits dest: map_of_SomeD)
  then show "at_purpose a = TP_StopGrace \<or> at_purpose a = TP_WindDown" by (force simp: image_iff)
qed

lemma forced_fold_withdrawn: "ss_ladder (sr_state (fold_withdrawn r)) = Some l \<Longrightarrow> la_forced l"
  by (auto simp: fold_withdrawn_def)

lemma withdraw_open:
  assumes "open_run st" "ev_body e = EB_Withdrawn m b"
  shows "ignored_reason st e = None"
    "let st' = em_state (emit_input e (emit_start st e d)) in
       rs_phase st' = PH_Finishing OU_Withdrawn (Some (withdrawn_reason b)) PP_Unparked \<and> rs_withdrawn st' \<and>
       (\<forall>r\<in>set (rs_slots st'). wound_down (sr_state r) \<and> (\<forall>l. ss_ladder (sr_state r) = Some l \<longrightarrow> la_forced l)) \<and>
       (\<forall>t a. map_of (rs_timers st') t = Some a \<longrightarrow> at_purpose a = TP_StopGrace \<or> at_purpose a = TP_WindDown)"
proof -
  show ign: "ignored_reason st e = None" using assms by (simp add: ignored_reason_def open_run_def)
  let ?em = "emit_start st e d"
  have em: "emit_input e ?em = finish_run OU_Withdrawn (withdrawn_reason b) ?em"
    using assms by (simp add: emit_input_def emit_withdrawn_def open_run_def)
  have st: "em_state ?em = st\<lparr>rs_withdrawn := True, rs_slots := map fold_withdrawn (rs_slots st)\<rparr>"
    using ign assms(2) by (simp add: apply_input_acted fold_input_def)
  have forced: "la_forced l" if "ss_ladder (sr_state (finish_slot at True (fold_withdrawn r))) = Some l" for l at r
    using that ladder_finish_slot [of at True "fold_withdrawn r"] forced_fold_withdrawn [of r l]
    by (auto simp: ladder_new_def)
  show "let st' = em_state (emit_input e ?em) in
       rs_phase st' = PH_Finishing OU_Withdrawn (Some (withdrawn_reason b)) PP_Unparked \<and> rs_withdrawn st' \<and>
       (\<forall>r\<in>set (rs_slots st'). wound_down (sr_state r) \<and> (\<forall>l. ss_ladder (sr_state r) = Some l \<longrightarrow> la_forced l)) \<and>
       (\<forall>t a. map_of (rs_timers st') t = Some a \<longrightarrow> at_purpose a = TP_StopGrace \<or> at_purpose a = TP_WindDown)"
    unfolding em Let_def finish_run_state(1,2,4) st
    using finish_run_state(3) [of OU_Withdrawn "withdrawn_reason b" ?em] forced
    by (auto simp: wound_down_finish_slot)
qed

section \<open>Holds and restarts\<close>

lemma hold_until_bounds:
  fixes em
  defines "lo \<equiv> ts_plus (em_at em) (lp_hold_retry_min (rs_policy (em_state em)))"
    and "hi \<equiv> ts_plus (em_at em) (lp_hold_retry_max (rs_policy (em_state em)))"
  shows "hold_until (Some t) em \<le> hi" "lo \<le> hi \<Longrightarrow> lo \<le> hold_until (Some t) em"
    "lo \<le> t \<Longrightarrow> t \<le> hi \<Longrightarrow> hold_until (Some t) em = t"
  by (simp_all add: hold_until_def lo_def hi_def Let_def)

lemma clear_slot_timers_exact:
  "map_of (rs_timers (em_state (clear_slot_timers s em))) t =
     (if ends_with t (''/'' @ slot_suffix s) then None else map_of (rs_timers (em_state em)) t)"
proof -
  have "t \<notin> set (bt_keys (rs_timers (em_state em))) \<Longrightarrow> map_of (rs_timers (em_state em)) t = None"
    by (simp add: bt_keys_def map_of_eq_None_iff)
  then show ?thesis by (auto simp: clear_slot_timers_def timers_fold_clear)
qed

end
