(* ===== verification/Status.thy ===== *)
theory Status
  imports Guard
begin

text \<open>
  The status projection: the types of \<^verbatim>\<open>crates/run-contracts/src/status.rs\<close> and the pure
  function of \<^verbatim>\<open>crates/run-engine/src/status.rs\<close>. The lemmas show that status asks a person only
  for what the guard would accept, and that it sets an outcome exactly when the run is finished.
\<close>

section \<open>The contract\<close>

definition STEP_STATES :: "string list" where
  "STEP_STATES = [''open'', ''done'']"

definition MEMBER_STATES :: "string list" where
  "MEMBER_STATES =
     [''pending'', ''starting'', ''running'', ''quiet'', ''nudged'', ''stopping'', ''replied'', ''ended'']"

record flow_status =
  fl_name :: string
  fl_hash :: string

datatype status_state =
    STS_Created
  | STS_Queued "run_id option"
  | STS_Running
  | STS_NeedsDecision
  | STS_Held timestamp
  | STS_Parked
  | STS_Finishing
  | STS_Finished
  | STS_Unknown unknown_body

record claim_status =
  cs_workspace_id :: string
  cs_held :: bool
  cs_since :: "timestamp option"

record slot_liveness =
  sv_last_fact :: "timestamp option"
  sv_verdict :: verdict_code

record member_status_rec =
  ms_handle :: handle
  ms_session_key :: session_key
  ms_attempt :: nat
  ms_state :: string
  ms_liveness :: slot_liveness
  ms_pids :: "nat list"
  ms_refused :: "string option"

record step_status =
  ps_id :: step_id
  ps_visit :: nat
  ps_pass :: nat
  ps_state :: string
  ps_outcome :: "step_outcome option"
  ps_started :: "timestamp option"
  ps_ended :: "timestamp option"
  ps_members :: "member_status_rec list"

record needs_rec =
  ne_kind :: needs_kind
  ne_question :: "key option"
  ne_message :: "message_id option"
  ne_since :: timestamp

record owner_status =
  ow_attended :: bool
  ow_last_seen :: "timestamp option"

record in_flight =
  if_op :: string
  if_step :: string
  if_since :: timestamp

record refusal_rec =
  rf_reason :: tree_refusal
  rf_text :: string
  rf_at :: timestamp

record tree_status =
  ts_path :: string
  ts_base :: "base option"
  ts_found :: "park_outcome option"
  ts_commit :: "string option"
  ts_branch :: "string option"
  ts_dirty :: "bool option"
  ts_in_flight :: "in_flight option"
  ts_parked :: "park_outcome option"
  ts_refusal :: "refusal_rec option"

record local_status =
  ls_observed_at :: timestamp
  ls_owner :: owner_status
  ls_pending_inputs :: nat
  ls_tree :: tree_status

record run_status =
  st_v :: nat
  st_run :: run_id
  st_flow :: flow_status
  st_seq :: seq
  st_finished :: bool
  st_outcome :: "outcome option"
  st_state :: status_state
  st_claim :: claim_status
  st_steps :: "step_status list"
  st_waiting_for :: "string option"
  st_needs :: "needs_rec option"
  st_reason :: "reason_code option"
  st_next_action :: "string option"
  st_local :: "local_status option"

section \<open>The projection\<close>

definition status_state_of :: "run_view \<Rightarrow> status_state" where
  "status_state_of v =
     (case v of
        RV_Created \<Rightarrow> STS_Created
      | RV_Queued behind \<Rightarrow> STS_Queued behind
      | RV_Running _ \<Rightarrow> STS_Running
      | RV_NeedsDecision _ \<Rightarrow> STS_NeedsDecision
      | RV_Held _ until \<Rightarrow> STS_Held until
      | RV_Parked _ \<Rightarrow> STS_Parked
      | RV_Finishing _ \<Rightarrow> STS_Finishing
      | RV_Finished _ \<Rightarrow> STS_Finished)"

fun slot_word :: "slot_state \<Rightarrow> string" where
  "slot_word SS_Pending = ''pending''"
| "slot_word (SS_Starting _) = ''starting''"
| "slot_word (SS_Running _ _) = ''running''"
| "slot_word (SS_Quiet _ _) = ''quiet''"
| "slot_word (SS_Nudged _ _) = ''nudged''"
| "slot_word (SS_Stopping _ _) = ''stopping''"
| "slot_word (SS_Replied _ _ _ _ _ _) = ''replied''"
| "slot_word (SS_Ended _) = ''ended''"

definition member_status :: "run_state \<Rightarrow> slot_record \<Rightarrow> member_status_rec" where
  "member_status st r =
     (let verdict = (case sr_state r of
          SS_Pending \<Rightarrow> VE_Quiet
        | SS_Starting _ \<Rightarrow> VE_Quiet
        | SS_Quiet _ _ \<Rightarrow> VE_Quiet
        | SS_Nudged _ _ \<Rightarrow> VE_Suspect
        | SS_Stopping _ _ \<Rightarrow> VE_Hung
        | SS_Running _ _ \<Rightarrow> VE_Working
        | SS_Replied _ _ _ _ _ _ \<Rightarrow> VE_Working
        | SS_Ended _ \<Rightarrow> VE_Working)
      in \<lparr> ms_handle = sl_member (sr_slot r), ms_session_key = session_key_of st (sr_slot r),
           ms_attempt = sl_attempt (sr_slot r), ms_state = slot_word (sr_state r),
           ms_liveness = \<lparr> sv_last_fact = sr_last_fact r, sv_verdict = verdict \<rparr>,
           ms_pids = sr_pids r, ms_refused = sr_refused r \<rparr>)"

definition step_status_of :: "run_state \<Rightarrow> step_id \<times> nat \<Rightarrow> step_status" where
  "step_status_of st = (\<lambda>(id, visit).
     let members = map (member_status st)
           (filter (\<lambda>r. sl_step (sr_slot r) = id \<and> sl_visit (sr_slot r) = visit \<and> \<not> is_superseded st r) (rs_slots st));
         finished = find_last (\<lambda>f. fs_step f = id \<and> fs_visit f = visit) (rs_finished_steps st)
     in \<lparr> ps_id = id, ps_visit = visit, ps_pass = pass_of st id,
          ps_state = (if finished \<noteq> None then ''done'' else ''open''),
          ps_outcome = map_option fs_outcome finished,
          ps_started = map_option sr_created_at
            (List.find (\<lambda>r. sl_step (sr_slot r) = id \<and> sl_visit (sr_slot r) = visit) (rs_slots st)),
          ps_ended = map_option fs_at finished,
          ps_members = members \<rparr>)"

definition step_statuses :: "run_state \<Rightarrow> step_status list" where
  "step_statuses st =
     map (step_status_of st)
       (filter_map (\<lambda>id. map_option (\<lambda>visit. (id, visit)) (map_of (rs_visits st) id))
          (map sd_id (fd_steps (rs_def st))))"

definition waiting_for :: "run_state \<Rightarrow> run_view \<Rightarrow> string option" where
  "waiting_for st v =
     (let running =
        map_option (\<lambda>r. ''the reply of '' @ sl_member (sr_slot r))
          (find_last (\<lambda>r. case sr_state r of SS_Replied _ _ _ _ _ _ \<Rightarrow> False | SS_Ended _ \<Rightarrow> False | _ \<Rightarrow> True)
             (rs_slots st))
      in case v of
        RV_Finished _ \<Rightarrow> None
      | RV_NeedsDecision _ \<Rightarrow> Some (''a decision of '' @ rs_requester st)
      | RV_Held _ _ \<Rightarrow> Some (''the retry, or a resume by '' @ rs_requester st)
      | RV_Parked _ \<Rightarrow> Some (''a resume by '' @ rs_requester st)
      | RV_Queued behind \<Rightarrow> map_option (\<lambda>holder. ''the holder '' @ holder) behind
      | RV_Finishing _ \<Rightarrow>
          (case rs_phase st of
             PH_Finishing _ _ PP_Unparked \<Rightarrow> (if any_live st then None else Some ''the park'')
           | _ \<Rightarrow> None)
      | RV_Created \<Rightarrow> running
      | RV_Running _ \<Rightarrow> running)"

definition needs :: "run_state \<Rightarrow> run_view \<Rightarrow> needs_rec option" where
  "needs st v =
     (case v of
        RV_NeedsDecision _ \<Rightarrow>
          (case open_questions st of
             [] \<Rightarrow> None
           | q # _ \<Rightarrow>
               Some \<lparr> ne_kind = NK_Decision, ne_question = Some (qu_id q),
                      ne_message = Some (case qu_asked q of AK_Escalation _ m \<Rightarrow> m | AK_Ceiling _ _ m \<Rightarrow> m),
                      ne_since = qu_since q \<rparr>)
      | RV_Parked _ \<Rightarrow>
          map_option (\<lambda>since. \<lparr> ne_kind = NK_Person, ne_question = None, ne_message = None, ne_since = since \<rparr>)
            (parked_since st)
      | _ \<Rightarrow> None)"

definition stuck_reason :: "run_state \<Rightarrow> reason_code option" where
  "stuck_reason st =
     find_map (\<lambda>r. case sr_condition r of Some (SC_Parked reason _ _) \<Rightarrow> Some reason | _ \<Rightarrow> None) (rs_slots st)"

definition status_reason :: "run_state \<Rightarrow> run_view \<Rightarrow> reason_code option" where
  "status_reason st v =
     (let over = (case rs_phase st of
          PH_Finishing _ reason _ \<Rightarrow> opt_or (stuck_reason st) reason
        | PH_Finished _ reason \<Rightarrow> opt_or (stuck_reason st) reason
        | _ \<Rightarrow> None)
      in case v of
        RV_Held reason _ \<Rightarrow> Some reason
      | RV_Parked reason \<Rightarrow> Some reason
      | RV_NeedsDecision _ \<Rightarrow>
          find_map (\<lambda>q. case qu_asked q of AK_Ceiling _ _ _ \<Rightarrow> Some RC_Ceiling | AK_Escalation _ _ \<Rightarrow> None)
            (open_questions st)
      | RV_Finished _ \<Rightarrow> over
      | RV_Finishing _ \<Rightarrow> over
      | _ \<Rightarrow> None)"

definition next_action :: "run_state \<Rightarrow> run_view \<Rightarrow> string option" where
  "next_action st v =
     (let root = (case rs_root_thread st of Some t \<Rightarrow> t | None \<Rightarrow> ''<root>'');
          resume = Some (''nxc resume --thread '' @ root @ '' resumes; nxc withdraw --thread '' @ root @ '' ends the run'')
      in case v of
        RV_NeedsDecision _ \<Rightarrow>
          Some (''nxc reply --thread '' @ root @ '' - answers; nxc withdraw --thread '' @ root @ '' ends the run'')
      | RV_Held _ _ \<Rightarrow> resume
      | RV_Parked _ \<Rightarrow> resume
      | _ \<Rightarrow> None)"

definition status :: "run_state \<Rightarrow> run_status" where
  "status st =
     (let v = view st in
      \<lparr> st_v = contract_v, st_run = rs_run st,
        st_flow = \<lparr> fl_name = fd_name (rs_def st), fl_hash = rs_flow_hash st \<rparr>,
        st_seq = rs_seq st, st_finished = is_finished st,
        st_outcome = (case v of RV_Finished oc \<Rightarrow> Some oc | _ \<Rightarrow> None),
        st_state = status_state_of v,
        st_claim = \<lparr> cs_workspace_id = rs_workspace st,
                     cs_held = (rs_claim_since st \<noteq> None \<and> \<not> is_finished st),
                     cs_since = rs_claim_since st \<rparr>,
        st_steps = step_statuses st,
        st_waiting_for = waiting_for st v,
        st_needs = needs st v,
        st_reason = status_reason st v,
        st_next_action = next_action st v,
        st_local = None \<rparr>)"

section \<open>Facts about the projection\<close>

lemma view_finished_iff: "(\<exists>oc. view st = RV_Finished oc) \<longleftrightarrow> is_finished st"
  by (auto simp: view_def is_finished_def Let_def split: phase.splits option.splits)

lemma view_open:
  assumes "view st = v" "\<exists>qs. v = RV_NeedsDecision qs \<or> (\<exists>r u. v = RV_Held r u) \<or> (\<exists>r. v = RV_Parked r)"
  shows "\<not> is_finished st \<and> \<not> is_finishing st"
  using assms by (auto simp: view_def is_finished_def is_finishing_def split: phase.splits)

lemma view_needs_decision:
  "view st = RV_NeedsDecision qs \<Longrightarrow> qs = map qu_id (open_questions st) \<and> qs \<noteq> []"
  by (auto simp: view_def Let_def split: phase.splits option.splits if_splits)

lemma view_held:
  "view st = RV_Held r u \<Longrightarrow> earliest_hold st = Some (r, u)"
  by (auto simp: view_def Let_def split: phase.splits option.splits if_splits)

lemma view_parked:
  "view st = RV_Parked r \<Longrightarrow> oldest_park st = Some r \<and> earliest_hold st = None"
  by (auto simp: view_def Let_def split: phase.splits option.splits if_splits)

lemma current_conditions_resume:
  assumes "c \<in> set (current_conditions st)"
  shows "resume_target st None \<noteq> None"
proof -
  obtain r where r: "r \<in> set (rs_slots st)" "sr_condition r = Some c" "\<not> is_superseded st r"
    using assms by (auto simp: current_conditions_def set_filter_map)
  then obtain i where "i < length (rs_slots st)" "rs_slots st ! i = r" by (auto simp: in_set_conv_nth)
  with r have "i \<in> set (filter (has_current_condition st) [0..<length (rs_slots st)])"
    by (simp add: has_current_condition_def)
  then have "filter (has_current_condition st) [0..<length (rs_slots st)] \<noteq> []"
    by (metis empty_iff empty_set)
  then show ?thesis by (simp add: resume_target_def)
qed

lemma held_resumable:
  assumes "view st = RV_Held r u" "ev_body e = EB_Resume None"
  shows "ignored_reason st e = None"
proof -
  obtain c where "c \<in> set (current_conditions st)"
    using view_held [OF assms(1)] by (auto simp: earliest_hold_def set_filter_map dest!: min_by_key_SomeD)
  then show ?thesis
    using current_conditions_resume view_open [OF assms(1)] assms(2)
    by (auto simp: ignored_reason_def out_of_state_def)
qed

lemma parked_resumable:
  assumes "view st = RV_Parked r" "ev_body e = EB_Resume None" "ev_body e' = EB_ResumeRun"
  shows "ignored_reason st e = None \<or> ignored_reason st e' = None"
proof -
  obtain x where "x \<in> set (filter_map parked_part (current_conditions st) @
      (case rs_condition st of Some c \<Rightarrow> [(cn_order c, cn_reason c)] | None \<Rightarrow> []))"
    using view_parked [OF assms(1)] by (auto simp: oldest_park_def dest!: min_by_key_SomeD)
  then have "current_conditions st \<noteq> [] \<or> rs_condition st \<noteq> None"
    by (cases "rs_condition st"; cases "current_conditions st") auto
  then show ?thesis
    using current_conditions_resume [of "hd (current_conditions st)"] view_open [OF assms(1)] assms(2,3)
    by (auto simp: ignored_reason_def out_of_state_def)
qed

lemma question_answerable:
  assumes "q \<in> set (open_questions st)" "\<not> is_finished st" "\<not> is_finishing st"
    "ev_body e = EB_Answer (qu_id q) DI_Continue m"
  shows "ignored_reason st e = None"
  using assms by (auto simp: ignored_reason_def out_of_state_def list_ex_iff answers_def)

lemma needs_question_open:
  assumes "needs st (view st) = Some n" "ne_question n = Some k"
  shows "\<exists>q\<in>set (open_questions st). qu_id q = k \<and> \<not> is_finished st \<and> \<not> is_finishing st"
proof -
  from assms obtain qs where v: "view st = RV_NeedsDecision qs"
    by (auto simp: needs_def split: run_view.splits)
  with assms show ?thesis using view_open [OF v]
    by (auto simp: needs_def split: list.splits)
qed

lemma parked_since_None_iff: "parked_since st = None \<longleftrightarrow> oldest_park st = None"
proof -
  have "filter_map parked_since_part cs = [] \<longleftrightarrow> filter_map parked_part cs = []" for cs
    by (induction cs) (auto split: option.splits elim!: parked_since_part.elims parked_part.elims)
  then show ?thesis by (auto simp: parked_since_def oldest_park_def split: option.splits)
qed

lemma needs_iff:
  "needs st (view st) \<noteq> None \<longleftrightarrow> st_state (status st) = STS_NeedsDecision \<or> st_state (status st) = STS_Parked"
proof (cases "view st")
  case (RV_NeedsDecision qs)
  then show ?thesis using view_needs_decision [OF RV_NeedsDecision]
    by (auto simp: needs_def status_def Let_def status_state_of_def split: list.split)
next
  case (RV_Parked r)
  then show ?thesis using view_parked [OF RV_Parked] parked_since_None_iff [of st]
    by (auto simp: needs_def status_def Let_def status_state_of_def)
qed (simp_all add: needs_def status_def Let_def status_state_of_def)

lemma slot_word_listed: "slot_word s \<in> set MEMBER_STATES"
  by (cases s) (simp_all add: MEMBER_STATES_def)

lemma step_status_words:
  "ps_state (step_status_of st x) \<in> set STEP_STATES"
  "m \<in> set (ps_members (step_status_of st x)) \<Longrightarrow> ms_state m \<in> set MEMBER_STATES"
  by (auto simp: step_status_of_def Let_def STEP_STATES_def member_status_def slot_word_listed split: prod.splits)

lemma step_statuses_of:
  assumes "p \<in> set (st_steps (status st))"
  shows "\<exists>id visit. p = step_status_of st (id, visit) \<and> map_of (rs_visits st) id = Some visit"
  using assms by (auto simp: status_def Let_def step_statuses_def set_filter_map)

end
