(* ===== verification/Sample_Run.thy ===== *)
theory Sample_Run
  imports Run_Log Status
begin

text \<open>
  A run from its commission to its end, for the witnesses: a flow of two steps, the second of which may
  send the first back, the inputs a host would fold, and the states they lead to.
\<close>

definition sample_flow :: flow_def where
  "sample_flow = \<lparr> fd_name = ''ship'', fd_steps =
     [\<lparr> sd_id = ''build'', sd_kind = SKD_Single ''dev'', sd_next = Some ''review'', sd_on_needs_rework = None,
        sd_max_passes = 1, sd_input = None, sd_resume = False, sd_task = None, sd_stage = None,
        sd_channel = ''c'', sd_opener = ''dev'' \<rparr>,
      \<lparr> sd_id = ''review'', sd_kind = SKD_Single ''critic'', sd_next = None, sd_on_needs_rework = Some ''build'',
        sd_max_passes = 1, sd_input = None, sd_resume = False, sd_task = None, sd_stage = None,
        sd_channel = ''c'', sd_opener = ''critic'' \<rparr>],
     fd_working_tree = WT_Exclusive, fd_ignored_timeouts = [] \<rparr>"

definition sample_run :: run_id where "sample_run = ''r-01''"

definition sample_event :: "timestamp \<Rightarrow> key \<Rightarrow> event_body \<Rightarrow> event" where
  "sample_event at k body = event_new sample_run 0 at k OR_Host body"

definition sample_key :: "step_id \<Rightarrow> handle \<Rightarrow> session_key" where
  "sample_key step member = slot_session_key \<lparr> sl_step = step, sl_visit = 1, sl_member = member, sl_attempt = 1 \<rparr> sample_run"

definition sample_inputs :: "event list" where
  "sample_inputs =
     [sample_event 0 ''k0'' (EB_Commissioned sample_run ''w'' ''t'' ''h'' default_policy ''m-1'' ''ann''),
      sample_event 1 ''k1'' (EB_RootOpened ''m-1'' ''m-2''),
      sample_event 2 ''k2'' EB_ClaimTaken,
      sample_event 3 ''k3'' (EB_TreePrepared \<lparr> ba_branch = ''main'', ba_commit = ''c0'' \<rparr> None),
      sample_event 4 ''k4'' (EB_SessionFact (sample_key ''build'' ''dev'') (SF_Started ''b1'' None)),
      sample_event 5 ''k5'' (EB_Reply (sample_key ''build'' ''dev'') ''m-3'' False False),
      sample_event 6 ''k6'' (EB_SessionFact (sample_key ''review'' ''critic'') (SF_Started ''b2'' None)),
      sample_event 7 ''k7'' (EB_Reply (sample_key ''review'' ''critic'') ''m-4'' False False),
      sample_event 8 ''k8'' (EB_SessionFact (sample_key ''build'' ''dev'') (SF_Ended EC_TurnComplete)),
      sample_event 9 ''k9'' (EB_SessionFact (sample_key ''review'' ''critic'') (SF_Ended EC_TurnComplete)),
      sample_event 10 ''k10'' (EB_TreeParked PO_Missing),
      sample_event 11 ''delivered/result/r-01'' (EB_Delivered ''m-5''),
      sample_event 12 ''k12'' EB_ClaimReleased]"

fun run_inputs :: "run_state \<Rightarrow> event list \<Rightarrow> (event list \<times> run_state) option" where
  "run_inputs st [] = Some ([], st)"
| "run_inputs st (e # es) =
     (case reduce st e of
        None \<Rightarrow> None
      | Some (evs, st1) \<Rightarrow> map_option (\<lambda>(rest, st2). (evs @ rest, st2)) (run_inputs st1 es))"

definition sample_state :: "nat \<Rightarrow> run_state" where
  "sample_state n = snd (the (run_inputs (run_state_initial sample_run sample_flow) (take n sample_inputs)))"

definition sample_log :: "nat \<Rightarrow> event list" where
  "sample_log n = fst (the (run_inputs (run_state_initial sample_run sample_flow) (take n sample_inputs)))"

section \<open>The sample is a run the host writes\<close>

lemma written_run_inputs:
  assumes "written run d es st" "\<forall>e\<in>set is. \<forall>x. ev_body e \<noteq> EB_Decision x"
  shows "\<exists>evs st'. run_inputs st is = Some (evs, st') \<and> written run d (es @ evs) st'"
  using assms
proof (induction "is" arbitrary: es st)
  case (Cons e "is")
  have e: "\<And>x. ev_body e \<noteq> EB_Decision x" using Cons.prems(2) by simp
  obtain evs st1 where st1: "reduce st e = Some (evs, st1)"
    using reduce_Some [OF written_known [OF Cons.prems(1)] e] by blast
  have "written run d (es @ evs) st1" using Cons.prems(1) e st1 by (rule written_input)
  then obtain evs2 st2 where "run_inputs st1 is = Some (evs2, st2)" "written run d ((es @ evs) @ evs2) st2"
    using Cons.IH Cons.prems(2) by fastforce
  with st1 show ?case by simp
qed simp

lemma sample_inputs_plain: "\<forall>e\<in>set sample_inputs. \<forall>x. ev_body e \<noteq> EB_Decision x"
  by (simp add: sample_inputs_def sample_event_def event_new_def)

lemma sample_written: "written sample_run sample_flow (sample_log n) (sample_state n)"
proof -
  have "\<forall>e\<in>set (take n sample_inputs). \<forall>x. ev_body e \<noteq> EB_Decision x"
    using sample_inputs_plain by (meson in_set_takeD)
  from written_run_inputs [OF written_start this, of sample_run sample_flow] obtain evs st' where
    "run_inputs (run_state_initial sample_run sample_flow) (take n sample_inputs) = Some (evs, st')"
    "written sample_run sample_flow evs st'" by auto
  then show ?thesis by (simp add: sample_log_def sample_state_def)
qed

lemma sample_replay: "replay (run_state_initial sample_run sample_flow) (sample_log n) = Inr (sample_state n)"
  using written_replay [OF sample_written] .

end
