(* ===== verification/Engine_Properties.thy ===== *)
theory Engine_Properties
  imports Behaviour Sample_Run
begin

text \<open>
  The properties of the run engine and its status projection, each with a witness on the sample run: the
  log and its replay, the phases, the ladder of signals, the routing of a flow, and what status asks for.
\<close>

section \<open>The log\<close>

lemma written_seqs: "written run d es st \<Longrightarrow> map ev_seq es = [1..<Suc (length es)] \<and> rs_seq st = length es"
proof (induction rule: written.induct)
  case written_start
  then show ?case by (simp add: run_state_initial_def)
next
  case (written_input es st e evs st')
  note r = reduce_seqs [OF written_known [OF written_input.hyps(1)] written_input.hyps(2,3)]
  have "evs \<noteq> []"
    using reduce_Some [OF written_known [OF written_input.hyps(1)] written_input.hyps(2)] written_input.hyps(3) by auto
  then have "ev_seq (last evs) = last [Suc (rs_seq st)..<Suc (rs_seq st + length evs)]"
    unfolding r(1) [symmetric] by (simp add: last_map)
  then have "rs_seq st' = rs_seq st + length evs"
    using replay_frame [OF r(2)] \<open>evs \<noteq> []\<close> by (cases evs) (simp_all del: upt_Suc add: last_upt)
  with written_input.IH r(1) show ?case
    using upt_add_eq_append [of 1 "Suc (length es)" "length evs"] by (simp del: upt_Suc)
next
  case (written_poison es st at k st')
  then show ?case using evolve_frame [OF written_poison.hyps(2)] by (simp add: poison_event_def event_new_def)
qed

text \<open>C1. Every input folds: over any log the host wrote, an input that is no decision is reduced to a
  non-empty batch whose first event carries the input's body and whose rest are decisions this version can
  read back; the log with the batch appended has gap-free positions from 1, and replaying it from the
  initial state reaches exactly the state the reducer returned.\<close>

theorem reduce_replays:
  assumes "written run d es st" "\<forall>x. ev_body e \<noteq> EB_Decision x"
  shows "\<exists>evs st'. reduce st e = Some (evs, st') \<and> evs \<noteq> [] \<and> ev_body (hd evs) = ev_body e \<and>
    (\<forall>ev\<in>set (tl evs). \<exists>x. ev_body ev = EB_Decision x \<and> \<not> holds_unknown_value x) \<and>
    replay (run_state_initial run d) (es @ evs) = Inr st' \<and>
    map ev_seq (es @ evs) = [1..<Suc (length (es @ evs))]"
proof -
  have e: "\<And>x. ev_body e \<noteq> EB_Decision x" using assms(2) by blast
  note known = written_known [OF assms(1)]
  obtain evs st' where r: "reduce st e = Some (evs, st')"
      "evs = logged_input st e # map (decision_event (rs_run st) (logged_input st e))
        (enumerate 0 (decide st (logged_input st e) (rs_def st)))"
    using reduce_Some [OF known e] by blast
  have w: "written run d (es @ evs) st'" using assms(1) e r(1) by (rule written_input)
  have "\<forall>ev\<in>set (tl evs). \<exists>x. ev_body ev = EB_Decision x \<and> \<not> holds_unknown_value x"
    using decide_known [OF known] by (auto simp: r(2) decision_event_def event_new_def dest!: in_set_enumerate_eq [THEN iffD1] nth_mem)
  then show ?thesis using r written_replay [OF w] written_seqs [OF w] by auto
qed

theorem reduce_replays_witness:
  "\<exists>evs st'. reduce (sample_state 4) (sample_inputs ! 4) = Some (evs, st') \<and>
    replay (run_state_initial sample_run sample_flow) (sample_log 4 @ evs) = Inr st'"
  using reduce_replays [OF sample_written, of "sample_inputs ! 4" 4] sample_inputs_plain
  by (auto simp: sample_inputs_def sample_event_def event_new_def)

text \<open>C24. An input the guard ignores changes nothing: it is logged with exactly one decision, which
  names the guard's reason, and the state after it is the state before it at the next position. The host
  recognises it as ignored exactly when the guard does.\<close>

theorem ignored_input_changes_nothing:
  assumes "written run d es st" "\<forall>x. ev_body e \<noteq> EB_Decision x" "reduce st e = Some (evs, st')"
  shows "(is_ignored evs \<longleftrightarrow> ignored_reason st e \<noteq> None) \<and>
    (\<forall>r. ignored_reason st e = Some r \<longrightarrow>
      map ev_body evs = [ev_body e, EB_Decision (DE_Ignored (rs_seq st + 1) r)] \<and> st' = st\<lparr>rs_seq := rs_seq st + 2\<rparr>)"
proof -
  have e: "\<And>x. ev_body e \<noteq> EB_Decision x" using assms(2) by blast
  note known = written_known [OF assms(1)]
  have "is_ignored evs \<longleftrightarrow> ignored_reason st e \<noteq> None" using is_ignored_reduce [OF known e assms(3)] .
  then show ?thesis
    using reduce_ignored [OF known e] assms(3) by (auto simp: decision_event_def event_new_def)
qed

lemma sample_double_commission: "ignored_reason (sample_state 1) (sample_inputs ! 0) = Some RC_OutOfState"
  by code_simp

theorem ignored_input_changes_nothing_witness:
  "\<exists>evs st'. reduce (sample_state 1) (sample_inputs ! 0) = Some (evs, st') \<and> is_ignored evs \<and>
     st' = (sample_state 1)\<lparr>rs_seq := rs_seq (sample_state 1) + 2\<rparr>"
proof -
  have p: "\<forall>x. ev_body (sample_inputs ! 0) \<noteq> EB_Decision x" using sample_inputs_plain by (simp add: sample_inputs_def)
  then obtain evs st' where r: "reduce (sample_state 1) (sample_inputs ! 0) = Some (evs, st')"
    using reduce_Some [OF written_known [OF sample_written]] by blast
  show ?thesis
    using ignored_input_changes_nothing [OF sample_written p r] r sample_double_commission by auto
qed

section \<open>Phases\<close>

lemma only_seq_trans:
  "a = b\<lparr>rs_seq := rs_seq a\<rparr> \<Longrightarrow> c = a\<lparr>rs_seq := rs_seq c\<rparr> \<Longrightarrow> c = b\<lparr>rs_seq := rs_seq c\<rparr>"
  by (cases a; cases b; cases c) simp

lemma phase_le_run_inputs:
  assumes "written run d es st" "\<forall>e\<in>set is. \<forall>x. ev_body e \<noteq> EB_Decision x" "run_inputs st is = Some (evs, st')"
  shows "phase_le st st' \<and> (is_finished st \<longrightarrow> st' = st\<lparr>rs_seq := rs_seq st'\<rparr>)"
  using assms
proof (induction "is" arbitrary: es st evs)
  case (Cons e "is")
  have e: "\<And>x. ev_body e \<noteq> EB_Decision x" using Cons.prems(2) by simp
  obtain evs1 st1 evs2 where st1: "reduce st e = Some (evs1, st1)" "run_inputs st1 is = Some (evs2, st')"
    using Cons.prems(3) by (auto split: option.splits)
  note known = written_known [OF Cons.prems(1)]
  have w: "written run d (es @ evs1) st1" using Cons.prems(1) e st1(1) by (rule written_input)
  have fin: "st1 = st\<lparr>rs_seq := rs_seq st1\<rparr> \<and> is_finished st1" if "is_finished st"
    using reduce_ignored [OF known e, of RC_FinalState] that st1(1) by (auto simp: ignored_reason_def is_finished_def)
  have "phase_le st st1" using phase_le_reduce [OF known e st1(1)] .
  moreover have "phase_le st1 st' \<and> (is_finished st1 \<longrightarrow> st' = st1\<lparr>rs_seq := rs_seq st'\<rparr>)"
    using Cons.IH [OF w _ st1(2)] Cons.prems(2) by simp
  moreover have "st' = st\<lparr>rs_seq := rs_seq st'\<rparr>" if "is_finished st"
    using fin [OF that] calculation(2) only_seq_trans by blast
  ultimately show ?case using phase_le_trans by blast
qed simp

text \<open>C22. A run only moves forward. From any state the host reached, whatever inputs are folded next,
  the phase never goes back (created, queued, running unprepared, running prepared, finishing, parked,
  finished), an outcome once set never changes, and a finished run stays as it is.\<close>

theorem run_moves_forward:
  assumes "written run d es st" "\<forall>e\<in>set is. \<forall>x. ev_body e \<noteq> EB_Decision x" "run_inputs st is = Some (evs, st')"
  shows "phase_rank (rs_phase st) \<le> phase_rank (rs_phase st') \<and>
    (\<forall>oc. rs_outcome st = Some oc \<longrightarrow> rs_outcome st' = Some oc) \<and>
    (is_finished st \<longrightarrow> st' = st\<lparr>rs_seq := rs_seq st'\<rparr>)"
  using phase_le_run_inputs [OF assms] by (simp add: phase_le_def)

theorem run_moves_forward_witness:
  "\<exists>evs st'. run_inputs (sample_state 0) sample_inputs = Some (evs, st') \<and>
    phase_rank (rs_phase (sample_state 0)) \<le> phase_rank (rs_phase st')"
proof -
  obtain evs st' where r: "run_inputs (sample_state 0) sample_inputs = Some (evs, st')"
    using written_run_inputs [OF sample_written sample_inputs_plain] by blast
  with run_moves_forward [OF sample_written sample_inputs_plain r] show ?thesis by blast
qed

section \<open>Stops\<close>

text \<open>A withdrawal while a session runs, the signal it owes and the first grace period over.\<close>

definition withdrawn_inputs :: "event list" where
  "withdrawn_inputs = take 5 sample_inputs @
     [sample_event 20 ''w0'' (EB_Withdrawn None WB_Requester),
      sample_event 21 ''w1'' (EB_StopSignalled (sample_key ''build'' ''dev'') 1 ST_Term),
      sample_event (ts_plus 21 (lp_stop_grace default_policy)) ''w2''
        (EB_TimerFired (grace_timer 1 \<lparr> sl_step = ''build'', sl_visit = 1, sl_member = ''dev'', sl_attempt = 1 \<rparr>)
           (ts_plus 21 (lp_stop_grace default_policy)))]"

definition withdrawn_state :: run_state where
  "withdrawn_state = snd (the (run_inputs (run_state_initial sample_run sample_flow) withdrawn_inputs))"

definition withdrawn_log :: "event list" where
  "withdrawn_log = fst (the (run_inputs (run_state_initial sample_run sample_flow) withdrawn_inputs))"

lemma withdrawn_written: "written sample_run sample_flow withdrawn_log withdrawn_state"
proof -
  have "\<forall>e\<in>set withdrawn_inputs. \<forall>x. ev_body e \<noteq> EB_Decision x"
    using sample_inputs_plain by (auto simp: withdrawn_inputs_def sample_event_def event_new_def dest!: in_set_takeD)
  from written_run_inputs [OF written_start this, of sample_run sample_flow] show ?thesis
    by (auto simp: withdrawn_log_def withdrawn_state_def)
qed

lemma withdrawn_kill: "EF_StopSession (sample_key ''build'' ''dev'') ST_Kill 2 \<in> set (pending_effects withdrawn_state)"
  by code_simp

text \<open>C12. A session is killed only after a person withdrew the run: whenever the state a log folds to
  owes a kill signal, that log holds a withdrawal. Nothing else the engine does escalates past the polite
  signal.\<close>

theorem kill_only_after_withdrawal:
  assumes "replay (run_state_initial run d) es = Inr st" "EF_StopSession k ST_Kill n \<in> set (pending_effects st)"
  shows "\<exists>e. e \<in> set es \<and> (\<exists>m b. ev_body e = EB_Withdrawn m b)"
  using withdrawn_replay [OF assms(1)] kill_only_withdrawn [OF assms] by (auto simp: run_state_initial_def)

theorem kill_only_after_withdrawal_witness:
  "\<exists>e. e \<in> set withdrawn_log \<and> (\<exists>m b. ev_body e = EB_Withdrawn m b)"
  using kill_only_after_withdrawal [OF written_replay [OF withdrawn_written] withdrawn_kill] .

text \<open>The claim on the working copy is let go exactly when the run is finishing with its tree parked,
  no session of it is live any more and every message owed to the commissioner was delivered; and only
  the claim of the run's own workspace.\<close>

theorem release_exactly_when_ready:
  "EF_ReleaseClaim w \<in> set (pending_effects st) \<longleftrightarrow>
     w = rs_workspace st \<and> (\<exists>oc reason parked. rs_phase st = PH_Finishing oc reason (PP_Parked parked)) \<and>
     \<not> any_live st \<and> owed_deliveries st = []"
  by (auto simp: release_iff_ready ready_to_release_def split: phase.splits park_phase.splits)

section \<open>The human exit\<close>

text \<open>C21. The human exit never closes: in every state of a commissioned run that is neither finishing nor
  finished, a withdrawal is acted on and takes the run to finishing as withdrawn, with its reason by who
  withdrew it. Every slot is then being stopped, or replied or ended; every open stop may go to the kill;
  and no timer is left but those of the stops.\<close>

theorem withdrawal_finishes:
  assumes "written run d es st" "open_run st" "ev_body e = EB_Withdrawn m b"
  shows "\<exists>evs st'. reduce st e = Some (evs, st') \<and> \<not> is_ignored evs \<and>
    rs_phase st' = PH_Finishing OU_Withdrawn (Some (withdrawn_reason b)) PP_Unparked \<and>
    (\<forall>r\<in>set (rs_slots st'). wound_down (sr_state r) \<and> (\<forall>l. ss_ladder (sr_state r) = Some l \<longrightarrow> la_forced l)) \<and>
    (\<forall>t a. map_of (rs_timers st') t = Some a \<longrightarrow> at_purpose a = TP_StopGrace \<or> at_purpose a = TP_WindDown)"
proof -
  have plain: "\<And>x. ev_body e \<noteq> EB_Decision x" using assms(3) by simp
  have body: "ev_body (logged_input st e) = EB_Withdrawn m b" using assms(3) by simp
  have none: "ignored_reason st e = None" using withdraw_open(1) [OF assms(2,3)] .
  note known = written_known [OF assms(1)]
  obtain evs where r: "reduce st e = Some (evs,
      (em_state (emit_input (logged_input st e) (emit_start st (logged_input st e) (rs_def st))))\<lparr>rs_seq := rs_seq st + length evs\<rparr>)"
    using reduce_state [OF known plain none] by blast
  show ?thesis
    using r is_ignored_reduce [OF known plain r] none withdraw_open(2) [OF assms(2) body, of "rs_def st"]
    by (auto simp: Let_def)
qed

lemma sample_open: "open_run (sample_state 5) \<and> any_live (sample_state 5)"
  by code_simp

theorem withdrawal_finishes_witness:
  "\<exists>evs st'. reduce (sample_state 5) (sample_event 20 ''w'' (EB_Withdrawn None WB_Owner)) = Some (evs, st') \<and>
    rs_phase st' = PH_Finishing OU_Withdrawn (Some RC_WithdrawnByOwner) PP_Unparked"
  using withdrawal_finishes [OF sample_written conjunct1 [OF sample_open],
      of "sample_event 20 ''w'' (EB_Withdrawn None WB_Owner)" None WB_Owner]
  by (auto simp: sample_event_def event_new_def withdrawn_reason_def)

section \<open>Routing\<close>

text \<open>C25. A step is finished only by the reply that completes it: at that moment it is the step and the
  visit the run is at, the latest attempt of every member has replied without escalating, the synthesis
  has replied where the step has one, and the outcome is a rework exactly when some member asked for it.\<close>

theorem step_finished_only_when_complete:
  assumes "ignored_reason st e = None" "DE_StepFinished step visit oc \<in> set (decide st e d)"
  shows "(\<exists>k m es n. ev_body e = EB_Reply k m es n) \<and>
    (\<exists>nr. step_complete (apply_input st e) d step visit nr \<and> oc = (if nr then SO_NeedsRework else SO_Pass))"
  using decide_step_finished [OF assms] by blast

lemma sample_build_finishes:
  "ignored_reason (sample_state 5) (sample_inputs ! 5) = None \<and>
   DE_StepFinished ''build'' 1 SO_Pass \<in> set (decide (sample_state 5) (sample_inputs ! 5) sample_flow)"
  by code_simp

theorem step_finished_only_when_complete_witness:
  "\<exists>nr. step_complete (apply_input (sample_state 5) (sample_inputs ! 5)) sample_flow ''build'' 1 nr"
  using step_finished_only_when_complete [OF conjunct1 [OF sample_build_finishes] conjunct2 [OF sample_build_finishes]]
  by blast

text \<open>A review that sends the build back.\<close>

definition rework_reply :: event where
  "rework_reply = sample_event 7 ''k7'' (EB_Reply (sample_key ''review'' ''critic'') ''m-4'' False True)"

lemma sample_rework:
  "ignored_reason (sample_state 7) rework_reply = None \<and>
   DE_Rework ''review'' ''build'' ''review'' 1 \<in> set (decide (sample_state 7) rework_reply sample_flow)"
  by code_simp

text \<open>C26. A back edge is taken only along the edge the flow declares, and only within the ceiling: the
  pass it starts is the next one of the declaring step and within its \<open>max_passes\<close>, or it is the
  one pass more a person granted by answering the ceiling's question for exactly that pass.\<close>

theorem rework_within_ceiling:
  assumes "ignored_reason st e = None" "DE_Rework from to dcl pass \<in> set (decide st e d)"
  shows "dcl = from \<and> (\<exists>sd. flow_step d from = Some sd \<and> sd_on_needs_rework sd = Some to \<and>
    (pass = pass_of st from + 1 \<and> pass \<le> sd_max_passes sd \<or>
     (\<exists>q a qu v. ev_body e = EB_Answer q DI_Continue a \<and> qu \<in> set (rs_questions st) \<and> qu_id qu = q \<and>
        qu_asked qu = AK_Ceiling from pass v)))"
  using decide_rework [OF assms] .

theorem rework_within_ceiling_witness:
  "\<exists>sd. flow_step sample_flow ''review'' = Some sd \<and> sd_on_needs_rework sd = Some ''build''"
  using rework_within_ceiling [OF conjunct1 [OF sample_rework] conjunct2 [OF sample_rework]] by blast

section \<open>Timers and holds\<close>

text \<open>Clearing a slot's timers is exact: after it no timer of the slot is armed, whatever its purpose
  and whichever grace period it counts, and every timer whose id does not end in the slot's own suffix is
  as it was.\<close>

theorem slot_timers_cleared_exactly:
  "map_of (rs_timers (em_state (clear_slot_timers s em))) t =
     (if ends_with t (''/'' @ slot_suffix s) then None else map_of (rs_timers (em_state em)) t)"
  by (rule clear_slot_timers_exact)

text \<open>A hold ends inside the policy's window: whatever instant the backend named, the retry is never
  later than the longest hold from now and, where the window is not empty, never earlier than the
  shortest; an instant inside the window is kept.\<close>

theorem hold_inside_window:
  assumes "lo = ts_plus (em_at em) (lp_hold_retry_min (rs_policy (em_state em)))"
    "hi = ts_plus (em_at em) (lp_hold_retry_max (rs_policy (em_state em)))" "lo \<le> hi"
  shows "lo \<le> hold_until (Some t) em \<and> hold_until (Some t) em \<le> hi \<and>
    (lo \<le> t \<and> t \<le> hi \<longrightarrow> hold_until (Some t) em = t)"
  using assms hold_until_bounds [where t = t and em = em] by blast

theorem hold_inside_window_witness:
  "let em = emit_start (run_state_initial sample_run sample_flow) (sample_inputs ! 0) sample_flow
   in hold_until (Some 0) em \<le> ts_plus 0 (lp_hold_retry_max default_policy) \<and> 0 < hold_until (Some 0) em"
proof -
  let ?em = "emit_start (run_state_initial sample_run sample_flow) (sample_inputs ! 0) sample_flow"
  have at: "em_at ?em = 0" by code_simp
  have pol: "rs_policy (em_state ?em) = default_policy" by code_simp
  have le: "ts_plus 0 (lp_hold_retry_min default_policy) \<le> ts_plus 0 (lp_hold_retry_max default_policy)"
    and pos: "0 < ts_plus 0 (lp_hold_retry_min default_policy)" by code_simp+
  show ?thesis
    unfolding Let_def
    using hold_inside_window [OF refl refl, of ?em 0] le pos at pol by auto
qed

text \<open>A call open on a host whose samples went blind after a first one came through.\<close>

definition blind_inputs :: "event list" where
  "blind_inputs = take 5 sample_inputs @
     [sample_event 20 ''b0'' (EB_SessionFact (sample_key ''build'' ''dev'') (SF_Heartbeat HB_CallsOpen)),
      sample_event 21 ''b1'' (EB_SessionFact (sample_key ''build'' ''dev'') (SF_Heartbeat HB_SubprocessMoved)),
      sample_event 22 ''b2'' (EB_SessionFact (sample_key ''build'' ''dev'') (SF_Heartbeat HB_Blind))]"

definition unwatched_call :: "run_state \<Rightarrow> slot_state \<times> (string, armed_timer) btmap \<times> effect list" where
  "unwatched_call st =
     (case rs_slots st of [r] \<Rightarrow> (sr_state r, rs_timers st, pending_effects st) | _ \<Rightarrow> (SS_Pending, [], []))"

definition blind_state :: run_state where
  "blind_state = snd (the (run_inputs (run_state_initial sample_run sample_flow) blind_inputs))"

text \<open>C37. A slot can lose every timer while its session runs. A call is open, a sample of its
  subprocesses moved, then the host reports that it went blind: the slot is running, the state owes no
  effect and holds no timer at all, so nothing but an input from outside moves the run again. The idle
  timer is cleared because the host is blind, and the call bound stays off because it sampled once.\<close>

theorem blind_after_sampling_unwatched:
  "\<exists>es r since. written sample_run sample_flow es blind_state \<and> rs_slots blind_state = [r] \<and>
     sr_state r = SS_Running ''b1'' (Some since) \<and> rs_timers blind_state = [] \<and> pending_effects blind_state = []"
proof -
  have "\<forall>e\<in>set blind_inputs. \<forall>x. ev_body e \<noteq> EB_Decision x"
    using sample_inputs_plain by (auto simp: blind_inputs_def sample_event_def event_new_def dest!: in_set_takeD)
  from written_run_inputs [OF written_start this, of sample_run sample_flow]
  have w: "\<exists>es. written sample_run sample_flow es blind_state" by (auto simp: blind_state_def)
  have facts: "unwatched_call blind_state = (SS_Running ''b1'' (Some 20), [], [])" by code_simp
  then obtain r where "rs_slots blind_state = [r]" "sr_state r = SS_Running ''b1'' (Some 20)"
    by (auto simp: unwatched_call_def split: list.splits)
  moreover have "rs_timers blind_state = [] \<and> pending_effects blind_state = []"
    using facts by (auto simp: unwatched_call_def split: list.splits)
  ultimately show ?thesis using w by blast
qed

text \<open>The build replies and its process will not stop: the ladder runs out and the slot parks. Then the
  review delivers and ends.\<close>

definition lingering_slot :: slot where
  "lingering_slot = \<lparr> sl_step = ''build'', sl_visit = 1, sl_member = ''dev'', sl_attempt = 1 \<rparr>"

definition fires :: "key \<Rightarrow> string \<Rightarrow> timestamp \<Rightarrow> event" where
  "fires k t at = sample_event at k (EB_TimerFired t at)"

definition lingering_inputs :: "event list" where
  "lingering_inputs = take 7 sample_inputs @
     [fires ''f1'' (slot_timer TP_WindDown lingering_slot) 300005,
      sample_event 300010 ''f2'' (EB_StopSignalled (sample_key ''build'' ''dev'') 1 ST_Term),
      fires ''f3'' (grace_timer 1 lingering_slot) 600010,
      sample_event 600020 ''f4'' (EB_StopSignalled (sample_key ''build'' ''dev'') 2 ST_Term),
      fires ''f5'' (grace_timer 2 lingering_slot) 900020]"

definition lingering_rest :: "event list" where
  "lingering_rest = [sample_event 900030 ''f6'' (EB_Reply (sample_key ''review'' ''critic'') ''m-4'' False False),
      sample_event 900040 ''f7'' (EB_SessionFact (sample_key ''review'' ''critic'') (SF_Ended EC_TurnComplete))]"

definition lingering_state :: run_state where
  "lingering_state = snd (the (run_inputs (run_state_initial sample_run sample_flow) (lingering_inputs @ lingering_rest)))"

definition hangs_delivered :: "run_state \<Rightarrow> bool" where
  "hangs_delivered st \<longleftrightarrow> is_finishing st \<and> any_live st \<and> pending_effects st = [] \<and> rs_timers st = [] \<and>
     st_needs (status st) = None \<and> st_reason (status st) = Some RC_Delivered"

text \<open>C38. A run can hang while it finishes, and status does not say why. A session that would not stop had
  parked its slot, and status asked for a person. When the run then starts to finish, the park is dropped
  with the other conditions while the used-up ladder is kept: the process is still live, no signal and no
  other effect is owed, no timer is armed, nothing is asked of a person, and the reason status gives is
  that the run delivered.\<close>

theorem finishing_forgets_a_stuck_stop:
  "(\<exists>es. written sample_run sample_flow es lingering_state) \<and> is_finishing lingering_state \<and>
   any_live lingering_state \<and> pending_effects lingering_state = [] \<and> rs_timers lingering_state = [] \<and>
   st_needs (status lingering_state) = None \<and> st_reason (status lingering_state) = Some RC_Delivered"
proof -
  have "\<forall>e\<in>set (lingering_inputs @ lingering_rest). \<forall>x. ev_body e \<noteq> EB_Decision x"
    using sample_inputs_plain
    by (auto simp: lingering_inputs_def lingering_rest_def fires_def sample_event_def event_new_def dest!: in_set_takeD)
  from written_run_inputs [OF written_start this, of sample_run sample_flow]
  have "\<exists>es. written sample_run sample_flow es lingering_state" by (auto simp: lingering_state_def)
  moreover have "hangs_delivered lingering_state" by code_simp
  ultimately show ?thesis unfolding hangs_delivered_def by blast
qed

section \<open>Status\<close>






end
