(* ===== verification/Clocks.thy ===== *)
theory Clocks
  imports Behaviour
begin

text \<open>
  The timers of a slot without their ids. A clock is a purpose, or one of the grace periods of a stop; its id
  for a slot is the string the engine writes. For slots with plain ids and numbers that fit their fields the
  ids of different clocks and of different slots differ, so setting and clearing one clock leaves the others,
  and the fold of every timer method is a change of the function \<open>clock_of\<close>.
\<close>

datatype clock = CK timer_purpose | GR nat

fun clock_id :: "clock \<Rightarrow> slot \<Rightarrow> string" where
  "clock_id (CK p) s = slot_timer p s"
| "clock_id (GR n) s = grace_timer n s"

fun clock_purpose :: "clock \<Rightarrow> timer_purpose" where
  "clock_purpose (CK p) = p"
| "clock_purpose (GR n) = TP_StopGrace"

fun slot_clock :: "clock \<Rightarrow> bool" where
  "slot_clock (CK p) = (known_purpose p \<and> p \<noteq> TP_RootDeadline \<and> p \<noteq> TP_TreeWindow \<and> p \<noteq> TP_StopGrace)"
| "slot_clock (GR n) = (n \<le> u8_max)"

definition fit :: "slot \<Rightarrow> bool" where
  "fit s \<longleftrightarrow> plain_slot s \<and> u32_slot s"

section \<open>Ids\<close>

lemma timer_slot_clock [simp]: "fit s \<Longrightarrow> timer_slot (clock_id c s) = Some s"
  by (cases c) (simp_all add: fit_def)

lemma purpose_word_no_slash: "known_purpose p \<Longrightarrow> CHR ''/'' \<notin> set (timer_purpose_str p)"
  by (cases p) (simp_all add: known_purpose_def)

lemma purpose_word_inject: "known_purpose p \<Longrightarrow> known_purpose q \<Longrightarrow> timer_purpose_str p = timer_purpose_str q \<longleftrightarrow> p = q"
  by (cases p; cases q) (simp_all add: known_purpose_def)

lemma clock_id_inject:
  assumes "fit s" "fit s'" "slot_clock c" "slot_clock c'"
  shows "clock_id c s = clock_id c' s' \<longleftrightarrow> c = c' \<and> s = s'"
proof
  assume eq: "clock_id c s = clock_id c' s'"
  then have s: "s = s'" using timer_slot_clock [OF assms(1), of c] timer_slot_clock [OF assms(2), of c'] by simp
  have mixed: "slot_timer p s \<noteq> grace_timer n s" if "known_purpose p" for p n
  proof
    assume "slot_timer p s = grace_timer n s"
    then have "timer_purpose_str p = ''stop_grace/'' @ show_nat n" by (simp add: slot_timer_def grace_timer_def)
    with purpose_word_no_slash [OF that] show False by simp
  qed
  have "c = c'"
    using eq assms(3,4) mixed mixed [symmetric] unfolding s
    by (cases c; cases c') (auto simp: slot_timer_def grace_timer_def purpose_word_inject)
  with s show "c = c' \<and> s = s'" by simp
qed simp

lemma run_timer_not_clock:
  "fit s \<Longrightarrow> clock_id c s \<noteq> ROOT_DEADLINE_TIMER" "fit s \<Longrightarrow> clock_id c s \<noteq> TREE_WINDOW_TIMER"
  using timer_slot_clock [of s c] by (metis option.distinct(1) timer_slot_run_timers)+

lemma clock_ends_with:
  assumes "fit s" "fit s'"
  shows "ends_with (clock_id c s) (''/'' @ slot_suffix s') \<longleftrightarrow> s = s'"
proof
  assume "ends_with (clock_id c s) (''/'' @ slot_suffix s')"
  then obtain x where "clock_id c s = x @ ''/'' @ slot_suffix s'" unfolding ends_with_iff by blast
  then have "timer_slot (clock_id c s) = Some s'" using timer_slot_suffix [of s' x] assms(2) by (simp add: fit_def)
  then show "s = s'" using timer_slot_clock [OF assms(1), of c] by simp
next
  assume "s = s'"
  then show "ends_with (clock_id c s) (''/'' @ slot_suffix s')"
    by (cases c) (auto simp: ends_with_iff slot_timer_def grace_timer_def intro: exI [of _ "''stop_grace/'' @ show_nat n" for n])
qed

section \<open>The clocks of a slot\<close>

definition clock_of :: "run_state \<Rightarrow> slot \<Rightarrow> clock \<Rightarrow> bool" where
  "clock_of st s c \<longleftrightarrow> slot_clock c \<and> map_of (rs_timers st) (clock_id c s) \<noteq> None"

lemma clock_of_cong: "rs_timers st' = rs_timers st \<Longrightarrow> clock_of st' = clock_of st"
  by (simp add: clock_of_def fun_eq_iff)

text \<open>Every armed timer is one of the run's two or a clock of a slot there is.\<close>

definition timer_named :: "run_state \<Rightarrow> string \<Rightarrow> timer_purpose \<Rightarrow> bool" where
  "timer_named st t p \<longleftrightarrow> t = ROOT_DEADLINE_TIMER \<and> p = TP_RootDeadline \<or> t = TREE_WINDOW_TIMER \<and> p = TP_TreeWindow \<or>
     (\<exists>r\<in>set (rs_slots st). \<exists>c. slot_clock c \<and> t = clock_id c (sr_slot r) \<and> p = clock_purpose c)"

definition timers_named :: "run_state \<Rightarrow> bool" where
  "timers_named st \<longleftrightarrow> bt_ok (rs_timers st) \<and> (\<forall>t a. map_of (rs_timers st) t = Some a \<longrightarrow> timer_named st t (at_purpose a))"

lemma timer_named_mono:
  assumes "timer_named st t p" "sr_slot ` set (rs_slots st) \<subseteq> sr_slot ` set (rs_slots st')"
  shows "timer_named st' t p"
proof -
  have "\<exists>r'\<in>set (rs_slots st'). sr_slot r' = sr_slot r" if "r \<in> set (rs_slots st)" for r
    using subsetD [OF assms(2) imageI [OF that]] by (metis imageE)
  then show ?thesis using assms(1) unfolding timer_named_def by metis
qed

lemma timers_named_clockless:
  assumes "timers_named st" "fit s" "\<forall>r\<in>set (rs_slots st). fit (sr_slot r)" "s \<notin> sr_slot ` set (rs_slots st)"
  shows "\<not> clock_of st s c"
proof
  assume "clock_of st s c"
  then obtain a where c: "slot_clock c" "map_of (rs_timers st) (clock_id c s) = Some a" by (auto simp: clock_of_def)
  with assms(1) have "timer_named st (clock_id c s) (at_purpose a)" by (simp add: timers_named_def)
  then obtain r c' where "r \<in> set (rs_slots st)" "slot_clock c'" "clock_id c s = clock_id c' (sr_slot r)"
    using run_timer_not_clock [OF assms(2)] by (auto simp: timer_named_def)
  with assms(2-4) c(1) clock_id_inject show False by blast
qed

section \<open>What the timer methods do to clocks\<close>

text \<open>Setting a clock of a slot whose purpose is not the start deadline, and clearing, change the timers alone.\<close>

lemma timers_set_timer_at:
  "rs_timers (em_state (set_timer_at t f p em)) = bt_insert t \<lparr> at_fire_at = f, at_purpose = p \<rparr> (rs_timers (em_state em))"
  by (simp add: set_timer_at_def Let_def arm_start_def upd_record_def upd_slot_def split: option.split)

lemma clock_set:
  assumes "fit s" "fit s'" "slot_clock c"
  shows "clock_of (em_state (set_timer_at (clock_id c s) f p em)) s' c' \<longleftrightarrow>
    c' = c \<and> s' = s \<or> clock_of (em_state em) s' c'"
  using assms clock_id_inject [of s s' c c']
  unfolding clock_of_def timers_set_timer_at
  by (cases "slot_clock c'") auto

lemma clock_clear:
  assumes "fit s" "fit s'" "slot_clock c"
  shows "clock_of (em_state (clear_timer (clock_id c s) em)) s' c' \<longleftrightarrow>
    clock_of (em_state em) s' c' \<and> \<not> (c' = c \<and> s' = s)"
  using assms clock_id_inject [of s s' c c']
  by (cases "slot_clock c'") (auto simp: clock_of_def clear_timer_def)

lemma clock_clear_slot:
  assumes "fit s" "fit s'"
  shows "clock_of (em_state (clear_slot_timers s em)) s' c \<longleftrightarrow> clock_of (em_state em) s' c \<and> s' \<noteq> s"
  using assms clock_ends_with [of s' s c] unfolding clock_of_def clear_slot_timers_exact by auto

lemma timers_ok_clear [simp]:
  "bt_ok (rs_timers (em_state em)) \<Longrightarrow> bt_ok (rs_timers (em_state (clear_timer t em)))"
  by (simp add: clear_timer_def bt_ok_remove)

lemma timers_ok_fold_clear [simp]:
  "bt_ok (rs_timers (em_state em)) \<Longrightarrow> bt_ok (rs_timers (em_state (fold clear_timer ts em)))"
  by (induction ts arbitrary: em) simp_all

lemma timers_ok_methods [simp]:
  "bt_ok (rs_timers (em_state em)) \<Longrightarrow> bt_ok (rs_timers (em_state (clear_slot_timers s em)))"
  "bt_ok (rs_timers (em_state em)) \<Longrightarrow> bt_ok (rs_timers (em_state (set_timer_at t f p em)))"
  by (simp_all add: clear_slot_timers_def timers_set_timer_at bt_ok_insert)

end
