(* ===== verification/Slot_Table.thy ===== *)
theory Slot_Table
  imports Clocks
begin

text \<open>
  The slots of a run as a table that only grows: the attempts of a seat (a step, a visit, a member) are
  numbered from 1 in the order they were pushed. The newest attempt is the current one; it is what
  \<open>latest\<close> finds, and a slot is superseded exactly when it is not current.
\<close>

definition same_seat :: "slot \<Rightarrow> slot \<Rightarrow> bool" where
  "same_seat s t \<longleftrightarrow> sl_step s = sl_step t \<and> sl_visit s = sl_visit t \<and> sl_member s = sl_member t"

definition attempts :: "slot list \<Rightarrow> slot \<Rightarrow> nat" where
  "attempts ss s = length (filter (same_seat s) ss)"

definition numbered :: "slot list \<Rightarrow> bool" where
  "numbered ss \<longleftrightarrow> (\<forall>i<length ss. sl_attempt (ss ! i) = Suc (attempts (take i ss) (ss ! i)))"

abbreviation slots_of :: "run_state \<Rightarrow> slot list" where
  "slots_of st \<equiv> map sr_slot (rs_slots st)"

definition is_current :: "slot list \<Rightarrow> slot \<Rightarrow> bool" where
  "is_current ss s \<longleftrightarrow> sl_attempt s = attempts ss s"

lemma same_seat_refl [simp]: "same_seat s s"
  by (simp add: same_seat_def)

lemma same_seat_attempts: "same_seat s t \<Longrightarrow> attempts ss s = attempts ss t"
  by (simp add: attempts_def same_seat_def fun_eq_iff cong: filter_cong)

lemma attempts_simps [simp]:
  "attempts [] s = 0" "attempts (ss @ [t]) s = (if same_seat s t then Suc (attempts ss s) else attempts ss s)"
  by (simp_all add: attempts_def)

lemma numbered_Nil [simp]: "numbered []"
  by (simp add: numbered_def)

lemma numbered_snoc: "numbered (ss @ [s]) \<longleftrightarrow> numbered ss \<and> sl_attempt s = Suc (attempts ss s)"
  by (auto simp: numbered_def nth_append less_Suc_eq)

lemma numbered_attempt:
  "numbered ss \<Longrightarrow> s \<in> set ss \<Longrightarrow> 1 \<le> sl_attempt s \<and> sl_attempt s \<le> attempts ss s"
  by (induction ss rule: rev_induct) (auto simp: numbered_snoc le_SucI)

lemma numbered_fresh: "numbered ss \<Longrightarrow> attempts ss s < sl_attempt s \<Longrightarrow> s \<notin> set ss"
  using numbered_attempt by fastforce

lemma numbered_distinct: "numbered ss \<Longrightarrow> distinct ss"
  by (induction ss rule: rev_induct) (auto simp: numbered_snoc dest: numbered_attempt)

lemma attempts_pos: "s \<in> set ss \<Longrightarrow> same_seat t s \<Longrightarrow> 0 < attempts ss t"
  by (induction ss rule: rev_induct) auto

lemma attempts_zero: "attempts ss t = 0 \<longleftrightarrow> (\<forall>s\<in>set ss. \<not> same_seat t s)"
  by (auto simp: attempts_def filter_empty_conv)

lemma same_seat_attempt_eq: "same_seat s t \<Longrightarrow> sl_attempt s = sl_attempt t \<Longrightarrow> s = t"
  by (simp add: same_seat_def)

text \<open>The current slot of a seat.\<close>

lemma current_unique: "is_current ss s \<Longrightarrow> is_current ss t \<Longrightarrow> same_seat s t \<Longrightarrow> s = t"
  by (auto simp: is_current_def same_seat_attempts intro: same_seat_attempt_eq)

lemma current_snoc:
  "numbered (ss @ [t]) \<Longrightarrow> s \<in> set ss \<Longrightarrow> is_current (ss @ [t]) s \<longleftrightarrow> is_current ss s \<and> \<not> same_seat s t"
  using numbered_attempt [of ss s] by (auto simp: is_current_def numbered_snoc)

lemma current_last: "numbered (ss @ [t]) \<Longrightarrow> is_current (ss @ [t]) t"
  by (simp add: is_current_def numbered_snoc)

lemma of_seat_same: "of_seat (sl_step s) (sl_visit s) (sl_member s) r \<longleftrightarrow> same_seat s (sr_slot r)"
  by (auto simp: of_seat_def same_seat_def)

lemma find_last_current:
  assumes "numbered (map sr_slot rs)" "find_last (of_seat a b c) rs = Some r"
  shows "r \<in> set rs \<and> of_seat a b c r \<and> is_current (map sr_slot rs) (sr_slot r)"
  using assms
proof (induction rs rule: rev_induct)
  case (snoc x xs)
  then show ?case
    by (auto simp: find_last_snoc numbered_snoc current_snoc current_last of_seat_def same_seat_def is_current_def split: if_splits)
qed (simp add: find_last_def)

lemma latest_current:
  assumes "numbered (slots_of st)" "r \<in> set (rs_slots st)" "is_current (slots_of st) (sr_slot r)"
  shows "latest st (sl_step (sr_slot r)) (sl_visit (sr_slot r)) (sl_member (sr_slot r)) = Some r"
proof -
  let ?p = "of_seat (sl_step (sr_slot r)) (sl_visit (sr_slot r)) (sl_member (sr_slot r))"
  have "?p r" by (simp add: of_seat_def)
  then obtain l where l: "find_last ?p (rs_slots st) = Some l"
    using assms(2) find_last_None_iff [of ?p] by (cases "find_last ?p (rs_slots st)") auto
  then have "l \<in> set (rs_slots st)" "is_current (slots_of st) (sr_slot l)" "same_seat (sr_slot r) (sr_slot l)"
    using find_last_current [OF assms(1) l] by (auto simp: of_seat_same)
  then have "sr_slot r = sr_slot l" using current_unique assms(3) by blast
  then have "r = l" using numbered_distinct [OF assms(1)] assms(2) \<open>l \<in> set _\<close>
    by (auto simp: distinct_map dest: inj_onD)
  with l show ?thesis by (simp add: latest_def)
qed

lemma latest_iff:
  assumes "numbered (slots_of st)"
  shows "latest st a b c = Some r \<longleftrightarrow> r \<in> set (rs_slots st) \<and> of_seat a b c r \<and> is_current (slots_of st) (sr_slot r)"
  using latest_current [OF assms, of r] find_last_current [OF assms, of a b c r]
  by (auto simp: latest_def of_seat_def)

lemma latest_None_iff: "latest st a b c = None \<longleftrightarrow> (\<forall>r\<in>set (rs_slots st). \<not> of_seat a b c r)"
  by (simp add: latest_def find_last_None_iff)

lemma superseded_iff:
  assumes "numbered (slots_of st)" "r \<in> set (rs_slots st)"
  shows "is_superseded st r \<longleftrightarrow> \<not> is_current (slots_of st) (sr_slot r)"
proof -
  obtain l where l: "latest st (sl_step (sr_slot r)) (sl_visit (sr_slot r)) (sl_member (sr_slot r)) = Some l"
    using assms(2) latest_None_iff [of st] by (fastforce simp: of_seat_def)
  then have "is_current (slots_of st) (sr_slot l)" "same_seat (sr_slot r) (sr_slot l)"
    using latest_iff [OF assms(1)] by (auto simp: of_seat_same)
  then show ?thesis
    by (auto simp: is_superseded_def l is_current_def same_seat_attempts)
qed

section \<open>Finding a record\<close>

lemma nth_unique:
  assumes "numbered (slots_of st)" "i < length (rs_slots st)" "j < length (rs_slots st)"
    "sr_slot (rs_slots st ! i) = sr_slot (rs_slots st ! j)"
  shows "i = j"
  using numbered_distinct [OF assms(1)] assms(2-4) by (simp add: distinct_conv_nth) (metis nth_map)

lemma find_slot_nth:
  assumes "numbered (slots_of st)" "i < length (rs_slots st)"
  shows "find_slot st (sr_slot (rs_slots st ! i)) = Some i"
proof -
  obtain j where j: "find_slot st (sr_slot (rs_slots st ! i)) = Some j"
    using assms(2) position_None_iff [of "\<lambda>r. sr_slot r = sr_slot (rs_slots st ! i)" "rs_slots st"]
    by (cases "find_slot st (sr_slot (rs_slots st ! i))") (auto simp: find_slot_def)
  then show ?thesis using nth_unique [OF assms(1,2)] find_slot_lt find_slot_eq by metis
qed

lemma session_key_inject:
  "plain_slot s \<Longrightarrow> plain_slot t \<Longrightarrow> session_key_of st s = session_key_of st t \<longleftrightarrow> s = t"
  using slot_suffix_inject by (auto simp: session_key_of_def slot_session_key_suffix)

lemma find_session_eq: "find_session st k = Some i \<Longrightarrow> session_key_of st (sr_slot (rs_slots st ! i)) = k"
  by (auto simp: find_session_def dest: position_sat)

end
