(* ===== verification/Watch.thy ===== *)
theory Watch
  imports Slot_Table
begin

text \<open>
  What the engine promises of one slot: \<open>good op cur k r\<close> says, for an open run (\<open>op\<close>), a current or a
  superseded slot (\<open>cur\<close>) and the clocks armed for it (\<open>k\<close>), that the record has a shape the
  machine can be in, that whatever it waits for is bounded by an armed clock or by an effect owed, and that
  no clock is armed that its state does not wait for. The lemmas are one per transition of a slot.
\<close>

section \<open>The promise\<close>

definition ladder_watched :: "bool \<Rightarrow> slot_condition option \<Rightarrow> (clock \<Rightarrow> bool) \<Rightarrow> ladder \<Rightarrow> bool" where
  "ladder_watched op c k l \<longleftrightarrow>
     (la_fired l = GF_Second \<longrightarrow> 2 \<le> la_signals_sent l \<and> \<not> k (GR 2)) \<and>
     (la_signals_sent l = 1 \<longrightarrow> la_fired l \<noteq> GF_None \<or> k (GR 1)) \<and>
     (2 \<le> la_signals_sent l \<longrightarrow> la_fired l \<noteq> GF_Second \<longrightarrow> k (GR 2)) \<and>
     (op \<longrightarrow> la_fired l = GF_Second \<longrightarrow> \<not> la_forced l \<longrightarrow> is_would_not_stop c) \<and>
     (is_would_not_stop c \<longrightarrow> la_fired l = GF_Second)"

definition watched :: "bool \<Rightarrow> bool \<Rightarrow> (clock \<Rightarrow> bool) \<Rightarrow> slot_record \<Rightarrow> bool" where
  "watched op cur k r =
     (case sr_state r of
        SS_Pending \<Rightarrow> True
      | SS_Starting _ \<Rightarrow> k (CK TP_StartDeadline)
      | SS_Running _ None \<Rightarrow> k (CK TP_Quiet)
      | SS_Running _ (Some _) \<Rightarrow>
          (\<not> sr_blind r \<longrightarrow> k (CK TP_SubprocessIdle)) \<and> (sr_blind r \<and> \<not> sr_sampling r \<longrightarrow> k (CK TP_CallBound))
      | SS_Quiet _ _ \<Rightarrow> k (CK TP_Confirm)
      | SS_Nudged _ _ \<Rightarrow> k (CK TP_Confirm)
      | SS_Stopping l _ \<Rightarrow> ladder_watched op (sr_condition r) k l
      | SS_Replied _ _ _ p _ None \<Rightarrow> p = PR_Live \<longrightarrow> k (CK TP_WindDown)
      | SS_Replied _ _ _ _ _ (Some l) \<Rightarrow> ladder_watched op (sr_condition r) k l
      | SS_Ended _ \<Rightarrow>
          op \<and> cur \<longrightarrow>
            (case sr_condition r of
               Some (SC_Held _ _ _) \<Rightarrow> k (CK TP_HoldRetry)
             | Some (SC_Parked _ _ _) \<Rightarrow> True
             | None \<Rightarrow> False))"

definition is_held :: "slot_condition option \<Rightarrow> bool" where
  "is_held c = (case c of Some (SC_Held _ _ _) \<Rightarrow> True | _ \<Rightarrow> False)"

definition shaped :: "bool \<Rightarrow> bool \<Rightarrow> slot_record \<Rightarrow> bool" where
  "shaped op cur r =
     (case sr_state r of
        SS_Stopping _ AS_Nothing \<Rightarrow> op \<longrightarrow> \<not> cur
      | SS_Stopping _ (AS_Restart e) \<Rightarrow>
          op \<and> cur \<and> e \<noteq> RC_WouldNotStop \<and> (sr_condition r = None \<or> is_would_not_stop (sr_condition r))
      | SS_Replied _ e _ p _ l \<Rightarrow>
          (e \<longrightarrow> sl_member (sr_slot r) \<noteq> SYNTH) \<and> (p = PR_Ended \<longrightarrow> l = None) \<and>
          (sr_condition r = None \<or> is_would_not_stop (sr_condition r) \<and> l \<noteq> None)
      | SS_Ended _ \<Rightarrow> \<not> is_would_not_stop (sr_condition r) \<and> (is_held (sr_condition r) \<longrightarrow> op)
      | _ \<Rightarrow> op \<and> cur \<and> sr_condition r = None)"

definition may :: "bool \<Rightarrow> slot_record \<Rightarrow> clock \<Rightarrow> bool" where
  "may cur r c =
     (case sr_state r of
        SS_Pending \<Rightarrow> False
      | SS_Starting _ \<Rightarrow> c = CK TP_StartDeadline
      | SS_Running _ None \<Rightarrow> c = CK TP_Quiet
      | SS_Running _ (Some _) \<Rightarrow>
          c = CK TP_SubprocessIdle \<and> \<not> sr_blind r \<or> c = CK TP_CallBound \<and> \<not> sr_sampling r
      | SS_Quiet _ _ \<Rightarrow> c = CK TP_Confirm
      | SS_Nudged _ _ \<Rightarrow> c = CK TP_Confirm
      | SS_Stopping l _ \<Rightarrow> c = GR 1 \<or> c = GR 2 \<and> 2 \<le> la_signals_sent l
      | SS_Replied _ _ _ p _ None \<Rightarrow> c = CK TP_WindDown \<and> p = PR_Live
      | SS_Replied _ _ _ _ _ (Some l) \<Rightarrow> c = GR 1 \<or> c = GR 2 \<and> 2 \<le> la_signals_sent l
      | SS_Ended _ \<Rightarrow> c = CK TP_HoldRetry \<and> cur \<and> is_held (sr_condition r))"

definition good :: "bool \<Rightarrow> bool \<Rightarrow> (clock \<Rightarrow> bool) \<Rightarrow> slot_record \<Rightarrow> bool" where
  "good op cur k r \<longleftrightarrow> shaped op cur r \<and> watched op cur k r \<and> (\<forall>c. k c \<longrightarrow> may cur r c)"

lemmas good_defs = good_def shaped_def watched_def ladder_watched_def may_def

lemma would_not_stop_simps [simp]:
  "\<not> is_would_not_stop None" "\<not> is_would_not_stop (Some (SC_Held x u n))"
  "is_would_not_stop (Some (SC_Parked x m t)) = (x = RC_WouldNotStop)"
  by (simp_all add: is_would_not_stop_def)

lemma is_held_simps [simp]:
  "\<not> is_held None" "is_held (Some (SC_Held x u n))" "\<not> is_held (Some (SC_Parked x m t))"
  by (simp_all add: is_held_def)

section \<open>Transitions\<close>

lemma good_new: "sr_state r = SS_Pending \<Longrightarrow> sr_condition r = None \<Longrightarrow> good True True (\<lambda>_. False) r"
  by (simp add: good_defs)

lemma good_armed:
  assumes "good op cur k r" "sr_state r = SS_Pending"
  shows "good op cur (k(CK TP_StartDeadline := True)) (slot_starting t r)"
  using assms by (auto simp: good_defs slot_starting_def)

lemma good_started:
  assumes "good op cur k r" "sr_state r = SS_Starting t"
  shows "good op cur (k(CK TP_StartDeadline := False, CK TP_Quiet := True)) (fold_fact at w su (SF_Started b x) r)"
  using assms by (auto simp: good_defs fold_fact_def Let_def)

lemma good_started_late:
  assumes "good op False k r" "sr_state r = SS_Ended ec"
  shows "good op False k (fold_fact at w True (SF_Started b x) r)"
  using assms by (auto simp: good_defs fold_fact_def Let_def ladder_new_def)

text \<open>Only the state, the condition and the two marks of a session matter.\<close>

lemma good_cong:
  assumes "sr_state r' = sr_state r" "sr_condition r' = sr_condition r" "sr_blind r' = sr_blind r" "sr_sampling r' = sr_sampling r"
    "sr_slot r' = sr_slot r"
  shows "good op cur k r' = good op cur k r"
  unfolding good_def shaped_def watched_def may_def assms ..

fun was_quiet :: "slot_state \<Rightarrow> bool" where
  "was_quiet (SS_Quiet _ _) = True"
| "was_quiet (SS_Nudged _ _) = True"
| "was_quiet _ = False"

fun is_working :: "slot_state \<Rightarrow> bool" where
  "is_working (SS_Starting _) = True"
| "is_working (SS_Running _ _) = True"
| "is_working (SS_Quiet _ _) = True"
| "is_working (SS_Nudged _ _) = True"
| "is_working _ = False"

fun is_replied :: "slot_state \<Rightarrow> bool" where
  "is_replied (SS_Replied _ _ _ _ _ _) = True"
| "is_replied _ = False"

fun is_escalated :: "slot_state \<Rightarrow> bool" where
  "is_escalated (SS_Replied _ True _ _ _ _) = True"
| "is_escalated _ = False"

lemma is_escalated_Replied [simp]: "is_escalated (SS_Replied m e n p od l) = e"
  by (cases e) simp_all

fun is_ended :: "slot_state \<Rightarrow> bool" where
  "is_ended (SS_Ended _) = True"
| "is_ended _ = False"

text \<open>The clocks a beat leaves: those of \<open>rearm\<close>.\<close>

definition rearmed :: "bool \<Rightarrow> heartbeat_kind option \<Rightarrow> slot_record \<Rightarrow> (clock \<Rightarrow> bool) \<Rightarrow> clock \<Rightarrow> bool" where
  "rearmed q beat r k0 =
     (let k = (if q then k0(CK TP_Confirm := False) else k0);
          open_now = (case sr_state r of SS_Running _ (Some _) \<Rightarrow> True | _ \<Rightarrow> False)
      in if \<not> open_now then
           (let k = k(CK TP_SubprocessIdle := False, CK TP_CallBound := False) in
            if q \<or> beat = Some HB_ModelOutput \<or> beat = Some HB_CallsClosed \<or> beat = Some HB_SubprocessMoved
            then k(CK TP_Quiet := True) else k)
         else
           (let k = k(CK TP_Quiet := False);
                k = (if sr_blind r then k(CK TP_SubprocessIdle := False) else k);
                k = (if sr_sampling r then k(CK TP_CallBound := False) else k);
                back = (q \<or> beat = Some HB_CallsOpen);
                k = (if \<not> sr_blind r \<and> (back \<or> beat = Some HB_SubprocessMoved) then k(CK TP_SubprocessIdle := True) else k)
            in if \<not> sr_sampling r \<and> (back \<or> beat = Some HB_Blind) then k(CK TP_CallBound := True) else k))"

lemma good_beat:
  assumes "good op cur k r" "is_working (sr_state r)" "\<And>t. sr_state r \<noteq> SS_Starting t" "\<And>x. beat \<noteq> HB_Unknown x"
  shows "good op cur (rearmed (was_quiet (sr_state r)) (Some beat) (fold_fact at w su (SF_Heartbeat beat) r) k)
    (fold_fact at w su (SF_Heartbeat beat) r)"
proof (cases "sr_state r")
  case (SS_Running b oc)
  then show ?thesis using assms
    by (cases oc; cases beat) (auto simp: good_defs rearmed_def fold_fact_def revive_def set_open_call_def Let_def)
next
  case (SS_Quiet t oc)
  then show ?thesis using assms
    by (cases oc; cases beat) (auto simp: good_defs rearmed_def fold_fact_def revive_def set_open_call_def Let_def)
next
  case (SS_Nudged t oc)
  then show ?thesis using assms
    by (cases oc; cases beat) (auto simp: good_defs rearmed_def fold_fact_def revive_def set_open_call_def Let_def)
qed (use assms in auto)

text \<open>Facts that only say the session is alive.\<close>

fun is_sign :: "session_fact \<Rightarrow> bool" where
  "is_sign (SF_Heartbeat (HB_Unknown _)) = True"
| "is_sign (SF_Usage _ _ _ _ _ _) = True"
| "is_sign (SF_PermissionRefused _ _) = True"
| "is_sign _ = False"

lemma sign_fields:
  assumes "is_sign f"
  shows "sr_state (fold_fact at w su f r) = sr_state (revive r)" "sr_condition (fold_fact at w su f r) = sr_condition r"
    "sr_blind (fold_fact at w su f r) = sr_blind r" "sr_sampling (fold_fact at w su f r) = sr_sampling r"
  using assms by (cases f rule: is_sign.cases; simp add: fold_fact_def revive_def Let_def split: slot_state.split)+

lemma revive_fields:
  "sr_condition (revive r) = sr_condition r" "sr_blind (revive r) = sr_blind r" "sr_sampling (revive r) = sr_sampling r"
  "\<not> was_quiet (sr_state r) \<Longrightarrow> revive r = r"
  by (cases "sr_state r"; simp add: revive_def)+

lemma good_revived:
  assumes "good op cur k r" "was_quiet (sr_state r)"
  shows "good op cur (rearmed True None (revive r) k) (revive r)"
proof -
  obtain t oc where "sr_state r = SS_Quiet t oc \<or> sr_state r = SS_Nudged t oc" using assms(2) by (cases "sr_state r") auto
  then show ?thesis using assms(1)
    by (elim disjE; cases oc) (auto simp: good_defs rearmed_def revive_def Let_def)
qed

lemma good_sign:
  assumes "good op cur k r" "is_sign f"
  shows "good op cur (if was_quiet (sr_state r) then rearmed True None (fold_fact at w su f r) k else k) (fold_fact at w su f r)"
proof -
  note fs = sign_fields [OF assms(2), of at w su r] revive_fields(1-3) [of r]
  have "good op cur k' (fold_fact at w su f r) = good op cur k' (revive r)" for k' by (rule good_cong) (simp_all add: fs)
  moreover have "rearmed True None (fold_fact at w su f r) k = rearmed True None (revive r) k"
    unfolding rearmed_def fs ..
  ultimately show ?thesis using assms(1) good_revived revive_fields(4) by auto
qed

lemma good_lingering_reply:
  assumes "good op cur k r" "sr_state r = SS_Replied m e n PR_Live od l"
  shows "good op cur (k(CK TP_WindDown := False)) (fold_fact at w su (SF_GroupLingering ps) r)"
  using assms by (cases l) (auto simp: good_defs fold_fact_def start_reply_stop_def ladder_new_def Let_def)

lemma good_wind_down:
  assumes "good op cur k r" "sr_state r = SS_Replied m e n PR_Live od None"
  shows "good op cur (k(CK TP_WindDown := False)) (r\<lparr>sr_state := start_reply_stop at w (sr_state r)\<rparr>)"
  using assms by (auto simp: good_defs start_reply_stop_def ladder_new_def)

lemma good_concluded:
  assumes "good op cur k r" "is_working (sr_state r)" "e \<noteq> RC_WouldNotStop" "sr_condition r' = None"
    "sr_state r' = SS_Stopping (ladder_new at w) (AS_Restart e)"
  shows "good op cur (\<lambda>_. False) r'"
  using assms by (cases "sr_state r") (auto simp: good_defs ladder_new_def split: option.splits)

text \<open>The end of a process: a reply stays, an orphan is done, and otherwise the attempt is over, to be
  superseded, held or parked.\<close>

lemma good_ended:
  assumes "good op cur k r" "op \<longrightarrow> \<not> cur \<or> is_replied (sr_state r)"
  shows "good op cur (\<lambda>_. False) (apply_ended ec r)"
  using assms by (cases "sr_state r") (auto simp: good_defs apply_ended_def Let_def split: end_cause.splits)

lemma good_over: "is_ended (sr_state r) \<Longrightarrow> \<not> is_would_not_stop (sr_condition r) \<Longrightarrow> good True False (\<lambda>_. False) r"
  by (cases "sr_state r") (auto simp: good_defs)

lemma good_parked:
  "is_ended (sr_state r) \<Longrightarrow> e \<noteq> RC_WouldNotStop \<Longrightarrow> good op cur (\<lambda>_. False) (r\<lparr>sr_condition := Some (SC_Parked e n at)\<rparr>)"
  by (cases "sr_state r") (auto simp: good_defs)

lemma good_held:
  "is_ended (sr_state r) \<Longrightarrow>
     good True True ((\<lambda>_. False)(CK TP_HoldRetry := True)) (r\<lparr>sr_holds := h, sr_condition := Some (SC_Held e u n)\<rparr>)"
  by (cases "sr_state r") (auto simp: good_defs)

lemma good_reply:
  assumes "good op cur k r" "is_working (sr_state r)" "e \<longrightarrow> sl_member (sr_slot r) \<noteq> SYNTH"
  shows "good op cur ((\<lambda>_. False)(CK TP_WindDown := True)) (r\<lparr>sr_state := SS_Replied m e n PR_Live False None\<rparr>)"
  using assms by (cases "sr_state r") (auto simp: good_defs)

lemma good_nudged:
  assumes "good op cur k r" "sr_state r = SS_Quiet t oc"
  shows "good op cur (k(CK TP_Confirm := True)) (slot_nudged at r)"
  using assms by (auto simp: good_defs slot_nudged_def)

lemma good_quiet:
  assumes "good op cur k r" "sr_state r = SS_Running b oc"
    "k' = (\<lambda>_. False)(CK TP_Confirm := True)"
  shows "good op cur k' (r\<lparr>sr_state := SS_Quiet at oc\<rparr>)"
  using assms by (cases oc) (auto simp: good_defs)

lemma good_call_bound:
  assumes "good op cur k r" "sr_state r = SS_Running b (Some t)" "\<not> sr_blind r"
  shows "good op cur (k(CK TP_CallBound := False)) r"
  using assms by (auto simp: good_defs)

lemma good_retry:
  assumes "good op cur k r" "is_ended (sr_state r)"
  shows "good op False (k(CK TP_HoldRetry := False)) r"
  using assms by (cases "sr_state r") (auto simp: good_defs)

text \<open>A step of a stop ladder.\<close>

lemma good_ladderD:
  assumes "good op cur k r" "ss_ladder (sr_state r) = Some l"
  shows "ladder_watched op (sr_condition r) k l" "k c \<Longrightarrow> c = GR 1 \<or> c = GR 2 \<and> 2 \<le> la_signals_sent l"
  using assms by (cases "sr_state r"; auto simp: good_def shaped_def watched_def may_def split: option.splits)+

lemma good_ladder:
  assumes "good op cur k r" "ss_ladder (sr_state r) = Some l" "ladder_watched op cn k' (f l)"
    "\<And>c. k' c \<Longrightarrow> c = GR 1 \<or> c = GR 2 \<and> 2 \<le> la_signals_sent (f l)"
    "cn = sr_condition r \<or> cn = None \<or> is_would_not_stop cn"
    "sr_state r' = ss_map_ladder f (sr_state r)" "sr_condition r' = cn" "sr_slot r' = sr_slot r"
  shows "good op cur k' r'"
proof (cases "sr_state r")
  case (SS_Stopping l' a)
  then have "l' = l" using assms(2) by simp
  with SS_Stopping assms show ?thesis
    by (cases a) (auto simp: good_def shaped_def watched_def may_def)
next
  case (SS_Replied m e n p od lo)
  then have "lo = Some l" using assms(2) by simp
  with SS_Replied assms show ?thesis
    by (auto simp: good_def shaped_def watched_def may_def)
qed (use assms in simp_all)

lemma good_signalled:
  assumes "good op cur k r" "ss_ladder (sr_state r) = Some l" "sent = min u8_max (la_signals_sent l + 1)"
  shows "good op cur (if sent = 1 \<or> sent = 2 then k(GR sent := True) else k) (slot_signalled r)"
proof (rule good_ladder [OF assms(1,2)])
  have w: "ladder_watched op (sr_condition r) k l" using good_ladderD(1) assms(1,2) by blast
  show "ladder_watched op (sr_condition r) (if sent = 1 \<or> sent = 2 then k(GR sent := True) else k)
      (l\<lparr>la_signals_sent := min u8_max (la_signals_sent l + 1), la_total := la_total l + 1\<rparr>)"
    using w assms(3) by (auto simp: ladder_watched_def u8_max_def min_def)
  fix c
  assume c: "(if sent = 1 \<or> sent = 2 then k(GR sent := True) else k) c"
  have "k c \<or> c = GR sent \<and> (sent = 1 \<or> sent = 2)" using c by (auto split: if_splits)
  then show "c = GR 1 \<or> c = GR 2 \<and>
    2 \<le> la_signals_sent (l\<lparr>la_signals_sent := min u8_max (la_signals_sent l + 1), la_total := la_total l + 1\<rparr>)"
    using good_ladderD(2) [OF assms(1,2), of c] assms(3) by (auto simp: u8_max_def min_def)
qed (simp_all add: slot_signalled_def)

text \<open>A grace period over: the first lets the second signal be sent, the second parks the slot unless the
  stop is forced.\<close>

lemma good_grace:
  assumes "good op cur k r" "k (GR n)" "ss_ladder (sr_state r) = Some l"
    "n = 2 \<and> is_would_not_stop c' \<or> c' = sr_condition r \<and> (n = 2 \<longrightarrow> la_forced l)"
    "r' = (slot_grace (if n = 2 then GF_Second else GF_First) r)\<lparr>sr_condition := c'\<rparr>"
  shows "good op cur (k(GR n := False)) r'"
proof (rule good_ladder [OF assms(1,3)])
  have w: "ladder_watched op (sr_condition r) k l" and n: "n = 1 \<or> n = 2 \<and> 2 \<le> la_signals_sent l"
    using good_ladderD [OF assms(1,3)] assms(2) by blast+
  show "ladder_watched op c' (k(GR n := False)) (l\<lparr>la_fired := max (la_fired l) (if n = 2 then GF_Second else GF_First)\<rparr>)"
    using w n assms(2,4) by (cases "la_fired l") (auto simp: ladder_watched_def max_def less_eq_grace_fired_def)
  show "c' = sr_condition r \<or> c' = None \<or> is_would_not_stop c'" using assms(4) by blast
  fix c
  assume "(k(GR n := False)) c"
  then show "c = GR 1 \<or> c = GR 2 \<and>
    2 \<le> la_signals_sent (l\<lparr>la_fired := max (la_fired l) (if n = 2 then GF_Second else GF_First)\<rparr>)"
    using good_ladderD(2) [OF assms(1,3), of c] by (auto split: if_splits)
qed (simp_all add: slot_grace_def assms(5))

lemma would_not_stop_ladder:
  "good op cur k r \<Longrightarrow> is_would_not_stop (sr_condition r) \<Longrightarrow> op \<and> cur \<Longrightarrow> \<exists>l. ss_ladder (sr_state r) = Some l"
  by (cases "sr_state r") (auto simp: good_def shaped_def split: after_stop.splits)

lemma good_resumed:
  assumes "good op cur k r" "is_would_not_stop (sr_condition r)" "op \<and> cur"
  shows "good op cur k (fold_resume r)"
proof -
  obtain l where l: "ss_ladder (sr_state r) = Some l" using would_not_stop_ladder [OF assms] by blast
  note w = good_ladderD [OF assms(1) l]
  show ?thesis
  proof (rule good_ladder [OF assms(1) l])
    show "ladder_watched op None k (l\<lparr>la_signals_sent := 0, la_fired := GF_None\<rparr>)" by (simp add: ladder_watched_def)
    show "c = GR 1 \<or> c = GR 2 \<and> 2 \<le> la_signals_sent (l\<lparr>la_signals_sent := 0, la_fired := GF_None\<rparr>)" if "k c" for c
      using w that assms(2) by (auto simp: ladder_watched_def)
  qed (simp_all add: fold_resume_def assms(2))
qed

lemma good_withdrawn:
  assumes "good op cur k r"
  shows "good op cur k (fold_withdrawn r)"
proof (cases "ss_ladder (sr_state r)")
  case (Some l)
  note w = good_ladderD [OF assms Some]
  show ?thesis
  proof (rule good_ladder [OF assms Some])
    show "ladder_watched op (sr_condition (fold_withdrawn r)) k (l\<lparr>la_forced := True\<rparr>)"
      using w(1) by (auto simp: ladder_watched_def fold_withdrawn_def)
  qed (use w(2) in \<open>auto simp: fold_withdrawn_def\<close>)
next
  case None
  have "is_would_not_stop (sr_condition r) \<Longrightarrow> ss_ladder (sr_state r) \<noteq> None"
    using assms by (cases "sr_state r") (auto simp: good_def shaped_def)
  then have "good op cur k (fold_withdrawn r) = good op cur k r"
    using None by (intro good_cong; cases "sr_state r") (auto simp: fold_withdrawn_def)
  with assms show ?thesis by simp
qed

definition wind_down_clock :: "clock \<Rightarrow> bool" where
  "wind_down_clock c \<longleftrightarrow> clock_purpose c = TP_StopGrace \<or> clock_purpose c = TP_WindDown"

lemma good_finish:
  assumes "good op cur k r"
  shows "good False cur (\<lambda>c. k c \<and> wind_down_clock c) (finish_slot at w r)"
  using assms by (cases "sr_state r")
    (auto simp: good_defs finish_slot_def ladder_new_def wind_down_clock_def split: after_stop.splits option.splits)

lemma good_superseded:
  assumes "good op cur k r" "is_replied (sr_state r)"
  shows "good op False k r"
  using assms by (cases "sr_state r") (auto simp: good_defs split: option.splits)

lemma good_dead:
  assumes "good False cur k r" "\<not> ss_is_live (sr_state r)"
  shows "good False cur (\<lambda>_. False) r"
proof (cases "sr_state r")
  case (SS_Replied m e n p od l)
  then show ?thesis using assms by (cases p) (auto simp: good_defs)
qed (use assms in \<open>auto simp: good_defs\<close>)

end
