(* ===== verification/Settled.thy ===== *)
theory Settled
  imports Watch
begin

text \<open>
  The invariant of a run's state between inputs. \<open>settled d X st\<close> says that the table of slots is numbered, that
  every armed timer is named, that a persona has at most one session the run still counts on, that the open
  escalations are about current slots, and that every slot outside \<open>X\<close> keeps its promise; inside a step of
  \<open>decide\<close> the slot being treated is in \<open>X\<close>. The lemmas are one per primitive of the fold.
\<close>

section \<open>The invariant\<close>

text \<open>A session the run counts on: every live one except those only being stopped.\<close>

fun is_flying :: "slot_state \<Rightarrow> bool" where
  "is_flying (SS_Stopping _ AS_Nothing) = False"
| "is_flying s = ss_is_live s"

definition single_flight :: "run_state \<Rightarrow> bool" where
  "single_flight st \<longleftrightarrow>
     (\<forall>r\<in>set (rs_slots st). \<forall>r'\<in>set (rs_slots st). is_flying (sr_state r) \<longrightarrow> is_flying (sr_state r') \<longrightarrow>
        sl_member (sr_slot r) = sl_member (sr_slot r') \<longrightarrow> sr_slot r = sr_slot r')"

definition visited :: "run_state \<Rightarrow> bool" where
  "visited st \<longleftrightarrow> (\<forall>r\<in>set (rs_slots st). \<exists>v. map_of (rs_visits st) (sl_step (sr_slot r)) = Some v \<and> sl_visit (sr_slot r) \<le> v)"

text \<open>Before the claim is held there is no slot, before the tree is prepared every slot waits.\<close>

definition unprepared :: "run_state \<Rightarrow> bool" where
  "unprepared st \<longleftrightarrow>
     (open_run st \<longrightarrow> \<not> tree_prepared st \<longrightarrow>
        (\<forall>r\<in>set (rs_slots st). sr_state r = SS_Pending) \<and> (rs_phase st \<noteq> PH_Running TPH_Unprepared \<longrightarrow> rs_slots st = [] \<and> rs_questions st = []))"

text \<open>Whose turn it is: a seat of the flow whose current attempt has not replied, or has escalated, is one of the
  visit at hand.\<close>

fun unfinished :: "slot_state \<Rightarrow> bool" where
  "unfinished (SS_Replied _ False _ _ _ _) = False"
| "unfinished _ = True"

lemma unfinished_Replied [simp]: "unfinished (SS_Replied m e n p od l) = e"
  by (cases e) simp_all

definition seat_of :: "flow_def \<Rightarrow> slot \<Rightarrow> bool" where
  "seat_of d s \<longleftrightarrow> (\<exists>sd. flow_step d (sl_step s) = Some sd \<and>
     (sl_member s \<in> set (sd_members sd) \<or> sl_member s = SYNTH \<and> sd_has_synthesis sd))"

definition at_hand :: "run_state \<Rightarrow> slot \<Rightarrow> bool" where
  "at_hand st s \<longleftrightarrow> rs_current_step st = Some (sl_step s) \<and> map_of (rs_visits st) (sl_step s) = Some (sl_visit s)"

definition owing :: "run_state \<Rightarrow> slot_record set" where
  "owing st = {r \<in> set (rs_slots st). is_current (slots_of st) (sr_slot r) \<and> unfinished (sr_state r)}"

definition routed :: "run_state \<Rightarrow> bool" where
  "routed st \<longleftrightarrow> (open_run st \<longrightarrow> (\<forall>r\<in>owing st. at_hand st (sr_slot r)))"

section \<open>Questions\<close>

definition escalation_key :: "run_state \<Rightarrow> slot \<Rightarrow> key" where
  "escalation_key st s = ''escalated/'' @ session_key_of st s"

text \<open>An escalation is about a slot that replied, a current one while it is open. A ceiling is about a visit that
  is complete; it is open only while that visit is at hand.\<close>

fun asked_ok :: "run_state \<Rightarrow> key \<Rightarrow> bool \<Rightarrow> asked \<Rightarrow> bool" where
  "asked_ok st i answered (AK_Escalation s m) \<longleftrightarrow>
     i = escalation_key st s \<and> (\<exists>r\<in>set (rs_slots st). sr_slot r = s \<and> is_escalated (sr_state r)) \<and>
     (\<not> answered \<longrightarrow> is_current (slots_of st) s)"
| "asked_ok st i answered (AK_Ceiling step pass m) \<longleftrightarrow>
     (\<exists>v w. i = ceiling_key (rs_run st) step v pass \<and> plain_id step \<and> map_of (rs_visits st) step = Some w \<and> v \<le> w \<and>
        (open_run st \<longrightarrow> (rs_current_step st = Some step \<and> w = v \<longrightarrow> owing st = {}) \<and>
           (\<not> answered \<longrightarrow> rs_current_step st = Some step \<and> w = v)))"

definition question_ok :: "run_state \<Rightarrow> question \<Rightarrow> bool" where
  "question_ok st q \<longleftrightarrow> asked_ok st (qu_id q) (qu_answered q) (qu_asked q)"

fun is_ceiling :: "asked \<Rightarrow> bool" where
  "is_ceiling (AK_Ceiling _ _ _) = True"
| "is_ceiling (AK_Escalation _ _) = False"

definition open_ceilings :: "run_state \<Rightarrow> question set" where
  "open_ceilings st = {q \<in> set (rs_questions st). is_ceiling (qu_asked q) \<and> \<not> qu_answered q}"

definition questions_ok :: "run_state \<Rightarrow> bool" where
  "questions_ok st \<longleftrightarrow> (\<forall>q\<in>set (rs_questions st). question_ok st q) \<and> distinct (map qu_id (rs_questions st)) \<and>
     (open_run st \<longrightarrow> (\<forall>q\<in>open_ceilings st. \<forall>q'\<in>open_ceilings st. q = q'))"

section \<open>The whole\<close>

definition all_fit :: "run_state \<Rightarrow> bool" where
  "all_fit st \<longleftrightarrow> (\<forall>s\<in>set (slots_of st). fit s)"

definition slot_good :: "run_state \<Rightarrow> slot_record \<Rightarrow> bool" where
  "slot_good st r \<longleftrightarrow> good (open_run st) (is_current (slots_of st) (sr_slot r)) (clock_of st (sr_slot r)) r"

definition settled :: "flow_def \<Rightarrow> slot set \<Rightarrow> run_state \<Rightarrow> bool" where
  "settled d X st \<longleftrightarrow> numbered (slots_of st) \<and> all_fit st \<and> timers_named st \<and> visited st \<and> single_flight st \<and>
     unprepared st \<and> questions_ok st \<and> (\<forall>r\<in>set (rs_slots st). sr_slot r \<notin> X \<longrightarrow> slot_good st r) \<and>
     routed st \<and> (\<forall>s\<in>set (slots_of st). seat_of d s)"

lemma settledD:
  assumes "settled d X st"
  shows "numbered (slots_of st)" "all_fit st" "timers_named st" "visited st" "single_flight st" "unprepared st"
    "questions_ok st" "r \<in> set (rs_slots st) \<Longrightarrow> sr_slot r \<notin> X \<Longrightarrow> slot_good st r" "routed st"
    "r \<in> set (rs_slots st) \<Longrightarrow> seat_of d (sr_slot r)"
  using assms by (auto simp: settled_def)

lemma settled_mono: "settled d X st \<Longrightarrow> X \<subseteq> Y \<Longrightarrow> settled d Y st"
  by (auto simp: settled_def)

lemma settled_done:
  assumes "settled d X st" "\<And>r. r \<in> set (rs_slots st) \<Longrightarrow> sr_slot r \<in> X \<Longrightarrow> slot_good st r"
  shows "settled d {} st"
  using assms by (auto simp: settled_def)

lemma settled_fit: "settled d X st \<Longrightarrow> r \<in> set (rs_slots st) \<Longrightarrow> fit (sr_slot r)"
  by (auto simp: settled_def all_fit_def)

section \<open>Fields the invariant does not read\<close>

definition same_core :: "run_state \<Rightarrow> run_state \<Rightarrow> bool" where
  "same_core st st' \<longleftrightarrow> rs_slots st' = rs_slots st \<and> rs_visits st' = rs_visits st \<and> rs_questions st' = rs_questions st \<and>
     rs_run st' = rs_run st \<and> open_run st' = open_run st \<and> rs_current_step st' = rs_current_step st \<and>
     (open_run st' \<longrightarrow> tree_prepared st' = tree_prepared st \<and>
        (rs_phase st' = PH_Running TPH_Unprepared) = (rs_phase st = PH_Running TPH_Unprepared))"

lemma same_core_phase:
  assumes "rs_slots st' = rs_slots st" "rs_visits st' = rs_visits st" "rs_questions st' = rs_questions st"
    "rs_run st' = rs_run st" "rs_phase st' = rs_phase st" "rs_current_step st' = rs_current_step st"
  shows "same_core st st'"
  using assms by (simp add: same_core_def open_run_def is_finishing_def is_finished_def tree_prepared_def)

lemma same_core_timers: "same_but_timers st st' \<Longrightarrow> same_core st st'"
  by (rule same_core_phase) (simp_all add: sbtD)

lemma owing_cong: "rs_slots st' = rs_slots st \<Longrightarrow> owing st' = owing st"
  by (simp add: owing_def)

lemma owing_fields [simp]:
  "owing (st\<lparr>rs_phase := ph\<rparr>) = owing st" "owing (st\<lparr>rs_visits := vs\<rparr>) = owing st"
  "owing (st\<lparr>rs_current_step := cs\<rparr>) = owing st" "owing (st\<lparr>rs_pending_start := ps\<rparr>) = owing st"
  "owing (st\<lparr>rs_questions := qs\<rparr>) = owing st" "owing (st\<lparr>rs_timers := ts\<rparr>) = owing st"
  by (simp_all add: owing_def)

lemma same_coreD:
  assumes "same_core st st'"
  shows "visited st' = visited st" "single_flight st' = single_flight st" "unprepared st' = unprepared st"
    "questions_ok st' = questions_ok st" "all_fit st' = all_fit st" "routed st' = routed st"
proof -
  note eqs = assms [unfolded same_core_def]
  have ow: "owing st' = owing st" by (rule owing_cong) (use eqs in simp)
  have "asked_ok st' i a x = asked_ok st i a x" for i a x
    using eqs ow by (cases x) (simp_all add: escalation_key_def session_key_of_def)
  then have q: "question_ok st' q = question_ok st q" for q by (simp add: question_ok_def)
  show "visited st' = visited st" "single_flight st' = single_flight st" "unprepared st' = unprepared st"
    "questions_ok st' = questions_ok st" "all_fit st' = all_fit st" "routed st' = routed st"
    using eqs ow
    by (auto simp: visited_def single_flight_def unprepared_def questions_ok_def all_fit_def q open_ceilings_def
        routed_def at_hand_def)
qed

lemma settled_timers:
  assumes "settled d X st" "same_core st st'" "timers_named st'"
    "\<And>r. r \<in> set (rs_slots st) \<Longrightarrow> sr_slot r \<notin> X \<Longrightarrow> clock_of st' (sr_slot r) = clock_of st (sr_slot r)"
  shows "settled d X st'"
proof -
  have sl: "rs_slots st' = rs_slots st" "open_run st' = open_run st" using assms(2) by (auto simp: same_core_def)
  have "slot_good st' r" if "r \<in> set (rs_slots st)" "sr_slot r \<notin> X" for r
    using settledD(8) [OF assms(1) that] assms(4) [OF that] by (simp add: slot_good_def sl)
  then show ?thesis using assms(1,3) same_coreD [OF assms(2)] by (simp add: settled_def sl)
qed

lemma settled_cong:
  assumes "settled d X st" "same_core st st'" "rs_timers st' = rs_timers st"
  shows "settled d X st'"
proof (rule settled_timers [OF assms(1,2)])
  have "rs_slots st' = rs_slots st" using assms(2) by (simp add: same_core_def)
  then have "timer_named st' t p = timer_named st t p" for t p by (simp add: timer_named_def)
  then show "timers_named st'" using settledD(3) [OF assms(1)] assms(3) by (simp add: timers_named_def)
qed (simp add: clock_of_cong [OF assms(3)])

section \<open>A change of one slot\<close>

text \<open>What the fold may do to a record: a waiting slot stays waiting, a reply stays, and nothing takes off.\<close>

definition calm :: "slot_record \<Rightarrow> slot_record \<Rightarrow> bool" where
  "calm r r' \<longleftrightarrow> sr_slot r' = sr_slot r \<and> (is_escalated (sr_state r) \<longrightarrow> is_escalated (sr_state r')) \<and>
     (unfinished (sr_state r') \<longrightarrow> unfinished (sr_state r))"

definition tame :: "slot_record \<Rightarrow> slot_record \<Rightarrow> bool" where
  "tame r r' \<longleftrightarrow> calm r r' \<and> (sr_state r = SS_Pending \<longrightarrow> sr_state r' = SS_Pending) \<and>
     (is_flying (sr_state r') \<longrightarrow> is_flying (sr_state r))"

lemma tame_calm: "list_all2 tame rs rs' \<Longrightarrow> list_all2 calm rs rs'"
  by (auto simp: tame_def elim: list_all2_mono)

lemma tame_trans: "tame a b \<Longrightarrow> tame b c \<Longrightarrow> tame a c"
  by (auto simp: tame_def calm_def)

lemma calm_slots:
  assumes "list_all2 calm rs rs'"
  shows "map sr_slot rs' = map sr_slot rs"
  using assms by (induction rule: list_all2_induct) (auto simp: calm_def)

lemmas tame_slots = calm_slots [OF tame_calm]

lemma all2_olds:
  assumes "list_all2 R rs rs'" "r' \<in> set rs'"
  obtains r where "r \<in> set rs" "R r r'"
  using assms unfolding list_all2_conv_all_nth by (metis in_set_conv_nth)

lemma all2_news:
  assumes "list_all2 R rs rs'" "r \<in> set rs"
  obtains r' where "r' \<in> set rs'" "R r r'"
  using assms unfolding list_all2_conv_all_nth by (metis in_set_conv_nth)

lemma calm_owing:
  assumes "list_all2 calm (rs_slots st) (rs_slots st')" "r' \<in> owing st'"
  obtains r where "r \<in> owing st" "sr_slot r = sr_slot r'"
proof -
  have r': "r' \<in> set (rs_slots st')" "is_current (slots_of st') (sr_slot r')" "unfinished (sr_state r')"
    using assms(2) by (simp_all add: owing_def)
  obtain r where r: "r \<in> set (rs_slots st)" "calm r r'" using all2_olds [OF assms(1) r'(1)] .
  have "r \<in> owing st" "sr_slot r = sr_slot r'" using r r' calm_slots [OF assms(1)] by (auto simp: owing_def calm_def)
  then show thesis by (rule that)
qed

text \<open>The questions under a calm change of the slots, in a run that stays open or that finishes.\<close>

lemma calm_questions:
  assumes "questions_ok st" "list_all2 calm (rs_slots st) (rs_slots st')" "rs_visits st' = rs_visits st"
    "rs_questions st' = rs_questions st" "rs_run st' = rs_run st" "open_run st' \<longrightarrow> open_run st"
    "rs_current_step st' = rs_current_step st"
  shows "questions_ok st'"
proof -
  have sl: "slots_of st' = slots_of st" using calm_slots [OF assms(2)] .
  have ow: "owing st = {} \<Longrightarrow> owing st' = {}" using calm_owing [OF assms(2)] by blast
  have "asked_ok st' i a x" if q: "asked_ok st i a x" for i a x
  proof (cases x)
    case (AK_Escalation s m)
    then obtain r where r: "r \<in> set (rs_slots st)" "sr_slot r = s" "is_escalated (sr_state r)" using q by auto
    obtain r' where "r' \<in> set (rs_slots st')" "calm r r'" using all2_news [OF assms(2) r(1)] .
    with r q AK_Escalation show ?thesis
      by (auto simp: sl calm_def escalation_key_def session_key_of_def assms(5) intro!: bexI [of _ r'])
  next
    case (AK_Ceiling step pass m)
    with q ow assms(3,5-7) show ?thesis by auto
  qed
  then have "question_ok st q \<Longrightarrow> question_ok st' q" for q by (simp add: question_ok_def)
  then show ?thesis using assms(1,4,6) by (auto simp: questions_ok_def open_ceilings_def)
qed

lemma settled_calm:
  assumes "settled d X st" "list_all2 calm (rs_slots st) (rs_slots st')" "rs_visits st' = rs_visits st"
    "rs_questions st' = rs_questions st" "rs_run st' = rs_run st" "rs_current_step st' = rs_current_step st"
    "open_run st' \<longrightarrow> open_run st" "timers_named st'" "single_flight st'" "unprepared st'"
    "\<And>r. r \<in> set (rs_slots st') \<Longrightarrow> sr_slot r \<notin> X \<Longrightarrow> slot_good st' r"
  shows "settled d X st'"
proof -
  have sl: "slots_of st' = slots_of st" using calm_slots [OF assms(2)] .
  have "visited st'" unfolding visited_def
  proof
    fix r' assume "r' \<in> set (rs_slots st')"
    then obtain r where "r \<in> set (rs_slots st)" "calm r r'" using all2_olds [OF assms(2)] by blast
    then show "\<exists>v. map_of (rs_visits st') (sl_step (sr_slot r')) = Some v \<and> sl_visit (sr_slot r') \<le> v"
      using settledD(4) [OF assms(1)] assms(3) by (simp add: visited_def calm_def)
  qed
  moreover have "questions_ok st'"
    by (rule calm_questions [OF settledD(7) [OF assms(1)] assms(2-5,7,6)])
  moreover have "routed st'" unfolding routed_def
  proof (intro impI ballI)
    fix r' assume a: "open_run st'" "r' \<in> owing st'"
    obtain r where "r \<in> owing st" "sr_slot r = sr_slot r'" using calm_owing [OF assms(2) a(2)] .
    then show "at_hand st' (sr_slot r')"
      using settledD(9) [OF assms(1)] assms(7) a(1) assms(3,6) by (auto simp: routed_def at_hand_def)
  qed
  ultimately show ?thesis using assms(1,8-11) unfolding settled_def all_fit_def sl by blast
qed

lemma settled_tame:
  assumes "settled d X st" "list_all2 tame (rs_slots st) (rs_slots st')" "rs_visits st' = rs_visits st"
    "rs_questions st' = rs_questions st" "rs_run st' = rs_run st" "rs_current_step st' = rs_current_step st"
    "open_run st' \<longrightarrow> rs_phase st' = rs_phase st" "timers_named st'"
    "\<And>r. r \<in> set (rs_slots st') \<Longrightarrow> sr_slot r \<notin> X \<Longrightarrow> slot_good st' r"
  shows "settled d X st'"
proof -
  have sl: "slots_of st' = slots_of st" using tame_slots [OF assms(2)] .
  have op: "open_run st' \<longrightarrow> open_run st" using assms(7) open_run_cong [of st' st] by blast
  have "single_flight st'" unfolding single_flight_def
  proof (intro ballI impI)
    fix r s
    assume a: "r \<in> set (rs_slots st')" "s \<in> set (rs_slots st')" "is_flying (sr_state r)" "is_flying (sr_state s)"
      "sl_member (sr_slot r) = sl_member (sr_slot s)"
    obtain r0 s0 where "r0 \<in> set (rs_slots st)" "tame r0 r" "s0 \<in> set (rs_slots st)" "tame s0 s"
      using all2_olds [OF assms(2)] a(1,2) by metis
    then show "sr_slot r = sr_slot s"
      using settledD(5) [OF assms(1)] a(3-5) by (simp add: single_flight_def tame_def calm_def)
  qed
  moreover have "unprepared st'" unfolding unprepared_def
  proof (intro impI conjI ballI)
    fix r assume a: "open_run st'" "\<not> tree_prepared st'" "r \<in> set (rs_slots st')"
    then obtain r0 where "r0 \<in> set (rs_slots st)" "tame r0 r" using all2_olds [OF assms(2)] by blast
    then show "sr_state r = SS_Pending"
      using settledD(6) [OF assms(1)] assms(7) op a by (simp add: unprepared_def tame_def tree_prepared_def)
  next
    assume a: "open_run st'" "\<not> tree_prepared st'" "rs_phase st' \<noteq> PH_Running TPH_Unprepared"
    then have "slots_of st = []" "rs_questions st = []" using settledD(6) [OF assms(1)] assms(7) op by (simp_all add: unprepared_def tree_prepared_def)
    then show "rs_slots st' = []" "rs_questions st' = []" using sl assms(4) by simp_all
  qed
  ultimately show ?thesis
    by (rule settled_calm [OF assms(1) tame_calm [OF assms(2)] assms(3-6) op assms(8)]) (rule assms(9))
qed

text \<open>One record changed, with whatever clocks it now has; the others must be as before.\<close>

lemma timer_named_slots:
  assumes "slots_of st' = slots_of st"
  shows "timer_named st' = timer_named st"
proof -
  have "sr_slot ` set (rs_slots st') = sr_slot ` set (rs_slots st)" using assms by (metis set_map)
  then show ?thesis using timer_named_mono [of st _ _ st'] timer_named_mono [of st' _ _ st] by (auto simp: fun_eq_iff)
qed

lemma timers_named_cong:
  assumes "timers_named st" "slots_of st' = slots_of st" "rs_timers st' = rs_timers st"
  shows "timers_named st'"
  using assms by (simp add: timers_named_def timer_named_slots [OF assms(2)])

lemma in_update_at: "x \<in> set (update_at i f xs) \<Longrightarrow> \<exists>j<length xs. x = (if i = j then f (xs ! i) else xs ! j)"
  unfolding in_set_conv_nth by (auto simp: nth_update_at)

lemma list_all2_update_at:
  assumes "\<And>x. R x x" "i < length xs \<Longrightarrow> R (xs ! i) (f (xs ! i))"
  shows "list_all2 R xs (update_at i f xs)"
  using assms by (auto simp: list_all2_conv_all_nth nth_update_at)

lemma tame_refl [simp]: "tame r r" "calm r r"
  by (simp_all add: tame_def calm_def)

lemma settled_upd_slot:
  assumes "settled d X st" "i < length (rs_slots st)" "sr_slot (rs_slots st ! i) \<in> X" "tame (rs_slots st ! i) (f (rs_slots st ! i))"
  shows "settled d X (upd_slot i f st)"
proof -
  have all: "list_all2 tame (rs_slots st) (rs_slots (upd_slot i f st))"
    using assms(4) by (simp add: list_all2_update_at)
  have sl: "slots_of (upd_slot i f st) = slots_of st" by (rule tame_slots [OF all])
  have op: "open_run (upd_slot i f st) = open_run st" by (rule open_run_cong) simp
  show ?thesis
  proof (rule settled_tame [OF assms(1) all])
    show "timers_named (upd_slot i f st)" by (rule timers_named_cong [OF settledD(3) [OF assms(1)] sl]) simp
    fix r
    assume r: "r \<in> set (rs_slots (upd_slot i f st))" "sr_slot r \<notin> X"
    then have "r \<in> insert (f (rs_slots st ! i)) (set (rs_slots st))" using set_update_at by fastforce
    moreover have "sr_slot (f (rs_slots st ! i)) \<in> X" using assms(3,4) by (simp add: tame_def calm_def)
    ultimately have "r \<in> set (rs_slots st)" using r(2) by blast
    then have "slot_good st r" using settledD(8) [OF assms(1)] r(2) by blast
    then show "slot_good (upd_slot i f st) r" by (simp add: slot_good_def op clock_of_cong [of "upd_slot i f st" st] sl [unfolded upd_slot_simps])
  qed (simp_all add: op tree_prepared_def)
qed

lemma settled_upd_record:
  assumes "settled d {s} st" "find_slot st s = Some i" "tame (rs_slots st ! i) (f (rs_slots st ! i))"
  shows "settled d {s} (upd_record s f st)"
  using settled_upd_slot [OF assms(1), of i f] find_slot_lt [OF assms(2)] find_slot_eq [OF assms(2)] assms(2,3)
  by (simp add: upd_record_def)

section \<open>The clocks of one slot\<close>

lemma settled_clear_clock:
  assumes "settled d X (em_state em)" "r \<in> set (rs_slots (em_state em))" "sr_slot r = s" "s \<in> X" "slot_clock c"
  shows "settled d X (em_state (clear_timer (clock_id c s) em))"
    "clock_of (em_state (clear_timer (clock_id c s) em)) s = (clock_of (em_state em) s)(c := False)"
proof -
  let ?st = "em_state em" and ?st' = "em_state (clear_timer (clock_id c s) em)"
  have f: "fit s" using settled_fit assms(1-3) by blast
  show "clock_of ?st' s = (clock_of ?st s)(c := False)"
    using clock_clear [OF f f assms(5)] by (auto simp: fun_eq_iff)
  have sbt: "same_but_timers ?st ?st'" by (rule sbt_clear_timer)
  show "settled d X ?st'"
  proof (rule settled_timers [OF assms(1)])
    show "same_core ?st ?st'"
      by (rule same_core_timers [OF sbt])
    have "timer_named ?st t p = timer_named ?st' t p" for t p using sbtD(1) [OF sbt] by (simp add: timer_named_def)
    then show "timers_named ?st'" using settledD(3) [OF assms(1)]
      by (auto simp: timers_named_def timers_clear_timer)
    fix r' assume r': "r' \<in> set (rs_slots ?st)" "sr_slot r' \<notin> X"
    have "fit (sr_slot r')" using settled_fit [OF assms(1) r'(1)] .
    then show "clock_of ?st' (sr_slot r') = clock_of ?st (sr_slot r')"
      using clock_clear [OF f _ assms(5)] r'(2) assms(4) by (auto simp: fun_eq_iff)
  qed
qed

lemma settled_insert_clock:
  fixes st c s f
  defines "st' \<equiv> st\<lparr>rs_timers := bt_insert (clock_id c s) \<lparr>at_fire_at = f, at_purpose = clock_purpose c\<rparr> (rs_timers st)\<rparr>"
  assumes "settled d X st" "r \<in> set (rs_slots st)" "sr_slot r = s" "s \<in> X" "slot_clock c"
  shows "settled d X st'" "clock_of st' s = (clock_of st s)(c := True)"
proof -
  have f: "fit s" using settled_fit assms(2-4) by blast
  have cl: "clock_of st' x c' \<longleftrightarrow> c' = c \<and> x = s \<or> clock_of st x c'" if "fit x" for x c'
    using clock_id_inject [OF f that assms(6), of c'] assms(6) by (cases "slot_clock c'") (auto simp: clock_of_def st'_def)
  show "clock_of st' s = (clock_of st s)(c := True)" using cl [OF f] by (auto simp: fun_eq_iff)
  show "settled d X st'"
  proof (rule settled_timers [OF assms(2)])
    show "same_core st st'" by (rule same_core_phase) (simp_all add: st'_def)
    have nm: "timer_named st' = timer_named st" by (rule timer_named_slots) (simp add: st'_def)
    have "timer_named st (clock_id c s) (clock_purpose c)" using assms(3,4,6) by (auto simp: timer_named_def)
    then show "timers_named st'" using settledD(3) [OF assms(2)] unfolding timers_named_def nm
      by (auto simp: bt_ok_insert st'_def)
    fix r' assume r': "r' \<in> set (rs_slots st)" "sr_slot r' \<notin> X"
    then show "clock_of st' (sr_slot r') = clock_of st (sr_slot r')"
      using cl [OF settled_fit [OF assms(2) r'(1)]] assms(5) by (auto simp: fun_eq_iff)
  qed
qed

lemma settled_set_clock:
  assumes "settled d X (em_state em)" "r \<in> set (rs_slots (em_state em))" "sr_slot r = s" "s \<in> X" "slot_clock c"
    "clock_purpose c = p" "p \<noteq> TP_StartDeadline"
  shows "settled d X (em_state (set_timer_at (clock_id c s) f p em))"
    "clock_of (em_state (set_timer_at (clock_id c s) f p em)) s = (clock_of (em_state em) s)(c := True)"
  using settled_insert_clock [OF assms(1-5), of f] assms(6,7) by (auto simp: set_timer_at_def Let_def)

lemma settled_clear_slot_timers:
  assumes "settled d X (em_state em)" "r \<in> set (rs_slots (em_state em))" "sr_slot r = s" "s \<in> X"
  shows "settled d X (em_state (clear_slot_timers s em))"
    "clock_of (em_state (clear_slot_timers s em)) s = (\<lambda>_. False)"
proof -
  let ?st = "em_state em" and ?st' = "em_state (clear_slot_timers s em)"
  have f: "fit s" using settled_fit assms(1-3) by blast
  show "clock_of ?st' s = (\<lambda>_. False)" using clock_clear_slot [OF f f] by (auto simp: fun_eq_iff)
  have sbt: "same_but_timers ?st ?st'" by (rule sbt_clear(2))
  show "settled d X ?st'"
  proof (rule settled_timers [OF assms(1)])
    show "same_core ?st ?st'"
      by (rule same_core_timers [OF sbt])
    have "timer_named ?st t p = timer_named ?st' t p" for t p using sbtD(1) [OF sbt] by (simp add: timer_named_def)
    then show "timers_named ?st'" using settledD(3) [OF assms(1)]
      by (auto simp: timers_named_def clear_slot_timers_exact)
    fix r' assume r': "r' \<in> set (rs_slots ?st)" "sr_slot r' \<notin> X"
    have "fit (sr_slot r')" using settled_fit [OF assms(1) r'(1)] .
    then show "clock_of ?st' (sr_slot r') = clock_of ?st (sr_slot r')"
      using clock_clear_slot [OF f] r'(2) assms(4) by (auto simp: fun_eq_iff)
  qed
qed

text \<open>The run's own two timers.\<close>

definition run_timer :: "string \<Rightarrow> timer_purpose \<Rightarrow> bool" where
  "run_timer t p \<longleftrightarrow> t = ROOT_DEADLINE_TIMER \<and> p = TP_RootDeadline \<or> t = TREE_WINDOW_TIMER \<and> p = TP_TreeWindow"

lemma run_timer_simps [simp]: "run_timer ROOT_DEADLINE_TIMER TP_RootDeadline" "run_timer TREE_WINDOW_TIMER TP_TreeWindow"
  by (simp_all add: run_timer_def)

lemma settled_run_timers:
  assumes "settled d X (em_state em)" "run_timer t p"
  shows "settled d X (em_state (set_timer t n p em))" "settled d X (em_state (clear_timer t em))"
proof -
  let ?st = "em_state em"
  have p: "p \<noteq> TP_StartDeadline" using assms(2) by (auto simp: run_timer_def)
  have nm: "timer_named st' = timer_named ?st" if "same_but_timers ?st st'" for st'
    using sbtD(1) [OF that] by (simp add: timer_named_def fun_eq_iff)
  have other: "clock_id c s \<noteq> t" if "fit s" for c s
    using run_timer_not_clock [OF that] assms(2) by (auto simp: run_timer_def)
  have s: "same_but_timers ?st (em_state (set_timer t n p em))" "same_but_timers ?st (em_state (clear_timer t em))"
    using p by (simp_all add: sbt_set sbt_clear_timer)
  have "timer_named ?st t p" using assms(2) by (auto simp: timer_named_def run_timer_def)
  then have "timers_named (em_state (set_timer t n p em))" unfolding timers_named_def nm [OF s(1)]
    using settledD(3) [OF assms(1)] by (auto simp: timers_named_def set_timer_def timers_set_timer_at bt_ok_insert)
  then show "settled d X (em_state (set_timer t n p em))"
    by (rule settled_timers [OF assms(1) same_core_timers [OF s(1)]])
       (use other settled_fit [OF assms(1)] in \<open>auto simp: clock_of_def fun_eq_iff set_timer_def timers_set_timer_at\<close>)
  have "timers_named (em_state (clear_timer t em))" unfolding timers_named_def nm [OF s(2)]
    using settledD(3) [OF assms(1)] by (auto simp: timers_named_def timers_clear_timer)
  then show "settled d X (em_state (clear_timer t em))"
    by (rule settled_timers [OF assms(1) same_core_timers [OF s(2)]])
       (use other settled_fit [OF assms(1)] in \<open>auto simp: clock_of_def fun_eq_iff timers_clear_timer\<close>)
qed

end
