(* ===== verification/Settled_Growth.thy ===== *)
theory Settled_Growth
  imports Settled
begin

text \<open>
  What keeps the invariant when the table of slots grows: a further attempt of a seat, the first attempts of a
  visit, and the slots \<open>arm_ready\<close> takes from waiting to starting.
\<close>

section \<open>One more slot\<close>

text \<open>No ceiling stands in the way of work at hand.\<close>

definition hand_free :: "run_state \<Rightarrow> bool" where
  "hand_free st \<longleftrightarrow> (\<forall>q\<in>set (rs_questions st). \<forall>step pass m. qu_asked q = AK_Ceiling step pass m \<longrightarrow>
     qu_answered q \<and> (\<exists>v w. qu_id q = ceiling_key (rs_run st) step v pass \<and> plain_id step \<and>
       map_of (rs_visits st) step = Some w \<and> v \<le> w \<and> (rs_current_step st = Some step \<longrightarrow> v < w)))"

lemma hand_free_owing:
  assumes "settled d X st" "open_run st" "owing st \<noteq> {}"
  shows "hand_free st"
  unfolding hand_free_def
proof (intro ballI allI impI)
  fix q step pass m
  assume "q \<in> set (rs_questions st)" "qu_asked q = AK_Ceiling step pass m"
  then have "asked_ok st (qu_id q) (qu_answered q) (AK_Ceiling step pass m)"
    using settledD(7) [OF assms(1)] by (force simp: questions_ok_def question_ok_def)
  then show "qu_answered q \<and> (\<exists>v w. qu_id q = ceiling_key (rs_run st) step v pass \<and> plain_id step \<and>
       map_of (rs_visits st) step = Some w \<and> v \<le> w \<and> (rs_current_step st = Some step \<longrightarrow> v < w))"
    using assms(2,3) by (auto simp: le_less)
qed

lemma hand_free_asked:
  assumes "hand_free st" "q \<in> set (rs_questions st)" "is_ceiling (qu_asked q)"
    "rs_run st' = rs_run st" "rs_visits st' = rs_visits st" "rs_current_step st' = rs_current_step st"
  shows "question_ok st' q" "qu_answered q"
proof -
  obtain step pass m where a: "qu_asked q = AK_Ceiling step pass m" using assms(3) by (cases "qu_asked q") auto
  then have "qu_answered q \<and> (\<exists>v w. qu_id q = ceiling_key (rs_run st) step v pass \<and> plain_id step \<and>
       map_of (rs_visits st) step = Some w \<and> v \<le> w \<and> (rs_current_step st = Some step \<longrightarrow> v < w))"
    using assms(1,2) unfolding hand_free_def by blast
  then show "question_ok st' q" "qu_answered q" using assms(4-6) by (auto simp: question_ok_def a)
qed

text \<open>The slot that the new one supersedes.\<close>

definition leaves_seat :: "slot set \<Rightarrow> slot \<Rightarrow> run_state \<Rightarrow> bool" where
  "leaves_seat X t st \<longleftrightarrow>
     (\<forall>r\<in>set (rs_slots st). sr_slot r \<in> X \<or> same_seat (sr_slot r) t \<and> is_current (slots_of st) (sr_slot r) \<longrightarrow>
        same_seat (sr_slot r) t \<and> good True False (clock_of st (sr_slot r)) r) \<and>
     (\<forall>q\<in>set (rs_questions st). \<forall>s m. qu_asked q = AK_Escalation s m \<longrightarrow> \<not> qu_answered q \<longrightarrow> \<not> same_seat s t)"

lemma settled_push_slot:
  fixes st r
  defines "st' \<equiv> st\<lparr>rs_slots := rs_slots st @ [r]\<rparr>" and "t \<equiv> sr_slot r"
  assumes st: "settled d X st" and op: "open_run st" "\<exists>p. rs_phase st = PH_Running p"
    and r: "sr_state r = SS_Pending" "sr_condition r = None"
    and t: "fit t" "seat_of d t" "sl_attempt t = Suc (attempts (slots_of st) t)" "at_hand st t"
    and leave: "leaves_seat X t st" and free: "hand_free st"
  shows "settled d {} st'"
proof -
  have sl: "slots_of st' = slots_of st @ [t]" and sl': "rs_slots st' = rs_slots st @ [r]" by (simp_all add: st'_def t_def)
  have op': "open_run st'" using op(1) by (simp add: st'_def open_run_def is_finishing_def is_finished_def)
  have num: "numbered (slots_of st @ [t])" using settledD(1) [OF st] t(3) by (simp add: numbered_snoc)
  have new: "t \<notin> sr_slot ` set (rs_slots st)" using numbered_distinct [OF num] by simp
  have clocks: "clock_of st' = clock_of st" by (rule clock_of_cong) (simp add: st'_def)
  have cur: "is_current (slots_of st') s \<longleftrightarrow> is_current (slots_of st) s \<and> \<not> same_seat s t" if "s \<in> set (slots_of st)" for s
    unfolding sl by (rule current_snoc [OF num that])
  have "timers_named st'"
  proof -
    have "timer_named st' n p" if "timer_named st n p" for n p
      by (rule timer_named_mono [OF that]) (auto simp: st'_def)
    then show ?thesis using settledD(3) [OF st] by (simp add: timers_named_def st'_def)
  qed
  moreover have "all_fit st'" using settledD(2) [OF st] t(1) by (simp add: all_fit_def sl)
  moreover have "visited st'" using settledD(4) [OF st] t(4) by (auto simp: visited_def st'_def t_def at_hand_def)
  moreover have "single_flight st'" using settledD(5) [OF st] r(1) by (auto simp: single_flight_def sl')
  moreover have "unprepared st'"
  proof -
    have "tree_prepared st \<or> rs_phase st = PH_Running TPH_Unprepared" using op(2) by (metis tree_phase.exhaust tree_prepared_def)
    then show ?thesis using settledD(6) [OF st] r(1) op(1) by (auto simp: unprepared_def st'_def tree_prepared_def)
  qed
  moreover have "questions_ok st'"
  proof -
    have "question_ok st' q" if q: "q \<in> set (rs_questions st)" for q
    proof (cases "qu_asked q")
      case (AK_Escalation s m)
      have ok: "asked_ok st (qu_id q) (qu_answered q) (AK_Escalation s m)"
        using settledD(7) [OF st] q AK_Escalation by (force simp: questions_ok_def question_ok_def)
      then have "s \<in> set (slots_of st)" by auto
      then show ?thesis using ok leave q cur AK_Escalation
        by (auto simp: question_ok_def leaves_seat_def escalation_key_def session_key_of_def st'_def)
    next
      case (AK_Ceiling step pass m)
      then show ?thesis using hand_free_asked(1) [OF free q] by (simp add: st'_def)
    qed
    moreover have "open_ceilings st' = {}"
      using hand_free_asked(2) [OF free] by (auto simp: open_ceilings_def st'_def)
    ultimately show ?thesis using settledD(7) [OF st] by (simp add: questions_ok_def st'_def)
  qed
  moreover have "slot_good st' x" if x: "x \<in> set (rs_slots st')" for x
  proof (cases "x \<in> set (rs_slots st)")
    case True
    then have "sr_slot x \<in> set (slots_of st)" by simp
    note cx = cur [OF this]
    show ?thesis
    proof (cases "sr_slot x \<in> X \<or> same_seat (sr_slot x) t \<and> is_current (slots_of st) (sr_slot x)")
      case sup: True
      then have "same_seat (sr_slot x) t" "good True False (clock_of st (sr_slot x)) x"
        using leave True unfolding leaves_seat_def by blast+
      then show ?thesis using op' cx by (simp add: slot_good_def clocks)
    next
      case keep: False
      have "slot_good st x" using settledD(8) [OF st True] keep by blast
      then show ?thesis using op(1) op' cx keep by (auto simp: slot_good_def clocks)
    qed
  next
    case False
    then have x: "x = r" using that by (simp add: sl')
    have "clock_of st t = (\<lambda>_. False)"
      using timers_named_clockless [OF settledD(3) [OF st] t(1) _ new] settled_fit [OF st] by (auto simp: fun_eq_iff)
    then show ?thesis using op' r good_new [of r] current_last [OF num] by (simp add: slot_good_def x clocks t_def [symmetric] sl)
  qed
  moreover have "routed st'" unfolding routed_def
  proof (intro impI ballI)
    fix x assume "x \<in> owing st'"
    then have "x \<in> owing st \<or> x = r" using cur by (auto simp: owing_def sl')
    then show "at_hand st' (sr_slot x)"
      using settledD(9) [OF st] op(1) t(4) by (auto simp: routed_def at_hand_def t_def st'_def)
  qed
  ultimately show ?thesis using num settledD(10) [OF st] t(2) unfolding settled_def sl by (auto simp: sl')
qed

section \<open>The slots of a step\<close>

text \<open>The visit a started step puts at hand, before its slots are pushed.\<close>

definition visiting :: "step_id \<Rightarrow> nat \<Rightarrow> run_state \<Rightarrow> run_state" where
  "visiting step v st =
     st\<lparr>rs_phase := (case rs_phase st of PH_Queued _ \<Rightarrow> PH_Running TPH_Unprepared
                                         | PH_Created \<Rightarrow> PH_Running TPH_Unprepared | ph \<Rightarrow> ph),
        rs_visits := bt_insert step v (rs_visits st), rs_current_step := Some step, rs_pending_start := None\<rparr>"

lemma apply_step_started_visiting:
  "apply_step_started st step v a ms at = push_records (visiting step v st) step v a (rs_pending_start st) at ms"
  by (simp add: apply_step_started_def visiting_def Let_def)

lemma visiting_fields [simp]:
  "rs_slots (visiting step v st) = rs_slots st" "rs_timers (visiting step v st) = rs_timers st"
  "rs_questions (visiting step v st) = rs_questions st" "rs_run (visiting step v st) = rs_run st"
  "rs_visits (visiting step v st) = bt_insert step v (rs_visits st)" "rs_current_step (visiting step v st) = Some step"
  "open_run (visiting step v st) = open_run st" "owing (visiting step v st) = owing st"
  by (auto simp: visiting_def open_run_def is_finishing_def is_finished_def owing_def split: phase.split)

lemma settled_visiting:
  assumes st: "settled d X st" "open_run st"
    and vis: "\<And>w. map_of (rs_visits st) step = Some w \<Longrightarrow> w \<le> v"
    and hand: "\<And>r. r \<in> owing st \<Longrightarrow> at_hand (visiting step v st) (sr_slot r)"
    and free: "hand_free (visiting step v st)"
  shows "settled d X (visiting step v st)"
proof -
  let ?st = "visiting step v st"
  have "question_ok ?st q" if q: "q \<in> set (rs_questions st)" for q
  proof (cases "qu_asked q")
    case (AK_Escalation s m)
    have "question_ok st q" using settledD(7) [OF st(1)] q by (simp add: questions_ok_def)
    then show ?thesis using AK_Escalation by (simp add: question_ok_def escalation_key_def session_key_of_def)
  next
    case (AK_Ceiling x pass m)
    then show ?thesis using hand_free_asked(1) [OF free, of q ?st] q by simp
  qed
  moreover have "open_ceilings ?st = {}" using hand_free_asked(2) [OF free, of _ ?st] by (auto simp: open_ceilings_def)
  ultimately have "questions_ok ?st" using settledD(7) [OF st(1)] by (simp add: questions_ok_def)
  moreover have "timers_named ?st" by (rule timers_named_cong [OF settledD(3) [OF st(1)]]) simp_all
  moreover have "slot_good ?st x = slot_good st x" for x
    using clock_of_cong [of ?st st] by (simp add: slot_good_def)
  moreover have "routed ?st" using hand by (simp add: routed_def)
  moreover have "visited ?st" using settledD(4) [OF st(1)] vis by (fastforce simp: visited_def intro: order_trans)
  moreover have "unprepared ?st"
    using settledD(6) [OF st(1)] st(2)
    by (auto simp: unprepared_def tree_prepared_def visiting_def open_run_def is_finishing_def is_finished_def split: phase.splits)
  ultimately show ?thesis using st(1) by (simp add: settled_def all_fit_def single_flight_def)
qed

lemma visiting_running: "open_run st \<Longrightarrow> \<exists>p. rs_phase (visiting step v st) = PH_Running p"
  by (cases "rs_phase st") (simp_all add: visiting_def open_run_def is_finishing_def is_finished_def)

lemma slots_push_records:
  "slots_of (push_records st step v a c at ms) =
     slots_of st @ map (\<lambda>m. \<lparr>sl_step = step, sl_visit = v, sl_member = m, sl_attempt = a\<rparr>) ms"
  by (induction ms arbitrary: st) simp_all

text \<open>A further attempt of the seat of \<open>s\<close>, which is current, over, and about which nothing is open.\<close>

lemma settled_attempt:
  assumes st: "settled d {s} st" "open_run st" "rs_phase st = PH_Running p"
    and r: "r \<in> set (rs_slots st)" "sr_slot r = s" "is_current (slots_of st) s" "good True False (clock_of st s) r"
    and hand: "at_hand st s" and free: "hand_free st"
    and noq: "\<And>q m. q \<in> set (rs_questions st) \<Longrightarrow> qu_asked q = AK_Escalation s m \<Longrightarrow> qu_answered q"
    and fits: "Suc (sl_attempt s) \<le> u32_max"
  shows "settled d {} (apply_decision st (DE_StepStarted (sl_step s) (sl_visit s) (sl_attempt s + 1) [sl_member s]) at)"
proof -
  let ?t = "s\<lparr>sl_attempt := sl_attempt s + 1\<rparr>"
  let ?st = "visiting (sl_step s) (sl_visit s) st"
  let ?r = "(new_record ?st (sl_step s) (sl_visit s) (sl_attempt s + 1) (sl_member s) (rs_pending_start st))\<lparr>sr_created_at := at\<rparr>"
  have r': "sr_slot ?r = ?t" "sr_state ?r = SS_Pending" "sr_condition ?r = None" by simp_all
  have eq: "apply_decision st (DE_StepStarted (sl_step s) (sl_visit s) (sl_attempt s + 1) [sl_member s]) at =
    ?st\<lparr>rs_slots := rs_slots ?st @ [?r]\<rparr>"
    by (simp add: apply_step_started_visiting)
  have vis: "map_of (rs_visits ?st) = map_of (rs_visits st)" using hand by (auto simp: at_hand_def)
  have free': "hand_free ?st" using free hand vis by (simp add: hand_free_def at_hand_def)
  have core: "settled d {s} ?st"
  proof (rule settled_visiting [OF st(1,2) _ _ free'])
    show "at_hand ?st (sr_slot x)" if "x \<in> owing st" for x
    proof -
      have "at_hand st (sr_slot x)" using settledD(9) [OF st(1)] st(2) that by (simp add: routed_def)
      then show ?thesis using hand unfolding at_hand_def vis by simp
    qed
  qed (use hand in \<open>simp add: at_hand_def\<close>)
  have fs: "fit s" using settled_fit [OF st(1) r(1)] r(2) by simp
  have seat: "same_seat x ?t \<longleftrightarrow> same_seat x s" for x by (simp add: same_seat_def)
  have "settled d {} (?st\<lparr>rs_slots := rs_slots ?st @ [?r]\<rparr>)"
  proof (rule settled_push_slot [OF core _ visiting_running [OF st(2)] r'(2,3)])
    show "open_run ?st" using st(2) by simp
    show "fit (sr_slot ?r)" using fs fits unfolding r' by (simp add: fit_def plain_slot_def u32_slot_def)
    show "seat_of d (sr_slot ?r)" using settledD(10) [OF st(1) r(1)] r(2) unfolding r' by (simp add: seat_of_def)
    show "sl_attempt (sr_slot ?r) = Suc (attempts (slots_of ?st) (sr_slot ?r))"
      using r(3) same_seat_attempts [of ?t s] unfolding r' by (simp add: is_current_def same_seat_def)
    show "at_hand ?st (sr_slot ?r)" using hand unfolding r' by (simp add: at_hand_def)
    have "x = r" if "x \<in> set (rs_slots st)" "sr_slot x = s" for x
      using numbered_distinct [OF settledD(1) [OF st(1)]] that r(1,2) by (auto simp: distinct_map dest: inj_onD)
    moreover have "sr_slot x = s" if "same_seat (sr_slot x) s" "is_current (slots_of st) (sr_slot x)" for x
      using current_unique [OF that(2) r(3) that(1)] .
    moreover have "qu_answered q" if "q \<in> set (rs_questions st)" "qu_asked q = AK_Escalation x m" "same_seat x s" for q x m
    proof (rule ccontr)
      assume n: "\<not> qu_answered q"
      have "question_ok st q" using settledD(7) [OF st(1)] that(1) by (simp add: questions_ok_def)
      then have "is_current (slots_of st) x" using that(2) n by (simp add: question_ok_def)
      then have "x = s" using current_unique r(3) that(3) by blast
      with noq that n show False by blast
    qed
    ultimately show "leaves_seat {s} (sr_slot ?r) ?st"
      using r(2,4) clock_of_cong [of ?st st] unfolding leaves_seat_def r' seat by (auto simp: same_seat_refl)
    show "hand_free ?st" by (rule free')
  qed
  then show ?thesis unfolding eq .
qed

text \<open>The first attempts of seats at hand that have none.\<close>

lemma settled_push_records:
  assumes "settled d {} st" "open_run st" "\<exists>p. rs_phase st = PH_Running p" "hand_free st"
    "rs_current_step st = Some step" "map_of (rs_visits st) step = Some v" "v \<le> u32_max" "plain_id step"
    "distinct ms" "\<And>m. m \<in> set ms \<Longrightarrow> plain_id m \<and> seat_of d \<lparr>sl_step = step, sl_visit = v, sl_member = m, sl_attempt = 1\<rparr>"
    "\<And>m r. m \<in> set ms \<Longrightarrow> r \<in> set (rs_slots st) \<Longrightarrow> \<not> of_seat step v m r"
  shows "settled d {} (push_records st step v 1 c at ms)"
  using assms
proof (induction ms arbitrary: st)
  case (Cons m ms)
  let ?r = "(new_record st step v 1 m c)\<lparr>sr_created_at := at\<rparr>"
  let ?st = "st\<lparr>rs_slots := rs_slots st @ [?r]\<rparr>"
  let ?t = "\<lparr>sl_step = step, sl_visit = v, sl_member = m, sl_attempt = 1\<rparr>"
  have r: "sr_slot ?r = ?t" "sr_state ?r = SS_Pending" "sr_condition ?r = None" by simp_all
  have none: "\<not> same_seat x ?t" "\<not> same_seat ?t x" if "x \<in> set (slots_of st)" for x
    using Cons.prems(11) [of m] that by (auto simp: of_seat_def same_seat_def)
  have "settled d {} ?st"
  proof (rule settled_push_slot [OF Cons.prems(1-3) r(2,3)])
    show "fit (sr_slot ?r)"
      using Cons.prems(7,8,10) unfolding r by (simp add: fit_def plain_slot_def u32_slot_def u32_max_def)
    show "seat_of d (sr_slot ?r)" using Cons.prems(10) unfolding r by simp
    show "sl_attempt (sr_slot ?r) = Suc (attempts (slots_of st) (sr_slot ?r))"
      using none(2) attempts_zero [of "slots_of st" ?t] unfolding r by simp
    show "at_hand st (sr_slot ?r)" using Cons.prems(5,6) unfolding r by (simp add: at_hand_def)
    have "s \<in> set (slots_of st)" if "q \<in> set (rs_questions st)" "qu_asked q = AK_Escalation s m'" for q s m'
    proof -
      have "question_ok st q" using settledD(7) [OF Cons.prems(1)] that(1) by (simp add: questions_ok_def)
      then show ?thesis using that(2) by (auto simp: question_ok_def)
    qed
    then show "leaves_seat {} (sr_slot ?r) st" using none(1) unfolding leaves_seat_def r by auto
  qed (rule Cons.prems(4))
  then have "settled d {} (push_records ?st step v 1 c at ms)"
  proof (rule Cons.IH)
    show "open_run ?st" using Cons.prems(2) by (simp add: open_run_def is_finishing_def is_finished_def)
    show "hand_free ?st" using Cons.prems(4) by (simp add: hand_free_def)
    show "\<not> of_seat step v m' x" if "m' \<in> set ms" "x \<in> set (rs_slots ?st)" for m' x
    proof (cases "x = ?r")
      case True
      show ?thesis using Cons.prems(9) that(1) r(1) unfolding True of_seat_def by auto
    qed (use Cons.prems(11) [of m' x] that in auto)
  qed (use Cons.prems in simp_all)
  then show ?case by simp
qed simp

section \<open>Starting what waits\<close>

text \<open>Once the tree is prepared, a slot waits only for another session of its persona.\<close>

definition waiting :: "run_state \<Rightarrow> bool" where
  "waiting st \<longleftrightarrow> (tree_prepared st \<longrightarrow>
     (\<forall>r\<in>set (rs_slots st). sr_state r = SS_Pending \<longrightarrow> persona_is_live st (sl_member (sr_slot r))))"

lemma persona_is_live_iff: "persona_is_live st m \<longleftrightarrow> (\<exists>r\<in>set (rs_slots st). sl_member (sr_slot r) = m \<and> ss_is_live (sr_state r))"
  by (auto simp: persona_is_live_def list_ex_iff)

lemma flying_live: "is_flying s \<Longrightarrow> ss_is_live s"
  by (cases s rule: is_flying.cases) auto

text \<open>The state one armed slot leads to.\<close>

lemma arm_state:
  assumes "settled d X (em_state em)" "i < length (rs_slots (em_state em))" "sr_slot (rs_slots (em_state em) ! i) = s"
  shows "em_state (set_slot_timer s n TP_StartDeadline em) =
    upd_slot i (slot_starting (ts_plus (em_at em) n))
      ((em_state em)\<lparr>rs_timers := bt_insert (slot_timer TP_StartDeadline s)
          \<lparr>at_fire_at = ts_plus (em_at em) n, at_purpose = TP_StartDeadline\<rparr> (rs_timers (em_state em))\<rparr>)"
proof -
  have "fit s" using settled_fit [OF assms(1)] assms(2,3) nth_mem by blast
  moreover have "find_slot (em_state em) s = Some i" using find_slot_nth [OF settledD(1) [OF assms(1)] assms(2)] assms(3) by simp
  moreover have "find_slot (st\<lparr>rs_timers := x\<rparr>) = find_slot st" for st x by (simp add: find_slot_def fun_eq_iff)
  ultimately show ?thesis
    by (simp add: set_slot_timer_def set_timer_def set_timer_at_def Let_def arm_start_def upd_record_def fit_def)
qed

lemma settled_arm:
  assumes st: "settled d {} (em_state em)" "open_run (em_state em)" "tree_prepared (em_state em)"
    and i: "i < length (rs_slots (em_state em))" "rs_slots (em_state em) ! i = r" "sr_slot r = s" "sr_state r = SS_Pending"
    and quiet: "\<not> persona_is_live (em_state em) (sl_member s)"
  shows "settled d {} (em_state (set_slot_timer s n TP_StartDeadline em))"
proof -
  let ?st = "em_state em" and ?st' = "em_state (set_slot_timer s n TP_StartDeadline em)"
  let ?f = "slot_starting (ts_plus (em_at em) n)"
  have st': "rs_slots ?st' = update_at i ?f (rs_slots ?st)" "rs_visits ?st' = rs_visits ?st" "rs_questions ?st' = rs_questions ?st"
    "rs_run ?st' = rs_run ?st" "rs_current_step ?st' = rs_current_step ?st" "rs_phase ?st' = rs_phase ?st"
    "rs_timers ?st' = bt_insert (slot_timer TP_StartDeadline s) \<lparr>at_fire_at = ts_plus (em_at em) n, at_purpose = TP_StartDeadline\<rparr> (rs_timers ?st)"
    by (simp_all add: arm_state [OF st(1) i(1)] i(2,3))
  have op: "open_run ?st' = open_run ?st" "tree_prepared ?st' = tree_prepared ?st"
    using open_run_cong [OF st'(6)] st'(6) by (simp_all add: tree_prepared_def)
  have r: "r \<in> set (rs_slots ?st)" using i(1,2) nth_mem by blast
  have fs: "fit s" using settled_fit [OF st(1) r] i(3) by simp
  have r': "sr_state (?f r) = SS_Starting (ts_plus (em_at em) n)" "sr_slot (?f r) = s" using i(3,4) by (simp_all add: slot_starting_def)
  have calm: "list_all2 calm (rs_slots ?st) (rs_slots ?st')"
    unfolding st'(1) by (rule list_all2_update_at) (use i r' in \<open>simp_all add: calm_def\<close>)
  have sl: "slots_of ?st' = slots_of ?st" using calm_slots [OF calm] .
  have other: "x \<in> set (rs_slots ?st) \<and> sr_slot x \<noteq> s \<or> x = ?f r" if x: "x \<in> set (rs_slots ?st')" for x
  proof -
    obtain j where j: "j < length (rs_slots ?st)" "x = (if i = j then ?f (rs_slots ?st ! i) else rs_slots ?st ! j)"
      using in_update_at [OF x [unfolded st'(1)]] by blast
    then show ?thesis using nth_unique [OF settledD(1) [OF st(1)] i(1) j(1)] i(2,3) nth_mem [OF j(1)] by auto
  qed
  show ?thesis
  proof (rule settled_calm [OF st(1) calm st'(2-5)])
    have "timer_named ?st (slot_timer TP_StartDeadline s) TP_StartDeadline"
      using r i(3) by (auto simp: timer_named_def intro!: bexI [of _ r] exI [of _ "CK TP_StartDeadline"])
    then show "timers_named ?st'"
      using settledD(3) [OF st(1)] by (auto simp: timers_named_def st'(7) bt_ok_insert timer_named_slots [OF sl])
    show "single_flight ?st'" unfolding single_flight_def
    proof (intro ballI impI)
      fix x y
      assume a: "x \<in> set (rs_slots ?st')" "y \<in> set (rs_slots ?st')" "is_flying (sr_state x)" "is_flying (sr_state y)"
        "sl_member (sr_slot x) = sl_member (sr_slot y)"
      have none: False if "z \<in> set (rs_slots ?st)" "is_flying (sr_state z)" "sl_member (sr_slot z) = sl_member s" for z
        using quiet flying_live that by (auto simp: persona_is_live_iff)
      show "sr_slot x = sr_slot y"
        using other [OF a(1)] other [OF a(2)]
      proof (elim disjE)
        assume "x \<in> set (rs_slots ?st) \<and> sr_slot x \<noteq> s" "y \<in> set (rs_slots ?st) \<and> sr_slot y \<noteq> s"
        then show ?thesis using settledD(5) [OF st(1)] a(3-5) by (simp add: single_flight_def)
      next
        assume "x \<in> set (rs_slots ?st) \<and> sr_slot x \<noteq> s" "y = ?f r"
        then show ?thesis using none [of x] a(3,5) r'(2) by simp
      next
        assume "x = ?f r" "y \<in> set (rs_slots ?st) \<and> sr_slot y \<noteq> s"
        then show ?thesis using none [of y] a(4,5) r'(2) by simp
      qed simp
    qed
    show "unprepared ?st'" using st(3) op by (simp add: unprepared_def)
    fix x assume x: "x \<in> set (rs_slots ?st')"
    have cl: "clock_of ?st' y c \<longleftrightarrow> c = CK TP_StartDeadline \<and> y = s \<or> clock_of ?st y c" if "fit y" for y c
      using clock_set [OF fs that, of "CK TP_StartDeadline" "ts_plus (em_at em) n" TP_StartDeadline em c]
      by (simp add: set_slot_timer_def set_timer_def)
    from other [OF x] show "slot_good ?st' x"
    proof
      assume a: "x \<in> set (rs_slots ?st) \<and> sr_slot x \<noteq> s"
      then have "clock_of ?st' (sr_slot x) = clock_of ?st (sr_slot x)"
        using cl settled_fit [OF st(1)] by (auto simp: fun_eq_iff)
      then show ?thesis using settledD(8) [OF st(1)] a op(1) by (auto simp: slot_good_def sl)
    next
      assume a: "x = ?f r"
      have "clock_of ?st' s = (clock_of ?st s)(CK TP_StartDeadline := True)" using cl [OF fs] by (auto simp: fun_eq_iff)
      then show ?thesis
        using good_armed [of _ _ _ r "ts_plus (em_at em) n"] settledD(8) [OF st(1) r] i(3,4) op(1) r'(2)
        by (simp add: a slot_good_def sl)
    qed
  qed (simp add: op)
qed

text \<open>What one step of the loop keeps, and what the loop reaches.\<close>

definition arming :: "flow_def \<Rightarrow> slot list \<Rightarrow> run_state \<Rightarrow> run_state \<Rightarrow> bool" where
  "arming d ss st st' \<longleftrightarrow> settled d {} st' \<and> slots_of st' = slots_of st \<and> rs_phase st' = rs_phase st \<and>
     list_all2 (\<lambda>r r'. r' = r \<or> sr_slot r \<in> set ss \<and> sr_state r = SS_Pending \<and> ss_is_live (sr_state r')) (rs_slots st) (rs_slots st') \<and>
     (\<forall>r\<in>set (rs_slots st'). sr_slot r \<in> set ss \<longrightarrow> sr_state r = SS_Pending \<longrightarrow> persona_is_live st' (sl_member (sr_slot r)))"

lemma arming_mono:
  assumes "arming d ss st st'" "persona_is_live st m"
  shows "persona_is_live st' m"
proof -
  obtain r where r: "r \<in> set (rs_slots st)" "sl_member (sr_slot r) = m" "ss_is_live (sr_state r)"
    using assms(2) by (auto simp: persona_is_live_iff)
  have l: "list_all2 (\<lambda>r r'. r' = r \<or> sr_slot r \<in> set ss \<and> sr_state r = SS_Pending \<and> ss_is_live (sr_state r')) (rs_slots st) (rs_slots st')"
    using assms(1) by (simp add: arming_def)
  obtain r' where "r' \<in> set (rs_slots st')" "r' = r \<or> sr_state r = SS_Pending" using all2_news [OF l r(1)] by blast
  with r show ?thesis by (auto simp: persona_is_live_iff)
qed

lemma arming_slot:
  assumes "settled d {} (em_state em)" "open_run (em_state em)" "tree_prepared (em_state em)"
    "r \<in> set (rs_slots (em_state em))" "sr_slot r = s" "sr_state r = SS_Pending"
  shows "arming d [s] (em_state em) (em_state (arm_ready_slot n s em))"
proof (cases "persona_is_live (em_state em) (sl_member s)")
  case True
  then show ?thesis using assms(1) by (auto simp: arming_def arm_ready_slot_def list_all2_same)
next
  case False
  let ?st = "em_state em"
  obtain i where i: "i < length (rs_slots ?st)" "rs_slots ?st ! i = r" using assms(4) by (auto simp: in_set_conv_nth)
  have em: "em_state (arm_ready_slot n s em) = em_state (set_slot_timer s n TP_StartDeadline em)"
    using False by (simp add: arm_ready_slot_def)
  have sl: "rs_slots (em_state (arm_ready_slot n s em)) = update_at i (slot_starting (ts_plus (em_at em) n)) (rs_slots ?st)"
    "rs_phase (em_state (arm_ready_slot n s em)) = rs_phase ?st"
    using arm_state [OF assms(1) i(1), of s n] i(2) assms(5) by (simp_all add: em)
  have r': "sr_state (slot_starting (ts_plus (em_at em) n) r) = SS_Starting (ts_plus (em_at em) n)"
    "sr_slot (slot_starting (ts_plus (em_at em) n) r) = s" using assms(5,6) by (simp_all add: slot_starting_def)
  have live: "slot_starting (ts_plus (em_at em) n) r \<in> set (update_at i (slot_starting (ts_plus (em_at em) n)) (rs_slots ?st))"
    using i by (auto simp: update_at_def set_update_memI)
  have "settled d {} (em_state (arm_ready_slot n s em))"
    unfolding em by (rule settled_arm [OF assms(1-3) i assms(5,6) False])
  moreover have "list_all2 (\<lambda>r r'. r' = r \<or> sr_slot r \<in> set [s] \<and> sr_state r = SS_Pending \<and> ss_is_live (sr_state r')) (rs_slots ?st)
      (update_at i (slot_starting (ts_plus (em_at em) n)) (rs_slots ?st))"
    by (rule list_all2_update_at) (use i assms(5,6) r' in simp_all)
  moreover have "map sr_slot (update_at i (slot_starting (ts_plus (em_at em) n)) (rs_slots ?st)) = slots_of ?st"
    by (rule map_update_at) (simp add: slot_starting_def split: slot_state.split)
  moreover have "persona_is_live (em_state (arm_ready_slot n s em)) (sl_member s)"
    using live r' unfolding persona_is_live_iff sl by (intro bexI [of _ "slot_starting (ts_plus (em_at em) n) r"]) simp_all
  ultimately show ?thesis unfolding arming_def sl by auto
qed

lemma arming_trans:
  assumes "arming d ss st st1" "arming d ts st1 st2"
  shows "arming d (ss @ ts) st st2"
proof -
  have len: "length (rs_slots st2) = length (rs_slots st1)" "length (rs_slots st1) = length (rs_slots st)"
    using assms by (auto simp: arming_def list_all2_lengthD)
  have a: "rs_slots st1 ! i = rs_slots st ! i \<or>
      sr_slot (rs_slots st ! i) \<in> set ss \<and> sr_state (rs_slots st ! i) = SS_Pending \<and> ss_is_live (sr_state (rs_slots st1 ! i))"
    if "i < length (rs_slots st)" for i using assms(1) that by (simp add: arming_def list_all2_conv_all_nth)
  have b: "rs_slots st2 ! i = rs_slots st1 ! i \<or>
      sr_slot (rs_slots st1 ! i) \<in> set ts \<and> sr_state (rs_slots st1 ! i) = SS_Pending \<and> ss_is_live (sr_state (rs_slots st2 ! i))"
    if "i < length (rs_slots st)" for i using assms(2) that len by (simp add: arming_def list_all2_conv_all_nth)
  have all: "list_all2 (\<lambda>r r'. r' = r \<or> sr_slot r \<in> set (ss @ ts) \<and> sr_state r = SS_Pending \<and> ss_is_live (sr_state r'))
      (rs_slots st) (rs_slots st2)"
    unfolding list_all2_conv_all_nth using len a b by fastforce
  moreover have "persona_is_live st2 (sl_member (sr_slot r))"
    if r: "r \<in> set (rs_slots st2)" "sr_slot r \<in> set ss" "sr_state r = SS_Pending" for r
  proof -
    have l: "list_all2 (\<lambda>r r'. r' = r \<or> sr_slot r \<in> set ts \<and> sr_state r = SS_Pending \<and> ss_is_live (sr_state r')) (rs_slots st1) (rs_slots st2)"
      using assms(2) by (simp add: arming_def)
    have "r \<in> set (rs_slots st1)" using all2_olds [OF l r(1)] r(3) by (metis ss_is_live.simps(1))
    then have "persona_is_live st1 (sl_member (sr_slot r))" using assms(1) r(2,3) by (simp add: arming_def)
    then show ?thesis using arming_mono [OF assms(2)] by blast
  qed
  ultimately show ?thesis using assms unfolding arming_def by auto
qed

lemma arming_fold:
  assumes "settled d {} (em_state em)" "open_run (em_state em)" "tree_prepared (em_state em)" "distinct ss"
    "\<And>s. s \<in> set ss \<Longrightarrow> \<exists>r\<in>set (rs_slots (em_state em)). sr_slot r = s \<and> sr_state r = SS_Pending"
  shows "arming d ss (em_state em) (em_state (fold (arm_ready_slot n) ss em))"
  using assms
proof (induction ss arbitrary: em)
  case Nil
  then show ?case by (simp add: arming_def list_all2_same)
next
  case (Cons s ss)
  obtain r where r: "r \<in> set (rs_slots (em_state em))" "sr_slot r = s" "sr_state r = SS_Pending" using Cons.prems(5) [of s] by auto
  have one: "arming d [s] (em_state em) (em_state (arm_ready_slot n s em))"
    by (rule arming_slot [OF Cons.prems(1-3) r])
  have ph: "rs_phase (em_state (arm_ready_slot n s em)) = rs_phase (em_state em)" using one by (simp add: arming_def)
  have l: "list_all2 (\<lambda>r r'. r' = r \<or> sr_slot r \<in> set [s] \<and> sr_state r = SS_Pending \<and> ss_is_live (sr_state r'))
      (rs_slots (em_state em)) (rs_slots (em_state (arm_ready_slot n s em)))" using one by (simp add: arming_def)
  have "arming d ss (em_state (arm_ready_slot n s em)) (em_state (fold (arm_ready_slot n) ss (arm_ready_slot n s em)))"
  proof (rule Cons.IH)
    show "settled d {} (em_state (arm_ready_slot n s em))" using one by (simp add: arming_def)
    show "open_run (em_state (arm_ready_slot n s em))" using Cons.prems(2) open_run_cong [OF ph] by simp
    show "tree_prepared (em_state (arm_ready_slot n s em))" using Cons.prems(3) ph by (simp add: tree_prepared_def)
    fix t assume t: "t \<in> set ss"
    then obtain x where x: "x \<in> set (rs_slots (em_state em))" "sr_slot x = t" "sr_state x = SS_Pending"
      using Cons.prems(5) [of t] by auto
    obtain x' where "x' \<in> set (rs_slots (em_state (arm_ready_slot n s em)))" "x' = x \<or> sr_slot x = s"
      using all2_news [OF l x(1)] by auto
    with x t Cons.prems(4) show "\<exists>r\<in>set (rs_slots (em_state (arm_ready_slot n s em))). sr_slot r = t \<and> sr_state r = SS_Pending"
      by auto
  qed (use Cons.prems in simp)
  from arming_trans [OF one this] show ?case by simp
qed

lemma settled_arm_ready:
  assumes "settled d {} (em_state em)" "open_run (em_state em)"
  shows "settled d {} (em_state (arm_ready em))" "waiting (em_state (arm_ready em))"
    "slots_of (em_state (arm_ready em)) = slots_of (em_state em)" "rs_phase (em_state (arm_ready em)) = rs_phase (em_state em)"
proof -
  let ?st = "em_state em" and ?st' = "em_state (arm_ready em)"
  have "settled d {} ?st' \<and> waiting ?st' \<and> slots_of ?st' = slots_of ?st \<and> rs_phase ?st' = rs_phase ?st"
  proof (cases "tree_prepared ?st")
    case False
    then show ?thesis using assms(1) by (simp add: arm_ready_def waiting_def)
  next
    case True
    let ?ss = "map sr_slot (filter (\<lambda>r. sr_state r = SS_Pending) (rs_slots ?st))"
    have em: "arm_ready em = fold (arm_ready_slot (lp_start_deadline (rs_policy ?st))) ?ss em"
      using True by (simp add: arm_ready_def)
    have arm: "arming d ?ss ?st ?st'" unfolding em
    proof (rule arming_fold [OF assms True])
      show "distinct ?ss" using numbered_distinct [OF settledD(1) [OF assms(1)]] by (simp add: distinct_map_filter)
    qed auto
    have l: "list_all2 (\<lambda>r r'. r' = r \<or> sr_slot r \<in> set ?ss \<and> sr_state r = SS_Pending \<and> ss_is_live (sr_state r'))
      (rs_slots ?st) (rs_slots ?st')" using arm by (simp add: arming_def)
    have "waiting ?st'" unfolding waiting_def
    proof (intro impI ballI)
      fix r assume r: "r \<in> set (rs_slots ?st')" "sr_state r = SS_Pending"
      then have "r \<in> set (rs_slots ?st)" using all2_olds [OF l r(1)] by (metis ss_is_live.simps(1))
      then have "sr_slot r \<in> set ?ss" using r(2) by simp
      then show "persona_is_live ?st' (sl_member (sr_slot r))" using arm r by (simp add: arming_def)
    qed
    with arm show ?thesis by (simp add: arming_def)
  qed
  then show "settled d {} ?st'" "waiting ?st'" "slots_of ?st' = slots_of ?st" "rs_phase ?st' = rs_phase ?st" by blast+
qed

section \<open>Restarting a slot and starting a step\<close>

lemma slots_of_arm_ready: "slots_of (em_state (arm_ready em)) = slots_of (em_state em)"
proof -
  have "slots_of (em_state (set_slot_timer s n p em)) = slots_of (em_state em)" for s n p em
    by (simp add: set_slot_timer_def set_timer_def set_timer_at_def Let_def arm_start_def upd_record_def slot_starting_def
        map_update_at split: option.split slot_state.split)
  then have "slots_of (em_state (fold (arm_ready_slot n) ss em)) = slots_of (em_state em)" for n ss
    by (induction ss arbitrary: em) (simp_all add: arm_ready_slot_def)
  then show ?thesis by (simp add: arm_ready_def)
qed

definition counters_fit :: "run_state \<Rightarrow> bool" where
  "counters_fit st \<longleftrightarrow> (\<forall>s\<in>set (slots_of st). u32_slot s)"

lemma settled_restart:
  assumes st: "settled d {s} (em_state em)" "open_run (em_state em)" "\<exists>p. rs_phase (em_state em) = PH_Running p"
    and r: "r \<in> set (rs_slots (em_state em))" "sr_slot r = s" "is_current (slots_of (em_state em)) s"
      "good True False (clock_of (em_state em) s) r" "unfinished (sr_state r)"
    and noq: "\<And>q m. q \<in> set (rs_questions (em_state em)) \<Longrightarrow> qu_asked q = AK_Escalation s m \<Longrightarrow> qu_answered q"
    and small: "counters_fit (em_state (restart s em))"
  shows "settled d {} (em_state (restart s em)) \<and> waiting (em_state (restart s em))"
proof -
  let ?st = "em_state em"
  let ?D = "DE_StepStarted (sl_step s) (sl_visit s) (sl_attempt s + 1) [sl_member s]"
  have own: "r \<in> owing ?st" using r by (simp add: owing_def)
  then have hand: "at_hand ?st s" using settledD(9) [OF st(1)] st(2) r(2) by (auto simp: routed_def)
  have free: "hand_free ?st" using hand_free_owing [OF st(1,2)] own by blast
  have new: "s\<lparr>sl_attempt := sl_attempt s + 1\<rparr> \<in> set (slots_of (apply_decision ?st ?D at))" for at
    by (simp add: apply_step_started_visiting)
  have attempt: "settled d {} (apply_decision ?st ?D (em_at em))" if "Suc (sl_attempt s) \<le> u32_max"
  proof -
    obtain p where "rs_phase ?st = PH_Running p" using st(3) by blast
    then show ?thesis by (rule settled_attempt [OF st(1,2) _ r(1-4) hand free _ that]) (rule noq)
  qed
  have op: "open_run (apply_decision ?st ?D (em_at em))"
    using st(2,3) by (auto simp: apply_step_started_def Let_def open_run_def is_finishing_def is_finished_def)
  have em: "restart s em = arm_ready (push ?D em)" by (simp add: restart_def)
  have sl: "slots_of (em_state (restart s em)) = slots_of (apply_decision ?st ?D (em_at em))"
    by (simp add: em slots_of_arm_ready)
  have "Suc (sl_attempt s) \<le> u32_max" using small new [of "em_at em"] unfolding counters_fit_def sl
    by (auto simp del: set_map dest!: bspec simp: u32_slot_def)
  then have "settled d {} (em_state (push ?D em))" using attempt by simp
  then show ?thesis unfolding em using settled_arm_ready(1,2) op by simp
qed

lemma settled_start_step:
  assumes st: "settled d {} (em_state em)" "open_run (em_state em)" "owing (em_state em) = {}"
    and answered: "open_ceilings (em_state em) = {}"
    and d: "flow_ok d" "em_def em = d" "flow_step d step = Some sd"
    and small: "counters_fit (em_state (start_step step em))"
  shows "settled d {} (em_state (start_step step em)) \<and> waiting (em_state (start_step step em))"
proof -
  let ?st = "em_state em"
  define v where "v = (case map_of (rs_visits ?st) step of Some v \<Rightarrow> v | None \<Rightarrow> 0) + 1"
  let ?D = "DE_StepStarted step v 1 (sd_members sd)"
  have em: "start_step step em = arm_ready (push ?D em)" by (simp add: start_step_def d(2,3) v_def)
  have sd: "step_ok sd" "sd_id sd = step"
    using d(1) find_Some_in [OF d(3) [unfolded flow_step_def]] by (auto simp: flow_ok_def)
  then have ids: "plain_id step" "distinct (sd_members sd)" "sd_members sd \<noteq> []" "\<And>m. m \<in> set (sd_members sd) \<Longrightarrow> plain_id m"
    by (auto simp: step_ok_def sd_members_def valid_id_plain split: step_kind.splits)
  have old: "w < v" if "map_of (rs_visits ?st) step = Some w" for w using that by (simp add: v_def)
  have free: "hand_free (visiting step v ?st)" unfolding hand_free_def
  proof (intro ballI allI impI)
    fix q x pass m
    assume q: "q \<in> set (rs_questions (visiting step v ?st))" "qu_asked q = AK_Ceiling x pass m"
    then have a: "qu_answered q" using answered by (auto simp: open_ceilings_def)
    have "question_ok ?st q" using settledD(7) [OF st(1)] q(1) by (simp add: questions_ok_def)
    then obtain y w where "qu_id q = ceiling_key (rs_run ?st) x y pass" "plain_id x" "map_of (rs_visits ?st) x = Some w" "y \<le> w"
      using q(2) by (auto simp: question_ok_def)
    then show "qu_answered q \<and> (\<exists>y w. qu_id q = ceiling_key (rs_run (visiting step v ?st)) x y pass \<and> plain_id x \<and>
       map_of (rs_visits (visiting step v ?st)) x = Some w \<and> y \<le> w \<and> (rs_current_step (visiting step v ?st) = Some x \<longrightarrow> y < w))"
      using a old by (cases "x = step") (fastforce simp: less_imp_le)+
  qed
  have bump: "settled d {} (visiting step v ?st)"
    by (rule settled_visiting [OF st(1,2) _ _ free]) (use old st(3) in \<open>auto simp: less_imp_le\<close>)
  have none: "\<not> of_seat step v m r" if "r \<in> set (rs_slots ?st)" for m r
    using settledD(4) [OF st(1)] that old by (fastforce simp: visited_def of_seat_def)
  have sl: "slots_of (em_state (start_step step em)) = slots_of (push_records (visiting step v ?st) step v 1 (rs_pending_start ?st) (em_at em) (sd_members sd))"
    by (simp add: em slots_of_arm_ready apply_step_started_visiting)
  obtain m where m: "m \<in> set (sd_members sd)" using ids(3) by (cases "sd_members sd") auto
  have "u32_slot \<lparr>sl_step = step, sl_visit = v, sl_member = m, sl_attempt = 1\<rparr>"
    by (rule small [unfolded counters_fit_def sl slots_push_records, THEN bspec]) (use m in simp)
  then have "v \<le> u32_max" by (simp add: u32_slot_def)
  then have "settled d {} (push_records (visiting step v ?st) step v 1 (rs_pending_start ?st) (em_at em) (sd_members sd))"
    using none ids d(3) st(2)
    by (intro settled_push_records [OF bump _ visiting_running free]) (auto simp: seat_of_def)
  then have "settled d {} (em_state (push ?D em))" by (simp add: apply_step_started_visiting)
  moreover have "open_run (em_state (push ?D em))"
  proof -
    have "open_run (em_state (push ?D em)) = open_run (visiting step v ?st)"
      by (rule open_run_cong) (simp add: apply_step_started_visiting)
    then show ?thesis using st(2) by simp
  qed
  ultimately show ?thesis unfolding em using settled_arm_ready(1,2) by blast
qed

text \<open>The synthesis of a fan-out whose members have all replied.\<close>

lemma settled_start_synthesis:
  assumes st: "settled d {} (em_state em)" "open_run (em_state em)" "\<exists>p. rs_phase (em_state em) = PH_Running p"
    and hand: "rs_current_step (em_state em) = Some step" "map_of (rs_visits (em_state em)) step = Some v"
    and free: "hand_free (em_state em)" and none: "latest (em_state em) step v SYNTH = None"
    and d: "flow_ok d" "flow_step d step = Some sd" "sd_has_synthesis sd" and small: "v \<le> u32_max"
  shows "settled d {} (em_state (arm_ready (push (DE_StepStarted step v 1 [SYNTH]) em))) \<and>
    waiting (em_state (arm_ready (push (DE_StepStarted step v 1 [SYNTH]) em)))"
proof -
  let ?st = "em_state em" and ?D = "DE_StepStarted step v 1 [SYNTH]"
  have "step_ok sd" "sd_id sd = step" using d(1) find_Some_in [OF d(2) [unfolded flow_step_def]] by (auto simp: flow_ok_def)
  then have plain: "plain_id step" by (auto simp: step_ok_def valid_id_plain)
  have vis: "map_of (rs_visits (visiting step v ?st)) = map_of (rs_visits ?st)" using hand(2) by auto
  have free': "hand_free (visiting step v ?st)" using free hand(1) vis by (simp add: hand_free_def)
  have "settled d {} (visiting step v ?st)"
  proof (rule settled_visiting [OF st(1,2) _ _ free'])
    fix r assume "r \<in> owing ?st"
    then have "at_hand ?st (sr_slot r)" using settledD(9) [OF st(1)] st(2) by (simp add: routed_def)
    then show "at_hand (visiting step v ?st) (sr_slot r)" using hand unfolding at_hand_def vis by simp
  qed (use hand in simp)
  then have "settled d {} (push_records (visiting step v ?st) step v 1 (rs_pending_start ?st) (em_at em) [SYNTH])"
    using none d st(2) small plain free'
    by (intro settled_push_records [OF _ _ visiting_running]) (auto simp: seat_of_def latest_None_iff)
  then have "settled d {} (em_state (push ?D em))" by (simp add: apply_step_started_visiting)
  moreover have "open_run (em_state (push ?D em))"
  proof -
    have "open_run (em_state (push ?D em)) = open_run (visiting step v ?st)"
      by (rule open_run_cong) (simp add: apply_step_started_visiting)
    then show ?thesis using st(2) by simp
  qed
  ultimately show ?thesis using settled_arm_ready(1,2) by blast
qed

section \<open>Finishing\<close>

lemma finish_slot_tame:
  "calm r (finish_slot at w r)" "is_flying (sr_state (finish_slot at w r)) \<Longrightarrow> is_flying (sr_state r)"
  by (cases "sr_state r"; simp add: calm_def finish_slot_def)+

lemma named_purpose:
  assumes "settled d X st" "fit s" "slot_clock c" "map_of (rs_timers st) (clock_id c s) = Some a"
  shows "at_purpose a = clock_purpose c"
proof -
  have "timer_named st (clock_id c s) (at_purpose a)" using settledD(3) [OF assms(1)] assms(4) by (simp add: timers_named_def)
  then obtain r c' where "r \<in> set (rs_slots st)" "slot_clock c'" "clock_id c s = clock_id c' (sr_slot r)" "at_purpose a = clock_purpose c'"
    using run_timer_not_clock [OF assms(2)] by (auto simp: timer_named_def)
  moreover from this have "c = c'" using clock_id_inject [OF assms(2) settled_fit [OF assms(1)] assms(3)] by blast
  ultimately show ?thesis by simp
qed

lemma filtered_key:
  assumes "distinct (map fst xs)" "map_of xs k = Some a"
  shows "k \<in> set (map fst (filter P xs)) \<longleftrightarrow> P (k, a)"
proof -
  have "(k, b) \<in> set xs \<longleftrightarrow> b = a" for b using assms by (metis map_of_eq_Some_iff option.inject)
  then show ?thesis by (force simp: image_iff)
qed

lemma settled_finish_run:
  assumes st: "settled d {} (em_state em)" "open_run (em_state em)"
  shows "settled d {} (em_state (finish_run oc reason em))"
proof -
  let ?st = "em_state em" and ?st' = "em_state (finish_run oc reason em)"
  let ?em = "push (DE_Finishing oc (Some reason)) em"
  let ?over = "map fst (filter (\<lambda>(_, armed). at_purpose armed \<noteq> TP_StopGrace \<and> at_purpose armed \<noteq> TP_WindDown) (rs_timers ?st))"
  have em: "finish_run oc reason em = fold clear_timer ?over ?em" by (simp add: finish_run_def apply_finishing_def)
  note sbt = sbtD [OF sbt_fold_clear [of ?em ?over]]
  have slots: "rs_slots ?st' = map (finish_slot (em_at em) (rs_withdrawn ?st)) (rs_slots ?st)"
    and closed: "\<not> open_run ?st'"
    using finish_run_state(1,2) [of oc reason em] by (simp_all add: open_run_def is_finishing_def)
  have rest: "rs_visits ?st' = rs_visits ?st" "rs_questions ?st' = rs_questions ?st" "rs_run ?st' = rs_run ?st"
    "rs_current_step ?st' = rs_current_step ?st"
    unfolding em sbt by (simp_all add: apply_finishing_def)
  have tm: "map_of (rs_timers ?st') t = (if t \<in> set ?over then None else map_of (rs_timers ?st) t)" for t
    unfolding em timers_fold_clear by (simp add: apply_finishing_def)
  have calm: "list_all2 calm (rs_slots ?st) (rs_slots ?st')"
    unfolding slots by (simp add: list_all2_conv_all_nth finish_slot_tame(1))
  have sl: "slots_of ?st' = slots_of ?st" by (rule calm_slots [OF calm])
  have dist: "distinct (map fst (rs_timers ?st))"
    using settledD(3) [OF st(1)] bt.distinct_keys [of "rs_timers ?st"] by (simp add: timers_named_def bt_keys_def)
  have clocks: "clock_of ?st' s c \<longleftrightarrow> clock_of ?st s c \<and> wind_down_clock c" if f: "fit s" for s c
  proof (cases "map_of (rs_timers ?st) (clock_id c s)")
    case None
    then show ?thesis by (simp add: clock_of_def tm)
  next
    case (Some a)
    have "clock_id c s \<in> set ?over \<longleftrightarrow> at_purpose a \<noteq> TP_StopGrace \<and> at_purpose a \<noteq> TP_WindDown"
      using filtered_key [OF dist Some] by simp
    then show ?thesis using named_purpose [OF st(1) f _ Some] Some by (auto simp: clock_of_def tm wind_down_clock_def)
  qed
  show ?thesis
  proof (rule settled_calm [OF st(1) calm rest])
    have "bt_ok (rs_timers ?st')"
      unfolding em using settledD(3) [OF st(1)] by (intro timers_ok_fold_clear) (simp add: timers_named_def apply_finishing_def)
    then show "timers_named ?st'"
      using settledD(3) [OF st(1)] by (auto simp: timers_named_def tm timer_named_slots [OF sl])
    show "single_flight ?st'" unfolding single_flight_def slots
    proof (intro ballI impI)
      fix x y
      assume a: "x \<in> set (map (finish_slot (em_at em) (rs_withdrawn ?st)) (rs_slots ?st))"
        "y \<in> set (map (finish_slot (em_at em) (rs_withdrawn ?st)) (rs_slots ?st))"
        "is_flying (sr_state x)" "is_flying (sr_state y)" "sl_member (sr_slot x) = sl_member (sr_slot y)"
      obtain x0 y0 where b: "x0 \<in> set (rs_slots ?st)" "x = finish_slot (em_at em) (rs_withdrawn ?st) x0"
        "y0 \<in> set (rs_slots ?st)" "y = finish_slot (em_at em) (rs_withdrawn ?st) y0" using a(1,2) by auto
      have "sr_slot x = sr_slot x0" "sr_slot y = sr_slot y0" "is_flying (sr_state x0)" "is_flying (sr_state y0)"
        using a(3,4) finish_slot_tame(2) b(2,4) by (auto simp: finish_slot_def)
      then show "sr_slot x = sr_slot y" using settledD(5) [OF st(1)] a(5) b(1,3) by (simp add: single_flight_def)
    qed
    show "unprepared ?st'" using closed by (simp add: unprepared_def)
    fix x assume "x \<in> set (rs_slots ?st')"
    then obtain r where r: "r \<in> set (rs_slots ?st)" "x = finish_slot (em_at em) (rs_withdrawn ?st) r" by (auto simp: slots)
    have "clock_of ?st' (sr_slot r) = (\<lambda>c. clock_of ?st (sr_slot r) c \<and> wind_down_clock c)"
      using clocks [OF settled_fit [OF st(1) r(1)]] by (simp add: fun_eq_iff)
    moreover have "sr_slot x = sr_slot r" by (simp add: r(2) finish_slot_def)
    ultimately show "slot_good ?st' x"
      using good_finish [of _ _ _ r "em_at em" "rs_withdrawn ?st"] settledD(8) [OF st(1) r(1)] closed
      by (simp add: slot_good_def sl r(2))
  qed (simp add: closed)
qed

end
