(* ===== verification/Slot_Steps.thy ===== *)
theory Slot_Steps
  imports Settled_Growth
begin

text \<open>
  Treating one slot: \<open>treating d st0 i r k st\<close> says that \<open>st\<close> differs from \<open>st0\<close> in the record of the slot
  with index \<open>i\<close>, which is now \<open>r\<close>, and in that slot's clocks, which are now \<open>k\<close>. Every method of
  \<^verbatim>\<open>Emit\<close> that acts on one slot is a rule; the invariant is back when the record is good.
\<close>

definition treating :: "flow_def \<Rightarrow> run_state \<Rightarrow> nat \<Rightarrow> slot_record \<Rightarrow> (clock \<Rightarrow> bool) \<Rightarrow> run_state \<Rightarrow> bool" where
  "treating d st0 i r k st \<longleftrightarrow> settled d {sr_slot r} st \<and> i < length (rs_slots st0) \<and> rs_slots st = (rs_slots st0)[i := r] \<and>
     sr_slot r = sr_slot (rs_slots st0 ! i) \<and> clock_of st (sr_slot r) = k \<and> rs_phase st = rs_phase st0 \<and>
     rs_questions st = rs_questions st0"

lemma treatingD:
  assumes "treating d st0 i r k st"
  shows "settled d {sr_slot r} st" "i < length (rs_slots st0)" "rs_slots st = (rs_slots st0)[i := r]"
    "sr_slot r = sr_slot (rs_slots st0 ! i)" "clock_of st (sr_slot r) = k" "rs_phase st = rs_phase st0"
    "rs_questions st = rs_questions st0" "slots_of st = slots_of st0" "open_run st = open_run st0"
    "rs_slots st ! i = r" "r \<in> set (rs_slots st)" "i < length (rs_slots st)" "find_slot st (sr_slot r) = Some i"
proof -
  show a: "settled d {sr_slot r} st" "i < length (rs_slots st0)" "rs_slots st = (rs_slots st0)[i := r]"
    "sr_slot r = sr_slot (rs_slots st0 ! i)" "clock_of st (sr_slot r) = k" "rs_phase st = rs_phase st0"
    "rs_questions st = rs_questions st0"
    using assms unfolding treating_def by blast+
  show "slots_of st = slots_of st0" using a(2-4) by (metis list_update_id map_update)
  show "open_run st = open_run st0" by (rule open_run_cong [OF a(6)])
  show b: "rs_slots st ! i = r" "i < length (rs_slots st)" using a(2,3) by simp_all
  show "r \<in> set (rs_slots st)" using b nth_mem by blast
  show "find_slot st (sr_slot r) = Some i" using find_slot_nth [OF settledD(1) [OF a(1)] b(2)] b(1) by simp
qed

lemma treating_begin:
  assumes "settled d {} st" "i < length (rs_slots st)" "rs_slots st ! i = r"
  shows "treating d st i r (clock_of st (sr_slot r)) st"
proof -
  have "settled d {sr_slot r} st" by (rule settled_mono [OF assms(1)]) simp
  then show ?thesis using assms(2,3) list_update_id [of "rs_slots st" i] by (auto simp: treating_def)
qed

lemma treating_good:
  assumes "treating d st0 i r k st" "good (open_run st0) (is_current (slots_of st0) (sr_slot r)) k r"
  shows "settled d {} st"
proof (rule settled_done [OF treatingD(1) [OF assms(1)]])
  fix x assume x: "x \<in> set (rs_slots st)" "sr_slot x \<in> {sr_slot r}"
  have "x = r"
    using numbered_distinct [OF settledD(1) [OF treatingD(1) [OF assms(1)]]] x treatingD(11) [OF assms(1)]
    by (auto simp: distinct_map dest: inj_onD)
  then show "slot_good st x" using assms(2) by (simp add: slot_good_def treatingD(5,8,9) [OF assms(1)])
qed

text \<open>Whoever waits for the persona of the slot still does.\<close>

lemma treating_waiting:
  assumes "treating d st0 i r k st" "waiting st0" "sr_state r = SS_Pending \<Longrightarrow> sr_state (rs_slots st0 ! i) = SS_Pending"
    "ss_is_live (sr_state (rs_slots st0 ! i)) \<Longrightarrow> ss_is_live (sr_state r)"
  shows "waiting st"
  unfolding waiting_def
proof (intro impI ballI)
  fix x assume a: "tree_prepared st" "x \<in> set (rs_slots st)" "sr_state x = SS_Pending"
  note t = treatingD [OF assms(1)]
  have tp: "tree_prepared st0" using a(1) t(6) by (simp add: tree_prepared_def)
  have keep: "persona_is_live st m" if p: "persona_is_live st0 m" for m
  proof -
    obtain j where j: "j < length (rs_slots st0)" "sl_member (sr_slot (rs_slots st0 ! j)) = m" "ss_is_live (sr_state (rs_slots st0 ! j))"
      using p by (auto simp: persona_is_live_iff in_set_conv_nth)
    have "rs_slots st ! j \<in> set (rs_slots st)" using j(1) t(3) by simp
    moreover have "sl_member (sr_slot (rs_slots st ! j)) = m" "ss_is_live (sr_state (rs_slots st ! j))"
      using j t(2-4) assms(4) by (cases "i = j"; simp)+
    ultimately show ?thesis by (auto simp: persona_is_live_iff)
  qed
  obtain j where j: "j < length (rs_slots st0)" "x = rs_slots st ! j" using a(2) t(3) by (metis in_set_conv_nth length_list_update)
  have "sr_state (rs_slots st0 ! j) = SS_Pending" "sr_slot x = sr_slot (rs_slots st0 ! j)"
    using j a(3) t(2-4) assms(3) by (cases "i = j"; simp)+
  moreover have "rs_slots st0 ! j \<in> set (rs_slots st0)" using j(1) by simp
  ultimately show "persona_is_live st (sl_member (sr_slot x))" using assms(2) tp keep by (auto simp: waiting_def)
qed

section \<open>Rules\<close>

named_theorems treating_intros

lemma treating_upd:
  assumes "treating d st0 i r k st" "tame r r'" "f r = r'"
  shows "treating d st0 i r' k (upd_slot i f st)"
proof -
  note t = treatingD [OF assms(1)]
  have s: "sr_slot r' = sr_slot r" using assms(2) by (simp add: tame_def calm_def)
  have "settled d {sr_slot r} (upd_slot i f st)"
    by (rule settled_upd_slot [OF t(1,12)]) (use t(10) assms(2,3) in simp_all)
  then show ?thesis using t(2-7,10) s assms(3) clock_of_cong [of "upd_slot i f st" st] by (simp add: treating_def update_at_def)
qed

lemma treating_cong:
  assumes "treating d st0 i r k st" "same_core st st'" "rs_timers st' = rs_timers st" "rs_phase st' = rs_phase st"
  shows "treating d st0 i r k st'"
  using treatingD [OF assms(1)] settled_cong [OF treatingD(1) [OF assms(1)] assms(2,3)] assms(2,4) clock_of_cong [OF assms(3)]
  by (simp add: treating_def same_core_def)

lemma treating_record:
  assumes "treating d st0 i r k st" "tame r r'" "f r = r'" "s = sr_slot r"
  shows "treating d st0 i r' k (upd_record s f st)"
  using treating_upd [OF assms(1,2), of f] assms(3) treatingD(13) [OF assms(1)] assms(4) by (simp add: upd_record_def)

lemma treating_timers:
  assumes "treating d st0 i r k st" "settled d {sr_slot r} st'" "same_but_timers st st'" "clock_of st' (sr_slot r) = k'"
  shows "treating d st0 i r k' st'"
  using treatingD [OF assms(1)] assms(2-4) sbtD [OF assms(3)] by (simp add: treating_def)

lemma treating_clear [treating_intros]:
  assumes "treating d st0 i r k (em_state em)" "s = sr_slot r" "slot_clock (CK p)"
  shows "treating d st0 i r (k(CK p := False)) (em_state (clear_slot_timer s p em))"
proof -
  note t = treatingD [OF assms(1)]
  have id: "slot_timer p s = clock_id (CK p) s" by simp
  show ?thesis unfolding clear_slot_timer_def id assms(2)
    using settled_clear_clock [OF t(1,11) refl _ assms(3)] t(5)
    by (intro treating_timers [OF assms(1) _ sbt_clear_timer]) simp_all
qed

lemma treating_clear_all [treating_intros]:
  assumes "treating d st0 i r k (em_state em)" "s = sr_slot r"
  shows "treating d st0 i r (\<lambda>_. False) (em_state (clear_slot_timers s em))"
  using settled_clear_slot_timers [OF treatingD(1,11) [OF assms(1)] refl] assms(2)
  by (intro treating_timers [OF assms(1) _ sbt_clear(2)]) simp_all

lemma treating_set_clock:
  assumes "treating d st0 i r k (em_state em)" "slot_clock c" "p = clock_purpose c" "p \<noteq> TP_StartDeadline"
  shows "treating d st0 i r (k(c := True)) (em_state (set_timer_at (clock_id c (sr_slot r)) f p em))"
  using settled_set_clock [OF treatingD(1,11) [OF assms(1)] refl _ assms(2) assms(3) [symmetric] assms(4)] treatingD(5) [OF assms(1)]
  by (intro treating_timers [OF assms(1) _ sbt_set(3) [OF assms(4)]]) simp_all

text \<open>The start deadline, set anew.\<close>

lemma treating_set_start:
  assumes "treating d st0 i r k (em_state em)" "s = sr_slot r" "sr_state r = SS_Starting u"
  shows "treating d st0 i (r\<lparr>sr_state := SS_Starting (ts_plus (em_at em) n)\<rparr>) (k(CK TP_StartDeadline := True))
    (em_state (set_slot_timer s n TP_StartDeadline em))"
proof -
  note t = treatingD [OF assms(1)]
  let ?a = "\<lparr>at_fire_at = ts_plus (em_at em) n, at_purpose = clock_purpose (CK TP_StartDeadline)\<rparr>"
  let ?st = "(em_state em)\<lparr>rs_timers := bt_insert (clock_id (CK TP_StartDeadline) (sr_slot r)) ?a (rs_timers (em_state em))\<rparr>"
  have "same_but_timers (em_state em) ?st" by (simp add: same_but_timers_def)
  then have "treating d st0 i r (k(CK TP_StartDeadline := True)) ?st"
    using settled_insert_clock [OF t(1,11) refl, of "CK TP_StartDeadline"] t(5) by (intro treating_timers [OF assms(1)]) simp_all
  moreover have "tame r (r\<lparr>sr_state := SS_Starting (ts_plus (em_at em) n)\<rparr>)" using assms(3) by (simp add: tame_def calm_def)
  ultimately have "treating d st0 i (r\<lparr>sr_state := SS_Starting (ts_plus (em_at em) n)\<rparr>) (k(CK TP_StartDeadline := True))
      (upd_slot i (slot_starting (ts_plus (em_at em) n)) ?st)"
    by (rule treating_upd) (simp add: slot_starting_def assms(3))
  then show ?thesis using arm_state [OF t(1,12), of "sr_slot r" n] t(10) assms(2) by simp
qed

lemma treating_set [treating_intros]:
  assumes "treating d st0 i r k (em_state em)" "s = sr_slot r" "slot_clock (CK p)" "p \<noteq> TP_StartDeadline"
  shows "treating d st0 i r (k(CK p := True)) (em_state (set_slot_timer s n p em))"
  using treating_set_clock [OF assms(1,3) _ assms(4)] assms(2) by (simp add: set_slot_timer_def set_timer_def)

lemma treating_set_grace:
  assumes "treating d st0 i r k (em_state em)" "s = sr_slot r" "n \<le> u8_max"
  shows "treating d st0 i r (k(GR n := True)) (em_state (set_timer (grace_timer n s) x TP_StopGrace em))"
  using treating_set_clock [OF assms(1), of "GR n"] assms(2,3) by (simp add: set_timer_def)

lemma tame_condition: "tame r (r\<lparr>sr_condition := c\<rparr>)" "tame r (r\<lparr>sr_holds := h, sr_condition := c\<rparr>)"
  by (simp_all add: tame_def calm_def)

lemma treating_order:
  assumes "treating d st0 i r k (em_state em)"
  shows "treating d st0 i r k ((em_state em)\<lparr>rs_next_order := n\<rparr>)"
  by (rule treating_cong [OF assms]) (simp_all add: same_core_phase)

lemma treating_park:
  assumes "treating d st0 i r k (em_state em)" "s = sr_slot r"
  shows "\<exists>ord. treating d st0 i (r\<lparr>sr_condition := Some (SC_Parked reason ord (em_at em))\<rparr>) k (em_state (push (DE_Parked (Some s) reason) em))"
  using treating_record [OF treating_order [OF assms(1)] tame_condition(1) _ assms(2)] by (auto simp: Let_def)

lemma treating_hold:
  assumes "treating d st0 i r k (em_state em)" "s = sr_slot r"
  shows "\<exists>h ord. treating d st0 i (r\<lparr>sr_holds := h, sr_condition := Some (SC_Held reason until ord)\<rparr>) k (em_state (push (DE_Held s reason until x) em))"
proof -
  let ?h = "if x = None then sr_holds r + 1 else sr_holds r"
  have "treating d st0 i (r\<lparr>sr_holds := ?h, sr_condition := Some (SC_Held reason until (rs_next_order (em_state em) + 1))\<rparr>) k
    (em_state (push (DE_Held s reason until x) em))"
    using treating_record [OF treating_order [OF assms(1)] tame_condition(2) _ assms(2)] by (simp add: Let_def)
  then show ?thesis by blast
qed

lemma tame_liveness:
  "is_working (sr_state r) \<Longrightarrow> tame r (r\<lparr>sr_state := SS_Stopping l (AS_Restart e)\<rparr>)"
  "is_working (sr_state r) \<Longrightarrow> tame r (r\<lparr>sr_state := SS_Quiet t oc\<rparr>)"
  by (cases "sr_state r"; simp add: tame_def calm_def)+

lemma treating_conclude:
  assumes "treating d st0 i r k (em_state em)" "s = sr_slot r" "is_working (sr_state r)" "e \<noteq> RC_Quiet"
  shows "treating d st0 i (r\<lparr>sr_state := SS_Stopping (ladder_new (em_at em) (rs_withdrawn (em_state em))) (AS_Restart e)\<rparr>) k
    (em_state (conclude s e em))"
  unfolding conclude_def push_simps apply_decision.simps apply_liveness_def
  by (rule treating_record [OF assms(1) tame_liveness(1) [OF assms(3)] _ assms(2)]) (simp add: assms(4) Let_def)

lemma treating_quiet:
  assumes "treating d st0 i r k (em_state em)" "s = sr_slot r" "sr_state r = SS_Running b oc"
  shows "treating d st0 i (r\<lparr>sr_state := SS_Quiet (em_at em) oc\<rparr>) (k(CK TP_Confirm := True)) (em_state (emit_quiet s em))"
proof -
  have w: "is_working (sr_state r)" using assms(3) by simp
  have "treating d st0 i (r\<lparr>sr_state := SS_Quiet (em_at em) oc\<rparr>) k (em_state (conclude s RC_Quiet em))"
    unfolding conclude_def push_simps apply_decision.simps apply_liveness_def
    by (rule treating_record [OF assms(1) tame_liveness(2) [OF w] _ assms(2)]) (simp add: assms(3) Let_def)
  then show ?thesis unfolding emit_quiet_def Let_def by (rule treating_set) (use assms(2) in simp_all)
qed

lemma treating_rearm:
  assumes "treating d st0 i r k (em_state em)" "s = sr_slot r"
  shows "treating d st0 i r (rearmed q beat r k) (em_state (rearm i s q beat em))"
proof -
  define em1 where "em1 = (if q then clear_slot_timer s TP_Confirm em else em)"
  define k1 where "k1 = (if q then k(CK TP_Confirm := False) else k)"
  have t1: "treating d st0 i r k1 (em_state em1)"
    using assms by (simp add: em1_def k1_def treating_intros)
  have r: "rs_slots (em_state em1) ! i = r" by (rule treatingD(10) [OF t1])
  show ?thesis
    unfolding rearm_def rearmed_def Let_def em1_def [symmetric] k1_def [symmetric] r
    by (auto intro!: treating_intros t1 assms(2) split: if_splits)
qed

end
