(* ===== verification/Fact_Steps.thy ===== *)
theory Fact_Steps
  imports Slot_Steps
begin

text \<open>
  The invariant under the facts a session reports, one lemma per fact, and under what the host did to a session.
\<close>

definition steady :: "flow_def \<Rightarrow> run_state \<Rightarrow> bool" where
  "steady d st \<longleftrightarrow> settled d {} st \<and> waiting st"

lemma treating_steady:
  assumes "treating d st0 i r k st" "waiting st0" "sr_state r = SS_Pending \<Longrightarrow> sr_state (rs_slots st0 ! i) = SS_Pending"
    "ss_is_live (sr_state (rs_slots st0 ! i)) \<Longrightarrow> ss_is_live (sr_state r)"
    "good (open_run st0) (is_current (slots_of st0) (sr_slot r)) k r"
  shows "steady d st"
  using treating_waiting [OF assms(1-4)] treating_good [OF assms(1,5)] by (simp add: steady_def)

lemma find_session_cong:
  assumes "slots_of st' = slots_of st" "rs_run st' = rs_run st"
  shows "find_session st' = find_session st"
proof
  fix k
  show "find_session st' k = find_session st k"
    unfolding find_session_def session_key_of_def assms(2)
  proof (rule position_cong)
    show len: "length (rs_slots st') = length (rs_slots st)" using assms(1) by (metis length_map)
    show "(slot_session_key (sr_slot (rs_slots st' ! i)) (rs_run st) = k) = (slot_session_key (sr_slot (rs_slots st ! i)) (rs_run st) = k)"
      if "i < length (rs_slots st')" for i using that len assms(1) by (metis nth_map)
  qed
qed

text \<open>A slot an input names, before and after its record is changed.\<close>

definition names_slot :: "flow_def \<Rightarrow> run_state \<Rightarrow> nat \<Rightarrow> slot_record \<Rightarrow> bool" where
  "names_slot d st i r \<longleftrightarrow> steady d st \<and> i < length (rs_slots st) \<and> rs_slots st ! i = r"

lemma names_slotD:
  assumes "names_slot d st i r"
  shows "settled d {} st" "waiting st" "i < length (rs_slots st)" "rs_slots st ! i = r" "r \<in> set (rs_slots st)"
    "good (open_run st) (is_current (slots_of st) (sr_slot r)) (clock_of st (sr_slot r)) r"
    "is_superseded st r \<longleftrightarrow> \<not> is_current (slots_of st) (sr_slot r)"
    "treating d st i r (clock_of st (sr_slot r)) st"
proof -
  show a: "settled d {} st" "waiting st" "i < length (rs_slots st)" "rs_slots st ! i = r"
    using assms by (simp_all add: names_slot_def steady_def)
  then show r: "r \<in> set (rs_slots st)" using nth_mem by blast
  show "good (open_run st) (is_current (slots_of st) (sr_slot r)) (clock_of st (sr_slot r)) r"
    using settledD(8) [OF a(1) r] by (simp add: slot_good_def)
  show "is_superseded st r \<longleftrightarrow> \<not> is_current (slots_of st) (sr_slot r)"
    by (rule superseded_iff [OF settledD(1) [OF a(1)] r])
  show "treating d st i r (clock_of st (sr_slot r)) st" by (rule treating_begin [OF a(1,3,4)])
qed

lemma names_slot_session:
  assumes "steady d st" "find_session st k = Some i"
  shows "names_slot d st i (rs_slots st ! i)"
  using assms find_session_lt by (simp add: names_slot_def)

section \<open>Facts\<close>

lemma tame_fact:
  assumes "fact_ignored st r f = None"
  shows "tame r (fold_fact at w su f r)"
proof (cases f)
  case (SF_Heartbeat beat)
  then show ?thesis using assms
    by (cases "sr_state r"; cases beat)
       (simp_all add: tame_def calm_def fact_ignored_def fold_fact_def revive_def set_open_call_def out_of_state_def Let_def)
next
  case (SF_GroupLingering ps)
  then show ?thesis using assms
    by (cases "sr_state r")
       (auto simp: tame_def calm_def fact_ignored_def fold_fact_def start_reply_stop_def out_of_state_def Let_def elim: unfinished.elims)
next
  case (SF_Ended c)
  then show ?thesis using assms
    by (cases "sr_state r")
       (auto simp: tame_def calm_def fact_ignored_def fold_fact_def apply_ended_def Let_def elim: unfinished.elims split: end_cause.splits)
next
  case (SF_Started b x)
  then show ?thesis using assms
    by (cases "sr_state r") (auto simp: tame_def calm_def fact_ignored_def fold_fact_def out_of_state_def Let_def)
next
  case (SF_Usage a b c e g h)
  then show ?thesis by (cases "sr_state r") (simp_all add: tame_def calm_def fold_fact_def revive_def Let_def)
next
  case (SF_PermissionRefused u p)
  then show ?thesis by (cases "sr_state r") (simp_all add: tame_def calm_def fold_fact_def revive_def Let_def)
next
  case (SF_Unknown u)
  then show ?thesis using assms by (simp add: fact_ignored_def)
qed

text \<open>The fold of a fact, and the slot the dispatch then treats.\<close>

lemma fact_start:
  assumes st: "steady d st" and e: "ignored_reason st e = None" "ev_body e = EB_SessionFact k f"
  obtains i r where "names_slot d st i r" "fact_ignored st r f = None" "\<not> is_finished st"
    "treating d st i (fold_fact (ev_at e) (rs_withdrawn st) (is_superseded st r) f r) (clock_of st (sr_slot r)) (em_state (emit_start st e d))"
    "\<And>em. em_state em = em_state (emit_start st e d) \<Longrightarrow> find_session (em_state em) k = Some i"
proof -
  obtain i where i: "find_session st k = Some i" "fact_ignored st (rs_slots st ! i) f = None" "\<not> is_finished st"
    using e by (auto simp: ignored_reason_def record_by_key_def split: if_splits option.splits)
  let ?r = "rs_slots st ! i"
  have n: "names_slot d st i ?r" by (rule names_slot_session [OF st i(1)])
  have em: "em_state (emit_start st e d) = upd_slot i (fold_fact (ev_at e) (rs_withdrawn st) (is_superseded st ?r) f) st"
    using e i(1) by (simp add: apply_input_acted fold_input_def apply_fact_def)
  have "treating d st i (fold_fact (ev_at e) (rs_withdrawn st) (is_superseded st ?r) f ?r) (clock_of st (sr_slot ?r)) (em_state (emit_start st e d))"
    unfolding em Let_def by (rule treating_upd [OF names_slotD(8) [OF n] tame_fact [OF i(2)]]) simp
  moreover have "find_session (em_state em) k = Some i" if "em_state em = em_state (emit_start st e d)" for em
    unfolding that em using i(1) find_session_cong [of "upd_slot i _ st" st] by (simp add: map_update_at)
  ultimately show thesis using that n i(2,3) by blast
qed

lemma emit_fact_at:
  assumes "find_session (em_state (emit_start st e d)) k = Some i" "rs_slots st ! i = r"
    "sr_slot (rs_slots (em_state (emit_start st e d)) ! i) = sr_slot r"
  shows "emit_fact k f (emit_start st e d) =
    (let em = emit_start st e d; s = sr_slot r; q = was_quiet (sr_state r) in
     case f of
       SF_Started _ _ \<Rightarrow>
         (case sr_state r of
            SS_Starting _ \<Rightarrow>
              set_slot_timer s (lp_quiet_after (rs_policy (em_state (clear_slot_timer s TP_StartDeadline em)))) TP_Quiet
                (clear_slot_timer s TP_StartDeadline em)
          | _ \<Rightarrow> em)
     | SF_Heartbeat (HB_Unknown _) \<Rightarrow> (if q then rearm i s True None em else em)
     | SF_Usage _ _ _ _ _ _ \<Rightarrow> (if q then rearm i s True None em else em)
     | SF_PermissionRefused _ _ \<Rightarrow> (if q then rearm i s True None em else em)
     | SF_Heartbeat beat \<Rightarrow> rearm i s q (Some beat) em
     | SF_GroupLingering _ \<Rightarrow> group_lingering s (sr_state r) em
     | SF_Ended cause \<Rightarrow> emit_ended i s (sr_state r) cause em
     | SF_Unknown _ \<Rightarrow> em)"
proof -
  have "(case x of SS_Quiet _ _ \<Rightarrow> True | SS_Nudged _ _ \<Rightarrow> True | _ \<Rightarrow> False) = was_quiet x" for x by (cases x) simp_all
  then show ?thesis using assms
    by (cases f) (simp_all add: emit_fact_def Let_def split: heartbeat_kind.split slot_state.split)
qed

lemma live_fact:
  assumes "\<And>c. f \<noteq> SF_Ended c" "ss_is_live (sr_state r)"
  shows "ss_is_live (sr_state (fold_fact at w su f r))"
  using assms by (cases f; cases "sr_state r")
    (auto simp: fold_fact_def revive_def set_open_call_def start_reply_stop_def Let_def split: heartbeat_kind.splits)

lemma pending_fact:
  assumes "sr_state (fold_fact at w su f r) = SS_Pending"
  shows "sr_state r = SS_Pending"
  using assms by (cases f; cases "sr_state r")
    (auto simp: fold_fact_def revive_def set_open_call_def start_reply_stop_def apply_ended_def Let_def
      split: heartbeat_kind.splits if_splits end_cause.splits)

lemma steady_fact_local:
  assumes st: "steady d st" and e: "ignored_reason st e = None" "ev_body e = EB_SessionFact k f"
    and f: "\<And>c. f \<noteq> SF_Ended c"
  shows "steady d (em_state (emit_fact k f (emit_start st e d)))"
proof -
  obtain i r where n: "names_slot d st i r" "fact_ignored st r f = None"
    and t: "treating d st i (fold_fact (ev_at e) (rs_withdrawn st) (is_superseded st r) f r) (clock_of st (sr_slot r)) (em_state (emit_start st e d))"
      "find_session (em_state (emit_start st e d)) k = Some i"
    using fact_start [OF st e] by metis
  let ?em = "emit_start st e d" and ?r = "fold_fact (ev_at e) (rs_withdrawn st) (is_superseded st r) f r"
  note nd = names_slotD [OF n(1)]
  have sl: "sr_slot (rs_slots (em_state ?em) ! i) = sr_slot r" using treatingD(10) [OF t(1)] by simp
  note em = emit_fact_at [OF t(2) nd(4) sl, of f]
  have fin: "steady d st'" if "treating d st i ?r k' st'"
      "good (open_run st) (is_current (slots_of st) (sr_slot r)) k' ?r" for k' st'
    by (rule treating_steady [OF that(1) nd(2)]) (use that(2) nd(4) live_fact [OF f] pending_fact in auto)
  have re: "treating d st i ?r (rearmed q beat ?r (clock_of st (sr_slot r))) (em_state (rearm i (sr_slot r) q beat ?em))" for q beat
    by (rule treating_rearm [OF t(1)]) simp
  have sign: "steady d (em_state (if was_quiet (sr_state r) then rearm i (sr_slot r) True None ?em else ?em))" if "is_sign f"
    using good_sign [OF nd(6) that, of "ev_at e" "rs_withdrawn st" "is_superseded st r"] fin [OF re] fin [OF t(1)]
    by (cases "was_quiet (sr_state r)") simp_all
  show ?thesis
  proof (cases f)
    case (SF_Started b x)
    then have cs: "(\<exists>u. sr_state r = SS_Starting u) \<or> (\<exists>l a. sr_state r = SS_Stopping l a) \<or> (\<exists>c. sr_state r = SS_Ended c \<and> is_superseded st r)"
      using n(2) by (cases "sr_state r") (simp_all add: fact_ignored_def out_of_state_def)
    have "treating d st i ?r ((clock_of st (sr_slot r))(CK TP_StartDeadline := False, CK TP_Quiet := True))
      (em_state (set_slot_timer (sr_slot r) n TP_Quiet (clear_slot_timer (sr_slot r) TP_StartDeadline ?em)))" for n
      by (intro treating_intros t(1)) simp_all
    note quiet = fin [OF this]
    have same: "good (open_run st) (is_current (slots_of st) (sr_slot r)) (clock_of st (sr_slot r)) ?r"
      if "sr_state r = SS_Stopping l a" for l a
    proof -
      have "good op cur k' ?r = good op cur k' r" for op cur k'
        by (rule good_cong) (simp_all add: SF_Started fold_fact_def Let_def that)
      with nd(6) show ?thesis by simp
    qed
    from cs show ?thesis
    proof (elim disjE exE conjE)
      fix u assume u: "sr_state r = SS_Starting u"
      show ?thesis using quiet good_started [OF nd(6) u] unfolding em Let_def by (simp add: SF_Started u)
    next
      fix l a assume u: "sr_state r = SS_Stopping l a"
      show ?thesis using fin [OF t(1) same [OF u]] unfolding em Let_def by (simp add: SF_Started u)
    next
      fix c assume u: "sr_state r = SS_Ended c" "is_superseded st r"
      have "\<not> is_current (slots_of st) (sr_slot r)" using u(2) nd(7) by simp
      then have "good (open_run st) (is_current (slots_of st) (sr_slot r)) (clock_of st (sr_slot r)) ?r"
        using good_started_late [OF _ u(1)] nd(6) SF_Started u(2) by simp
      from fin [OF t(1) this] show ?thesis unfolding em Let_def by (simp add: SF_Started u)
    qed
  next
    case (SF_Heartbeat beat)
    show ?thesis
    proof (cases "\<exists>x. beat = HB_Unknown x")
      case True
      then show ?thesis using sign unfolding em Let_def by (auto simp: SF_Heartbeat)
    next
      case False
      have w: "is_working (sr_state r)" "\<And>t. sr_state r \<noteq> SS_Starting t"
        using n(2) SF_Heartbeat by (cases "sr_state r"; simp add: fact_ignored_def out_of_state_def)+
      have em': "emit_fact k f ?em = rearm i (sr_slot r) (was_quiet (sr_state r)) (Some beat) ?em"
        using False unfolding em Let_def by (cases beat) (simp_all add: SF_Heartbeat)
      show ?thesis unfolding em'
        by (rule fin [OF re]) (use good_beat [OF nd(6) w] False SF_Heartbeat in auto)
    qed
  next
    case (SF_GroupLingering ps)
    have live: "ss_is_live (sr_state r)" using n(2) SF_GroupLingering by (simp add: fact_ignored_def out_of_state_def)
    show ?thesis
    proof (cases "is_working (sr_state r)")
      case True
      have r: "sr_state ?r = sr_state r" "sr_condition ?r = sr_condition r"
        using True by (cases "sr_state r"; simp add: SF_GroupLingering fold_fact_def start_reply_stop_def Let_def)+
      have em': "emit_fact k f ?em = conclude (sr_slot r) RC_Lost (clear_slot_timers (sr_slot r) ?em)"
        using True unfolding em Let_def by (cases "sr_state r") (simp_all add: SF_GroupLingering group_lingering_def conclude_def Let_def)
      have c: "treating d st i ?r (\<lambda>_. False) (em_state (clear_slot_timers (sr_slot r) ?em))"
        by (rule treating_clear_all [OF t(1)]) simp
      have w: "is_working (sr_state ?r)" using True r(1) by simp
      show ?thesis unfolding em'
      proof (rule treating_steady [OF treating_conclude [OF c _ w] nd(2)])
        have "sr_condition r = None" using True nd(6) by (cases "sr_state r") (simp_all add: good_def shaped_def)
        then show "good (open_run st) (is_current (slots_of st) (sr_slot (?r\<lparr>sr_state := SS_Stopping (ladder_new (em_at (clear_slot_timers (sr_slot r) ?em)) (rs_withdrawn (em_state (clear_slot_timers (sr_slot r) ?em)))) (AS_Restart RC_Lost)\<rparr>))) (\<lambda>_. False)
          (?r\<lparr>sr_state := SS_Stopping (ladder_new (em_at (clear_slot_timers (sr_slot r) ?em)) (rs_withdrawn (em_state (clear_slot_timers (sr_slot r) ?em)))) (AS_Restart RC_Lost)\<rparr>)"
          using r(2) by (intro good_concluded [OF _ True, of _ _ "clock_of st (sr_slot r)"]) (use nd(6) in simp_all)
      qed simp_all
    next
      case False
      show ?thesis
      proof (cases "sr_state r")
        case (SS_Stopping l a)
        have "good op cur k' ?r = good op cur k' r" for op cur k'
          by (rule good_cong) (simp_all add: SF_GroupLingering fold_fact_def start_reply_stop_def Let_def SS_Stopping)
        then show ?thesis using fin [OF t(1)] nd(6) unfolding em Let_def by (simp add: SF_GroupLingering SS_Stopping group_lingering_def)
      next
        case (SS_Replied m x y p od l)
        then have p: "p = PR_Live" using live by simp
        have "treating d st i ?r ((clock_of st (sr_slot r))(CK TP_WindDown := False)) (em_state (clear_slot_timer (sr_slot r) TP_WindDown ?em))"
          by (intro treating_intros t(1)) simp_all
        from fin [OF this] show ?thesis
          using good_lingering_reply [OF nd(6)] SS_Replied p unfolding em Let_def by (simp add: SF_GroupLingering group_lingering_def)
      qed (use False live in auto)
    qed
  next
    case (SF_Usage a b c x g h)
    then show ?thesis using sign unfolding em Let_def by simp
  next
    case (SF_PermissionRefused u p)
    then show ?thesis using sign unfolding em Let_def by simp
  qed (use f n(2) in \<open>auto simp: fact_ignored_def\<close>)
qed

section \<open>The end of a process\<close>

lemma owing_unique:
  assumes "settled d X st" "open_run st" "r \<in> owing st" "r' \<in> owing st" "sl_member (sr_slot r) = sl_member (sr_slot r')"
  shows "r = r'"
proof -
  have h: "at_hand st (sr_slot r)" "at_hand st (sr_slot r')" using settledD(9) [OF assms(1)] assms(2-4) by (auto simp: routed_def)
  then have "same_seat (sr_slot r) (sr_slot r')" using assms(5) by (simp add: at_hand_def same_seat_def)
  then have "sr_slot r = sr_slot r'" using assms(3,4) current_unique by (auto simp: owing_def)
  then show ?thesis
    using numbered_distinct [OF settledD(1) [OF assms(1)]] assms(3,4) by (auto simp: owing_def distinct_map dest: inj_onD)
qed

lemma pending_owing:
  assumes "settled d {} st" "r \<in> set (rs_slots st)" "sr_state r = SS_Pending"
  shows "r \<in> owing st"
  using settledD(8) [OF assms(1,2)] assms(2,3) by (simp add: owing_def slot_good_def good_def shaped_def)

text \<open>Nobody waits for the persona of an attempt the run counts on, so its end keeps nobody waiting.\<close>

lemma treating_waiting_over:
  assumes t: "treating d st0 i r k st" and st: "settled d {} st0" "waiting st0" "open_run st0"
    and r: "rs_slots st0 ! i \<in> owing st0" "sr_state (rs_slots st0 ! i) \<noteq> SS_Pending" "sr_state r \<noteq> SS_Pending"
  shows "waiting st"
  unfolding waiting_def
proof (intro impI ballI)
  fix x assume a: "tree_prepared st" "x \<in> set (rs_slots st)" "sr_state x = SS_Pending"
  note td = treatingD [OF t]
  have tp: "tree_prepared st0" using a(1) td(6) by (simp add: tree_prepared_def)
  obtain j where j: "j < length (rs_slots st0)" "x = rs_slots st ! j" using a(2) td(3) by (metis in_set_conv_nth length_list_update)
  have ij: "i \<noteq> j" using j a(3) r(3) td(2,3) by auto
  then have x: "x = rs_slots st0 ! j" "x \<in> set (rs_slots st0)" using j td(3) by simp_all
  obtain y where y: "y \<in> set (rs_slots st0)" "sl_member (sr_slot y) = sl_member (sr_slot x)" "ss_is_live (sr_state y)"
    using st(2) tp x(2) a(3) by (auto simp: waiting_def persona_is_live_iff)
  have "y \<noteq> rs_slots st0 ! i"
    using owing_unique [OF st(1,3) pending_owing [OF st(1) x(2) a(3)] r(1)] y(2) a(3) r(2) by auto
  then have "y \<in> set (rs_slots st)" using y(1) td(3) by (metis in_set_conv_nth length_list_update nth_list_update_neq)
  then show "persona_is_live st (sl_member (sr_slot x))" using y(2,3) by (auto simp: persona_is_live_iff)
qed

text \<open>An attempt that is over and not yet superseded, held or parked.\<close>

definition over :: "flow_def \<Rightarrow> run_state \<Rightarrow> nat \<Rightarrow> slot_record \<Rightarrow> (clock \<Rightarrow> bool) \<Rightarrow> run_state \<Rightarrow> bool" where
  "over d st0 i r k st \<longleftrightarrow> treating d st0 i r k st \<and> steady d st0 \<and> open_run st0 \<and>
     rs_slots st0 ! i \<in> owing st0 \<and> sr_state (rs_slots st0 ! i) \<noteq> SS_Pending \<and> \<not> is_replied (sr_state (rs_slots st0 ! i)) \<and>
     is_ended (sr_state r)"

lemma overD:
  assumes "over d st0 i r k st"
  shows "treating d st0 i r k st" "settled d {} st0" "waiting st0" "open_run st0" "rs_slots st0 ! i \<in> owing st0"
    "sr_state (rs_slots st0 ! i) \<noteq> SS_Pending" "\<not> is_replied (sr_state (rs_slots st0 ! i))" "is_ended (sr_state r)"
    "\<exists>p. rs_phase st = PH_Running p" "is_current (slots_of st0) (sr_slot r)" "sr_state r \<noteq> SS_Pending"
proof -
  show a: "treating d st0 i r k st" "settled d {} st0" "waiting st0" "open_run st0" "rs_slots st0 ! i \<in> owing st0"
    "sr_state (rs_slots st0 ! i) \<noteq> SS_Pending" "\<not> is_replied (sr_state (rs_slots st0 ! i))" "is_ended (sr_state r)"
    using assms by (simp_all add: over_def steady_def)
  have "tree_prepared st0" using settledD(6) [OF a(2)] a(4-6) by (auto simp: unprepared_def owing_def)
  then show "\<exists>p. rs_phase st = PH_Running p" using treatingD(6) [OF a(1)] by (simp add: tree_prepared_def)
  show "is_current (slots_of st0) (sr_slot r)" using a(5) treatingD(4) [OF a(1)] by (simp add: owing_def)
  show "sr_state r \<noteq> SS_Pending" using a(8) by auto
qed

lemma steady_over_park:
  assumes "over d st0 i r (\<lambda>_. False) (em_state em)" "s = sr_slot r" "e \<noteq> RC_WouldNotStop"
  shows "steady d (em_state (push (DE_Parked (Some s) e) em))"
proof -
  note o = overD [OF assms(1)]
  obtain ord where t: "treating d st0 i (r\<lparr>sr_condition := Some (SC_Parked e ord (em_at em))\<rparr>) (\<lambda>_. False) (em_state (push (DE_Parked (Some s) e) em))"
    using treating_park [OF o(1) assms(2)] by blast
  have "settled d {} (em_state (push (DE_Parked (Some s) e) em))"
    by (rule treating_good [OF t good_parked [OF o(8) assms(3)]])
  moreover have "waiting (em_state (push (DE_Parked (Some s) e) em))"
    by (rule treating_waiting_over [OF t o(2-6)]) (use o(11) in simp)
  ultimately show ?thesis by (simp add: steady_def)
qed

lemma steady_over_hold:
  assumes "over d st0 i r (\<lambda>_. False) (em_state em)" "s = sr_slot r"
  shows "steady d (em_state (hold i s e x em))"
proof (cases "x = None \<and> sr_holds (rs_slots (em_state em) ! i) \<ge> lp_max_holds (rs_policy (em_state em))")
  case True
  then show ?thesis using steady_over_park [OF assms, of RC_HoldLimit] by (simp add: hold_def)
next
  case False
  note o = overD [OF assms(1)]
  let ?u = "hold_until x em"
  let ?em = "push (DE_Held s e ?u x) em"
  obtain h ord where t: "treating d st0 i (r\<lparr>sr_holds := h, sr_condition := Some (SC_Held e ?u ord)\<rparr>) (\<lambda>_. False) (em_state ?em)"
    using treating_hold [OF o(1) assms(2)] by blast
  let ?r = "r\<lparr>sr_holds := h, sr_condition := Some (SC_Held e ?u ord)\<rparr>"
  have em: "hold i s e x em = set_timer_at (clock_id (CK TP_HoldRetry) (sr_slot ?r)) ?u TP_HoldRetry ?em"
    using False assms(2) by (auto simp: hold_def Let_def)
  have t': "treating d st0 i ?r ((\<lambda>_. False)(CK TP_HoldRetry := True)) (em_state (hold i s e x em))"
    unfolding em by (rule treating_set_clock [OF t]) simp_all
  have "settled d {} (em_state (hold i s e x em))"
    by (rule treating_good [OF t']) (use good_held [OF o(8)] o(4,10) in simp)
  moreover have "waiting (em_state (hold i s e x em))"
    by (rule treating_waiting_over [OF t' o(2-6)]) (use o(11) in simp)
  ultimately show ?thesis by (simp add: steady_def)
qed

lemma steady_over_restart:
  assumes "over d st0 i r k (em_state em)" "s = sr_slot r" "good True False k r" "counters_fit (em_state (restart s em))"
  shows "steady d (em_state (restart s em))"
proof -
  note o = overD [OF assms(1)]
  note t = treatingD [OF o(1)]
  have "settled d {} (em_state (restart s em)) \<and> waiting (em_state (restart s em))"
  proof (rule settled_restart [OF _ _ o(9) t(11)])
    show "settled d {s} (em_state em)" "open_run (em_state em)" "sr_slot r = s" using t(1,9) o(4) assms(2) by simp_all
    show "is_current (slots_of (em_state em)) s" using o(10) t(8) assms(2) by simp
    show "good True False (clock_of (em_state em) s) r" using t(5) assms(2,3) by simp
    show "unfinished (sr_state r)" using o(8) by (cases "sr_state r") auto
    show "counters_fit (em_state (restart s em))" by (rule assms(4))
    fix q m assume q: "q \<in> set (rs_questions (em_state em))" "qu_asked q = AK_Escalation s m"
    have "question_ok st0 q" using settledD(7) [OF o(2)] q(1) t(7) by (simp add: questions_ok_def)
    then obtain x where "x \<in> set (rs_slots st0)" "sr_slot x = s" "is_escalated (sr_state x)"
      using q(2) by (auto simp: question_ok_def)
    moreover have "rs_slots st0 ! i \<in> set (rs_slots st0)" "sr_slot (rs_slots st0 ! i) = s" using t(2,4) assms(2) by simp_all
    ultimately have "x = rs_slots st0 ! i"
      using numbered_distinct [OF settledD(1) [OF o(2)]] by (auto simp: distinct_map dest: inj_onD)
    then show "qu_answered q" using \<open>is_escalated (sr_state x)\<close> o(7) by (cases "sr_state x") simp_all
  qed
  then show ?thesis by (simp add: steady_def)
qed

lemma steady_over_restart_or_park:
  assumes "over d st0 i r (\<lambda>_. False) (em_state em)" "s = sr_slot r" "\<not> is_would_not_stop (sr_condition r)" "e \<noteq> RC_WouldNotStop"
    "counters_fit (em_state (restart_or_park i s e em))"
  shows "steady d (em_state (restart_or_park i s e em))"
proof -
  have g: "good True False (\<lambda>_. False) r" by (rule good_over [OF overD(8) [OF assms(1)] assms(3)])
  show ?thesis
    using steady_over_restart [OF assms(1,2) g] steady_over_park [OF assms(1,2), of e] steady_over_park [OF assms(1,2), of RC_FanOutIncomplete] assms(4,5)
    by (auto simp: restart_or_park_def Let_def)
qed

lemma ended_record:
  "is_replied (sr_state r) \<Longrightarrow> is_replied (sr_state (apply_ended c r))"
  "\<not> is_replied (sr_state r) \<Longrightarrow> is_ended (sr_state (apply_ended c r))"
  "sr_condition (apply_ended c r) = None"
  by (cases "sr_state r"; cases c; simp add: apply_ended_def Let_def)+

lemma steady_ended:
  assumes st: "steady d st" and e: "ignored_reason st e = None" "ev_body e = EB_SessionFact k (SF_Ended c)"
    and small: "counters_fit (em_state (emit_fact k (SF_Ended c) (emit_start st e d)))"
  shows "steady d (em_state (emit_fact k (SF_Ended c) (emit_start st e d)))"
proof -
  obtain i r where n: "names_slot d st i r" "fact_ignored st r (SF_Ended c) = None" "\<not> is_finished st"
    and t: "treating d st i (fold_fact (ev_at e) (rs_withdrawn st) (is_superseded st r) (SF_Ended c) r) (clock_of st (sr_slot r)) (em_state (emit_start st e d))"
      "find_session (em_state (emit_start st e d)) k = Some i"
    using fact_start [OF st e] by metis
  let ?em = "emit_start st e d" and ?r = "apply_ended c (r\<lparr>sr_last_fact := Some (ev_at e)\<rparr>)" and ?s = "sr_slot r"
  note nd = names_slotD [OF n(1)]
  have fold: "fold_fact (ev_at e) (rs_withdrawn st) (is_superseded st r) (SF_Ended c) r = ?r" by (simp add: fold_fact_def)
  have sl: "sr_slot (rs_slots (em_state ?em) ! i) = ?s" using treatingD(10) [OF t(1)] by simp
  have em: "emit_fact k (SF_Ended c) ?em = emit_ended i ?s (sr_state r) c ?em"
    unfolding emit_fact_at [OF t(2) nd(4) sl, of "SF_Ended c"] by simp
  define em1 where "em1 = clear_slot_timers ?s ?em"
  have t1: "treating d st i ?r (\<lambda>_. False) (em_state em1)"
    unfolding em1_def by (rule treating_clear_all [OF t(1) [unfolded fold]]) simp
  have g: "good (open_run st) (is_current (slots_of st) ?s) (clock_of st ?s) (r\<lparr>sr_last_fact := Some (ev_at e)\<rparr>)"
    using nd(6) good_cong [of "r\<lparr>sr_last_fact := Some (ev_at e)\<rparr>" r] by simp
  have ph: "rs_phase (em_state em1) = rs_phase st" by (rule treatingD(6) [OF t1])
  have np: "sr_state r \<noteq> SS_Pending" using n(2) by (auto simp: fact_ignored_def)
  show ?thesis
  proof (cases "is_finishing st")
    case True
    then have "\<not> open_run st" "\<not> tree_prepared (em_state em1)" "emit_fact k (SF_Ended c) ?em = em1"
      using ph by (auto simp: open_run_def tree_prepared_def em emit_ended_def em1_def is_finishing_def Let_def split: phase.splits)
    moreover from this have "settled d {} (em_state em1)" using treating_good [OF t1] good_ended [OF g, of c] by simp
    ultimately show ?thesis by (simp add: steady_def waiting_def)
  next
    case False
    then have op: "open_run st" using n(3) by (simp add: open_run_def)
    have fin: "\<not> is_finishing (em_state em1)" using False ph by (simp add: is_finishing_def)
    have body: "emit_fact k (SF_Ended c) ?em =
      (case sr_state r of
        SS_Replied _ _ _ _ _ _ \<Rightarrow> arm_ready em1
      | SS_Stopping _ AS_Nothing \<Rightarrow> arm_ready em1
      | SS_Stopping _ (AS_Restart exhausted) \<Rightarrow> restart_or_park i ?s exhausted em1
      | _ \<Rightarrow>
          (case c of
             EC_TurnComplete \<Rightarrow> restart_or_park i ?s RC_EndedWithoutReply em1
           | EC_Exit _ \<Rightarrow> restart_or_park i ?s RC_StartFailed em1
           | EC_Unknown _ \<Rightarrow> restart_or_park i ?s RC_StartFailed em1
           | EC_Lost \<Rightarrow> restart_or_park i ?s RC_Lost em1
           | EC_UsageLimit resets_at \<Rightarrow> hold i ?s RC_UsageLimit resets_at em1
           | EC_ProviderUnavailable \<Rightarrow> hold i ?s RC_ProviderUnavailable None em1
           | EC_PermissionRefused _ _ \<Rightarrow> push (DE_Parked (Some ?s) RC_PermissionRefused) em1
           | EC_StoppedByHost \<Rightarrow> restart_or_park i ?s RC_Lost em1))"
      unfolding em emit_ended_def em1_def [symmetric] Let_def using fin by simp
    have arm: "steady d (em_state (arm_ready em1))" if "\<not> is_current (slots_of st) ?s \<or> is_replied (sr_state r)"
    proof -
      have "settled d {} (em_state em1)" by (rule treating_good [OF t1]) (use good_ended [OF g, of c] that in simp)
      then show ?thesis using settled_arm_ready(1,2) op treatingD(9) [OF t1] by (simp add: steady_def)
    qed
    show ?thesis
    proof (cases "is_replied (sr_state r) \<or> (\<exists>l. sr_state r = SS_Stopping l AS_Nothing)")
      case True
      have "\<not> is_current (slots_of st) ?s \<or> is_replied (sr_state r)"
        using True nd(6) op by (auto simp: good_def shaped_def)
      moreover have "emit_fact k (SF_Ended c) ?em = arm_ready em1" unfolding body using True by (cases "sr_state r") auto
      ultimately show ?thesis using arm by simp
    next
      case False
      have cur: "is_current (slots_of st) ?s" "\<not> is_ended (sr_state r)"
        using False nd(6) n(2) by (cases "sr_state r"; auto simp: good_def shaped_def fact_ignored_def split: after_stop.splits)+
      have ov: "over d st i ?r (\<lambda>_. False) (em_state em1)"
        using t1 st op nd(4,5) cur(1) np False ended_record(2) [of "r\<lparr>sr_last_fact := Some (ev_at e)\<rparr>" c]
        by (cases "sr_state r") (auto simp: over_def owing_def)
      have stop: "x \<noteq> RC_WouldNotStop" if "sr_state r = SS_Stopping l (AS_Restart x)" for l x
        using nd(6) that by (simp add: good_def shaped_def)
      note go = steady_over_restart_or_park [OF ov] steady_over_hold [OF ov] steady_over_park [OF ov]
      show ?thesis using small go stop ended_record(3) False cur(2) np unfolding body
        by (cases "sr_state r"; cases c) (auto split: after_stop.splits)
    qed
  qed
qed

end
