(* ===== verification/Timer_Steps.thy ===== *)
theory Timer_Steps
  imports Fact_Steps
begin

text \<open>
  The invariant under a fired timer, and under what the host did to a session: a nudge and a signal.
\<close>

section \<open>States that differ where the invariant does not look\<close>

lemma waiting_cong: "rs_slots st' = rs_slots st \<Longrightarrow> rs_phase st' = rs_phase st \<Longrightarrow> waiting st' = waiting st"
  by (simp add: waiting_def persona_is_live_def tree_prepared_def)

lemma steady_cong:
  assumes "steady d st" "same_core st st'" "rs_timers st' = rs_timers st" "rs_phase st' = rs_phase st"
  shows "steady d st'"
  using assms settled_cong [of d "{}" st st'] waiting_cong [of st' st] by (simp add: steady_def same_core_def)

lemma steady_run_timer:
  assumes "steady d (em_state em)" "run_timer t p"
  shows "steady d (em_state (set_timer t n p em))" "steady d (em_state (clear_timer t em))"
proof -
  have p: "p \<noteq> TP_StartDeadline" using assms(2) by (auto simp: run_timer_def)
  have w: "waiting st'" if "same_but_timers (em_state em) st'" for st'
    using assms(1) waiting_cong [of st' "em_state em"] sbtD [OF that] by (simp add: steady_def)
  show "steady d (em_state (set_timer t n p em))" "steady d (em_state (clear_timer t em))"
    using assms settled_run_timers [of d "{}" em t p] w [OF sbt_set(2) [OF p]] w [OF sbt_clear_timer] by (simp_all add: steady_def)
qed

lemma steady_run_timers:
  assumes "steady d (em_state em)"
  shows "steady d (em_state (set_tree_window em))" "steady d (em_state (set_root_deadline em))"
    "steady d (em_state (clear_timer ROOT_DEADLINE_TIMER em))" "steady d (em_state (clear_timer TREE_WINDOW_TIMER em))"
  using steady_run_timer [OF assms run_timer_simps(1)] steady_run_timer [OF assms run_timer_simps(2)]
  by (simp_all add: set_tree_window_def set_root_deadline_def)

text \<open>Parking the run itself, and the counters of the run.\<close>

lemma steady_park_run:
  assumes "steady d (em_state em)"
  shows "steady d (em_state (push (DE_Parked None e) em))"
  by (rule steady_cong [OF assms]) (simp_all add: same_core_phase Let_def)

section \<open>Nudges and signals\<close>

lemma steady_nudged:
  assumes st: "steady d st" and e: "ignored_reason st e = None" "ev_body e = EB_Nudged k"
  shows "steady d (em_state (emit_nudged k (emit_start st e d)))"
proof -
  obtain i t oc where i: "find_session st k = Some i" "sr_state (rs_slots st ! i) = SS_Quiet t oc"
    using e by (auto simp: ignored_reason_def record_by_key_def out_of_state_def split: if_splits option.splits slot_state.splits)
  let ?r = "rs_slots st ! i" and ?em = "emit_start st e d"
  note nd = names_slotD [OF names_slot_session [OF st i(1)]]
  have tm: "tame ?r (slot_nudged (ev_at e) ?r)" using i(2) by (simp add: tame_def calm_def slot_nudged_def)
  have em: "em_state ?em = upd_slot i (slot_nudged (ev_at e)) st" using e i(1) by (simp add: apply_input_acted fold_input_def)
  have tr: "treating d st i (slot_nudged (ev_at e) ?r) (clock_of st (sr_slot ?r)) (em_state ?em)"
    unfolding em by (rule treating_upd [OF nd(8) tm]) simp
  have fs: "find_session (em_state ?em) k = Some i"
    unfolding em using i(1) find_session_cong [of "upd_slot i _ st" st] by (simp add: map_update_at)
  have sl: "sr_slot (rs_slots (em_state ?em) ! i) = sr_slot ?r" using treatingD(10) [OF tr] by simp
  have "treating d st i (slot_nudged (ev_at e) ?r) ((clock_of st (sr_slot ?r))(CK TP_Confirm := True)) (em_state (emit_nudged k ?em))"
    unfolding emit_nudged_def fs option.case sl by (rule treating_set [OF tr]) simp_all
  then show ?thesis
    by (rule treating_steady [OF _ nd(2)]) (use i(2) good_nudged [OF nd(6) i(2)] in \<open>simp_all add: slot_nudged_def\<close>)
qed

lemma steady_signalled:
  assumes st: "steady d st" and e: "ignored_reason st e = None" "ev_body e = EB_StopSignalled k n x"
  shows "steady d (em_state (emit_stop_signalled k (emit_start st e d)))"
proof -
  obtain i l where i: "find_session st k = Some i" "ss_ladder (sr_state (rs_slots st ! i)) = Some l"
    using e by (auto simp: ignored_reason_def record_by_key_def out_of_state_def is_some_and_iff split: if_splits option.splits)
  let ?r = "rs_slots st ! i" and ?em = "emit_start st e d"
  define w where "w = min u8_max (la_signals_sent l + 1)"
  have w: "w \<le> u8_max" by (simp add: w_def)
  note nd = names_slotD [OF names_slot_session [OF st i(1)]]
  have tm: "tame ?r (slot_signalled ?r)" using i(2)
    by (cases "sr_state ?r") (auto simp: tame_def calm_def slot_signalled_def elim: unfinished.elims is_flying.elims)
  have em: "em_state ?em = upd_slot i slot_signalled st" using e i(1) by (simp add: apply_input_acted fold_input_def)
  have tr: "treating d st i (slot_signalled ?r) (clock_of st (sr_slot ?r)) (em_state ?em)"
    unfolding em by (rule treating_upd [OF nd(8) tm]) simp
  have fs: "find_session (em_state ?em) k = Some i"
    unfolding em using i(1) find_session_cong [of "upd_slot i _ st" st] by (simp add: map_update_at)
  have sent: "ss_ladder (sr_state (slot_signalled ?r)) = Some (l\<lparr>la_signals_sent := w, la_total := la_total l + 1\<rparr>)"
    using i(2) by (simp add: slot_signalled_def w_def)
  have "treating d st i (slot_signalled ?r) (if w = 1 \<or> w = 2 then (clock_of st (sr_slot ?r))(GR w := True) else clock_of st (sr_slot ?r))
    (em_state (emit_stop_signalled k ?em))"
    using treating_set_grace [OF tr _ w] tr unfolding emit_stop_signalled_def fs option.case treatingD(10) [OF tr] Let_def sent
    by auto
  then show ?thesis
    by (rule treating_steady [OF _ nd(2)])
       (use good_signalled [OF nd(6) i(2) w_def] in \<open>cases "sr_state ?r"; simp add: slot_signalled_def\<close>)+
qed

section \<open>Fired timers\<close>

text \<open>An armed timer is one of the run's two, or a clock of a slot.\<close>

lemma armed_cases:
  assumes "settled d {} st" "map_of (rs_timers st) t = Some a"
  obtains (root) "t = ROOT_DEADLINE_TIMER" "at_purpose a = TP_RootDeadline"
    | (tree) "t = TREE_WINDOW_TIMER" "at_purpose a = TP_TreeWindow"
    | (slot) i r c where "i < length (rs_slots st)" "rs_slots st ! i = r" "slot_clock c" "t = clock_id c (sr_slot r)"
        "at_purpose a = clock_purpose c" "clock_of st (sr_slot r) c"
proof -
  have "timer_named st t (at_purpose a)" using settledD(3) [OF assms(1)] assms(2) by (simp add: timers_named_def)
  then show thesis using root tree slot assms(2) unfolding timer_named_def clock_of_def by (metis in_set_conv_nth option.distinct(1))
qed

lemma treating_fired:
  assumes "settled d {} st" "i < length (rs_slots st)" "rs_slots st ! i = r" "slot_clock c"
    "map_of (rs_timers st) (clock_id c (sr_slot r)) = Some a"
  shows "treating d st i r ((clock_of st (sr_slot r))(c := False)) (st\<lparr>rs_timers := bt_remove (clock_id c (sr_slot r)) (rs_timers st)\<rparr>)"
proof -
  let ?em = "\<lparr>em_before = st, em_state = st, em_at = 0, em_def = d, em_out = []\<rparr>"
  have cl: "em_state (clear_timer (clock_id c (sr_slot r)) ?em) = st\<lparr>rs_timers := bt_remove (clock_id c (sr_slot r)) (rs_timers st)\<rparr>"
    using assms(5) by (simp add: clear_timer_def)
  have t: "treating d st i r (clock_of st (sr_slot r)) st" by (rule treating_begin [OF assms(1-3)])
  note td = treatingD [OF t]
  show ?thesis
    using settled_clear_clock [of d "{sr_slot r}" ?em r "sr_slot r" c] td(1,11) assms(4) unfolding cl
    by (intro treating_timers [OF t]) (simp_all add: same_but_timers_def)
qed

text \<open>A clock of the slot with index \<open>i\<close> fires; what the input's fold makes of the state.\<close>

definition fires :: "flow_def \<Rightarrow> run_state \<Rightarrow> event \<Rightarrow> nat \<Rightarrow> slot_record \<Rightarrow> clock \<Rightarrow> timestamp \<Rightarrow> bool" where
  "fires d st e i r c f \<longleftrightarrow> steady d st \<and> ignored_reason st e = None \<and> ev_body e = EB_TimerFired (clock_id c (sr_slot r)) f \<and>
     i < length (rs_slots st) \<and> rs_slots st ! i = r \<and> slot_clock c \<and>
     map_option at_purpose (map_of (rs_timers st) (clock_id c (sr_slot r))) = Some (clock_purpose c)"

abbreviation fired_state :: "run_state \<Rightarrow> slot_record \<Rightarrow> clock \<Rightarrow> run_state" where
  "fired_state st r c \<equiv> st\<lparr>rs_timers := bt_remove (clock_id c (sr_slot r)) (rs_timers st)\<rparr>"

lemma firesD:
  assumes "fires d st e i r c f"
  shows "settled d {} st" "waiting st" "good (open_run st) (is_current (slots_of st) (sr_slot r)) (clock_of st (sr_slot r)) r"
    "clock_of st (sr_slot r) c" "fit (sr_slot r)" "treating d st i r ((clock_of st (sr_slot r))(c := False)) (fired_state st r c)"
    "em_state (emit_start st e d) =
       (if is_deferred st (clock_id c (sr_slot r)) f (ev_at e) then fired_state st r c
        else apply_firing (fired_state st r c) (clock_id c (sr_slot r)) (clock_purpose c) e)"
    "timer_slot (clock_id c (sr_slot r)) = Some (sr_slot r)" "rs_slots st ! i = r" "may (is_current (slots_of st) (sr_slot r)) r c"
proof -
  note a = assms [unfolded fires_def]
  show s: "settled d {} st" "waiting st" using a by (simp_all add: steady_def)
  have r: "r \<in> set (rs_slots st)" using a nth_mem by blast
  then show g: "good (open_run st) (is_current (slots_of st) (sr_slot r)) (clock_of st (sr_slot r)) r"
    using settledD(8) [OF s(1)] by (simp add: slot_good_def)
  show c: "clock_of st (sr_slot r) c" using a by (auto simp: clock_of_def)
  then show "may (is_current (slots_of st) (sr_slot r)) r c" using g by (simp add: good_def)
  show f: "fit (sr_slot r)" by (rule settled_fit [OF s(1) r])
  obtain x where x: "map_of (rs_timers st) (clock_id c (sr_slot r)) = Some x" "at_purpose x = clock_purpose c" using a by auto
  show "treating d st i r ((clock_of st (sr_slot r))(c := False)) (fired_state st r c)"
    using treating_fired [OF s(1) _ _ _ x(1)] a by blast
  show "em_state (emit_start st e d) =
       (if is_deferred st (clock_id c (sr_slot r)) f (ev_at e) then fired_state st r c
        else apply_firing (fired_state st r c) (clock_id c (sr_slot r)) (clock_purpose c) e)"
    using a x by (simp add: apply_input_acted fold_input_def Let_def)
  show "timer_slot (clock_id c (sr_slot r)) = Some (sr_slot r)" by (rule timer_slot_clock [OF f])
  show "rs_slots st ! i = r" using a by blast
qed

lemma fires_done:
  assumes "fires d st e i r c f" "treating d st i r' k st'" "sr_state r' = SS_Pending \<Longrightarrow> sr_state r = SS_Pending"
    "ss_is_live (sr_state r) \<Longrightarrow> ss_is_live (sr_state r')" "good (open_run st) (is_current (slots_of st) (sr_slot r)) k r'" "sr_slot r' = sr_slot r"
  shows "steady d st'"
  by (rule treating_steady [OF assms(2) firesD(2) [OF assms(1)]]) (use assms(3-6) firesD(9) [OF assms(1)] in simp_all)

text \<open>A host that was not looking: the clock is set anew.\<close>

lemma steady_deferred:
  assumes f: "fires d st e i r c f" and late: "is_deferred st (clock_id c (sr_slot r)) f (ev_at e)"
  shows "steady d (em_state (set_timer (clock_id c (sr_slot r)) n (clock_purpose c) (emit_start st e d)))"
proof -
  note fd = firesD [OF f]
  let ?k = "clock_of st (sr_slot r)" and ?em = "emit_start st e d"
  have t: "treating d st i r (?k(c := False)) (em_state ?em)" using fd(6,7) late by simp
  have k: "?k(c := False, c := True) = ?k" using fd(4) by (simp add: fun_upd_idem)
  have sc: "slot_clock c" using f by (simp add: fires_def)
  show ?thesis
  proof (cases "c = CK TP_StartDeadline")
    case True
    then obtain u where u: "sr_state r = SS_Starting u"
      using fd(10) by (auto simp: may_def split: slot_state.splits option.splits)
    have "treating d st i (r\<lparr>sr_state := SS_Starting (ts_plus (em_at ?em) n)\<rparr>) ?k (em_state (set_timer (clock_id c (sr_slot r)) n (clock_purpose c) ?em))"
      using treating_set_start [OF t refl u, of n] k unfolding True by (simp add: set_slot_timer_def)
    then show ?thesis by (rule fires_done [OF f]) (use u fd(3) in \<open>simp_all add: good_defs\<close>)
  next
    case False
    then have "clock_purpose c \<noteq> TP_StartDeadline" by (cases c) auto
    from treating_set_clock [OF t sc refl this] have "treating d st i r ?k (em_state (set_timer (clock_id c (sr_slot r)) n (clock_purpose c) ?em))"
      unfolding k set_timer_def .
    then show ?thesis by (rule fires_done [OF f]) (use fd(3) in simp_all)
  qed
qed

text \<open>One lemma per purpose, for a clock that fired in time.\<close>

lemma steady_start_failed:
  assumes f: "fires d st e i r (CK TP_StartDeadline) f" and t: "\<not> is_deferred st (clock_id (CK TP_StartDeadline) (sr_slot r)) f (ev_at e)"
  shows "steady d (em_state (conclude (sr_slot r) RC_StartFailed (emit_start st e d)))"
proof -
  note fd = firesD [OF f]
  let ?k = "clock_of st (sr_slot r)" and ?em = "emit_start st e d"
  obtain u where u: "sr_state r = SS_Starting u" using fd(10) by (auto simp: may_def split: slot_state.splits option.splits)
  have k: "?k(CK TP_StartDeadline := False) = (\<lambda>_. False)" using fd(3) u by (auto simp: good_def may_def fun_eq_iff)
  have "treating d st i r (\<lambda>_. False) (em_state ?em)" using fd(6,7) t k by (simp add: apply_firing_def)
  from treating_conclude [OF this refl, of RC_StartFailed] show ?thesis
    by (rule fires_done [OF f])
       (use u fd(3) good_concluded [OF fd(3), of RC_StartFailed] in \<open>simp_all add: good_def shaped_def\<close>)
qed

lemma steady_quiet_fired:
  assumes f: "fires d st e i r (CK TP_Quiet) f"
  shows "steady d (em_state (emit_quiet (sr_slot r) (emit_start st e d)))"
proof -
  note fd = firesD [OF f]
  let ?k = "clock_of st (sr_slot r)" and ?em = "emit_start st e d"
  obtain b where u: "sr_state r = SS_Running b None" using fd(10) by (auto simp: may_def split: slot_state.splits option.splits)
  have k: "?k(CK TP_Quiet := False) = (\<lambda>_. False)" using fd(3) u by (auto simp: good_def may_def fun_eq_iff)
  have "treating d st i r (\<lambda>_. False) (em_state ?em)" using fd(6,7) k by (simp add: apply_firing_def)
  from treating_quiet [OF this refl u] show ?thesis
    by (rule fires_done [OF f]) (use u good_quiet [OF fd(3) u refl] in simp_all)
qed

lemma steady_idle_fired:
  assumes f: "fires d st e i r (CK TP_SubprocessIdle) f"
  shows "steady d (em_state (emit_quiet (sr_slot r) (clear_slot_timer (sr_slot r) TP_CallBound (emit_start st e d))))"
proof -
  note fd = firesD [OF f]
  let ?k = "clock_of st (sr_slot r)" and ?em = "emit_start st e d"
  obtain b u where u: "sr_state r = SS_Running b (Some u)" using fd(10) by (auto simp: may_def split: slot_state.splits option.splits)
  have k: "?k(CK TP_SubprocessIdle := False, CK TP_CallBound := False) = (\<lambda>_. False)"
    using fd(3) u by (auto simp: good_def may_def fun_eq_iff)
  have "treating d st i r (?k(CK TP_SubprocessIdle := False)) (em_state ?em)" using fd(6,7) by (simp add: apply_firing_def)
  from treating_clear [OF this refl, of TP_CallBound] have "treating d st i r (\<lambda>_. False) (em_state (clear_slot_timer (sr_slot r) TP_CallBound ?em))"
    unfolding k by simp
  from treating_quiet [OF this refl u] show ?thesis
    by (rule fires_done [OF f]) (use u good_quiet [OF fd(3) u refl] in simp_all)
qed

lemma steady_call_bound_fired:
  assumes f: "fires d st e i r (CK TP_CallBound) f"
  shows "steady d (em_state (emit_call_bound (sr_slot r) (emit_start st e d)))"
proof -
  note fd = firesD [OF f]
  let ?k = "clock_of st (sr_slot r)" and ?em = "emit_start st e d"
  obtain b u where u: "sr_state r = SS_Running b (Some u)" using fd(10) by (auto simp: may_def split: slot_state.splits option.splits)
  have t: "treating d st i r (?k(CK TP_CallBound := False)) (em_state ?em)" using fd(6,7) by (simp add: apply_firing_def)
  note td = treatingD [OF t]
  show ?thesis
  proof (cases "sr_blind r")
    case False
    then have "emit_call_bound (sr_slot r) ?em = ?em" using td(10,13) by (simp add: emit_call_bound_def)
    then show ?thesis using fires_done [OF f t] good_call_bound [OF fd(3) u False] by simp
  next
    case True
    have k: "?k(CK TP_CallBound := False, CK TP_SubprocessIdle := False) = (\<lambda>_. False)"
      using fd(3) u by (auto simp: good_def may_def fun_eq_iff)
    have em: "emit_call_bound (sr_slot r) ?em = emit_quiet (sr_slot r) (clear_slot_timer (sr_slot r) TP_SubprocessIdle ?em)"
      using True td(10,13) by (simp add: emit_call_bound_def)
    have "treating d st i r (\<lambda>_. False) (em_state (clear_slot_timer (sr_slot r) TP_SubprocessIdle ?em))"
      using treating_clear [OF t refl, of TP_SubprocessIdle] unfolding k by simp
    from treating_quiet [OF this refl u] show ?thesis unfolding em
      by (rule fires_done [OF f]) (use u good_quiet [OF fd(3) u refl] in simp_all)
  qed
qed

lemma steady_hung:
  assumes f: "fires d st e i r (CK TP_Confirm) f" and t: "\<not> is_deferred st (clock_id (CK TP_Confirm) (sr_slot r)) f (ev_at e)"
  shows "steady d (em_state (conclude (sr_slot r) RC_Hung (clear_slot_timers (sr_slot r) (emit_start st e d))))"
proof -
  note fd = firesD [OF f]
  let ?em = "emit_start st e d"
  have w: "is_working (sr_state r)" using fd(10) by (auto simp: may_def split: slot_state.splits option.splits)
  have "treating d st i r ((clock_of st (sr_slot r))(CK TP_Confirm := False)) (em_state ?em)" using fd(6,7) t by (simp add: apply_firing_def)
  then have "treating d st i r (\<lambda>_. False) (em_state (clear_slot_timers (sr_slot r) ?em))" by (rule treating_clear_all) simp
  from treating_conclude [OF this refl w, of RC_Hung] show ?thesis
  proof (rule fires_done [OF f])
    have "sr_condition r = None" using fd(3) w by (cases "sr_state r") (simp_all add: good_def shaped_def)
    then show "good (open_run st) (is_current (slots_of st) (sr_slot r)) (\<lambda>_. False)
      (r\<lparr>sr_state := SS_Stopping (ladder_new (em_at (clear_slot_timers (sr_slot r) ?em)) (rs_withdrawn (em_state (clear_slot_timers (sr_slot r) ?em)))) (AS_Restart RC_Hung)\<rparr>)"
      by (intro good_concluded [OF fd(3) w, of RC_Hung]) simp_all
  qed (use w in auto)
qed

lemma treating_fired_upd:
  assumes f: "fires d st e i r c f" and tm: "tame r r'" "g r = r'"
  shows "treating d st i r' ((clock_of st (sr_slot r))(c := False)) (upd_timer_slot (clock_id c (sr_slot r)) g (fired_state st r c))"
  using treating_upd [OF firesD(6) [OF f] tm(1), of g] tm(2) treatingD(13) [OF firesD(6) [OF f]] firesD(8) [OF f]
  by (simp add: upd_timer_slot_def)

lemma tame_grace: "tame r (slot_grace g r)"
  by (cases "sr_state r") (auto simp: tame_def calm_def slot_grace_def elim: unfinished.elims is_flying.elims)

lemma steady_grace_fired:
  assumes f: "fires d st e i r (GR n) f" and t: "\<not> is_deferred st (clock_id (GR n) (sr_slot r)) f (ev_at e)"
  shows "steady d (em_state (grace_over (clock_id (GR n) (sr_slot r)) (sr_slot r) (emit_start st e d)))"
proof -
  note fd = firesD [OF f]
  let ?k = "clock_of st (sr_slot r)" and ?em = "emit_start st e d" and ?g = "if n = 2 then GF_Second else GF_First"
  let ?r = "slot_grace ?g r"
  have nth: "grace_nth (grace_timer n (sr_slot r)) = Some n" using f by (simp add: fires_def)
  obtain l where l: "ss_ladder (sr_state r) = Some l" using fd(10) by (auto simp: may_def split: slot_state.splits option.splits)
  have tr: "treating d st i ?r (?k(GR n := False)) (em_state ?em)"
    using treating_fired_upd [OF f tame_grace, of "slot_grace ?g" ?g] fd(7) t nth by (simp add: apply_firing_def Let_def)
  note td = treatingD [OF tr]
  have l': "ss_ladder (sr_state ?r) = Some (l\<lparr>la_fired := max (la_fired l) ?g\<rparr>)" using l by (simp add: slot_grace_def)
  have live: "sr_state ?r = SS_Pending \<Longrightarrow> sr_state r = SS_Pending" "ss_is_live (sr_state r) \<Longrightarrow> ss_is_live (sr_state ?r)"
    by (cases "sr_state r"; simp add: slot_grace_def)+
  show ?thesis
  proof (cases "n = 2 \<and> \<not> la_forced l")
    case False
    then have "grace_over (clock_id (GR n) (sr_slot r)) (sr_slot r) ?em = ?em"
      using td(10,13) l' nth by (auto simp: grace_over_def Let_def)
    moreover have "good (open_run st) (is_current (slots_of st) (sr_slot r)) (?k(GR n := False)) ?r"
      by (rule good_grace [OF fd(3,4) l, of "sr_condition r"]) (use False in \<open>simp_all add: slot_grace_def\<close>)
    ultimately show ?thesis using fires_done [OF f tr live] by simp
  next
    case True
    then have em: "grace_over (clock_id (GR n) (sr_slot r)) (sr_slot r) ?em = push (DE_Parked (Some (sr_slot r)) RC_WouldNotStop) ?em"
      using td(10,13) l' nth by (auto simp: grace_over_def Let_def)
    obtain ord where "treating d st i (?r\<lparr>sr_condition := Some (SC_Parked RC_WouldNotStop ord (em_at ?em))\<rparr>) (?k(GR n := False))
        (em_state (push (DE_Parked (Some (sr_slot r)) RC_WouldNotStop) ?em))"
      using treating_park [OF tr, of "sr_slot r" RC_WouldNotStop] by auto
    then show ?thesis unfolding em
    proof (rule fires_done [OF f])
      show "good (open_run st) (is_current (slots_of st) (sr_slot r)) (?k(GR n := False)) (?r\<lparr>sr_condition := Some (SC_Parked RC_WouldNotStop ord (em_at ?em))\<rparr>)"
        by (rule good_grace [OF fd(3,4) l]) (use True in simp_all)
    qed (use live in simp_all)
  qed
qed

lemma steady_wind_down_fired:
  assumes f: "fires d st e i r (CK TP_WindDown) f" and t: "\<not> is_deferred st (clock_id (CK TP_WindDown) (sr_slot r)) f (ev_at e)"
  shows "steady d (em_state (emit_start st e d))"
proof -
  note fd = firesD [OF f]
  let ?r = "r\<lparr>sr_state := start_reply_stop (ev_at e) (rs_withdrawn st) (sr_state r)\<rparr>"
  obtain m x n od where u: "sr_state r = SS_Replied m x n PR_Live od None"
    using fd(10) by (auto simp: may_def split: slot_state.splits option.splits)
  have tm: "tame r ?r" using u by (cases x) (simp_all add: tame_def calm_def start_reply_stop_def)
  have "treating d st i ?r ((clock_of st (sr_slot r))(CK TP_WindDown := False)) (em_state (emit_start st e d))"
    using treating_fired_upd [OF f tm, of "\<lambda>r. r\<lparr>sr_state := start_reply_stop (ev_at e) (rs_withdrawn st) (sr_state r)\<rparr>"] fd(7) t
    by (simp add: apply_firing_def)
  then show ?thesis
    by (rule fires_done [OF f]) (use u good_wind_down [OF fd(3) u] in \<open>simp_all add: start_reply_stop_def\<close>)
qed

lemma steady_retry_fired:
  assumes f: "fires d st e i r (CK TP_HoldRetry) f" and small: "counters_fit (em_state (restart (sr_slot r) (emit_start st e d)))"
  shows "steady d (em_state (restart (sr_slot r) (emit_start st e d)))"
proof -
  note fd = firesD [OF f]
  let ?k = "(clock_of st (sr_slot r))(CK TP_HoldRetry := False)"
  have u: "is_ended (sr_state r)" "is_current (slots_of st) (sr_slot r)" "is_held (sr_condition r)"
    using fd(10) by (auto simp: may_def split: slot_state.splits option.splits)
  have op: "open_run st" using fd(3) u by (cases "sr_state r") (simp_all add: good_def shaped_def)
  have tr: "treating d st i r ?k (em_state (emit_start st e d))" using fd(6,7) by (simp add: apply_firing_def)
  have "r \<in> set (rs_slots st)" using fd(9) treatingD(2) [OF tr] nth_mem by blast
  then have ov: "over d st i r ?k (em_state (emit_start st e d))"
    using tr fd(1,2,9) op u by (cases "sr_state r") (auto simp: over_def steady_def owing_def)
  show ?thesis by (rule steady_over_restart [OF ov refl _ small]) (use good_retry [OF fd(3) u(1)] op in simp)
qed

text \<open>The timers of the run.\<close>

lemma steady_run_fired:
  assumes st: "steady d st" and e: "ignored_reason st e = None" "ev_body e = EB_TimerFired t f"
    and t: "map_of (rs_timers st) t = Some a" "run_timer t (at_purpose a)"
  shows "steady d (em_state (emit_timer_fired t f (emit_start st e d)))"
proof -
  let ?now = "\<lparr>em_before = st, em_state = st, em_at = 0, em_def = d, em_out = []\<rparr>" and ?em = "emit_start st e d"
  let ?st1 = "st\<lparr>rs_timers := bt_remove t (rs_timers st)\<rparr>"
  have st1: "steady d ?st1" using steady_run_timer(2) [of d ?now t] st t by (simp add: clear_timer_def)
  have em: "em_state ?em = (if is_deferred st t f (ev_at e) then ?st1 else apply_firing ?st1 t (at_purpose a) e)"
    using e t(1) by (simp add: apply_input_acted fold_input_def Let_def)
  have "steady d (?st1\<lparr>rs_root_periods := n\<rparr>)" "steady d (?st1\<lparr>rs_tree_cancel_owed := b\<rparr>)" for n b
    by (rule steady_cong [OF st1]; simp add: same_core_phase)+
  then have s: "steady d (em_state ?em)" using st1 t(2) unfolding em by (auto simp: run_timer_def apply_firing_def)
  show ?thesis
  proof (cases "is_deferred st t f (ev_at e)")
    case True
    then show ?thesis using steady_run_timer(1) [OF s t(2)] t(1) by (simp add: emit_timer_fired_def)
  next
    case False
    then show ?thesis using t s steady_park_run [OF s] steady_run_timers(2) [OF s]
      by (auto simp: emit_timer_fired_def run_timer_def root_period_def)
  qed
qed

lemma steady_timer_fired:
  assumes st: "steady d st" and e: "ignored_reason st e = None" "ev_body e = EB_TimerFired t f"
    and small: "counters_fit (em_state (emit_timer_fired t f (emit_start st e d)))"
  shows "steady d (em_state (emit_timer_fired t f (emit_start st e d)))"
proof -
  obtain a where a: "map_of (rs_timers st) t = Some a"
    using e by (auto simp: ignored_reason_def split: if_splits)
  have s: "settled d {} st" using st by (simp add: steady_def)
  from s a show ?thesis
  proof (cases rule: armed_cases)
    case root
    then show ?thesis using steady_run_fired [OF st e a] by (simp add: run_timer_def)
  next
    case tree
    then show ?thesis using steady_run_fired [OF st e a] by (simp add: run_timer_def)
  next
    case (slot i r c)
    have fs: "fires d st e i r c f" using st e slot a by (simp add: fires_def)
    note fd = firesD [OF fs]
    let ?em = "emit_start st e d"
    show ?thesis
    proof (cases "is_deferred st (clock_id c (sr_slot r)) f (ev_at e)")
      case True
      then show ?thesis using steady_deferred [OF fs True] a slot(4,5) by (simp add: emit_timer_fired_def)
    next
      case False
      show ?thesis
      proof (cases c)
        case (GR n)
        then show ?thesis using steady_grace_fired [of d st e i r n f] fs False a slot(4,5) fd(8)
          by (simp add: emit_timer_fired_def del: clock_id.simps)
      next
        case (CK p)
        have em: "emit_timer_fired t f ?em =
          (case p of TP_StartDeadline \<Rightarrow> conclude (sr_slot r) RC_StartFailed ?em
                   | TP_Quiet \<Rightarrow> emit_quiet (sr_slot r) ?em
                   | TP_SubprocessIdle \<Rightarrow> emit_quiet (sr_slot r) (clear_slot_timer (sr_slot r) TP_CallBound ?em)
                   | TP_CallBound \<Rightarrow> emit_call_bound (sr_slot r) ?em
                   | TP_Confirm \<Rightarrow> conclude (sr_slot r) RC_Hung (clear_slot_timers (sr_slot r) ?em)
                   | TP_HoldRetry \<Rightarrow> restart (sr_slot r) ?em
                   | _ \<Rightarrow> ?em)"
          using False a slot(3-5) fd(8) unfolding CK by (cases p) (simp_all add: emit_timer_fired_def del: clock_id.simps)
        note cases = steady_start_failed steady_quiet_fired steady_idle_fired steady_call_bound_fired steady_hung
          steady_wind_down_fired [unfolded emit_start_simps]
        show ?thesis
          using fs False slot(3) small fd(10) unfolding em CK
          by (cases p) (auto simp: may_def intro: cases steady_retry_fired split: slot_state.splits option.splits)
      qed
    qed
  qed
qed

end
