(* ===== verification/Run_Steps.thy ===== *)
theory Run_Steps
  imports Timer_Steps
begin

text \<open>
  The invariant under what a person does (a resume, a withdrawal) and under the outcomes of the root, of the claim
  and of the tree.
\<close>

section \<open>Resume\<close>

lemma steady_resume:
  assumes st: "steady d st" and e: "ignored_reason st e = None" "ev_body e = EB_Resume so"
    and small: "counters_fit (em_state (emit_resume so (emit_start st e d)))"
  shows "steady d (em_state (emit_resume so (emit_start st e d)))"
proof -
  have op: "open_run st" and tgt: "resume_target st so \<noteq> None"
    using e by (auto simp: ignored_reason_def out_of_state_def open_run_def split: if_splits)
  obtain i where i: "resume_target st so = Some i" using tgt by blast
  have il: "i < length (rs_slots st)" "has_current_condition st i" using resume_target_SomeD [OF i] by auto
  let ?r = "rs_slots st ! i" and ?em = "emit_start st e d"
  have n: "names_slot d st i ?r" using st il(1) by (simp add: names_slot_def)
  note nd = names_slotD [OF n]
  have cur: "is_current (slots_of st) (sr_slot ?r)" "sr_condition ?r \<noteq> None" using il(2) nd(7) by (auto simp: has_current_condition_def)
  have em: "em_state ?em = upd_slot i fold_resume st" using e i by (simp add: apply_input_acted fold_input_def)
  have tm: "tame ?r (fold_resume ?r)"
    by (cases "sr_state ?r") (auto simp: tame_def calm_def fold_resume_def elim: is_flying.elims)
  have tr: "treating d st i (fold_resume ?r) (clock_of st (sr_slot ?r)) (em_state ?em)"
    unfolding em by (rule treating_upd [OF nd(8) tm]) simp
  show ?thesis
  proof (cases "is_would_not_stop (sr_condition ?r)")
    case True
    then have "emit_resume so ?em = ?em" using i by (auto simp: emit_resume_def Let_def split: option.split slot_condition.split)
    moreover have "good (open_run st) (is_current (slots_of st) (sr_slot ?r)) (clock_of st (sr_slot ?r)) (fold_resume ?r)"
      by (rule good_resumed [OF nd(6) True]) (use op cur in simp)
    ultimately show ?thesis
      using treating_steady [OF tr nd(2)] by (cases "sr_state ?r") (auto simp: fold_resume_def True)
  next
    case False
    have en: "is_ended (sr_state ?r)" "fold_resume ?r = ?r\<lparr>sr_condition := None, sr_fresh := True\<rparr>"
      using nd(6) op cur False by (cases "sr_state ?r"; auto simp: good_def shaped_def fold_resume_def split: after_stop.splits)+
    have k: "(clock_of st (sr_slot ?r))(CK TP_HoldRetry := False) = (\<lambda>_. False)"
      "\<not> is_held (sr_condition ?r) \<Longrightarrow> clock_of st (sr_slot ?r) = (\<lambda>_. False)"
      using nd(6) en(1) by (cases "sr_state ?r"; auto simp: good_def may_def fun_eq_iff)+
    have ov: "over d st i (fold_resume ?r) k st'" if "treating d st i (fold_resume ?r) k st'" for k st'
      using that st op cur nd(5) en by (cases "sr_state ?r") (auto simp: over_def owing_def)
    have g: "good True False (\<lambda>_. False) (fold_resume ?r)" by (rule good_over) (use en in simp_all)
    have sl: "sr_slot ?r = sr_slot (fold_resume ?r)" by simp
    show ?thesis
    proof (cases "is_held (sr_condition ?r)")
      case True
      have "emit_resume so ?em = restart (sr_slot ?r) (clear_slot_timer (sr_slot ?r) TP_HoldRetry ?em)"
        using True i by (auto simp: emit_resume_def Let_def is_held_def split: option.splits slot_condition.splits)
      moreover have "treating d st i (fold_resume ?r) (\<lambda>_. False) (em_state (clear_slot_timer (sr_slot ?r) TP_HoldRetry ?em))"
        using treating_clear [OF tr sl, of TP_HoldRetry] k(1) by simp
      ultimately show ?thesis using steady_over_restart [OF ov _ g] small by simp
    next
      case held: False
      have "emit_resume so ?em = restart (sr_slot ?r) ?em"
        using held False cur(2) i by (auto simp: emit_resume_def Let_def is_held_def is_would_not_stop_def split: option.splits slot_condition.splits)
      then show ?thesis using steady_over_restart [OF ov _ g] small tr k(2) [OF held] by simp
    qed
  qed
qed

section \<open>Withdrawal\<close>

lemma tame_withdrawn: "tame r (fold_withdrawn r)"
  by (cases "sr_state r") (auto simp: tame_def calm_def fold_withdrawn_def elim: is_flying.elims)

lemma settled_withdrawn:
  assumes "settled d {} st"
  shows "settled d {} (st\<lparr>rs_withdrawn := True, rs_slots := map fold_withdrawn (rs_slots st)\<rparr>)"
proof -
  let ?st = "st\<lparr>rs_withdrawn := True, rs_slots := map fold_withdrawn (rs_slots st)\<rparr>"
  have all: "list_all2 tame (rs_slots st) (rs_slots ?st)" by (simp add: list_all2_conv_all_nth tame_withdrawn)
  have sl: "slots_of ?st = slots_of st" by (rule tame_slots [OF all])
  have op: "open_run ?st = open_run st" by (rule open_run_cong) simp
  show ?thesis
  proof (rule settled_tame [OF assms all])
    show "timers_named ?st" by (rule timers_named_cong [OF settledD(3) [OF assms] sl]) simp
    fix x assume "x \<in> set (rs_slots ?st)"
    then obtain r where "r \<in> set (rs_slots st)" "x = fold_withdrawn r" by auto
    then show "slot_good ?st x"
      using settledD(8) [OF assms, of r] good_withdrawn clock_of_cong [of ?st st] unfolding slot_good_def op sl by simp
  qed simp_all
qed

lemma finished_run_waiting: "waiting (em_state (finish_run oc reason em))"
  using finish_run_state(1) [of oc reason em] by (simp add: waiting_def tree_prepared_def)

lemma steady_withdrawn:
  assumes st: "steady d st" and e: "ignored_reason st e = None" "ev_body e = EB_Withdrawn m b"
  shows "steady d (em_state (emit_withdrawn b (emit_start st e d)))"
proof -
  let ?em = "emit_start st e d"
  have em: "em_state ?em = st\<lparr>rs_withdrawn := True, rs_slots := map fold_withdrawn (rs_slots st)\<rparr>"
    using e by (simp add: apply_input_acted fold_input_def)
  have s: "settled d {} (em_state ?em)" unfolding em by (rule settled_withdrawn) (use st in \<open>simp add: steady_def\<close>)
  have nf: "\<not> is_finished st" using e by (auto simp: ignored_reason_def split: if_splits)
  show ?thesis
  proof (cases "is_finishing st")
    case True
    then have "\<not> tree_prepared (em_state ?em)" unfolding em by (auto simp: is_finishing_def tree_prepared_def)
    then show ?thesis using s True by (simp add: emit_withdrawn_def steady_def waiting_def)
  next
    case False
    have "open_run (em_state ?em)" unfolding em using False nf by (simp add: open_run_def is_finishing_def is_finished_def)
    then show ?thesis using settled_finish_run [OF s] finished_run_waiting False by (simp add: emit_withdrawn_def steady_def)
  qed
qed

section \<open>The root, the claim and the tree\<close>

lemma steady_fields:
  assumes "steady d st" "rs_slots st' = rs_slots st" "rs_visits st' = rs_visits st" "rs_questions st' = rs_questions st"
    "rs_run st' = rs_run st" "rs_phase st' = rs_phase st" "rs_current_step st' = rs_current_step st" "rs_timers st' = rs_timers st"
  shows "steady d st'"
  by (rule steady_cong [OF assms(1) same_core_phase [OF assms(2-7)] assms(8,6)])

text \<open>A run that does not run yet, or no more, may change its phase among such phases.\<close>

lemma steady_phase:
  assumes "steady d st" "rs_slots st' = rs_slots st" "rs_visits st' = rs_visits st" "rs_questions st' = rs_questions st"
    "rs_run st' = rs_run st" "rs_current_step st' = rs_current_step st" "rs_timers st' = rs_timers st"
    "open_run st' = open_run st" "\<And>p. rs_phase st \<noteq> PH_Running p" "\<And>p. rs_phase st' \<noteq> PH_Running p"
  shows "steady d st'"
proof -
  have "settled d {} st'"
    by (rule settled_cong) (use assms in \<open>simp_all add: steady_def same_core_def tree_prepared_def\<close>)
  then show ?thesis using assms(10) by (simp add: steady_def waiting_def tree_prepared_def)
qed

lemma queued_phase: "is_queued st \<Longrightarrow> \<exists>b. rs_phase st = PH_Queued b"
  by (cases "rs_phase st") (simp_all add: is_queued_def)

lemma steady_claim_busy:
  assumes st: "steady d st" and e: "ignored_reason st e = None" "ev_body e = EB_ClaimBusy h"
  shows "steady d (em_state (push (DE_RunQueued (Some h)) (emit_start st e d)))"
proof -
  obtain b where b: "rs_phase st = PH_Queued b" using queued_phase acted_open(4) [OF e] by blast
  show ?thesis
    by (rule steady_phase [OF st]) (use e b in \<open>simp_all add: apply_input_acted fold_input_def open_run_def is_finishing_def is_finished_def\<close>)
qed

lemma steady_root_opened:
  assumes st: "steady d st" and e: "ignored_reason st e = None" "ev_body e = EB_RootOpened x m"
  shows "steady d (em_state (emit_input e (emit_start st e d)))"
proof -
  let ?em = "emit_start st e d"
  have s: "steady d (em_state ?em)" by (rule steady_fields [OF st]) (use e in \<open>simp_all add: apply_input_acted fold_input_def\<close>)
  show ?thesis
  proof (cases "rs_phase (em_state ?em) = PH_Created")
    case True
    have "rs_phase (em_state (clear_timer ROOT_DEADLINE_TIMER ?em)) = PH_Created" using True by simp
    then have "steady d (em_state (push DE_ClaimRequested (clear_timer ROOT_DEADLINE_TIMER ?em)))"
      by (intro steady_phase [OF steady_run_timers(3) [OF s]]) (simp_all add: open_run_def is_finishing_def is_finished_def)
    then show ?thesis using True e by (simp add: emit_input_def)
  qed (use s e in \<open>simp add: emit_input_def\<close>)
qed

lemma steady_claim_taken:
  assumes st: "steady d st" and e: "ignored_reason st e = None" "ev_body e = EB_ClaimTaken"
    and d: "flow_ok d" and small: "counters_fit (em_state (emit_input e (emit_start st e d)))"
  shows "steady d (em_state (emit_input e (emit_start st e d)))"
proof -
  let ?em = "emit_start st e d"
  have s: "steady d (em_state ?em)" by (rule steady_fields [OF st]) (use e in \<open>simp_all add: apply_input_acted fold_input_def\<close>)
  obtain b where b: "rs_phase (em_state ?em) = PH_Queued b"
    using queued_phase acted_open(5) [OF e] e by (auto simp: apply_input_acted fold_input_def)
  have op: "open_run (em_state ?em)" using b by (simp add: open_run_def is_finishing_def is_finished_def)
  have set': "settled d {} (em_state ?em)" using s by (simp add: steady_def)
  then have nil: "rs_slots (em_state ?em) = []" "rs_questions (em_state ?em) = []"
    using settledD(6) [OF set'] op b by (auto simp: unprepared_def tree_prepared_def)
  obtain sd sds where sd: "fd_steps d = sd # sds" using d by (cases "fd_steps d") (auto simp: flow_ok_def)
  have fst: "flow_step d (sd_id sd) = Some sd" by (simp add: flow_step_def sd)
  have em: "emit_input e ?em = set_tree_window (start_step (sd_id sd) ?em)" using e sd by (simp add: emit_input_def)
  have "slots_of (em_state (set_tree_window em)) = slots_of (em_state em)" for em
    by (simp add: set_tree_window_def sbtD(1) [OF sbt_set(2)])
  then have "counters_fit (em_state (start_step (sd_id sd) ?em))" using small unfolding em by (simp add: counters_fit_def)
  from settled_start_step [OF set' op _ _ d _ fst this] have "steady d (em_state (start_step (sd_id sd) ?em))"
    using nil by (simp add: owing_def open_ceilings_def steady_def)
  then show ?thesis unfolding em by (rule steady_run_timers(1))
qed

lemma steady_released:
  assumes st: "steady d st" and e: "ignored_reason st e = None" "ev_body e = EB_ClaimReleased"
  shows "steady d (em_state (emit_input e (emit_start st e d)))"
proof -
  obtain oc reason parked where p: "rs_phase st = PH_Finishing oc reason (PP_Parked parked)"
    and em: "emit_input e (emit_start st e d) = push (DE_Finished oc reason) (emit_start st e d)"
    by (rule emit_input_released [OF e])
  let ?st = "st\<lparr>rs_phase := PH_Finished oc reason, rs_timers := []\<rparr>"
  have st': "em_state (emit_input e (emit_start st e d)) = ?st"
    unfolding em using e by (simp add: apply_input_acted fold_input_def)
  have dead: "\<not> ss_is_live (sr_state r)" if "r \<in> set (rs_slots st)" for r
    using acted_open(6) [OF e] that by (auto simp: ready_to_release_def any_live_def list_ex_iff)
  have s: "settled d {} st" using st by (simp add: steady_def)
  have cl: "\<not> open_run st" "\<not> open_run ?st" using p by (simp_all add: open_run_def is_finishing_def is_finished_def)
  have "settled d {} ?st"
  proof (rule settled_calm [OF s])
    show "list_all2 calm (rs_slots st) (rs_slots ?st)" by (simp add: list_all2_same)
    show "timers_named ?st" by (simp add: timers_named_def bt_ok_def)
    show "single_flight ?st" using settledD(5) [OF s] by (simp add: single_flight_def)
    show "unprepared ?st" using cl by (simp add: unprepared_def)
    fix r assume "r \<in> set (rs_slots ?st)"
    then have r: "r \<in> set (rs_slots st)" by simp
    have k: "clock_of ?st (sr_slot r) = (\<lambda>_. False)" by (simp add: clock_of_def fun_eq_iff)
    show "slot_good ?st r"
      using settledD(8) [OF s r] good_dead [OF _ dead [OF r]] cl k by (simp add: slot_good_def)
  qed (use cl in simp_all)
  then show ?thesis unfolding st' by (simp add: steady_def waiting_def tree_prepared_def)
qed

lemma steady_prepared:
  assumes st: "steady d st" and e: "ignored_reason st e = None" "ev_body e = EB_TreePrepared b fo"
  shows "steady d (em_state (emit_input e (emit_start st e d)))"
proof -
  let ?em = "emit_start st e d"
  have p: "rs_phase st = PH_Running TPH_Unprepared" using e by (auto simp: ignored_reason_def out_of_state_def split: if_splits)
  have s: "settled d {} st" using st by (simp add: steady_def)
  have em: "em_state ?em = st\<lparr>rs_phase := PH_Running TPH_Prepared, rs_base := Some b, rs_found := fo, rs_condition := None, rs_tree_cancel_owed := False\<rparr>"
    using e by (simp add: apply_input_acted fold_input_def)
  have op: "open_run st" "open_run (em_state ?em)" unfolding em using p by (simp_all add: open_run_def is_finishing_def is_finished_def)
  have "settled d {} (em_state ?em)"
  proof (rule settled_calm [OF s])
    show "list_all2 calm (rs_slots st) (rs_slots (em_state ?em))" unfolding em by (simp add: list_all2_same)
    show "timers_named (em_state ?em)" unfolding em by (rule timers_named_cong [OF settledD(3) [OF s]]) simp_all
    show "single_flight (em_state ?em)" unfolding em using settledD(5) [OF s] by (simp add: single_flight_def)
    show "unprepared (em_state ?em)" unfolding em by (simp add: unprepared_def tree_prepared_def)
    fix r assume "r \<in> set (rs_slots (em_state ?em))"
    then have "r \<in> set (rs_slots st)" unfolding em by simp
    moreover have "clock_of (em_state ?em) = clock_of st" "slots_of (em_state ?em) = slots_of st" unfolding em by (auto intro: clock_of_cong)
    ultimately show "slot_good (em_state ?em) r" using settledD(8) [OF s] op by (simp add: slot_good_def)
  qed (use op em in simp_all)
  from settled_run_timers(2) [OF this run_timer_simps(2)] have "settled d {} (em_state (clear_timer TREE_WINDOW_TIMER ?em))" .
  moreover have "open_run (em_state (clear_timer TREE_WINDOW_TIMER ?em))" using op(2) open_run_cong [of "em_state (clear_timer TREE_WINDOW_TIMER ?em)"] by simp
  ultimately show ?thesis using settled_arm_ready(1,2) e by (simp add: emit_input_def steady_def)
qed

end
