(* ===== verification/Route_Steps.thy ===== *)
theory Route_Steps
  imports Run_Steps
begin

text \<open>
  The invariant where a run is routed: a reply, the step it may complete, the question it may raise, and the answer.
\<close>

section \<open>Questions\<close>

lemma questions_fields [simp]:
  "open_run (st\<lparr>rs_questions := qs\<rparr>) = open_run st" "tree_prepared (st\<lparr>rs_questions := qs\<rparr>) = tree_prepared st"
  "clock_of (st\<lparr>rs_questions := qs\<rparr>) = clock_of st" "timer_named (st\<lparr>rs_questions := qs\<rparr>) = timer_named st"
  by (simp_all add: open_run_def is_finishing_def is_finished_def tree_prepared_def clock_of_def timer_named_def fun_eq_iff)

lemma question_ok_questions [simp]: "question_ok (st\<lparr>rs_questions := qs\<rparr>) q = question_ok st q"
  by (cases "qu_asked q") (simp_all add: question_ok_def escalation_key_def session_key_of_def)

lemma settled_questions:
  assumes "settled d X st" "tree_prepared st \<or> rs_questions st \<noteq> []" "questions_ok (st\<lparr>rs_questions := qs\<rparr>)"
  shows "settled d X (st\<lparr>rs_questions := qs\<rparr>)"
  using assms
  by (auto simp: settled_def all_fit_def timers_named_def visited_def single_flight_def unprepared_def slot_good_def
      routed_def at_hand_def)

lemma settled_ask:
  assumes "settled d X st" "tree_prepared st" "question_ok st q" "qu_id q \<notin> qu_id ` set (rs_questions st)"
    "is_ceiling (qu_asked q) \<longrightarrow> open_ceilings st = {}"
  shows "settled d X (st\<lparr>rs_questions := rs_questions st @ [q]\<rparr>)"
proof (rule settled_questions [OF assms(1)])
  show "questions_ok (st\<lparr>rs_questions := rs_questions st @ [q]\<rparr>)"
    using settledD(7) [OF assms(1)] assms(3-5) by (auto simp: questions_ok_def open_ceilings_def)
qed (use assms(2) in simp)

lemma escalation_not_ceiling: "escalation_key st s \<noteq> ceiling_key run step v p"
  by (simp add: ceiling_key_def escalation_key_def)

lemma ceiling_key_inject:
  assumes "plain_id step" "plain_id step'" "ceiling_key run step v p = ceiling_key run step' v' p'"
  shows "step = step' \<and> v = v'"
proof -
  have "step @ CHR ''/'' # (''v'' @ show_nat v @ ''/p'' @ show_nat p) = step' @ CHR ''/'' # (''v'' @ show_nat v' @ ''/p'' @ show_nat p')"
    using assms(3) by (simp add: ceiling_key_def)
  then have "split_on (CHR ''/'') (step @ CHR ''/'' # (''v'' @ show_nat v @ ''/p'' @ show_nat p)) =
      split_on (CHR ''/'') (step' @ CHR ''/'' # (''v'' @ show_nat v' @ ''/p'' @ show_nat p'))" by simp
  moreover have "split_on (CHR ''/'') (step @ CHR ''/'' # (''v'' @ show_nat v @ ''/p'' @ show_nat p)) =
      [step, CHR ''v'' # show_nat v, CHR ''p'' # show_nat p]" if "plain_id step" for step v p
    using that split_on_append [of "CHR ''/''" "CHR ''v'' # show_nat v" "''p'' @ show_nat p"] split_on_piece [of "CHR ''/''" "CHR ''p'' # show_nat p"]
    by (simp add: plain_id_def split_on_append)
  ultimately show ?thesis using assms(1,2) by simp
qed

lemma settled_escalate:
  assumes st: "settled d X st" "tree_prepared st"
    and r: "r \<in> set (rs_slots st)" "sr_slot r = s" "is_escalated (sr_state r)" "is_current (slots_of st) s"
    and new: "\<And>q m. q \<in> set (rs_questions st) \<Longrightarrow> qu_asked q \<noteq> AK_Escalation s m"
  shows "settled d X (push_question st (escalation_key st s) (AK_Escalation s m) since)"
  unfolding push_question_def
proof (rule settled_ask [OF st])
  let ?q = "\<lparr>qu_id = escalation_key st s, qu_asked = AK_Escalation s m, qu_since = since, qu_answered = False\<rparr>"
  show "question_ok st ?q" using r by (auto simp: question_ok_def)
  show "qu_id ?q \<notin> qu_id ` set (rs_questions st)"
  proof
    assume "qu_id ?q \<in> qu_id ` set (rs_questions st)"
    then obtain q where q: "q \<in> set (rs_questions st)" "qu_id q = escalation_key st s" by auto
    then have ok: "question_ok st q" using settledD(7) [OF st(1)] by (simp add: questions_ok_def)
    show False
    proof (cases "qu_asked q")
      case (AK_Escalation t x)
      then obtain y where y: "y \<in> set (rs_slots st)" "sr_slot y = t" using ok by (auto simp: question_ok_def)
      have "plain_slot s" "plain_slot t" using settled_fit [OF st(1)] r(1,2) y by (auto simp: fit_def)
      then have "t = s" using ok AK_Escalation q(2) session_key_inject [of s t st] by (simp add: question_ok_def escalation_key_def)
      then show False using new q(1) AK_Escalation by blast
    next
      case (AK_Ceiling a b c)
      then obtain y where "qu_id q = ceiling_key (rs_run st) a y b" using ok by (auto simp: question_ok_def)
      then show False using q(2) escalation_not_ceiling by metis
    qed
  qed
qed simp

lemma settled_ceiling:
  assumes st: "settled d X st" "tree_prepared st" "owing st = {}" "hand_free st"
    and hand: "rs_current_step st = Some step" "map_of (rs_visits st) step = Some v" "plain_id step"
  shows "settled d X (push_question st (ceiling_key (rs_run st) step v pass) (AK_Ceiling step pass m) since)"
  unfolding push_question_def
proof (rule settled_ask [OF st(1,2)])
  let ?q = "\<lparr>qu_id = ceiling_key (rs_run st) step v pass, qu_asked = AK_Ceiling step pass m, qu_since = since, qu_answered = False\<rparr>"
  show "question_ok st ?q" using hand st(3) by (auto simp: question_ok_def)
  show "is_ceiling (qu_asked ?q) \<longrightarrow> open_ceilings st = {}"
    using hand_free_asked(2) [OF st(4), of _ st] by (auto simp: open_ceilings_def)
  show "qu_id ?q \<notin> qu_id ` set (rs_questions st)"
  proof
    assume "qu_id ?q \<in> qu_id ` set (rs_questions st)"
    then obtain q where q: "q \<in> set (rs_questions st)" "qu_id q = ceiling_key (rs_run st) step v pass" by auto
    then have ok: "question_ok st q" using settledD(7) [OF st(1)] by (simp add: questions_ok_def)
    show False
    proof (cases "qu_asked q")
      case (AK_Escalation t x)
      then have "qu_id q = escalation_key st t" using ok by (simp add: question_ok_def)
      then show False using q(2) escalation_not_ceiling by metis
    next
      case (AK_Ceiling a b c)
      then obtain y w where "qu_id q = ceiling_key (rs_run st) a y b" "plain_id a" "map_of (rs_visits st) a = Some w"
          "rs_current_step st = Some a \<longrightarrow> y < w"
        using st(4) q(1) unfolding hand_free_def by blast
      then show False using q(2) hand ceiling_key_inject [of step a "rs_run st" v pass y b] by auto
    qed
  qed
qed


section \<open>Where a run goes\<close>

lemma hand_free_cong:
  assumes "hand_free st" "rs_run st' = rs_run st" "rs_visits st' = rs_visits st" "rs_current_step st' = rs_current_step st"
    "\<And>q. q \<in> set (rs_questions st') \<Longrightarrow> is_ceiling (qu_asked q) \<Longrightarrow> q \<in> set (rs_questions st)"
  shows "hand_free st'"
  using assms(1) unfolding hand_free_def assms(2-4)
proof (intro ballI allI impI)
  fix q step pass m
  assume a: "\<forall>q\<in>set (rs_questions st). \<forall>step pass m. qu_asked q = AK_Ceiling step pass m \<longrightarrow>
      qu_answered q \<and> (\<exists>v w. qu_id q = ceiling_key (rs_run st) step v pass \<and> plain_id step \<and>
        map_of (rs_visits st) step = Some w \<and> v \<le> w \<and> (rs_current_step st = Some step \<longrightarrow> v < w))"
    and q: "q \<in> set (rs_questions st')" "qu_asked q = AK_Ceiling step pass m"
  have "q \<in> set (rs_questions st)" using assms(5) [OF q(1)] q(2) by simp
  then show "qu_answered q \<and> (\<exists>v w. qu_id q = ceiling_key (rs_run st) step v pass \<and> plain_id step \<and>
      map_of (rs_visits st) step = Some w \<and> v \<le> w \<and> (rs_current_step st = Some step \<longrightarrow> v < w))"
    using a q(2) by blast
qed

lemma hand_free_open: "hand_free st \<Longrightarrow> open_ceilings st = {}"
  using hand_free_asked(2) [of st _ st] by (auto simp: open_ceilings_def)

text \<open>Between two steps: nobody owes a reply, and no ceiling is open.\<close>

definition between :: "flow_def \<Rightarrow> run_state \<Rightarrow> bool" where
  "between d st \<longleftrightarrow> steady d st \<and> open_run st \<and> owing st = {} \<and> open_ceilings st = {}"

lemma between_fields:
  assumes "between d st" "rs_slots st' = rs_slots st" "rs_visits st' = rs_visits st" "rs_questions st' = rs_questions st"
    "rs_run st' = rs_run st" "rs_phase st' = rs_phase st" "rs_current_step st' = rs_current_step st" "rs_timers st' = rs_timers st"
  shows "between d st'"
  using steady_fields [OF _ assms(2-8)] assms(1) open_run_cong [OF assms(6)] owing_cong [OF assms(2)]
  by (simp add: between_def open_ceilings_def assms(4))

lemma steady_start_step:
  assumes "between d (em_state em)" "flow_ok d" "em_def em = d" "counters_fit (em_state (start_step step em))"
  shows "steady d (em_state (start_step step em))"
proof (cases "flow_step d step")
  case None
  then show ?thesis using assms(1,3) by (simp add: start_step_def between_def)
next
  case (Some sd)
  then show ?thesis using settled_start_step [OF _ _ _ _ assms(2,3) Some assms(4)] assms(1) by (simp add: between_def steady_def)
qed

lemma between_rework: "between d (em_state em) \<Longrightarrow> between d (em_state (push (DE_Rework a b c n) em))"
  by (erule between_fields) (simp_all add: Let_def)

lemma steady_rework:
  assumes "between d (em_state em)" "flow_ok d" "em_def em = d" "counters_fit (em_state (rework a b n em))"
  shows "steady d (em_state (rework a b n em))"
  using steady_start_step [OF between_rework [OF assms(1)] assms(2)] assms(3,4) by (simp add: rework_def)

lemma steady_finish_run:
  assumes "steady d (em_state em)" "open_run (em_state em)"
  shows "steady d (em_state (finish_run oc reason em))"
  using settled_finish_run assms finished_run_waiting by (simp add: steady_def)

lemma steady_next:
  assumes "between d (em_state em)" "flow_ok d" "em_def em = d"
    "em' = (case nx of Some x \<Rightarrow> start_step x em | None \<Rightarrow> finish_run oc reason em)" "counters_fit (em_state em')"
  shows "steady d (em_state em')"
  using assms steady_start_step [OF assms(1-3)] steady_finish_run by (cases nx) (simp_all add: between_def)

lemma steady_emit_ceiling:
  assumes "steady d (em_state em)" "tree_prepared (em_state em)" "owing (em_state em) = {}" "hand_free (em_state em)"
    "rs_current_step (em_state em) = Some step" "map_of (rs_visits (em_state em)) step = Some v" "plain_id step"
  shows "steady d (em_state (emit_ceiling step v pass em))"
proof (cases "verdict_of (em_state em) step")
  case None
  then show ?thesis using assms(1) by (simp add: emit_ceiling_def)
next
  case (Some x)
  have "settled d {} (em_state em)" using assms(1) by (simp add: steady_def)
  from settled_ceiling [OF this assms(2-7)] have s: "settled d {} (em_state (emit_ceiling step v pass em))"
    using Some by (simp add: emit_ceiling_def)
  have "rs_slots (em_state (emit_ceiling step v pass em)) = rs_slots (em_state em)"
    "rs_phase (em_state (emit_ceiling step v pass em)) = rs_phase (em_state em)"
    using Some by (simp_all add: emit_ceiling_def push_question_def)
  then have "waiting (em_state (emit_ceiling step v pass em))"
    using assms(1) by (simp add: steady_def waiting_def tree_prepared_def persona_is_live_def)
  with s show ?thesis by (simp add: steady_def)
qed

lemma flow_step_plain: "flow_ok d \<Longrightarrow> flow_step d step = Some sd \<Longrightarrow> plain_id step"
  using find_Some_in [of "\<lambda>s. sd_id s = step" "fd_steps d" sd] by (auto simp: flow_ok_def flow_step_def step_ok_def valid_id_plain)

lemma prepared_open: "tree_prepared st \<Longrightarrow> open_run st"
  by (simp add: tree_prepared_def open_run_def is_finishing_def is_finished_def)

lemma steady_finish_step:
  assumes st: "steady d (em_state em)" "tree_prepared (em_state em)" "owing (em_state em) = {}" "hand_free (em_state em)"
    and hand: "rs_current_step (em_state em) = Some step" "map_of (rs_visits (em_state em)) step = Some v"
    and d: "flow_ok d" "em_def em = d" "flow_step d step = Some sd"
    and small: "counters_fit (em_state (finish_step step v nr em))"
  shows "steady d (em_state (finish_step step v nr em))"
proof -
  define em1 where "em1 = push (DE_StepFinished step v (if nr then SO_NeedsRework else SO_Pass)) em"
  have d1: "em_def em1 = d" using d(2) by (simp add: em1_def)
  have "between d (em_state em)"
    using st hand_free_open prepared_open by (simp add: between_def)
  then have b: "between d (em_state em1)" by (rule between_fields) (simp_all add: em1_def)
  have f: "hand_free (em_state em1)" by (rule hand_free_cong [OF st(4)]) (simp_all add: em1_def)
  have h: "rs_current_step (em_state em1) = Some step" "map_of (rs_visits (em_state em1)) step = Some v"
    "tree_prepared (em_state em1)" using hand st(2) by (simp_all add: em1_def tree_prepared_def)
  have em: "finish_step step v nr em =
    (case (nr, sd_on_needs_rework sd) of
       (True, Some to) \<Rightarrow>
         if pass_of (em_state em1) step + 1 \<le> sd_max_passes sd then rework step to (pass_of (em_state em1) step + 1) em1
         else emit_ceiling step v (pass_of (em_state em1) step + 1) em1
     | _ \<Rightarrow> (case sd_next sd of Some nx \<Rightarrow> start_step nx em1 | None \<Rightarrow> finish_run OU_Delivered RC_Delivered em1))"
    unfolding finish_step_def em1_def [symmetric] Let_def d1 d(3) by simp
  have nxt: "steady d (em_state (finish_step step v nr em))"
    if "finish_step step v nr em = (case sd_next sd of Some nx \<Rightarrow> start_step nx em1 | None \<Rightarrow> finish_run OU_Delivered RC_Delivered em1)"
    by (rule steady_next [OF b d(1) d1 that small])
  show ?thesis
  proof (cases nr)
    case False
    then show ?thesis using nxt em by simp
  next
    case True
    show ?thesis
    proof (cases "sd_on_needs_rework sd")
      case None
      then show ?thesis using nxt em True by simp
    next
      case (Some to)
      show ?thesis
      proof (cases "pass_of (em_state em1) step + 1 \<le> sd_max_passes sd")
        case pass: True
        then show ?thesis using steady_rework [OF b d(1) d1] small unfolding em by (simp add: True Some)
      next
        case False
        have "steady d (em_state (emit_ceiling step v (pass_of (em_state em1) step + 1) em1))"
          by (rule steady_emit_ceiling [OF _ h(3) _ f h(1,2) flow_step_plain [OF d(1,3)]]) (use b in \<open>simp_all add: between_def\<close>)
        then show ?thesis unfolding em using False by (simp add: True Some)
      qed
    qed
  qed
qed


section \<open>Replies\<close>

text \<open>When every member of the visit at hand has replied, and the synthesis if there is one, nobody owes.\<close>

lemma complete_owing:
  assumes st: "settled d {} st" "open_run st" "rs_current_step st = Some step" "map_of (rs_visits st) step = Some v"
    and d: "flow_step d step = Some sd"
    and all: "collect_opt (map (\<lambda>m. Option.bind (latest st step v m) member_verdict) (sd_members sd)) = Some rs"
    and syn: "sd_has_synthesis sd \<Longrightarrow> \<exists>r. latest st step v SYNTH = Some r \<and> is_replied (sr_state r)"
  shows "owing st = {}"
proof (rule equals0I)
  fix r assume o: "r \<in> owing st"
  then have r: "r \<in> set (rs_slots st)" "is_current (slots_of st) (sr_slot r)" "unfinished (sr_state r)" by (simp_all add: owing_def)
  have h: "sl_step (sr_slot r) = step" "sl_visit (sr_slot r) = v"
    using settledD(9) [OF st(1)] st(2-4) o by (auto simp: routed_def at_hand_def)
  have l: "latest st step v (sl_member (sr_slot r)) = Some r"
    using latest_current [OF settledD(1) [OF st(1)] r(1,2)] h by simp
  have seat: "sl_member (sr_slot r) \<in> set (sd_members sd) \<or> sl_member (sr_slot r) = SYNTH \<and> sd_has_synthesis sd"
    using settledD(10) [OF st(1) r(1)] d h by (simp add: seat_of_def)
  show False
  proof (cases "sl_member (sr_slot r) \<in> set (sd_members sd)")
    case True
    have "map (\<lambda>m. Option.bind (latest st step v m) member_verdict) (sd_members sd) = map Some rs"
      using all by (simp add: collect_opt_Some_iff)
    then have "Option.bind (latest st step v (sl_member (sr_slot r))) member_verdict \<in> Some ` set rs"
      using True by (metis (no_types, lifting) image_eqI image_set)
    then show False using l r(3) by (cases "sr_state r" rule: unfinished.cases) (auto simp: member_verdict_def)
  next
    case False
    then have m: "sl_member (sr_slot r) = SYNTH" "is_replied (sr_state r)" using seat syn l by auto
    then show False using settledD(8) [OF st(1) r(1)] r(3) by (cases "sr_state r") (auto simp: slot_good_def good_def shaped_def)
  qed
qed

lemma steady_after_reply:
  assumes st: "steady d (em_state em)" "tree_prepared (em_state em)" "hand_free (em_state em)"
    and d: "flow_ok d" "em_def em = d" and s: "sl_visit s \<le> u32_max"
    and small: "counters_fit (em_state (after_reply s em))"
  shows "steady d (em_state (after_reply s em))"
proof (cases "at_hand (em_state em) s")
  case False
  then show ?thesis using st(1) by (auto simp: after_reply_def at_hand_def)
next
  case True
  then have hand: "rs_current_step (em_state em) = Some (sl_step s)" "map_of (rs_visits (em_state em)) (sl_step s) = Some (sl_visit s)"
    by (simp_all add: at_hand_def)
  let ?all = "\<lambda>sd. collect_opt (map (\<lambda>m. Option.bind (latest (em_state em) (sl_step s) (sl_visit s) m) member_verdict) (sd_members sd))"
  have op: "open_run (em_state em)" and se: "settled d {} (em_state em)"
    using st prepared_open by (simp_all add: steady_def)
  show ?thesis
  proof (cases "flow_step d (sl_step s)")
    case None
    then show ?thesis using st(1) d(2) by (simp add: after_reply_def Let_def)
  next
    case sd: (Some sd)
    show ?thesis
    proof (cases "?all sd")
      case None
      then show ?thesis using st(1) d(2) sd by (simp add: after_reply_def Let_def)
    next
      case (Some rs)
      let ?fin = "finish_step (sl_step s) (sl_visit s) (list_ex (\<lambda>b. b) rs) em"
      have em: "after_reply s em =
        (if sd_has_synthesis sd then
           (case latest (em_state em) (sl_step s) (sl_visit s) SYNTH of
              None \<Rightarrow> arm_ready (push (DE_StepStarted (sl_step s) (sl_visit s) 1 [SYNTH]) em)
            | Some r \<Rightarrow> if is_replied (sr_state r) then ?fin else em)
         else ?fin)"
        using hand d(2) sd Some by (simp add: after_reply_def Let_def split: option.split slot_state.split)
      have fin: "steady d (em_state ?fin)"
        if "after_reply s em = ?fin" "sd_has_synthesis sd \<Longrightarrow> \<exists>r. latest (em_state em) (sl_step s) (sl_visit s) SYNTH = Some r \<and> is_replied (sr_state r)"
        by (rule steady_finish_step [OF st(1,2) _ st(3) hand d sd])
           (use complete_owing [OF se op hand sd Some] that small in auto)
      show ?thesis
      proof (cases "sd_has_synthesis sd")
        case False
        then show ?thesis using em fin by simp
      next
        case syn: True
        show ?thesis
        proof (cases "latest (em_state em) (sl_step s) (sl_visit s) SYNTH")
          case None
          have "\<exists>p. rs_phase (em_state em) = PH_Running p" using st(2) by (simp add: tree_prepared_def)
          from settled_start_synthesis [OF se op this hand st(3) None d(1) sd syn s] show ?thesis
            using em syn None by (simp add: steady_def)
        next
          case r: (Some r)
          then show ?thesis using em fin syn st(1) by (cases "is_replied (sr_state r)") auto
        qed
      qed
    qed
  qed
qed

lemma reply_ignored_None:
  assumes "reply_ignored st r = None"
  shows "is_working (sr_state r)" "\<not> is_superseded st r" "\<not> is_finishing st"
  using assms by (cases "sr_state r"; auto simp: reply_ignored_def split: if_splits)+

lemma steady_reply:
  assumes st: "steady d st" and e: "ignored_reason st e = None" "ev_body e = EB_Reply k m esc nr"
    and d: "flow_ok d" "rs_def st = d" and small: "counters_fit (em_state (emit_reply k (emit_start st e d)))"
  shows "steady d (em_state (emit_reply k (emit_start st e d)))"
proof -
  obtain i where i: "find_session st k = Some i" "reply_ignored st (rs_slots st ! i) = None" "\<not> is_finished st"
    using e by (auto simp: ignored_reason_def record_by_key_def split: if_splits option.splits)
  let ?r = "rs_slots st ! i" and ?em = "emit_start st e d"
  let ?s = "sr_slot ?r"
  have n: "names_slot d st i ?r" by (rule names_slot_session [OF st i(1)])
  note nd = names_slotD [OF n] and ig = reply_ignored_None [OF i(2)]
  have cur: "is_current (slots_of st) ?s" using nd(7) ig(2) by simp
  have op: "open_run st" using ig(3) i(3) by (simp add: open_run_def)
  have prep: "tree_prepared st"
  proof (rule ccontr)
    assume "\<not> tree_prepared st"
    then have "sr_state ?r = SS_Pending" using settledD(6) [OF nd(1)] op nd(5) by (simp add: unprepared_def)
    with ig(1) show False by simp
  qed
  have "?r \<in> owing st" using nd(5) cur ig(1) by (cases "sr_state ?r") (simp_all add: owing_def)
  then have free: "hand_free st" using hand_free_owing [OF nd(1) op] by blast
  obtain e' n' where em: "em_state ?em = upd_slot i (\<lambda>r. r\<lparr>sr_state := SS_Replied m e' n' PR_Live False None\<rparr>) st"
    and syn: "e' \<longrightarrow> sl_member ?s \<noteq> SYNTH"
    using e i(1) by (simp add: apply_input_acted fold_input_def apply_reply_def Let_def)
  let ?r' = "?r\<lparr>sr_state := SS_Replied m e' n' PR_Live False None\<rparr>"
  have "tame ?r ?r'" using ig(1) by (cases "sr_state ?r") (simp_all add: tame_def calm_def)
  then have t0: "treating d st i ?r' (clock_of st ?s) (em_state ?em)"
    unfolding em by (rule treating_upd [OF nd(8)]) simp
  define em1 where "em1 = set_slot_timer ?s (lp_stop_grace (rs_policy (em_state (clear_slot_timers ?s ?em)))) TP_WindDown (clear_slot_timers ?s ?em)"
  have t1: "treating d st i ?r' ((\<lambda>_. False)(CK TP_WindDown := True)) (em_state em1)"
    unfolding em1_def by (intro treating_set treating_clear_all [OF t0]) simp_all
  note td = treatingD [OF t1]
  have s1: "steady d (em_state em1)"
    by (rule treating_steady [OF t1 nd(2)]) (use good_reply [OF nd(6) ig(1) syn, of m n'] in simp_all)
  have "same_but_timers (em_state (clear_slot_timers ?s ?em)) (em_state em1)" unfolding em1_def by (rule sbt_set) simp
  note sbt = sbtD [OF this] sbtD [OF sbt_clear(2), of ?s ?em]
  have same: "rs_run (em_state em1) = rs_run st" "rs_visits (em_state em1) = rs_visits st"
    "rs_current_step (em_state em1) = rs_current_step st" unfolding sbt em by simp_all
  have def1: "em_def em1 = d"
    using emits_frame(3) [OF emits_set_slot_timer [OF emits_clear_slot_timers [OF emits_refl]]] unfolding em1_def by simp
  have prep1: "tree_prepared (em_state em1)" using prep td(6) by (simp add: tree_prepared_def)
  have free1: "hand_free (em_state em1)" by (rule hand_free_cong [OF free]) (simp_all add: same td(7))
  have key: "session_key_of (em_state em1) ?s = k"
    using find_session_eq [OF i(1)] same(1) by (simp add: session_key_of_def)
  define em2 where "em2 = (if e' then push (DE_Escalated (''escalated/'' @ k) ?s m) em1 else em1)"
  have "find_session (em_state ?em) k = Some i" using i(1) em find_session_cong [of "em_state ?em" st] by (simp add: map_update_at)
  moreover have "sr_slot (rs_slots (em_state ?em) ! i) = ?s" using treatingD(10) [OF t0] by simp
  ultimately have "emit_reply k ?em = after_reply ?s
      (case sr_state (rs_slots (em_state em1) ! i) of
         SS_Replied x True _ _ _ _ \<Rightarrow> push (DE_Escalated (''escalated/'' @ k) ?s x) em1 | _ \<Rightarrow> em1)"
    by (simp only: emit_reply_def Let_def option.case em1_def)
  then have out: "emit_reply k ?em = after_reply ?s em2" unfolding td(10) em2_def by (cases e') simp_all
  have vis: "sl_visit ?s \<le> u32_max" using settled_fit [OF nd(1,5)] by (simp add: fit_def u32_slot_def)
  have "steady d (em_state em2) \<and> tree_prepared (em_state em2) \<and> hand_free (em_state em2) \<and> em_def em2 = d"
  proof (cases e')
    case False
    then show ?thesis using s1 prep1 free1 def1 by (simp add: em2_def)
  next
    case True
    have st2: "em_state em2 = push_question (em_state em1) (escalation_key (em_state em1) ?s) (AK_Escalation ?s m) (em_at em1)"
      using True key by (simp add: em2_def escalation_key_def)
    have "settled d {} (em_state em2)" unfolding st2
    proof (rule settled_escalate [OF _ prep1 td(11)])
      fix q x assume q: "q \<in> set (rs_questions (em_state em1))"
      show "qu_asked q \<noteq> AK_Escalation ?s x"
      proof
        assume a: "qu_asked q = AK_Escalation ?s x"
        have "question_ok st q" using settledD(7) [OF nd(1)] q td(7) by (simp add: questions_ok_def)
        then obtain y where y: "y \<in> set (rs_slots st)" "sr_slot y = ?s" "is_escalated (sr_state y)" using a by (auto simp: question_ok_def)
        then have "y = ?r" using numbered_distinct [OF settledD(1) [OF nd(1)]] nd(5) by (auto simp: distinct_map dest: inj_onD)
        then show False using y(3) ig(1) by (cases "sr_state ?r") simp_all
      qed
    qed (use s1 True cur td(8) in \<open>simp_all add: steady_def\<close>)
    moreover have "waiting (em_state em2)" using s1 unfolding st2
      by (simp add: steady_def waiting_def tree_prepared_def persona_is_live_def push_question_def)
    moreover have "hand_free (em_state em2)"
      by (rule hand_free_cong [OF free1]) (auto simp: st2 push_question_def)
    ultimately show ?thesis using prep1 def1 st2 True by (simp add: steady_def em2_def push_question_def)
  qed
  then show ?thesis using steady_after_reply [of d em2 ?s] d(1) vis small unfolding out by simp
qed


section \<open>Answers\<close>

lemma questions_running:
  assumes "settled d X st" "open_run st" "rs_questions st \<noteq> []"
  shows "\<exists>p. rs_phase st = PH_Running p"
  using settledD(6) [OF assms(1)] assms(2,3) by (auto simp: unprepared_def tree_prepared_def)

definition answered_at :: "nat \<Rightarrow> question list \<Rightarrow> question list" where
  "answered_at i qs = update_at i (\<lambda>q. q\<lparr>qu_answered := True\<rparr>) qs"

lemma in_answered_at:
  assumes "distinct (map qu_id qs)" "i < length qs" "q \<in> set (answered_at i qs)"
  shows "q = (qs ! i)\<lparr>qu_answered := True\<rparr> \<or> q \<in> set qs \<and> qu_id q \<noteq> qu_id (qs ! i)"
proof -
  obtain j where j: "j < length qs" "q = (if i = j then (qs ! i)\<lparr>qu_answered := True\<rparr> else qs ! j)"
    using in_update_at [of q i _ qs] assms(3) unfolding answered_at_def by blast
  show ?thesis
  proof (cases "i = j")
    case False
    then have "qu_id (qs ! j) \<noteq> qu_id (qs ! i)" using assms(1,2) j(1) by (simp add: distinct_conv_nth)
    then show ?thesis using j False by simp
  qed (use j in simp)
qed

lemma question_ok_answered: "question_ok st q \<Longrightarrow> question_ok st (q\<lparr>qu_answered := True\<rparr>)"
  by (cases "qu_asked q") (auto simp: question_ok_def)

lemma settled_answered:
  assumes "settled d X st" "i < length (rs_questions st)"
  shows "settled d X (st\<lparr>rs_questions := answered_at i (rs_questions st)\<rparr>)"
proof (rule settled_questions [OF assms(1)])
  let ?qs = "answered_at i (rs_questions st)"
  have ok: "\<And>q. q \<in> set (rs_questions st) \<Longrightarrow> question_ok st q" "distinct (map qu_id (rs_questions st))"
      "open_run st \<Longrightarrow> q \<in> open_ceilings st \<Longrightarrow> q' \<in> open_ceilings st \<Longrightarrow> q = q'" for q q'
    using settledD(7) [OF assms(1)] by (simp_all add: questions_ok_def)
  have ids: "map qu_id ?qs = map qu_id (rs_questions st)" by (simp add: answered_at_def map_update_at)
  have mem: "q = (rs_questions st ! i)\<lparr>qu_answered := True\<rparr> \<or> q \<in> set (rs_questions st)" if "q \<in> set ?qs" for q
    using in_answered_at [OF ok(2) assms(2) that] by blast
  have "question_ok st q" if "q \<in> set ?qs" for q
    using mem [OF that] ok(1) question_ok_answered nth_mem [OF assms(2)] by blast
  moreover have "open_ceilings (st\<lparr>rs_questions := ?qs\<rparr>) \<subseteq> open_ceilings st" using mem by (fastforce simp: open_ceilings_def)
  ultimately show "questions_ok (st\<lparr>rs_questions := ?qs\<rparr>)"
    using ok(2,3) unfolding questions_ok_def questions_fields(1) question_ok_questions by (simp add: ids) blast
qed (use assms(2) in auto)

text \<open>The question an answer names, and the state its dispatch starts from.\<close>

lemma answer_start:
  assumes st: "steady d st" and e: "ignored_reason st e = None" "ev_body e = EB_Answer q_id disp m"
  obtains i where "i < length (rs_questions st)" "\<not> qu_answered (rs_questions st ! i)"
    "List.find (\<lambda>q. qu_id q = q_id) (rs_questions st) = Some (rs_questions st ! i)"
    "\<exists>ps. em_state (emit_start st e d) = st\<lparr>rs_questions := answered_at i (rs_questions st), rs_pending_start := ps\<rparr>"
proof -
  have s: "settled d {} st" using st by (simp add: steady_def)
  have dist: "distinct (map qu_id (rs_questions st))" using settledD(7) [OF s] by (simp add: questions_ok_def)
  have "list_ex (answers q_id disp) (open_questions st)"
    using e by (auto simp: ignored_reason_def out_of_state_def split: if_splits)
  then obtain q where q: "q \<in> set (rs_questions st)" "\<not> qu_answered q" "qu_id q = q_id"
    by (auto simp: list_ex_iff open_questions_def answers_def)
  then obtain j where j: "j < length (rs_questions st)" "rs_questions st ! j = q" by (auto simp: in_set_conv_nth)
  obtain i where i: "position (\<lambda>q. qu_id q = q_id) (rs_questions st) = Some i"
    using q position_None_iff [of "\<lambda>q. qu_id q = q_id" "rs_questions st"] by (cases "position (\<lambda>q. qu_id q = q_id) (rs_questions st)") auto
  have il: "i < length (rs_questions st)" "qu_id (rs_questions st ! i) = q_id" using position_lt [OF i] position_sat [OF i] by auto
  have "i = j" using dist il j q(3) by (simp add: distinct_conv_nth) metis
  moreover have "List.find (\<lambda>q. qu_id q = q_id) (rs_questions st) = Some (rs_questions st ! i)"
  proof (cases "List.find (\<lambda>q. qu_id q = q_id) (rs_questions st)")
    case None
    then show ?thesis using q by (simp add: find_None_iff)
  next
    case (Some q')
    then have "q' \<in> set (rs_questions st)" "qu_id q' = q_id" using find_Some_in [OF Some] by auto
    then have "q' = rs_questions st ! i" using dist il by (auto simp: distinct_map dest: inj_onD)
    then show ?thesis using Some by simp
  qed
  moreover have "\<exists>ps. em_state (emit_start st e d) = st\<lparr>rs_questions := answered_at i (rs_questions st), rs_pending_start := ps\<rparr>"
    using e i by (auto simp: apply_input_acted fold_input_def apply_answer_def Let_def answered_at_def)
  ultimately show thesis using that il j q(2) by blast
qed

lemma steady_answer:
  assumes st: "steady d st" and e: "ignored_reason st e = None" "ev_body e = EB_Answer q_id disp m"
    and d: "flow_ok d" and small: "counters_fit (em_state (emit_answer q_id disp (emit_start st e d)))"
  shows "steady d (em_state (emit_answer q_id disp (emit_start st e d)))"
proof -
  let ?em = "emit_start st e d"
  obtain i ps where i: "i < length (rs_questions st)" "\<not> qu_answered (rs_questions st ! i)"
    "List.find (\<lambda>q. qu_id q = q_id) (rs_questions st) = Some (rs_questions st ! i)"
    and em: "em_state ?em = st\<lparr>rs_questions := answered_at i (rs_questions st), rs_pending_start := ps\<rparr>"
    using answer_start [OF st e] by blast
  let ?q = "rs_questions st ! i"
  have s: "settled d {} st" and w: "waiting st" using st by (simp_all add: steady_def)
  have op: "open_run st" by (rule acted_open(3) [OF e])
  have q: "question_ok st ?q" "?q \<in> set (rs_questions st)" "distinct (map qu_id (rs_questions st))"
      "\<And>q'. q' \<in> set (rs_questions st) \<Longrightarrow> question_ok st q'"
    using settledD(7) [OF s] nth_mem [OF i(1)] by (simp_all add: questions_ok_def)
  have s1: "settled d {} (em_state ?em)"
    unfolding em by (rule settled_cong [OF settled_answered [OF s i(1)]]) (simp_all add: same_core_phase)
  have st1: "steady d (em_state ?em)" using s1 w unfolding em by (simp add: steady_def waiting_def tree_prepared_def persona_is_live_def)
  have op1: "open_run (em_state ?em)" using op unfolding em by (simp add: open_run_def is_finishing_def is_finished_def)
  have qs: "q' = ?q\<lparr>qu_answered := True\<rparr> \<or> q' \<in> set (rs_questions st) \<and> qu_id q' \<noteq> qu_id ?q"
    if "q' \<in> set (rs_questions (em_state ?em))" for q'
    using that in_answered_at [OF q(3) i(1)] unfolding em by simp
  show ?thesis
  proof (cases "qu_asked ?q")
    case (AK_Escalation s x)
    obtain r where r: "r \<in> set (rs_slots st)" "sr_slot r = s" "is_escalated (sr_state r)" "is_current (slots_of st) s"
      using q(1) i(2) AK_Escalation by (auto simp: question_ok_def)
    have rep: "is_replied (sr_state r)" "unfinished (sr_state r)" using r(3) by (cases "sr_state r"; simp)+
    have out: "emit_answer q_id disp ?em = restart s ?em" using i(3) AK_Escalation by (simp add: emit_answer_def)
    have "settled d {} (em_state (restart s ?em)) \<and> waiting (em_state (restart s ?em))"
    proof (rule settled_restart)
      show "settled d {s} (em_state ?em)" by (rule settled_mono [OF s1]) simp
      show "\<exists>p. rs_phase (em_state ?em) = PH_Running p" using questions_running [OF s op] i(1) unfolding em by (cases "rs_questions st = []") simp_all
      show "good True False (clock_of (em_state ?em) s) r"
        using good_superseded [OF _ rep(1)] settledD(8) [OF s1, of r] r op1 unfolding slot_good_def by (simp add: em [simplified])
      show "counters_fit (em_state (restart s ?em))" using small out by simp
      fix q' y assume a: "q' \<in> set (rs_questions (em_state ?em))" "qu_asked q' = AK_Escalation s y"
      show "qu_answered q'"
      proof (rule disjE [OF qs [OF a(1)]])
        assume b: "q' \<in> set (rs_questions st) \<and> qu_id q' \<noteq> qu_id ?q"
        have "qu_id q' = escalation_key st s" "qu_id ?q = escalation_key st s"
          using q(1) q(4) [of q'] b a(2) AK_Escalation by (simp_all add: question_ok_def)
        with b show ?thesis by simp
      qed simp
    qed (use r rep op1 in \<open>simp_all add: em [simplified]\<close>)
    then show ?thesis using out by (simp add: steady_def)
  next
    case (AK_Ceiling step pass x)
    have o: "owing (em_state ?em) = {}"
      using q(1) i(2) AK_Ceiling op owing_cong [of "em_state ?em" st] unfolding em by (auto simp: question_ok_def)
    have mine: "?q \<in> open_ceilings st" using q(2) i(2) AK_Ceiling by (simp add: open_ceilings_def)
    have "open_ceilings (em_state ?em) = {}"
    proof (rule equals0I)
      fix q' assume a: "q' \<in> open_ceilings (em_state ?em)"
      then have b: "q' \<in> set (rs_questions st)" "qu_id q' \<noteq> qu_id ?q" "q' \<in> open_ceilings st"
        using qs [of q'] by (auto simp: open_ceilings_def)
      have "q' = ?q" using settledD(7) [OF s] op b(3) mine by (simp add: questions_ok_def)
      with b(2) show False by simp
    qed
    then have bt: "between d (em_state ?em)" using st1 op1 o by (simp add: between_def)
    have out: "emit_answer q_id disp ?em =
      (case disp of DI_Continue \<Rightarrow> one_more_pass step pass ?em | DI_Accept \<Rightarrow> accept_ceiling step ?em | DI_Unknown _ \<Rightarrow> ?em)"
      using i(3) AK_Ceiling by (simp add: emit_answer_def)
    show ?thesis
    proof (cases disp)
      case DI_Continue
      then show ?thesis
        using steady_rework [OF bt d] st1 small unfolding out one_more_pass_def by (simp split: option.splits)
    next
      case DI_Accept
      have "em_def ?em = d" by simp
      then show ?thesis
        using steady_next [OF bt d, of "accept_ceiling step ?em"] DI_Accept small unfolding out by (simp add: accept_ceiling_def)
    qed (use st1 out in simp)
  qed
qed

end
