(* ===== verification/Watched_Run.thy ===== *)
theory Watched_Run
  imports Route_Steps
begin

text \<open>
  The invariant of every state of a run the host writes: each input keeps it, so every log folds to a state in
  which the slots are watched. It is stated for a flow the compiler accepts and for a state whose counters fit the
  32 bits the program gives them: past them \<^verbatim>\<open>attempt + 1\<close> and \<^verbatim>\<open>visit + 1\<close> panic or wrap, and two slots with
  the same number would be one.
\<close>

section \<open>The table of slots only grows\<close>

definition extends :: "slot list \<Rightarrow> slot list \<Rightarrow> bool" where
  "extends ss ts \<longleftrightarrow> (\<exists>more. ts = ss @ more)"

lemma extends_refl [simp]: "extends ss ss"
  by (simp add: extends_def)

lemma extends_trans: "extends a b \<Longrightarrow> extends b c \<Longrightarrow> extends a c"
  by (auto simp: extends_def)

lemma slots_upd_record: "(\<And>r. sr_slot (f r) = sr_slot r) \<Longrightarrow> slots_of (upd_record s f st) = slots_of st"
  by (simp add: upd_record_def map_update_at split: option.split)

lemma finish_slot_slot [simp]: "sr_slot (finish_slot at w r) = sr_slot r"
  by (simp add: finish_slot_def)

lemma slot_starting_slot [simp]: "sr_slot (slot_starting t r) = sr_slot r"
  by (simp add: slot_starting_def split: slot_state.split)

lemma extends_decision: "extends (slots_of st) (slots_of (apply_decision st x at))"
proof (cases x)
  case (DE_StepStarted step v a ms)
  then show ?thesis by (simp add: apply_step_started_visiting slots_push_records extends_def)
next
  case (DE_Parked so reason)
  then show ?thesis by (cases so) (simp_all add: Let_def slots_upd_record)
qed (simp_all add: Let_def slots_upd_record apply_liveness_def arm_start_def apply_finishing_def push_question_def comp_def
    split: option.split)

lemma extends_emits: "emits em em' \<Longrightarrow> extends (slots_of (em_state em)) (slots_of (em_state em'))"
  by (induction rule: emits.induct) (auto intro: extends_trans extends_decision)

lemma extends_input:
  assumes "ignored_reason st e = None"
  shows "extends (slots_of st) (slots_of (em_state (emit_input e (emit_start st e d))))"
proof (cases "ev_body e = EB_ClaimReleased")
  case True
  show ?thesis by (rule emit_input_released [OF assms True, of d]) (simp add: slots_apply_input)
next
  case False
  then show ?thesis using extends_emits [OF emits_input [OF assms False, of d]] by (simp add: slots_apply_input)
qed

lemma counters_fit_before: "counters_fit st' \<Longrightarrow> extends (slots_of st) (slots_of st') \<Longrightarrow> counters_fit st"
  unfolding counters_fit_def extends_def by (metis Un_iff set_append)

section \<open>Every input\<close>

lemma steady_tree_refused:
  assumes st: "steady d st" and e: "ignored_reason st e = None" "ev_body e = EB_TreeRefused reason"
  shows "steady d (em_state (emit_input e (emit_start st e d)))"
proof -
  have "steady d (em_state (emit_start st e d))"
    by (rule steady_fields [OF st]) (use e in \<open>simp_all add: apply_input_acted fold_input_def\<close>)
  then show ?thesis using steady_park_run steady_run_timers(4) e(2) by (simp add: emit_input_def)
qed

lemma steady_tree_parked:
  assumes st: "steady d st" and e: "ignored_reason st e = None" "ev_body e = EB_TreeParked oc"
  shows "steady d (em_state (emit_input e (emit_start st e d)))"
proof -
  obtain o1 reason where p: "rs_phase st = PH_Finishing o1 reason PP_Unparked"
    using e by (auto simp: ignored_reason_def out_of_state_def split: if_splits phase.splits park_phase.splits)
  have "steady d (em_state (emit_start st e d))"
    by (rule steady_phase [OF st])
       (use e p in \<open>simp_all add: apply_input_acted fold_input_def set_park_tree_def open_run_def is_finishing_def is_finished_def\<close>)
  then show ?thesis using e(2) by (simp add: emit_input_def)
qed

lemma steady_commissioned:
  assumes st: "steady d st" and e: "ignored_reason st e = None" "ev_body e = EB_Commissioned a b c x y z w"
  shows "steady d (em_state (emit_input e (emit_start st e d)))"
proof -
  have "steady d (em_state (push DE_RootRequested (emit_start st e d)))"
    by (rule steady_fields [OF st]) (use e in \<open>simp_all add: apply_input_acted fold_input_def\<close>)
  then show ?thesis using steady_run_timers(2) e(2) by (simp add: emit_input_def)
qed

lemma steady_run_resumed:
  assumes st: "steady d st" and e: "ignored_reason st e = None" "ev_body e = EB_ResumeRun"
  shows "steady d (em_state (emit_input e (emit_start st e d)))"
proof -
  have "steady d (em_state (emit_start st e d))"
    by (rule steady_fields [OF st]) (use e in \<open>simp_all add: apply_input_acted fold_input_def\<close>)
  then show ?thesis using steady_run_timers(1,2) e(2)
    by (simp add: emit_input_def emit_resume_run_def split: option.split reason_code.split)
qed

lemma steady_delivered:
  assumes st: "steady d st" and e: "ignored_reason st e = None" "ev_body e = EB_Delivered m"
  shows "steady d (em_state (emit_input e (emit_start st e d)))"
proof -
  have "steady d (em_state (emit_start st e d))"
    by (rule steady_fields [OF st]) (use e in \<open>simp_all add: apply_input_acted fold_input_def split: option.split\<close>)
  then show ?thesis using e(2) by (simp add: emit_input_def)
qed

lemma steady_acted:
  assumes st: "steady d st" and e: "ignored_reason st e = None" and d: "flow_ok d" "rs_def st = d"
    and small: "counters_fit (em_state (emit_input e (emit_start st e d)))"
  shows "steady d (em_state (emit_input e (emit_start st e d)))"
proof (cases "ev_body e")
  case (EB_SessionFact k f)
  note out = small [unfolded emit_input_def EB_SessionFact event_body.case]
  show ?thesis
  proof (cases "\<exists>c. f = SF_Ended c")
    case True
    then obtain c where "f = SF_Ended c" by blast
    then show ?thesis using steady_ended [OF st e, of k c] EB_SessionFact out by (simp add: emit_input_def)
  next
    case False
    then show ?thesis using steady_fact_local [OF st e EB_SessionFact] EB_SessionFact by (simp add: emit_input_def)
  qed
next
  case (EB_Reply k m esc nr)
  then show ?thesis using steady_reply [OF st e EB_Reply d] small by (simp add: emit_input_def)
next
  case (EB_Answer q disp m)
  then show ?thesis using steady_answer [OF st e EB_Answer d(1)] small by (simp add: emit_input_def)
next
  case (EB_TimerFired t f)
  then show ?thesis using steady_timer_fired [OF st e EB_TimerFired] small by (simp add: emit_input_def)
next
  case (EB_Resume so)
  then show ?thesis using steady_resume [OF st e EB_Resume] small by (simp add: emit_input_def)
next
  case (EB_Nudged k)
  then show ?thesis using steady_nudged [OF st e EB_Nudged] by (simp add: emit_input_def)
next
  case (EB_StopSignalled k n x)
  then show ?thesis using steady_signalled [OF st e EB_StopSignalled] by (simp add: emit_input_def)
next
  case (EB_Withdrawn m b)
  then show ?thesis using steady_withdrawn [OF st e EB_Withdrawn] by (simp add: emit_input_def)
next
  case (EB_ClaimBusy h)
  then show ?thesis using steady_claim_busy [OF st e EB_ClaimBusy] by (simp add: emit_input_def)
qed (use e in \<open>simp_all add: steady_root_opened [OF st e] steady_claim_taken [OF st e _ d(1) small] steady_released [OF st e]
    steady_prepared [OF st e] steady_tree_refused [OF st e] steady_tree_parked [OF st e] steady_commissioned [OF st e]
    steady_run_resumed [OF st e] steady_delivered [OF st e] ignored_reason_def split: if_splits\<close>)

section \<open>Every log\<close>

lemma steady_initial: "steady d (run_state_initial run d)"
  by (auto simp: steady_def waiting_def settled_def all_fit_def timers_named_def visited_def single_flight_def unprepared_def
      questions_ok_def open_ceilings_def routed_def owing_def run_state_initial_def bt_ok_def)

interpretation watching: reducer_invariant d "\<lambda>st. flow_ok d \<longrightarrow> counters_fit st \<longrightarrow> steady d st" for d
proof unfold_locales
  show "flow_ok d \<longrightarrow> counters_fit (run_state_initial run d) \<longrightarrow> steady d (run_state_initial run d)" for run
    by (simp add: steady_initial)
  fix st e
  assume a: "flow_ok d \<longrightarrow> counters_fit st \<longrightarrow> steady d st" "rs_def st = d" "ignored_reason st e = None"
  show "flow_ok d \<longrightarrow> counters_fit (em_state (emit_input e (emit_start st e d))) \<longrightarrow> steady d (em_state (emit_input e (emit_start st e d)))"
    using steady_acted [OF _ a(3) _ a(2)] counters_fit_before [OF _ extends_input [OF a(3)]] a(1) by blast
next
  fix st at
  assume a: "flow_ok d \<longrightarrow> counters_fit st \<longrightarrow> steady d st"
  show "flow_ok d \<longrightarrow> counters_fit (apply_decision st (DE_Parked None RC_PoisonInput) at) \<longrightarrow>
      steady d (apply_decision st (DE_Parked None RC_PoisonInput) at)"
    using a steady_fields [of d st "apply_decision st (DE_Parked None RC_PoisonInput) at"] by (simp add: Let_def counters_fit_def)
next
  fix st n
  assume a: "flow_ok d \<longrightarrow> counters_fit st \<longrightarrow> steady d st"
  show "flow_ok d \<longrightarrow> counters_fit (st\<lparr>rs_seq := n\<rparr>) \<longrightarrow> steady d (st\<lparr>rs_seq := n\<rparr>)"
    using a steady_fields [of d st "st\<lparr>rs_seq := n\<rparr>"] by (simp add: counters_fit_def)
qed

lemma written_steady: "written run d es st \<Longrightarrow> flow_ok d \<Longrightarrow> counters_fit st \<Longrightarrow> steady d st"
  using watching.written_keeps by blast

end
