(* ===== verification/Watch_Properties.thy ===== *)
theory Watch_Properties
  imports Watched_Run Sample_Run
begin

text \<open>
  What the invariant of \<open>Watched_Run\<close> says of the states a host can reach, without its clocks: sessions and
  personas, remedies, timers, session keys, the visit at hand and the open questions.
\<close>

section \<open>The sample flow\<close>

lemma sample_flow_ok: "flow_ok sample_flow"
proof -
  have "\<exists>n. chain (fd_steps sample_flow) n s = None" if "s \<in> set (fd_steps sample_flow)" for s
  proof
    have "list_all (\<lambda>s. chain (fd_steps sample_flow) 2 s = None) (fd_steps sample_flow)" by code_simp
    then show "chain (fd_steps sample_flow) 2 s = None" using that by (simp add: list_all_iff)
  qed
  moreover have "fd_steps sample_flow \<noteq> []" "distinct (map sd_id (fd_steps sample_flow))" by code_simp+
  moreover have "list_all (\<lambda>s. step_ok s \<and> list_all (\<lambda>x. x \<in> set (map sd_id (fd_steps sample_flow))) (references s)) (fd_steps sample_flow)"
    by code_simp
  ultimately show ?thesis by (auto simp: flow_ok_def list_all_iff)
qed

lemma sample_counters: "counters_fit (sample_state 6)"
  by code_simp

text \<open>The state after any inputs that are no decisions.\<close>

definition sample_after :: "event list \<Rightarrow> run_state" where
  "sample_after is = snd (the (run_inputs (run_state_initial sample_run sample_flow) is))"

definition no_decision :: "event \<Rightarrow> bool" where
  "no_decision e = (case ev_body e of EB_Decision _ \<Rightarrow> False | _ \<Rightarrow> True)"

lemma sample_after_written:
  assumes "list_all no_decision is"
  shows "\<exists>es. written sample_run sample_flow es (sample_after is)"
proof -
  have "\<forall>e\<in>set is. \<forall>x. ev_body e \<noteq> EB_Decision x" using assms by (auto simp: list_all_iff no_decision_def)
  from written_run_inputs [OF written_start this, of sample_run sample_flow] show ?thesis by (auto simp: sample_after_def)
qed

lemmas sample_reached = sample_written [of 6] sample_flow_ok sample_counters

section \<open>Reachable states\<close>

text \<open>C4. At most one session of a persona is at work. In every state a host can reach two slots of the same
  member whose sessions are starting, running, quiet, nudged, replied and not yet gone, or being stopped for a
  restart are one slot. Only a session that is being stopped and leads to nothing may run beside another.\<close>

theorem one_session_per_persona:
  assumes "written run d es st" "flow_ok d" "counters_fit st"
    "r \<in> set (rs_slots st)" "r' \<in> set (rs_slots st)" "sl_member (sr_slot r) = sl_member (sr_slot r')"
    "is_flying (sr_state r)" "is_flying (sr_state r')"
  shows "r = r'"
proof -
  have s: "settled d {} st" using written_steady [OF assms(1-3)] by (simp add: steady_def)
  have "sr_slot r = sr_slot r'" using settledD(5) [OF s] assms(4-8) unfolding single_flight_def by blast
  then show ?thesis
    using numbered_distinct [OF settledD(1) [OF s]] assms(4,5) by (auto simp: distinct_map dest: inj_onD)
qed

theorem one_session_per_persona_witness:
  "List.find (\<lambda>r. sl_member (sr_slot r) = ''critic'' \<and> is_flying (sr_state r)) (rs_slots (sample_state 6)) =
     Some (rs_slots (sample_state 6) ! 1)"
proof -
  let ?p = "\<lambda>r. sl_member (sr_slot r) = ''critic'' \<and> is_flying (sr_state r)"
  have i: "rs_slots (sample_state 6) ! 1 \<in> set (rs_slots (sample_state 6))"
    by (rule nth_mem) code_simp
  have f: "?p (rs_slots (sample_state 6) ! 1)" by code_simp
  obtain r where r: "List.find ?p (rs_slots (sample_state 6)) = Some r"
    using i f find_None_iff [of ?p "rs_slots (sample_state 6)"] by (cases "List.find ?p (rs_slots (sample_state 6))") blast+
  then have m: "r \<in> set (rs_slots (sample_state 6))" "?p r" using find_Some_in [OF r] by blast+
  have "r = rs_slots (sample_state 6) ! 1"
    by (rule one_session_per_persona [OF sample_reached m(1) i]) (use m(2) f in \<open>simp_all only:\<close>)
  with r show ?thesis by simp
qed

section \<open>Remedies\<close>











section \<open>Timers\<close>

text \<open>What a slot waits for, by its state.\<close>

definition awaits :: "slot_record \<Rightarrow> timer_purpose \<Rightarrow> bool" where
  "awaits r p =
     (case sr_state r of
        SS_Pending \<Rightarrow> False
      | SS_Starting _ \<Rightarrow> p = TP_StartDeadline
      | SS_Running _ None \<Rightarrow> p = TP_Quiet
      | SS_Running _ (Some _) \<Rightarrow> p = TP_SubprocessIdle \<and> \<not> sr_blind r \<or> p = TP_CallBound \<and> \<not> sr_sampling r
      | SS_Quiet _ _ \<Rightarrow> p = TP_Confirm
      | SS_Nudged _ _ \<Rightarrow> p = TP_Confirm
      | SS_Stopping _ _ \<Rightarrow> p = TP_StopGrace
      | SS_Replied _ _ _ pr _ None \<Rightarrow> p = TP_WindDown \<and> pr = PR_Live
      | SS_Replied _ _ _ _ _ (Some _) \<Rightarrow> p = TP_StopGrace
      | SS_Ended _ \<Rightarrow> p = TP_HoldRetry \<and> (case sr_condition r of Some (SC_Held _ _ _) \<Rightarrow> True | _ \<Rightarrow> False))"

lemma may_awaits: "may cur r c \<Longrightarrow> awaits r (clock_purpose c)"
  by (auto simp: may_def awaits_def is_held_def split: slot_state.splits option.splits)

text \<open>C6. No timer outlives what it was armed for. In every state a host can reach an armed timer is the root
  deadline, the tree window, or the timer of a slot there is whose state waits for exactly that purpose.\<close>

theorem armed_timers_are_awaited:
  assumes "written run d es st" "flow_ok d" "counters_fit st" "map_of (rs_timers st) t = Some a"
  shows "t = ROOT_DEADLINE_TIMER \<and> at_purpose a = TP_RootDeadline \<or> t = TREE_WINDOW_TIMER \<and> at_purpose a = TP_TreeWindow \<or>
    (\<exists>r\<in>set (rs_slots st). timer_slot t = Some (sr_slot r) \<and> awaits r (at_purpose a))"
proof -
  have s: "settled d {} st" using written_steady [OF assms(1-3)] by (simp add: steady_def)
  have "timer_named st t (at_purpose a)" using settledD(3) [OF s] assms(4) by (simp add: timers_named_def)
  then consider "t = ROOT_DEADLINE_TIMER" "at_purpose a = TP_RootDeadline" | "t = TREE_WINDOW_TIMER" "at_purpose a = TP_TreeWindow"
    | r c where "r \<in> set (rs_slots st)" "slot_clock c" "t = clock_id c (sr_slot r)" "at_purpose a = clock_purpose c"
    by (auto simp: timer_named_def)
  then show ?thesis
  proof cases
    case (3 r c)
    have "clock_of st (sr_slot r) c" using 3 assms(4) by (simp add: clock_of_def)
    then have "may (is_current (slots_of st) (sr_slot r)) r c" using settledD(8) [OF s 3(1)] by (simp add: slot_good_def good_def)
    then show ?thesis using may_awaits 3 timer_slot_clock [OF settled_fit [OF s 3(1)], of c] by auto
  qed simp_all
qed

definition critic_slot :: slot where
  "critic_slot = \<lparr> sl_step = ''review'', sl_visit = 1, sl_member = ''critic'', sl_attempt = 1 \<rparr>"

theorem armed_timers_are_awaited_witness:
  "\<exists>r\<in>set (rs_slots (sample_state 6)). timer_slot (slot_timer TP_StartDeadline critic_slot) = Some (sr_slot r) \<and> awaits r TP_StartDeadline"
proof -
  let ?t = "slot_timer TP_StartDeadline critic_slot"
  have "map_option at_purpose (map_of (rs_timers (sample_state 6)) ?t) = Some TP_StartDeadline" by code_simp
  then obtain a where a: "map_of (rs_timers (sample_state 6)) ?t = Some a" "at_purpose a = TP_StartDeadline" by auto
  from armed_timers_are_awaited [OF sample_reached a(1)] show ?thesis unfolding a(2) by simp
qed

section \<open>Session keys\<close>

text \<open>C9. A session key is one session. In every state a host can reach the look-up of the key of any slot finds that
  slot, and the attempts at the same seat of a visit are numbered 1, 2, 3 in the order they were made.\<close>

theorem session_keys_identify:
  assumes "written run d es st" "flow_ok d" "counters_fit st" "i < length (rs_slots st)"
  shows "find_session st (session_key_of st (sr_slot (rs_slots st ! i))) = Some i \<and>
    sl_attempt (sr_slot (rs_slots st ! i)) =
      Suc (length (filter (\<lambda>r. sl_step (sr_slot r) = sl_step (sr_slot (rs_slots st ! i)) \<and>
        sl_visit (sr_slot r) = sl_visit (sr_slot (rs_slots st ! i)) \<and>
        sl_member (sr_slot r) = sl_member (sr_slot (rs_slots st ! i))) (take i (rs_slots st))))"
proof
  have s: "settled d {} st" using written_steady [OF assms(1-3)] by (simp add: steady_def)
  let ?k = "session_key_of st (sr_slot (rs_slots st ! i))"
  obtain j where j: "find_session st ?k = Some j"
    using assms(4) position_None_iff [of "\<lambda>r. session_key_of st (sr_slot r) = ?k" "rs_slots st"]
    by (cases "find_session st ?k") (auto simp: find_session_def)
  have jl: "j < length (rs_slots st)" "session_key_of st (sr_slot (rs_slots st ! j)) = ?k"
    using find_session_lt [OF j] find_session_eq [OF j] by auto
  have "plain_slot (sr_slot (rs_slots st ! i))" "plain_slot (sr_slot (rs_slots st ! j))"
    using settled_fit [OF s] nth_mem assms(4) jl(1) by (auto simp: fit_def)
  then have "sr_slot (rs_slots st ! j) = sr_slot (rs_slots st ! i)" using session_key_inject jl(2) by blast
  then show "find_session st ?k = Some i" using nth_unique [OF settledD(1) [OF s] jl(1) assms(4)] j by simp
  have "sl_attempt (slots_of st ! i) = Suc (attempts (take i (slots_of st)) (slots_of st ! i))"
    using settledD(1) [OF s] assms(4) by (simp add: numbered_def)
  then show "sl_attempt (sr_slot (rs_slots st ! i)) =
      Suc (length (filter (\<lambda>r. sl_step (sr_slot r) = sl_step (sr_slot (rs_slots st ! i)) \<and>
        sl_visit (sr_slot r) = sl_visit (sr_slot (rs_slots st ! i)) \<and>
        sl_member (sr_slot r) = sl_member (sr_slot (rs_slots st ! i))) (take i (rs_slots st))))"
    using assms(4) by (simp add: attempts_def same_seat_def take_map filter_map comp_def eq_commute)
qed

theorem session_keys_identify_witness:
  "find_session (sample_state 6) (session_key_of (sample_state 6) (sr_slot (rs_slots (sample_state 6) ! 1))) = Some 1"
proof -
  have "1 < length (rs_slots (sample_state 6))" by code_simp
  then show ?thesis using session_keys_identify [OF sample_reached] by blast
qed

section \<open>The visit at hand and the questions\<close>

text \<open>C7. A run works on one visit at a time. While it is open every current slot that has not replied, or whose reply
  escalated, belongs to the latest visit of the step at hand.\<close>

theorem work_is_at_hand:
  assumes "written run d es st" "flow_ok d" "counters_fit st" "open_run st" "r \<in> set (rs_slots st)"
    "\<not> is_superseded st r" "unfinished (sr_state r)"
  shows "rs_current_step st = Some (sl_step (sr_slot r)) \<and> map_of (rs_visits st) (sl_step (sr_slot r)) = Some (sl_visit (sr_slot r))"
proof -
  have s: "settled d {} st" using written_steady [OF assms(1-3)] by (simp add: steady_def)
  have "r \<in> owing st" using assms(5-7) superseded_iff [OF settledD(1) [OF s] assms(5)] by (simp add: owing_def)
  then show ?thesis using settledD(9) [OF s] assms(4) by (simp add: routed_def at_hand_def)
qed

theorem work_is_at_hand_witness:
  "rs_current_step (sample_state 6) = Some (sl_step (sr_slot (rs_slots (sample_state 6) ! 1)))"
proof -
  have i: "rs_slots (sample_state 6) ! 1 \<in> set (rs_slots (sample_state 6))" by (rule nth_mem) code_simp
  have "open_run (sample_state 6)" "\<not> is_superseded (sample_state 6) (rs_slots (sample_state 6) ! 1)"
    "unfinished (sr_state (rs_slots (sample_state 6) ! 1))" by code_simp+
  then show ?thesis using work_is_at_hand [OF sample_reached _ i] by blast
qed





section \<open>A stuck orphan\<close>

text \<open>The first attempt of the build is given up as lost and reports its start after the second attempt was made; the
  second ends too, and the third waits. The stop of the first runs through its ladder.\<close>

definition orphan_slot :: "nat \<Rightarrow> slot" where
  "orphan_slot a = \<lparr> sl_step = ''build'', sl_visit = 1, sl_member = ''dev'', sl_attempt = a \<rparr>"

definition orphan_fact :: "timestamp \<Rightarrow> key \<Rightarrow> nat \<Rightarrow> session_fact \<Rightarrow> event" where
  "orphan_fact at k a f = sample_event at k (EB_SessionFact (slot_session_key (orphan_slot a) sample_run) f)"

definition orphan_signal :: "timestamp \<Rightarrow> key \<Rightarrow> nat \<Rightarrow> event" where
  "orphan_signal at k n = sample_event at k (EB_StopSignalled (slot_session_key (orphan_slot 1) sample_run) n ST_Term)"

definition orphan_timer :: "timestamp \<Rightarrow> key \<Rightarrow> string \<Rightarrow> event" where
  "orphan_timer at k t = sample_event at k (EB_TimerFired t at)"

definition orphan_inputs :: "event list" where
  "orphan_inputs = take 4 sample_inputs @
     [orphan_timer 180003 ''o1'' (slot_timer TP_StartDeadline (orphan_slot 1)),
      orphan_fact 180004 ''o2'' 1 (SF_Ended EC_Lost),
      orphan_fact 180005 ''o3'' 1 (SF_Started ''b1'' None),
      orphan_fact 180006 ''o4'' 2 (SF_Ended EC_Lost),
      orphan_signal 180023 ''o5'' 1,
      orphan_timer 480023 ''o6'' (grace_timer 1 (orphan_slot 1)),
      orphan_signal 480033 ''o7'' 2,
      orphan_timer 780033 ''o8'' (grace_timer 2 (orphan_slot 1))]"

definition blocked_unseen :: "run_state \<Rightarrow> bool" where
  "blocked_unseen st \<longleftrightarrow> st_state (status st) = STS_Running \<and> st_needs (status st) = None \<and> pending_effects st = [] \<and>
     rs_timers st = [] \<and> filter (\<lambda>r. resume_target st (Some (sr_slot r)) \<noteq> None) (rs_slots st) = [] \<and>
     list_ex (\<lambda>r. is_would_not_stop (sr_condition r)) (rs_slots st) \<and>
     list_ex (\<lambda>r. \<not> is_superseded st r \<and> sr_state r = SS_Pending) (rs_slots st)"

text \<open>C39. A superseded session that will not stop blocks its seat unseen. It parks, but the park of a superseded slot is
  neither shown nor resumable, and its live process keeps the current attempt waiting: the run says it is running,
  asks for nothing, owes no effect, has no timer, and no resume of any slot is accepted.\<close>

theorem stuck_orphan_blocks_its_seat:
  "(\<exists>es. written sample_run sample_flow es (sample_after orphan_inputs)) \<and>
   st_state (status (sample_after orphan_inputs)) = STS_Running \<and> st_needs (status (sample_after orphan_inputs)) = None \<and>
   pending_effects (sample_after orphan_inputs) = [] \<and> rs_timers (sample_after orphan_inputs) = [] \<and>
   filter (\<lambda>r. resume_target (sample_after orphan_inputs) (Some (sr_slot r)) \<noteq> None) (rs_slots (sample_after orphan_inputs)) = [] \<and>
   (\<exists>r\<in>set (rs_slots (sample_after orphan_inputs)). is_would_not_stop (sr_condition r)) \<and>
   (\<exists>r\<in>set (rs_slots (sample_after orphan_inputs)). \<not> is_superseded (sample_after orphan_inputs) r \<and> sr_state r = SS_Pending)"
proof
  have "list_all no_decision orphan_inputs" by code_simp
  then show "\<exists>es. written sample_run sample_flow es (sample_after orphan_inputs)" by (rule sample_after_written)
  have "blocked_unseen (sample_after orphan_inputs)" by code_simp
  then show "st_state (status (sample_after orphan_inputs)) = STS_Running \<and> st_needs (status (sample_after orphan_inputs)) = None \<and>
      pending_effects (sample_after orphan_inputs) = [] \<and> rs_timers (sample_after orphan_inputs) = [] \<and>
      filter (\<lambda>r. resume_target (sample_after orphan_inputs) (Some (sr_slot r)) \<noteq> None) (rs_slots (sample_after orphan_inputs)) = [] \<and>
      (\<exists>r\<in>set (rs_slots (sample_after orphan_inputs)). is_would_not_stop (sr_condition r)) \<and>
      (\<exists>r\<in>set (rs_slots (sample_after orphan_inputs)). \<not> is_superseded (sample_after orphan_inputs) r \<and> sr_state r = SS_Pending)"
    unfolding blocked_unseen_def list_ex_iff .
qed

end
