(* ===== verification/Run_Store.thy ===== *)
theory Run_Store
  imports Run_Log
begin

text \<open>
  A run and the store that holds it, under everything that may be called on that store. The step relation
  \<open>kept\<close> pairs the state a host holds of a run with the store: a fold of an input or of a poisoned
  one that was appended moves both; an append of the run that was refused, any append of another run, any
  enqueue and any compare-and-set move the store alone. The lemmas show that the state stays the fold of
  the stored log and that the store's due timers are the state's.
\<close>

inductive kept :: "codec \<Rightarrow> run_id \<Rightarrow> flow_def \<Rightarrow> run_state \<Rightarrow> store \<Rightarrow> bool" for c run d where
  kept_new: "kept c run d (run_state_initial run d) empty_store"
| kept_input: "kept c run d st db \<Longrightarrow> (\<And>x. ev_body e \<noteq> EB_Decision x) \<Longrightarrow> reduce st e = Some (evs, st') \<Longrightarrow>
    store_append c run (rs_seq st) fence evs ks items db = (Inr a, db') \<Longrightarrow> kept c run d st' db'"
| kept_poison: "kept c run d st db \<Longrightarrow> evolve st (poison_event run st at k) = Inr st' \<Longrightarrow>
    store_append c run (rs_seq st) fence [poison_event run st at k] ks items db = (Inr a, db') \<Longrightarrow> kept c run d st' db'"
| kept_refused: "kept c run d st db \<Longrightarrow> store_append c run n fence evs ks items db = (Inl x, db') \<Longrightarrow> kept c run d st db'"
| kept_other: "kept c run d st db \<Longrightarrow> run' \<noteq> run \<Longrightarrow> store_append c run' n fence evs ks items db = (res, db') \<Longrightarrow> kept c run d st db'"
| kept_enqueue: "kept c run d st db \<Longrightarrow> enqueue c run' e items db = (res, db') \<Longrightarrow> kept c run d st db'"
| kept_cas: "kept c run d st db \<Longrightarrow> compare_and_set c k f t db = (res', db') \<Longrightarrow> kept c run d st db'"

lemma indexed_cong:
  "store_ok c db' \<Longrightarrow> db_events db' = db_events db \<Longrightarrow> db_timers db' = db_timers db \<Longrightarrow> indexed c run d st db \<Longrightarrow> indexed c run d st db'"
  by (simp add: indexed_def log_of_cong [of db' db])

lemma indexed_poison:
  assumes "codec_ok c" "indexed c run d st db" "evolve st (poison_event run st at k) = Inr st'"
    "store_append c run (rs_seq st) fence [poison_event run st at k] ks items db = (Inr a, db')"
  shows "indexed c run d st' db'"
proof -
  let ?p = "poison_event run st at k"
  have w: "store_ok c db" "written run d (log_of c run db) st" "timers_agree run st (db_timers db)"
    using assms(2) by (auto simp: indexed_def)
  have "positioned (rs_seq st) [?p] = [?p]" by (rule positioned_id) (simp add: poison_event_def event_new_def)
  then have "log_of c run db' = log_of c run db @ [?p]"
    using append_log [OF assms(1) w(1) assms(4), of run] by simp
  moreover have "written run d (log_of c run db @ [?p]) st'" using w(2) assms(3) by (rule written_poison)
  moreover have "db_timers db' = snd (timers_apply run [?p] (db_timers db))"
    by (rule append_effect [OF assms(1) w(1) assms(4)]) simp
  moreover have "timers_agree run st' (snd (timers_apply run [?p] (db_timers db)))"
    using agree_evolve [OF assms(3) w(3) _ finished.written_keeps [OF w(2)]] w(1)
    by (simp add: store_ok_def keys_ok_def case_prod_unfold Let_def)
  moreover have "store_ok c db'" using append_keeps [OF assms(1) w(1) assms(4)] by simp
  ultimately show ?thesis by (simp add: indexed_def)
qed

lemma kept_indexed:
  assumes "codec_ok c" "kept c run d st db"
  shows "indexed c run d st db"
  using assms(2)
proof (induction rule: kept.induct)
  case kept_new
  have "log_of c run empty_store = []" "db_timers empty_store = []" "rs_timers (run_state_initial run d) = []"
    by (simp_all add: log_of_def rows_of_def empty_store_def run_state_initial_def)
  then show ?case
    by (simp add: indexed_def store_ok_empty written_start timers_agree_def armed_of_def)
next
  case (kept_input st db e evs st' fence ks items a db')
  then show ?case using indexed_commit assms(1) by blast
next
  case (kept_poison st db at k st' fence ks items a db')
  then show ?case using indexed_poison assms(1) by blast
next
  case (kept_refused st db n fence evs ks items x db')
  have s: "store_ok c db" using kept_refused.IH by (simp add: indexed_def)
  from kept_refused.hyps(2) have "db' = db \<or> db' = delete_inbox_rows run ks db"
    by (cases rule: store_append_cases) auto
  then show ?case
    using kept_refused.IH indexed_cong [OF store_ok_delete [OF s]] by auto
next
  case (kept_other st db run' n fence evs ks items res db')
  then show ?case using indexed_other assms(1) by blast
next
  case (kept_enqueue st db run' e items res db')
  then show ?case using enqueue_keeps [OF assms(1) _ kept_enqueue.hyps(2)] indexed_cong by (auto simp: indexed_def)
next
  case (kept_cas st db k f t res' db')
  then show ?case using compare_and_set_keeps [OF _ kept_cas.hyps(2)] indexed_cong by (auto simp: indexed_def)
qed

section \<open>Due timers\<close>

definition due_of :: "timer_row \<Rightarrow> due_timer" where
  "due_of r = \<lparr> dt_run = tr_run r, dt_timer = tr_timer r, dt_fire_at = from_unix_millis (tr_fire_at r),
                dt_purpose = timer_purpose_parse (tr_purpose r) \<rparr>"

lemma due_fold:
  assumes "try_fold (due_row ok) rows acc = Inr ts"
  shows "set ts = set acc \<union> due_of ` {r \<in> set rows. known_purpose (timer_purpose_parse (tr_purpose r))}"
  using assms
proof (induction rows arbitrary: acc)
  case (Cons r rows)
  obtain acc1 where acc1: "due_row ok r acc = Inr acc1" "try_fold (due_row ok) rows acc1 = Inr ts" using Cons.prems by auto
  have "set acc1 = set acc \<union> (if known_purpose (timer_purpose_parse (tr_purpose r)) then {due_of r} else {})"
    using acc1(1) run_id_parse_SomeD [of ok "tr_run r"]
    by (auto simp: due_row_def due_of_def known_purpose_def split: timer_purpose.splits option.splits)
  then show ?case using Cons.IH [OF acc1(2)] by auto
qed simp

lemma due_timers_set:
  assumes "due_timers c now db = Inr ts"
  shows "set ts = due_of ` {r \<in> set (db_timers db). tr_state r = TS_Armed \<and> tr_fire_at r \<le> now \<and>
    known_purpose (timer_purpose_parse (tr_purpose r))}"
  using due_fold [of "co_ulid_ok c" _ "[]" ts] assms by (fastforce simp: due_timers_def timers_due_def)

lemma armed_map_iff:
  assumes "timers_unique rows"
  shows "armed_map run rows t = Some (f, p) \<longleftrightarrow>
    (\<exists>r\<in>set rows. tr_run r = run \<and> tr_timer r = t \<and> tr_state r = TS_Armed \<and> tr_fire_at r = f \<and> tr_purpose r = p)"
  using assms by (induction rows) (auto simp: is_timer_of_def)

lemma known_purpose_parse: "known_purpose p \<Longrightarrow> timer_purpose_parse (timer_purpose_str p) = p"
  unfolding timer_purpose_parse_def
  by (rule timer_purpose.parse_str) (cases p; simp add: known_purpose_def timer_purpose_table_def)

lemma kept_due:
  assumes "codec_ok c" "kept c run d st db" "due_timers c now db = Inr ts"
  shows "\<lparr> dt_run = run, dt_timer = t, dt_fire_at = f, dt_purpose = p \<rparr> \<in> set ts \<longleftrightarrow>
    (\<exists>a. map_of (rs_timers st) t = Some a \<and> at_fire_at a \<le> now \<and> f = from_unix_millis (at_fire_at a) \<and> p = at_purpose a)"
proof -
  have ix: "store_ok c db" "written run d (log_of c run db) st" "\<And>t. armed_map run (db_timers db) t = armed_of st t"
    using kept_indexed [OF assms(1,2)] by (auto simp: indexed_def timers_agree_def)
  have u: "timers_unique (db_timers db)" using ix(1) by (simp add: store_ok_def keys_ok_def)
  have known: "known_purpose (at_purpose a)" if "map_of (rs_timers st) t = Some a" for a
    using written_known [OF ix(2)] map_of_SomeD [OF that] by (auto simp: known_state_def)
  have "\<lparr> dt_run = run, dt_timer = t, dt_fire_at = f, dt_purpose = p \<rparr> \<in> set ts \<longleftrightarrow>
      (\<exists>f' q. armed_map run (db_timers db) t = Some (f', q) \<and> f' \<le> now \<and> f = from_unix_millis f' \<and>
         p = timer_purpose_parse q \<and> known_purpose p)"
    unfolding due_timers_set [OF assms(3)] armed_map_iff [OF u] by (auto simp: due_of_def)
  also have "\<dots> \<longleftrightarrow> (\<exists>a. map_of (rs_timers st) t = Some a \<and> at_fire_at a \<le> now \<and> f = from_unix_millis (at_fire_at a) \<and> p = at_purpose a)"
    unfolding ix(3) armed_of_def by (auto simp: known known_purpose_parse)
  finally show ?thesis .
qed

end
