(* ===== verification/Sample_Store.thy ===== *)
theory Sample_Store
  imports Sample_Run Run_Store
begin

text \<open>
  A store for the witnesses: the encoding is a finite table of the values the sample run writes, read
  backwards by a reader, and the store holds one host's lease on the sample run.
\<close>

definition table_read :: "('a \<times> string) list \<Rightarrow> string \<Rightarrow> 'a option" where
  "table_read tbl = map_of (map prod.swap tbl)"

lemma table_round_trip:
  assumes "distinct (map snd tbl)" "map_of tbl x = Some w"
  shows "table_read tbl w = Some x"
proof -
  have "(w, x) \<in> set (map prod.swap tbl)" using map_of_SomeD [OF assms(2)] by force
  moreover have "distinct (map fst (map prod.swap tbl))" using assms(1) by (simp add: comp_def)
  ultimately show ?thesis unfolding table_read_def by (rule map_of_is_SomeI [rotated])
qed

definition sample_lease :: "string \<Rightarrow> nat \<Rightarrow> timestamp \<Rightarrow> lease" where
  "sample_lease owner ep now = \<lparr> le_owner_id = owner, le_epoch = ep, le_expires_at = ts_plus now LEASE_EXPIRY \<rparr>"

definition lease_table :: "(lease \<times> bytes) list" where
  "lease_table = [(sample_lease ''host-a'' 1 0, ''la''), (sample_lease ''host-b'' 1 0, ''lb''), (sample_lease ''host-b'' 2 30000, ''lc'')]"

text \<open>A run withdrawn before its root message was posted, to its end: nothing to stop, park or deliver.\<close>

definition short_inputs :: "event list" where
  "short_inputs =
     [hd sample_inputs,
      sample_event 1 ''s1'' (EB_Withdrawn None WB_Requester),
      sample_event 2 ''s2'' (EB_TreeParked PO_Missing),
      sample_event 3 ''s3'' EB_ClaimReleased]"

definition short_log :: "event list" where
  "short_log = fst (the (run_inputs (run_state_initial sample_run sample_flow) short_inputs))"

definition event_table :: "(event \<times> string) list" where
  "event_table =
     map (\<lambda>e. (e, ev_key e @ ''#'' @ show_nat (ev_seq e))) (short_log @ take 2 sample_inputs)"

definition sample_codec :: codec where
  "sample_codec =
     \<lparr> co_event_write = map_of event_table, co_event_read = table_read event_table,
       co_lease_write = map_of lease_table, co_lease_read = table_read lease_table,
       co_entry_read = (\<lambda>_. None), co_instant_write = (\<lambda>_. None), co_instant_read = (\<lambda>_. None),
       co_ulid_ok = (\<lambda>_. True) \<rparr>"

lemma sample_codec_ok: "codec_ok sample_codec"
proof -
  have "distinct (map snd event_table)" "distinct (map snd lease_table)" by code_simp+
  then show ?thesis by (simp add: codec_ok_def sample_codec_def table_round_trip)
qed

text \<open>A new store, and the one where \<open>host-a\<close> holds the lease at epoch 1.\<close>

definition sample_db :: store where
  "sample_db = empty_store\<lparr>db_kv := [(owner_key sample_run, ''la'')]\<rparr>"

lemma sample_db_reached: "(store_step sample_codec)\<^sup>*\<^sup>* empty_store sample_db"
proof -
  have "snd (compare_and_set sample_codec (owner_key sample_run) None (Some ''la'') empty_store) = sample_db" by code_simp
  then show ?thesis
    using step_cas [of sample_codec empty_store "owner_key sample_run" None "Some ''la''"] by auto
qed

lemma leases_ok_empty: "leases_ok c empty_store"
  by (simp add: leases_ok_def store_get_def empty_store_def)

lemma sample_db_ok: "store_ok sample_codec sample_db \<and> leases_ok sample_codec sample_db"
  using store_steps_keep [OF sample_codec_ok sample_db_reached] store_ok_empty leases_ok_empty by blast

definition sample_append :: "(store_error + appended) \<times> store" where
  "sample_append = store_append sample_codec sample_run 0 1 (sample_log 1) [] [] sample_db"

lemma sample_append_ok: "\<exists>a db. sample_append = (Inr a, db) \<and> ap_last_seq a = length (sample_log 1)"
proof -
  have "case fst sample_append of Inr a \<Rightarrow> ap_last_seq a = length (sample_log 1) | Inl _ \<Rightarrow> False" by code_simp
  then obtain a where "fst sample_append = Inr a" "ap_last_seq a = length (sample_log 1)"
    by (cases "fst sample_append") simp_all
  then show ?thesis by (intro exI [of _ a] exI [of _ "snd sample_append"]) (simp add: prod_eq_iff)
qed

section \<open>Folding into the store\<close>

text \<open>Every input reduced and appended at epoch 1.\<close>

fun commit_all :: "codec \<Rightarrow> run_state \<Rightarrow> event list \<Rightarrow> store \<Rightarrow> (run_state \<times> store) option" where
  "commit_all c st [] db = Some (st, db)"
| "commit_all c st (e # es) db =
     (case reduce st e of
        None \<Rightarrow> None
      | Some (evs, st1) \<Rightarrow>
          (case store_append c (rs_run st) (rs_seq st) 1 evs [] [] db of
             (Inr _, db1) \<Rightarrow> commit_all c st1 es db1
           | _ \<Rightarrow> None))"

lemma kept_commit_all:
  assumes "codec_ok c" "kept c run d st db" "\<forall>e\<in>set es. \<forall>x. ev_body e \<noteq> EB_Decision x"
    "commit_all c st es db = Some (st', db')"
  shows "kept c run d st' db'"
  using assms(2-4)
proof (induction es arbitrary: st db)
  case (Cons e es)
  have run: "rs_run st = run" using kept_indexed [OF assms(1) Cons.prems(1)] written_frame by (auto simp: indexed_def)
  obtain evs st1 a db1 where s: "reduce st e = Some (evs, st1)" "store_append c run (rs_seq st) 1 evs [] [] db = (Inr a, db1)"
      "commit_all c st1 es db1 = Some (st', db')"
    using Cons.prems(3) run by (auto split: option.splits prod.splits sum.splits)
  have "\<And>x. ev_body e \<noteq> EB_Decision x" using Cons.prems(2) by simp
  then have "kept c run d st1 db1" using Cons.prems(1) s(1,2) kept_input by blast
  then show ?case using Cons.IH Cons.prems(2) s(3) by simp
qed simp

lemma sample_db_kept: "kept sample_codec sample_run d (run_state_initial sample_run d) sample_db"
proof -
  have "compare_and_set sample_codec (owner_key sample_run) None (Some ''la'') empty_store = (Inr (), sample_db)" by code_simp
  with kept_new show ?thesis by (rule kept_cas)
qed

definition short_end :: "(run_state \<times> store) option" where
  "short_end = commit_all sample_codec (run_state_initial sample_run sample_flow) short_inputs sample_db"

lemma short_kept:
  assumes "short_end = Some (st, db)"
  shows "kept sample_codec sample_run sample_flow st db"
proof (rule kept_commit_all [OF sample_codec_ok sample_db_kept _ assms [unfolded short_end_def]])
  show "\<forall>e\<in>set short_inputs. \<forall>x. ev_body e \<noteq> EB_Decision x"
    by (simp add: short_inputs_def sample_inputs_def sample_event_def event_new_def)
qed

end
