(* ===== verification/Store_Properties.thy ===== *)
theory Store_Properties
  imports Sample_Store
begin

text \<open>
  The properties of the SQLite store: what one append does, what any sequence of calls keeps, the fence,
  the lease of a run and its inbox.
\<close>

section \<open>Appends\<close>

text \<open>No step of an append but the look-up of its keys answers with a duplicate key.\<close>

definition no_dup :: "store_error + 'a \<Rightarrow> bool" where
  "no_dup r \<longleftrightarrow> (\<forall>sq. r \<noteq> Inl (SE_DuplicateKey sq))"

lemma no_dup_base:
  "no_dup (Inr x)" "no_dup r \<Longrightarrow> (\<And>x. no_dup (f x)) \<Longrightarrow> no_dup (and_then r f)"
  by (auto simp: no_dup_def and_then_def split: sum.splits)

lemma no_dup_lease:
  "no_dup (decode_lease c k b)" "no_dup (current_epoch c run db)" "no_dup (check_owner_value c k v)"
  "no_dup (check_epoch_keeps_rising c k v w)" "no_dup (check_effect_write c k b db)"
proof -
  show d: "no_dup (decode_lease c k b)" for c k b by (simp add: no_dup_def decode_lease_def split: option.split)
  show e: "no_dup (current_epoch c run db)" for run
    unfolding current_epoch_def by (auto intro!: no_dup_base d split: option.split)
  show "no_dup (check_owner_value c k v)" by (simp add: no_dup_def check_owner_value_def split: option.split)
  show "no_dup (check_epoch_keeps_rising c k v w)"
    unfolding check_epoch_keeps_rising_def by (auto intro!: no_dup_base d simp: no_dup_def [of "Inl _"] split: option.split)
  show "no_dup (check_effect_write c k b db)"
    unfolding check_effect_write_def by (auto intro!: no_dup_base e simp: no_dup_def [of "Inl _"] split: option.split)
qed

lemma no_dup_apply_cas: "no_dup (apply_cas c item db)"
  unfolding apply_cas_def Let_def by (auto intro!: no_dup_base no_dup_lease simp: no_dup_def [of "Inl _"] split: option.split)

lemma no_dup_try_fold: "(\<And>x s. no_dup (f x s)) \<Longrightarrow> no_dup (try_fold f xs s)"
  by (induction xs arbitrary: s) (simp_all add: no_dup_base)

lemma no_dup_checks:
  "no_dup (check_call c run es items)" "no_dup (create_run run e db)" "no_dup (insert_events c es n db)"
  "no_dup (check_commissioned_position i es n row)"
proof -
  have ev: "no_dup (check_event c run e)" for e
    unfolding check_event_def by (auto simp: no_dup_def split: event_body.split)
  have "no_dup (check_events c run seen es)" for seen
    by (induction es arbitrary: seen) (auto intro!: no_dup_base ev simp: no_dup_def [of "Inl _"])
  moreover have "no_dup (check_cas_keys seen items)" for seen
    by (induction items arbitrary: seen) (auto simp: no_dup_def)
  ultimately show "no_dup (check_call c run es items)" unfolding check_call_def by (intro no_dup_base(2))
  show "no_dup (create_run run e db)" by (auto simp: create_run_def no_dup_def split: event_body.split)
  have "no_dup (insert_event c e n db)" for e n db
    by (auto simp: insert_event_def wire_def no_dup_def and_then_def split: option.split)
  then show "no_dup (insert_events c es n db)"
    by (induction es arbitrary: n db) (simp_all add: no_dup_base)
  show "no_dup (check_commissioned_position i es n row)"
    by (induction es arbitrary: i) (auto simp: no_dup_def split: event_body.split)
qed

lemma no_dup_append_tx: "no_dup (append_tx c run row es ks items db)"
proof -
  have "no_dup (case (row, es) of (None, e # _) \<Rightarrow> create_run run e db | _ \<Rightarrow> Inr db)"
    by (simp add: no_dup_base no_dup_checks split: option.split list.split)
  then show ?thesis
    unfolding append_tx_def Let_def case_prod_unfold
    by (intro no_dup_base no_dup_checks no_dup_try_fold no_dup_apply_cas)
qed

lemma append_duplicate:
  assumes "store_append c run n fence es ks items db = (Inl (SE_DuplicateKey sq), db')"
  shows "\<exists>e\<in>set es. logged_seq run (ev_key e) db = Some sq \<and> db' = delete_inbox_rows run ks db"
proof -
  have "check_call c run es items \<noteq> Inl (SE_DuplicateKey sq)" "current_epoch c run db \<noteq> Inl (SE_DuplicateKey sq)"
    "append_tx c run (read_run run db) es ks items db \<noteq> Inl (SE_DuplicateKey sq)"
    using no_dup_checks(1) no_dup_lease(2) no_dup_append_tx unfolding no_dup_def by blast+
  then show ?thesis
    using assms
    by (auto simp: store_append_def Let_def split: sum.splits if_splits option.splits prod.splits dest!: find_map_SomeD)
qed

text \<open>C19. An append is all or nothing. Where it succeeds, the caller held the run's epoch and knew the
  length of its log; the log of that run is the old one followed by the events at the next positions, the
  logs of other runs are as they were, and exactly the named inputs of the run are gone from the inbox.
  Where a key is already logged, only those inputs go. Every other refusal leaves the store as it was.\<close>

theorem append_all_or_nothing:
  assumes "codec_ok c" "store_ok c db" "store_append c run n fence es ks items db = (res, db')"
  shows "case res of
      Inr a \<Rightarrow> current_epoch c run db = Inr (Some fence) \<and> n = length (log_of c run db) \<and> ap_last_seq a = n + length es \<and>
        (\<forall>r. log_of c r db' = (if r = run then log_of c run db @ positioned n es else log_of c r db)) \<and>
        db_inbox db' = filter (\<lambda>r. \<not> (ib_run r = run \<and> ib_key r \<in> set ks)) (db_inbox db)
    | Inl (SE_DuplicateKey sq) \<Rightarrow> (\<exists>e\<in>set es. logged_seq run (ev_key e) db = Some sq) \<and> db' = delete_inbox_rows run ks db
    | Inl _ \<Rightarrow> db' = db"
  using assms(3)
proof (cases rule: store_append_cases)
  case (ok a)
  have app: "store_append c run n fence es ks items db = (Inr a, db')" using assms(3) ok(1) by simp
  have "n = length (log_of c run db)" using sqlite.app_seq [of c db] app assms(1,2) by blast
  moreover have "ap_last_seq a = n + length es" "db_inbox db' = db_inbox (delete_inbox_rows run ks db)"
    by (rule append_effect [OF assms(1,2) app]; simp)+
  ultimately show ?thesis
    using append_log [OF assms(1,2) app] append_fence(1) [OF app] ok(1) by (simp add: delete_inbox_rows_def)
next
  case (dup sq e)
  then show ?thesis by auto
next
  case (err x)
  then show ?thesis
    using append_duplicate [of c run n fence es ks items db _ db'] assms(3) by (auto split: store_error.split)
qed

theorem append_all_or_nothing_witness:
  "\<exists>a db. sample_append = (Inr a, db) \<and> log_of sample_codec sample_run db = positioned 0 (sample_log 1)"
proof -
  obtain a db where a: "sample_append = (Inr a, db)" using sample_append_ok by blast
  have "log_of sample_codec sample_run sample_db = []" by code_simp
  then show ?thesis
    using append_all_or_nothing [OF sample_codec_ok conjunct1 [OF sample_db_ok], of sample_run 0 1 "sample_log 1" "[]" "[]" "Inr a" db] a
    by (simp add: sample_append_def)
qed

section \<open>Any sequence of calls\<close>

text \<open>C20. Whatever calls a new store served, refused ones included and from any number of hosts, every
  run's log reads back whole: its events belong to the run, their positions are 1, 2, 3 and so on without a
  gap, and no two have the same key.\<close>

theorem log_always_whole:
  assumes "codec_ok c" "(store_step c)\<^sup>*\<^sup>* empty_store db"
  shows "\<exists>es. load c run 0 db = Inr es \<and> map ev_seq es = [1..<Suc (length es)] \<and> distinct (map ev_key es) \<and>
    set (map ev_run es) \<subseteq> {run}"
proof -
  have ok: "store_ok c db" using store_steps_keep [OF assms] store_ok_empty leases_ok_empty by blast
  then have run: "run_ok c run db" by (simp add: store_ok_def)
  have seqs: "map ev_seq (log_of c run db) = [1..<Suc (length (log_of c run db))]"
    using sqlite.log_seqs [of c db run] assms(1) ok by simp
  have rows: "map ev_key (log_of c run db) = map er_key (rows_of run db)" "set (map ev_run (log_of c run db)) \<subseteq> {run}"
    using run by (force simp: run_ok_def row_reads_def log_of_def rows_of_def)+
  have "distinct (map er_key (rows_of run db))" using run by (simp add: run_ok_def)
  with seqs rows load_all [OF ok, of run] show ?thesis by metis
qed

theorem log_always_whole_witness:
  "\<exists>es. load sample_codec sample_run 0 (snd sample_append) = Inr es \<and> map ev_seq es = [1..<Suc (length es)]"
proof -
  have "(store_step sample_codec)\<^sup>*\<^sup>* empty_store (snd sample_append)"
    using sample_db_reached step_append [of sample_codec sample_db sample_run 0 1 "sample_log 1" "[]" "[]"]
    by (simp add: sample_append_def)
  from log_always_whole [OF sample_codec_ok this] show ?thesis by blast
qed

text \<open>C18. A host whose lease was taken over never writes to the run again: once the stored epoch is above
  the one it holds, every append it sends is refused as fenced and changes nothing, whatever was called on
  the store in between.\<close>

theorem stale_host_is_fenced:
  assumes "codec_ok c" "store_ok c db" "leases_ok c db" "fence < epoch_of c run db"
    "(store_step c)\<^sup>*\<^sup>* db db'" "check_call c run es items = Inr ()"
  shows "store_append c run n fence es ks items db' = (Inl SE_Fenced, db')"
  using stale_append_fenced [OF assms] .

theorem stale_host_is_fenced_witness:
  "store_append sample_codec sample_run 7 0 [] [] [] sample_db = (Inl SE_Fenced, sample_db)"
proof (rule stale_host_is_fenced [OF sample_codec_ok conjunct1 [OF sample_db_ok] conjunct2 [OF sample_db_ok] _ rtranclp.rtrancl_refl])
  show "0 < epoch_of sample_codec sample_run sample_db" by code_simp
  show "check_call sample_codec sample_run [] [] = Inr ()" by code_simp
qed

section \<open>Leases\<close>

text \<open>C27. Of two hosts that read the same state of a lease and both decide to write, at most one gets it:
  after the first has written, the other's write is refused and changes nothing.\<close>

theorem lease_race_has_one_winner:
  assumes "codec_ok c" "acquire_plan c run a now_a current = Inr (LP_Write la)"
    "acquire_finish c run current (Inr (LP_Write la)) db = (Inr la', db1)"
    "writable now_a" "now_a + expiry_ms \<le> last_writable_millis" "co_lease_write c lb = Some bb"
  shows "acquire_finish c run current (Inr (LP_Write lb)) db1 = (Inl (SE_CasFailed (owner_key run)), db1)"
  using lease_race [OF assms] .

theorem lease_race_has_one_winner_witness:
  "\<exists>db1. acquire_finish sample_codec sample_run None (Inr (LP_Write (sample_lease ''host-b'' 1 0))) db1 =
     (Inl (SE_CasFailed (owner_key sample_run)), db1)"
proof -
  have plan: "acquire_plan sample_codec sample_run ''host-a'' 0 None = Inr (LP_Write (sample_lease ''host-a'' 1 0))"
    by code_simp
  have win: "acquire_finish sample_codec sample_run None (Inr (LP_Write (sample_lease ''host-a'' 1 0))) empty_store =
      (Inr (sample_lease ''host-a'' 1 0), sample_db)" by code_simp
  have "co_lease_write sample_codec (sample_lease ''host-b'' 1 0) = Some ''lb''" by code_simp
  from lease_race_has_one_winner [OF sample_codec_ok plan win _ _ this] show ?thesis
    by (auto simp: writable_def first_writable_millis_def last_writable_millis_def expiry_ms_def LEASE_EXPIRY_def)
qed

text \<open>C28. A run changes hands only after its lease ran out, and then at a higher epoch. A host that is given
  the lease is its owner and holds the stored epoch; while the lease it found was live it was already its
  own, at the same epoch; a live lease of another host is refused and the store stays as it was.\<close>

theorem lease_changes_hands_after_expiry:
  assumes "codec_ok c" "store_get (owner_key run) db = Some b" "co_lease_read c b = Some held"
    "acquire_or_renew c run me now db = (res, db')"
  shows "case res of
      Inr l \<Rightarrow> le_owner_id l = me \<and> current_epoch c run db' = Inr (Some (le_epoch l)) \<and>
        (now < le_expires_at held \<longrightarrow> le_owner_id held = me \<and> le_epoch l = le_epoch held) \<and>
        (le_expires_at held \<le> now \<longrightarrow> le_epoch l = le_epoch held + 1)
    | Inl _ \<Rightarrow> db' = db"
proof (cases res)
  case (Inl e)
  have "db' = db" if "acquire_finish c run (Some b) plan db = (Inl e, db')" for plan
    using that unfolding acquire_finish_def
    by (auto simp: encode_lease_def split: sum.splits lease_plan.splits option.splits prod.splits elim!: compare_and_set_cases)
  then show ?thesis using assms(2,4) Inl by (simp add: acquire_or_renew_def Let_def)
next
  case (Inr l)
  let ?plan = "acquire_plan c run me now (Some b)"
  have fin: "acquire_finish c run (Some b) ?plan db = (Inr l, db')"
    using assms(2,4) Inr by (simp add: acquire_or_renew_def Let_def)
  have own: "le_owner_id l = me" "current_epoch c run db' = Inr (Some (le_epoch l))"
    using acquire_holds [OF assms(1)] assms(4) Inr by blast+
  have "(now < le_expires_at held \<longrightarrow> le_owner_id held = me \<and> le_epoch l = le_epoch held) \<and>
        (le_expires_at held \<le> now \<longrightarrow> le_epoch l = le_epoch held + 1)"
  proof (cases ?plan)
    case (Inr p)
    show ?thesis
    proof (cases p)
      case (LP_Keep k)
      then show ?thesis using fin acquire_plan_keep [of c run me now "Some b" k] Inr assms(3)
        by (auto simp: acquire_finish_def)
    next
      case (LP_Write w)
      then have "l = w" using acquire_finish_write [of c run "Some b" w db l db'] fin Inr by auto
      then show ?thesis using acquire_plan_write [of c run me now "Some b" w] Inr LP_Write assms(3)
        by (auto split: if_splits)
    qed
  qed (use fin in \<open>simp add: acquire_finish_def\<close>)
  with own Inr show ?thesis by simp
qed

theorem lease_changes_hands_after_expiry_witness:
  "\<exists>db'. acquire_or_renew sample_codec sample_run ''host-b'' 30000 sample_db = (Inr (sample_lease ''host-b'' 2 30000), db') \<and>
     current_epoch sample_codec sample_run db' = Inr (Some 2)"
proof -
  let ?r = "acquire_or_renew sample_codec sample_run ''host-b'' 30000 sample_db"
  have held: "store_get (owner_key sample_run) sample_db = Some ''la''"
    "co_lease_read sample_codec ''la'' = Some (sample_lease ''host-a'' 1 0)" by code_simp+
  have "fst ?r = Inr (sample_lease ''host-b'' 2 30000)" by code_simp
  then have r: "?r = (Inr (sample_lease ''host-b'' 2 30000), snd ?r)" by (simp add: prod_eq_iff)
  from lease_changes_hands_after_expiry [OF sample_codec_ok held r]
  show ?thesis using r by (intro exI [of _ "snd ?r"]) (simp add: sample_lease_def)
qed

section \<open>The inbox\<close>

text \<open>C29. An input is taken once. After an enqueue that answered, accepted or duplicate, the same input sent
  again is a duplicate and changes nothing; and an input whose key the run's log already holds is a
  duplicate too.\<close>

theorem enqueue_once:
  assumes "codec_ok c" "store_ok c db" "check_call c run [e] items = Inr ()"
    "enqueue c run e items' db = (Inr r, db') \<or> logged_seq run (ev_key e) db' \<noteq> None"
  shows "enqueue c run e items db' = (Inr EN_Duplicate, db')"
  using assms(4)
proof
  assume "enqueue c run e items' db = (Inr r, db')"
  from enqueue_again [OF assms(1,2) this assms(3)] show ?thesis .
next
  assume "logged_seq run (ev_key e) db' \<noteq> None"
  then show ?thesis using assms(3) by (simp add: enqueue_def)
qed

definition sample_enqueue :: "(store_error + enqueued) \<times> store" where
  "sample_enqueue = enqueue sample_codec sample_run (hd sample_inputs) [] sample_db"

lemma sample_enqueued: "sample_enqueue = (Inr EN_Accepted, snd sample_enqueue)"
proof -
  have "fst sample_enqueue = Inr EN_Accepted" by code_simp
  then show ?thesis by (simp add: prod_eq_iff)
qed

theorem enqueue_once_witness:
  "enqueue sample_codec sample_run (hd sample_inputs) [] (snd sample_enqueue) = (Inr EN_Duplicate, snd sample_enqueue)"
proof (rule enqueue_once [OF sample_codec_ok conjunct1 [OF sample_db_ok]])
  show "check_call sample_codec sample_run [hd sample_inputs] [] = Inr ()" by code_simp
  show "enqueue sample_codec sample_run (hd sample_inputs) [] sample_db = (Inr EN_Accepted, snd sample_enqueue) \<or>
      logged_seq sample_run (ev_key (hd sample_inputs)) (snd sample_enqueue) \<noteq> None"
    using sample_enqueued by (simp add: sample_enqueue_def)
qed

text \<open>The inbox of a run is a queue. An accepted input waits behind every input of its run that was
  there, with position 0 whatever position it came with, and beside nothing of another run; what is read
  next is the oldest waiting input.\<close>

theorem inbox_is_a_queue:
  assumes "codec_ok c" "store_ok c db" "enqueue c run e items db = (Inr EN_Accepted, db')"
  shows "waiting_inputs c r db' = waiting_inputs c r db @ (if r = run then [Inr (e\<lparr>ev_seq := 0\<rparr>)] else []) \<and>
    next_input c run db' =
      (if waiting_inputs c run db = [] then Inr (Some (e\<lparr>ev_seq := 0\<rparr>)) else next_input c run db)"
  using waiting_enqueue [OF assms] by (simp add: next_input_waiting waiting_enqueue [OF assms] split: list.split)

theorem inbox_is_a_queue_witness:
  "next_input sample_codec sample_run (snd sample_enqueue) = Inr (Some (hd sample_inputs))"
proof -
  have w: "waiting_inputs sample_codec sample_run sample_db = []" by code_simp
  have e: "(hd sample_inputs)\<lparr>ev_seq := 0\<rparr> = hd sample_inputs" by (simp add: sample_inputs_def sample_event_def event_new_def)
  show ?thesis
    using inbox_is_a_queue [OF sample_codec_ok conjunct1 [OF sample_db_ok] sample_enqueued [unfolded sample_enqueue_def]] w e
    by (simp add: sample_enqueue_def)
qed

end
