(* ===== verification/Host_Calls.thy ===== *)
theory Host_Calls
  imports Host_Fold
begin

text \<open>
  The calls a host makes, one at a time. A part of the host that talks to several systems (the store, the chat store, the
  session backend, the tree worker) is a value of \<open>prog\<close>: it makes one call, \<open>Do call k\<close>, and goes on with
  \<open>k\<close> at the answer, or returns. Between two calls the process may die and others may act, so what such a part
  guarantees can be said for every crash and every interleaving. \<open>world\<close> is what survives a crash; \<open>host_mem\<close>
  is what does not. \<open>perform\<close> is what a call does to the two; a call whose answer comes from outside
  (a clock, a declaration, a process) has none, and is answered by the environment. \<open>call_step\<close> adds the faults:
  a call may be refused, and it may take effect while its answer is lost.
\<close>

section \<open>Values of the ports\<close>

text \<open>\<^verbatim>\<open>ports.rs\<close>, \<^verbatim>\<open>start.rs\<close>, \<^verbatim>\<open>effects.rs\<close>,
  \<^verbatim>\<open>tree_effects.rs\<close> and the session contract of \<^verbatim>\<open>run-contracts/src/session.rs\<close>. The
  references of a message are its \<^verbatim>\<open>nxf_ids\<close>.\<close>

record thread_route =
  th_run :: run_id
  th_session_key :: "session_key option"

record pending_commission =
  pc_root_thread :: message_id
  pc_channel :: string
  pc_sender :: handle
  pc_body :: string
  pc_refs :: "string list"

record stored_refusal =
  sf_reason :: tree_refusal
  sf_text :: string
  sf_at :: timestamp
  sf_first_refused_at :: timestamp

record post =
  po_thread :: message_id
  po_sender :: handle
  po_text :: string
  po_refs :: "string list"
  po_key :: key

record message =
  mg_sender :: handle
  mg_body :: string
  mg_refs :: "string list"

record persona_decl =
  pn_handle :: handle
  pn_model :: "string option"
  pn_permissions :: "string option"
  pn_tools :: "string list"
  pn_resume_session :: bool

record prompt_bundle =
  pb_system_prompt :: string
  pb_use_claude_code_preset :: bool
  pb_granted_tools :: "string list"
  pb_declaration_hash :: string

record env_var =
  en_name :: string
  en_value :: string

record prompt =
  pr_system_prompt :: string
  pr_use_claude_code_preset :: bool
  pr_declaration_hash :: string

record turn =
  tu_thread :: message_id
  tu_text :: string

record start_spec =
  sp_v :: nat
  sp_session_key :: session_key
  sp_cwd :: string
  sp_env :: "env_var list"
  sp_prompt :: prompt
  sp_turn :: turn
  sp_resume :: "string option"
  sp_model :: "string option"
  sp_tools :: "string list"
  sp_permissions :: "string option"
  sp_ledger_dir :: string

datatype start_outcome = SO_Spawned | SO_Reattached | SO_Waiting | SO_Lost

datatype liveness = LV_Dead | LV_Alive "timestamp option" "timestamp option" \<comment> \<open>open_call, moved_at\<close>

record drained_fact =
  df_offset :: nat
  df_fact :: session_fact

record layout =
  la_root :: string
  la_agent_logs :: string
  la_session_env :: "env_var list"

definition v2_dir :: "layout \<Rightarrow> string" where
  "v2_dir l = la_root l @ ''-v2''"

definition ledger_dir :: "layout \<Rightarrow> string \<Rightarrow> string" where
  "ledger_dir l k = la_agent_logs l @ ''/v2/'' @ k"

section \<open>Calls and answers\<close>

text \<open>A failed port call carries no text here: the host never looks at it. \<open>CL_Mem f\<close> is a step of the host on
  its own memory, answered with the memory before it; \<open>CL_Loaded\<close> and \<open>CL_Fold\<close> are the parts of the host
  that are modelled call by call in \<^verbatim>\<open>Host_Fold\<close>, taken as one.\<close>

datatype call =
    CL_Mem "host_mem \<Rightarrow> host_mem"
  | CL_Loaded run_id
  | CL_Fold "host \<Rightarrow> host"
  | CL_Now
  | CL_Spent
  | CL_Mint
  | CL_Get key
  | CL_Cas key "bytes option" "bytes option"
  | CL_Enqueue run_id event
  | CL_OpenRuns
  | CL_DueTimers timestamp
  | CL_OpenThread message_id "message_id option" string handle \<comment> \<open>id, parent, channel, opener\<close>
  | CL_Find message_id key
  | CL_Post post
  | CL_Read message_id
  | CL_Persona handle
  | CL_Prompt handle
  | CL_Turn handle "turn_part list"
  | CL_Bundle
  | CL_EnvVar string
  | CL_Start start_spec
  | CL_Nudge session_key string
  | CL_Stop session_key bool \<comment> \<open>key, force\<close>
  | CL_Alive session_key
  | CL_Drain session_key nat
  | CL_ReadOffset session_key
  | CL_WriteOffset session_key nat
  | CL_Begin tree_op
  | CL_Cancel
  | CL_Poll

datatype answer =
    AN_Mem host_mem
  | AN_State "run_state option"
  | AN_Unit
  | AN_Now timestamp
  | AN_Bool bool
  | AN_Id string
  | AN_Bytes "store_error + bytes option"
  | AN_Done "store_error + unit"
  | AN_Enqueued "store_error + enqueued"
  | AN_Runs "store_error + run_row list"
  | AN_Due "store_error + due_timer list"
  | AN_Found "message_id option option"
  | AN_Posted "message_id option"
  | AN_Message "message option option"
  | AN_Persona "persona_decl option"
  | AN_Prompt "prompt_bundle option"
  | AN_Text "string option"
  | AN_Started "start_outcome option"
  | AN_Alive "liveness option"
  | AN_Drained "(drained_fact list \<times> nat) option"
  | AN_Offset "nat option"
  | AN_Polled "(tree_op \<times> tree_result) option"

datatype 'r prog = Ret 'r | Do call "answer \<Rightarrow> 'r prog"

primrec bindp :: "'a prog \<Rightarrow> ('a \<Rightarrow> 'b prog) \<Rightarrow> 'b prog" where
  "bindp (Ret x) f = f x"
| "bindp (Do c k) f = Do c (\<lambda>a. bindp (k a) f)"

text \<open>The question mark of the source: an error ends the part.\<close>

definition tryp :: "('e + 'a) prog \<Rightarrow> ('a \<Rightarrow> ('e + 'b) prog) \<Rightarrow> ('e + 'b) prog" where
  "tryp p f = bindp p (\<lambda>r. case r of Inl e \<Rightarrow> Ret (Inl e) | Inr x \<Rightarrow> f x)"

lemma bindp_Ret [simp]: "bindp p Ret = p"
  by (induction p) simp_all

lemma bindp_assoc [simp]: "bindp (bindp p f) g = bindp p (\<lambda>x. bindp (f x) g)"
  by (induction p) simp_all

section \<open>Typed calls\<close>

text \<open>An answer of another kind than the call's reads as the refusal of the call; no environment gives one.\<close>

definition mem :: "(host_mem \<Rightarrow> host_mem) \<Rightarrow> unit prog" where
  "mem f = Do (CL_Mem f) (\<lambda>_. Ret ())"

definition ask_mem :: "host_mem prog" where
  "ask_mem = Do (CL_Mem (\<lambda>m. m)) (\<lambda>a. case a of AN_Mem m \<Rightarrow> Ret m | _ \<Rightarrow> Ret (host_new []))"

definition loaded :: "run_id \<Rightarrow> run_state option prog" where
  "loaded run = Do (CL_Loaded run) (\<lambda>a. case a of AN_State st \<Rightarrow> Ret st | _ \<Rightarrow> Ret None)"

definition fold_call :: "(host \<Rightarrow> host) \<Rightarrow> unit prog" where
  "fold_call f = Do (CL_Fold f) (\<lambda>_. Ret ())"

definition clock_now :: "timestamp prog" where
  "clock_now = Do CL_Now (\<lambda>a. case a of AN_Now t \<Rightarrow> Ret t | _ \<Rightarrow> Ret 0)"

definition spent :: "bool prog" where
  "spent = Do CL_Spent (\<lambda>a. case a of AN_Bool b \<Rightarrow> Ret b | _ \<Rightarrow> Ret False)"

definition mint :: "string prog" where
  "mint = Do CL_Mint (\<lambda>a. case a of AN_Id i \<Rightarrow> Ret i | _ \<Rightarrow> Ret [])"

definition kv_get :: "key \<Rightarrow> (store_error + bytes option) prog" where
  "kv_get k = Do (CL_Get k) (\<lambda>a. case a of AN_Bytes r \<Rightarrow> Ret r | _ \<Rightarrow> Ret (Inl SE_Busy))"

definition kv_cas :: "key \<Rightarrow> bytes option \<Rightarrow> bytes option \<Rightarrow> (store_error + unit) prog" where
  "kv_cas k from to = Do (CL_Cas k from to) (\<lambda>a. case a of AN_Done r \<Rightarrow> Ret r | _ \<Rightarrow> Ret (Inl SE_Busy))"

definition enqueue_call :: "run_id \<Rightarrow> event \<Rightarrow> (store_error + enqueued) prog" where
  "enqueue_call run e = Do (CL_Enqueue run e) (\<lambda>a. case a of AN_Enqueued r \<Rightarrow> Ret r | _ \<Rightarrow> Ret (Inl SE_Busy))"

definition open_runs_call :: "(store_error + run_row list) prog" where
  "open_runs_call = Do CL_OpenRuns (\<lambda>a. case a of AN_Runs r \<Rightarrow> Ret r | _ \<Rightarrow> Ret (Inl SE_Busy))"

definition due_timers_call :: "timestamp \<Rightarrow> (store_error + due_timer list) prog" where
  "due_timers_call now = Do (CL_DueTimers now) (\<lambda>a. case a of AN_Due r \<Rightarrow> Ret r | _ \<Rightarrow> Ret (Inl SE_Busy))"

definition open_thread :: "message_id \<Rightarrow> message_id option \<Rightarrow> string \<Rightarrow> handle \<Rightarrow> bool prog" where
  "open_thread t parent ch opener =
     Do (CL_OpenThread t parent ch opener) (\<lambda>a. case a of AN_Bool b \<Rightarrow> Ret b | _ \<Rightarrow> Ret False)"

definition find_message :: "message_id \<Rightarrow> key \<Rightarrow> message_id option option prog" where
  "find_message t k = Do (CL_Find t k) (\<lambda>a. case a of AN_Found r \<Rightarrow> Ret r | _ \<Rightarrow> Ret None)"

definition post_message :: "post \<Rightarrow> message_id option prog" where
  "post_message p = Do (CL_Post p) (\<lambda>a. case a of AN_Posted r \<Rightarrow> Ret r | _ \<Rightarrow> Ret None)"

definition read_message :: "message_id \<Rightarrow> message option option prog" where
  "read_message m = Do (CL_Read m) (\<lambda>a. case a of AN_Message r \<Rightarrow> Ret r | _ \<Rightarrow> Ret None)"

definition persona_call :: "handle \<Rightarrow> persona_decl option prog" where
  "persona_call h = Do (CL_Persona h) (\<lambda>a. case a of AN_Persona r \<Rightarrow> Ret r | _ \<Rightarrow> Ret None)"

definition prompt_call :: "handle \<Rightarrow> prompt_bundle option prog" where
  "prompt_call h = Do (CL_Prompt h) (\<lambda>a. case a of AN_Prompt r \<Rightarrow> Ret r | _ \<Rightarrow> Ret None)"

definition text_call :: "call \<Rightarrow> string option prog" where
  "text_call c = Do c (\<lambda>a. case a of AN_Text r \<Rightarrow> Ret r | _ \<Rightarrow> Ret None)"

definition start_call :: "start_spec \<Rightarrow> start_outcome option prog" where
  "start_call s = Do (CL_Start s) (\<lambda>a. case a of AN_Started r \<Rightarrow> Ret r | _ \<Rightarrow> Ret None)"

definition nudge_call :: "session_key \<Rightarrow> string \<Rightarrow> bool prog" where
  "nudge_call k text = Do (CL_Nudge k text) (\<lambda>a. case a of AN_Bool b \<Rightarrow> Ret b | _ \<Rightarrow> Ret False)"

definition stop_call :: "session_key \<Rightarrow> bool \<Rightarrow> bool prog" where
  "stop_call k force = Do (CL_Stop k force) (\<lambda>a. case a of AN_Bool b \<Rightarrow> Ret b | _ \<Rightarrow> Ret False)"

definition alive_call :: "session_key \<Rightarrow> liveness option prog" where
  "alive_call k = Do (CL_Alive k) (\<lambda>a. case a of AN_Alive r \<Rightarrow> Ret r | _ \<Rightarrow> Ret None)"

definition drain_call :: "session_key \<Rightarrow> nat \<Rightarrow> (drained_fact list \<times> nat) option prog" where
  "drain_call k from = Do (CL_Drain k from) (\<lambda>a. case a of AN_Drained r \<Rightarrow> Ret r | _ \<Rightarrow> Ret None)"

definition read_offset :: "session_key \<Rightarrow> nat option prog" where
  "read_offset k = Do (CL_ReadOffset k) (\<lambda>a. case a of AN_Offset r \<Rightarrow> Ret r | _ \<Rightarrow> Ret None)"

definition write_offset :: "session_key \<Rightarrow> nat \<Rightarrow> bool prog" where
  "write_offset k n = Do (CL_WriteOffset k n) (\<lambda>a. case a of AN_Bool b \<Rightarrow> Ret b | _ \<Rightarrow> Ret False)"

definition begin_call :: "tree_op \<Rightarrow> bool prog" where
  "begin_call t = Do (CL_Begin t) (\<lambda>a. case a of AN_Bool b \<Rightarrow> Ret b | _ \<Rightarrow> Ret False)"

definition cancel_call :: "unit prog" where
  "cancel_call = Do CL_Cancel (\<lambda>_. Ret ())"

definition poll_call :: "(tree_op \<times> tree_result) option prog" where
  "poll_call = Do CL_Poll (\<lambda>a. case a of AN_Polled r \<Rightarrow> Ret r | _ \<Rightarrow> Ret None)"

section \<open>What a call does\<close>

record posted =
  pd_post :: post
  pd_id :: message_id

text \<open>What is outside the host's memory: the store, the threads opened and the messages posted, what the backend and
  the tree worker were asked, and the offset files.\<close>

record world =
  wd_store :: store
  wd_threads :: "message_id list"
  wd_posts :: "posted list"
  wd_starts :: "start_spec list"
  wd_nudges :: "(session_key \<times> string) list"
  wd_signals :: "(session_key \<times> bool) list"
  wd_begun :: "tree_op list"
  wd_offsets :: "(session_key, nat) btmap"

definition posted_under :: "message_id \<Rightarrow> key \<Rightarrow> world \<Rightarrow> posted list" where
  "posted_under t k w = filter (\<lambda>p. po_thread (pd_post p) = t \<and> po_key (pd_post p) = k) (wd_posts w)"

definition with_store :: "host_mem \<Rightarrow> world \<Rightarrow> host" where
  "with_store m w = host_mem.extend m (host.fields (wd_store w))"

text \<open>The answer of a call that nothing disturbs, with the memory and the world after it. \<open>ids n\<close> is the id the chat
  store gives the message posted after \<open>n\<close> others. None: the environment answers.\<close>

fun perform ::
  "host_codec \<Rightarrow> (nat \<Rightarrow> message_id) \<Rightarrow> call \<Rightarrow> host_mem \<Rightarrow> world \<Rightarrow> (answer \<times> host_mem \<times> world) option" where
  "perform c ids (CL_Mem f) m w = Some (AN_Mem m, f m, w)"
| "perform c ids (CL_Loaded run) m w =
     (case loaded_state c run (with_store m w) of
        (st, h) \<Rightarrow> Some (AN_State st, host_mem.truncate h, w\<lparr>wd_store := ho_store h\<rparr>))"
| "perform c ids (CL_Fold f) m w =
     (let h = f (with_store m w) in Some (AN_Unit, host_mem.truncate h, w\<lparr>wd_store := ho_store h\<rparr>))"
| "perform c ids (CL_Get k) m w = Some (AN_Bytes (Inr (store_get k (wd_store w))), m, w)"
| "perform c ids (CL_Cas k from to) m w =
     (case compare_and_set (hk_store c) k from to (wd_store w) of
        (r, db) \<Rightarrow> Some (AN_Done r, m, w\<lparr>wd_store := db\<rparr>))"
| "perform c ids (CL_Enqueue run e) m w =
     (case enqueue (hk_store c) run e [] (wd_store w) of
        (r, db) \<Rightarrow> Some (AN_Enqueued r, m, w\<lparr>wd_store := db\<rparr>))"
| "perform c ids CL_OpenRuns m w = Some (AN_Runs (open_runs (hk_store c) (wd_store w)), m, w)"
| "perform c ids (CL_DueTimers now) m w = Some (AN_Due (due_timers (hk_store c) now (wd_store w)), m, w)"
| "perform c ids (CL_OpenThread t parent ch opener) m w =
     Some (AN_Bool True, m, if t \<in> set (wd_threads w) then w else w\<lparr>wd_threads := wd_threads w @ [t]\<rparr>)"
| "perform c ids (CL_Find t k) m w =
     Some (AN_Found (Some (case posted_under t k w of [] \<Rightarrow> None | p # _ \<Rightarrow> Some (pd_id p))), m, w)"
| "perform c ids (CL_Post p) m w =
     (let i = ids (length (wd_posts w)) in
      Some (AN_Posted (Some i), m, w\<lparr>wd_posts := wd_posts w @ [\<lparr> pd_post = p, pd_id = i \<rparr>]\<rparr>))"
| "perform c ids (CL_Nudge k text) m w = Some (AN_Bool True, m, w\<lparr>wd_nudges := wd_nudges w @ [(k, text)]\<rparr>)"
| "perform c ids (CL_Stop k force) m w = Some (AN_Bool True, m, w\<lparr>wd_signals := wd_signals w @ [(k, force)]\<rparr>)"
| "perform c ids (CL_Start s) m w = Some (AN_Started (Some SO_Spawned), m, w\<lparr>wd_starts := wd_starts w @ [s]\<rparr>)"
| "perform c ids (CL_Begin t) m w = Some (AN_Bool True, m, w\<lparr>wd_begun := wd_begun w @ [t]\<rparr>)"
| "perform c ids (CL_ReadOffset k) m w = Some (AN_Offset (map_of (wd_offsets w) k), m, w)"
| "perform c ids (CL_WriteOffset k n) m w = Some (AN_Bool True, m, w\<lparr>wd_offsets := bt_insert k n (wd_offsets w)\<rparr>)"
| "perform c ids _ m w = None"

text \<open>A refusal of each call: what a caller sees when the system behind it cannot answer.\<close>

definition refuses :: "call \<Rightarrow> answer \<Rightarrow> bool" where
  "refuses cl a =
     (case cl of
        CL_Get _ \<Rightarrow> (case a of AN_Bytes r \<Rightarrow> isl r | _ \<Rightarrow> False)
      | CL_Cas _ _ _ \<Rightarrow> (case a of AN_Done r \<Rightarrow> isl r | _ \<Rightarrow> False)
      | CL_Enqueue _ _ \<Rightarrow> (case a of AN_Enqueued r \<Rightarrow> isl r | _ \<Rightarrow> False)
      | CL_OpenRuns \<Rightarrow> (case a of AN_Runs r \<Rightarrow> isl r | _ \<Rightarrow> False)
      | CL_DueTimers _ \<Rightarrow> (case a of AN_Due r \<Rightarrow> isl r | _ \<Rightarrow> False)
      | CL_OpenThread _ _ _ _ \<Rightarrow> a = AN_Bool False
      | CL_Find _ _ \<Rightarrow> a = AN_Found None
      | CL_Post _ \<Rightarrow> a = AN_Posted None
      | CL_Start _ \<Rightarrow> (case a of AN_Started _ \<Rightarrow> True | _ \<Rightarrow> False)
      | CL_Nudge _ _ \<Rightarrow> a = AN_Bool False
      | CL_Stop _ _ \<Rightarrow> a = AN_Bool False
      | CL_ReadOffset _ \<Rightarrow> a = AN_Offset None
      | CL_WriteOffset _ _ \<Rightarrow> a = AN_Bool False
      | CL_Begin _ \<Rightarrow> a = AN_Bool False
      | _ \<Rightarrow> False)"

text \<open>What may come of one call: it is done; it is done and its answer is lost; it is refused and nothing is done; the
  environment answers. Starting a session is done or not whatever the backend's ledger makes it answer.\<close>

inductive call_step ::
  "host_codec \<Rightarrow> call \<Rightarrow> host_mem \<Rightarrow> world \<Rightarrow> answer \<Rightarrow> host_mem \<Rightarrow> world \<Rightarrow> bool" for c where
  call_done: "perform c ids cl m w = Some (a, m', w') \<Longrightarrow> call_step c cl m w a m' w'"
| call_lost: "perform c ids cl m w = Some (a, m', w') \<Longrightarrow> refuses cl b \<Longrightarrow> call_step c cl m w b m' w'"
| call_refused: "refuses cl a \<Longrightarrow> call_step c cl m w a m w"
| call_answered: "perform c ids cl m w = None \<Longrightarrow> call_step c cl m w a m w"

section \<open>Running a part\<close>

text \<open>An environment for running: \<open>oracle\<close> answers the calls that have no effect here.\<close>

record environment =
  ev_codec :: host_codec
  ev_ids :: "nat \<Rightarrow> message_id"
  ev_oracle :: "call \<Rightarrow> answer"

definition answer_of :: "environment \<Rightarrow> call \<Rightarrow> host_mem \<Rightarrow> world \<Rightarrow> answer \<times> host_mem \<times> world" where
  "answer_of E cl m w =
     (case perform (ev_codec E) (ev_ids E) cl m w of Some r \<Rightarrow> r | None \<Rightarrow> (ev_oracle E cl, m, w))"

primrec run_prog :: "environment \<Rightarrow> 'r prog \<Rightarrow> host_mem \<Rightarrow> world \<Rightarrow> 'r \<times> host_mem \<times> world" where
  "run_prog E (Ret r) m w = (r, m, w)"
| "run_prog E (Do cl k) m w = (case answer_of E cl m w of (a, m', w') \<Rightarrow> run_prog E (k a) m' w')"

text \<open>The part up to a crash: the world after its first \<open>n\<close> calls.\<close>

primrec crash_after :: "environment \<Rightarrow> nat \<Rightarrow> 'r prog \<Rightarrow> host_mem \<Rightarrow> world \<Rightarrow> world" where
  "crash_after E 0 p m w = w"
| "crash_after E (Suc n) p m w =
     (case p of Ret _ \<Rightarrow> w | Do cl k \<Rightarrow> (case answer_of E cl m w of (a, m', w') \<Rightarrow> crash_after E n (k a) m' w'))"

lemma run_bindp [simp]:
  "run_prog E (bindp p f) m w = (case run_prog E p m w of (r, m', w') \<Rightarrow> run_prog E (f r) m' w')"
  by (induction p arbitrary: m w) (auto split: prod.splits)

lemma answer_of_step: "answer_of E cl m w = (a, m', w') \<Longrightarrow> call_step (ev_codec E) cl m w a m' w'"
  by (auto simp: answer_of_def intro: call_done call_answered split: option.splits)

end
