(* ===== verification/Host_Ledger.thy ===== *)
theory Host_Ledger
  imports Host_Calls
begin

text \<open>
  The effect ledger of a host, from \<^verbatim>\<open>crates/run-host/src/effects.rs\<close>, with the checks of
  \<^verbatim>\<open>lease.rs\<close> and \<^verbatim>\<open>host.rs\<close> every effect stands behind: an entry
  \<^verbatim>\<open>effect/<run>/<key>\<close> is written from absent before the world is touched, and a message is looked for
  under its key before it is posted.
\<close>

text \<open>What \<^verbatim>\<open>serde_json\<close> writes and reads, how an instant is shown, and where the workspace's things are.\<close>

record effects_codec =
  ek_host :: host_codec
  ek_entry_write :: "effect_entry \<Rightarrow> bytes option"
  ek_pending_read :: "bytes \<Rightarrow> pending_commission option"
  ek_route_write :: "thread_route \<Rightarrow> bytes option"
  ek_refusal_read :: "bytes \<Rightarrow> stored_refusal option"
  ek_refusal_write :: "stored_refusal \<Rightarrow> bytes option"
  ek_utf8 :: "bytes \<Rightarrow> string option"
  ek_show_instant :: "timestamp \<Rightarrow> string"
  ek_layout :: layout

section \<open>Going on with a tick\<close>

definition may_work :: "bool \<Rightarrow> bool prog" where
  "may_work turn_owed =
     bindp ask_mem (\<lambda>m.
     if ho_busy m then Ret False
     else bindp spent (\<lambda>over.
       if over then bindp (mem (\<lambda>m. m\<lparr>ho_yielded := True\<rparr>)) (\<lambda>_. Ret turn_owed) else Ret True))"

text \<open>The check immediately before an effect: the clock is read first, then the lease.\<close>

definition still_ours :: "codec \<Rightarrow> run_id \<Rightarrow> string \<Rightarrow> epoch \<Rightarrow> bool prog" where
  "still_ours c run owner_id epoch =
     bindp clock_now (\<lambda>now.
     bindp (kv_get (owner_key run)) (\<lambda>r.
     Ret (case r of
        Inr (Some b) \<Rightarrow>
          (case co_lease_read c b of
             Some l \<Rightarrow> le_owner_id l = owner_id \<and> le_epoch l = epoch \<and> le_expires_at l > now
           | None \<Rightarrow> False)
      | _ \<Rightarrow> False)))"

definition enqueue_host :: "run_id \<Rightarrow> key \<Rightarrow> origin \<Rightarrow> event_body \<Rightarrow> timestamp \<Rightarrow> bool prog" where
  "enqueue_host run k origin body at =
     bindp (enqueue_call run (event_new run 0 at k origin body)) (\<lambda>r.
     case r of
       Inr _ \<Rightarrow> Ret True
     | Inl e \<Rightarrow> bindp (mem (note_store_error e)) (\<lambda>_. Ret False))"

section \<open>Entries\<close>

definition DONE :: string where "DONE = ''done:''"
definition PENDING :: string where "PENDING = ''pending''"
definition CHAT_REFUSED :: string where "CHAT_REFUSED = ''waiting/chat_store''"

definition effect_key :: "run_id \<Rightarrow> key \<Rightarrow> key" where
  "effect_key run k = ''effect/'' @ run @ ''/'' @ k"

definition entry_bytes :: "effects_codec \<Rightarrow> string \<Rightarrow> epoch \<Rightarrow> store_error + bytes" where
  "entry_bytes c state epoch =
     (case ek_entry_write c \<lparr> ee_state = state, ee_epoch = epoch \<rparr> of
        Some b \<Rightarrow> Inr b
      | None \<Rightarrow> Inl (SE_Backend ''an effect entry cannot be written''))"

definition entry_or_write :: "effects_codec \<Rightarrow> run_id \<Rightarrow> key \<Rightarrow> epoch \<Rightarrow> string \<Rightarrow> (store_error + string) prog" where
  "entry_or_write c run k epoch initial =
     (let full = effect_key run k in
      tryp (kv_get full) (\<lambda>v.
      case v of
        Some bytes \<Rightarrow>
          Ret (case co_entry_read (hk_store (ek_host c)) bytes of
                 Some entry \<Rightarrow> Inr (ee_state entry)
               | None \<Rightarrow> Inl (SE_DamagedRow full None))
      | None \<Rightarrow>
          (case entry_bytes c initial epoch of
             Inl e \<Rightarrow> Ret (Inl e)
           | Inr value \<Rightarrow> tryp (kv_cas full None (Some value)) (\<lambda>_. Ret (Inr initial)))))"

definition entry_set :: "effects_codec \<Rightarrow> run_id \<Rightarrow> key \<Rightarrow> epoch \<Rightarrow> string \<Rightarrow> (store_error + unit) prog" where
  "entry_set c run k epoch state =
     (let full = effect_key run k in
      tryp (kv_get full) (\<lambda>current.
      case entry_bytes c state epoch of
        Inl e \<Rightarrow> Ret (Inl e)
      | Inr value \<Rightarrow> kv_cas full current (Some value)))"

datatype entry_phase = EP_Pending | EP_Done string

definition entry_phase_of :: "effects_codec \<Rightarrow> run_id \<Rightarrow> key \<Rightarrow> epoch \<Rightarrow> (store_error + entry_phase) prog" where
  "entry_phase_of c run k epoch =
     tryp (entry_or_write c run k epoch PENDING) (\<lambda>state.
     Ret (Inr (case strip_prefix DONE state of Some i \<Rightarrow> EP_Done i | None \<Rightarrow> EP_Pending)))"

section \<open>Posting once\<close>

definition mark_chat_refused :: "effects_codec \<Rightarrow> run_id \<Rightarrow> epoch \<Rightarrow> unit prog" where
  "mark_chat_refused c run epoch =
     bindp (entry_or_write c run CHAT_REFUSED epoch ''the chat store'') (\<lambda>r.
     case r of Inl e \<Rightarrow> mem (note_store_error e) | Inr _ \<Rightarrow> Ret ())"

definition clear_key :: "key \<Rightarrow> unit prog" where
  "clear_key full =
     bindp (kv_get full) (\<lambda>r.
     case r of
       Inr (Some bytes) \<Rightarrow>
         bindp (kv_cas full (Some bytes) None) (\<lambda>r. case r of Inl e \<Rightarrow> mem (note_store_error e) | Inr _ \<Rightarrow> Ret ())
     | _ \<Rightarrow> Ret ())"

definition clear_chat_refused :: "run_id \<Rightarrow> unit prog" where
  "clear_chat_refused run = clear_key (effect_key run CHAT_REFUSED)"

definition find_or_post ::
  "effects_codec \<Rightarrow> run_id \<Rightarrow> epoch \<Rightarrow> message_id \<Rightarrow> handle \<Rightarrow> string list \<Rightarrow> key \<Rightarrow> string option prog \<Rightarrow> message_id option prog" where
  "find_or_post c run epoch thread sender refs k body =
     bindp (find_message thread k) (\<lambda>found.
     case found of
       None \<Rightarrow> bindp (mark_chat_refused c run epoch) (\<lambda>_. Ret None)
     | Some (Some i) \<Rightarrow> bindp (clear_chat_refused run) (\<lambda>_. Ret (Some i))
     | Some None \<Rightarrow>
         bindp body (\<lambda>text.
         case text of
           None \<Rightarrow> Ret None
         | Some t \<Rightarrow>
             bindp (post_message \<lparr> po_thread = thread, po_sender = sender, po_text = t, po_refs = refs, po_key = k \<rparr>) (\<lambda>r.
             case r of
               None \<Rightarrow> bindp (mark_chat_refused c run epoch) (\<lambda>_. Ret None)
             | Some i \<Rightarrow> bindp (clear_chat_refused run) (\<lambda>_. Ret (Some i)))))"

end
