(* ===== verification/Bridge.thy ===== *)
theory Bridge
  imports Host_Ledger Status
begin

text \<open>
  The entry points the command line calls, from \<^verbatim>\<open>crates/run-host/src/bridge.rs\<close>: commissioning a run,
  a session's reply, the requester's answer and withdrawal, and the reads around them. Every verb checks before it
  writes and refuses with a reason; a refusal is a value of \<open>refused\<close>. The state is the store and the messages
  posted so far. The chat store and the declarations are ports: \<open>bridge_ports\<close> holds what they answer. What
  \<^verbatim>\<open>serde_json\<close>, SHA-256 and the ULID library give is \<open>bridge_codec\<close> and the minted ids among the
  arguments. Racing processes write the store between two calls as \<open>others\<close> says.
\<close>

record bridge_ports =
  bp_channel :: "string \<Rightarrow> string + channel_decl"
  bp_post :: "post list \<Rightarrow> post \<Rightarrow> string + message_id"

record bridge_codec =
  bk_host :: host_codec
  bk_route_read :: "bytes \<Rightarrow> thread_route option"
  bk_route_write :: "thread_route \<Rightarrow> bytes option"
  bk_pending_write :: "pending_commission \<Rightarrow> bytes option"
  bk_flow_hash :: "flow_def \<Rightarrow> string"
  bk_flow_write :: "flow_def \<Rightarrow> bytes"

record bridge =
  br_store :: store
  br_posts :: "post list"

record caller =
  cl_actor :: handle
  cl_session :: "session_key option"

datatype refused =
    RF_NotARunThread string
  | RF_NotTheSlot handle \<comment> \<open>owed_by\<close>
  | RF_NotWaitingForReply
  | RF_NotTheRequester
  | RF_RunFinished
  | RF_NoOpenQuestion
  | RF_AcceptAtACeilingOnly
  | RF_PostedNotEnqueued message_id
  | RF_Compile compile_refusal
  | RF_Store store_error
  | RF_Port string

definition LOCAL_TENANT :: string where "LOCAL_TENANT = ''local''"

section \<open>Commissioning\<close>

record commission_receipt =
  cr_run :: run_id
  cr_root_thread :: message_id
  cr_ignored_timeouts :: "string list"

text \<open>The channel of the first step whose target the declarations know, or an empty declaration.\<close>

definition empty_decl :: channel_decl where
  "empty_decl = \<lparr> ch_name = [], ch_members = [], ch_steps = [], ch_expects = EX_All, ch_on_complete = OC_PassThrough,
     ch_summary_prompt = None, ch_summary_model = None, ch_working_tree = DT_Shared, ch_timeout = None \<rparr>"

definition review_of :: "bridge_ports \<Rightarrow> channel_decl \<Rightarrow> channel_decl" where
  "review_of p flow =
     (case find_map (\<lambda>s. case bp_channel p (dc_target s) of Inr ch \<Rightarrow> Some ch | Inl _ \<Rightarrow> None) (ch_steps flow) of
        Some ch \<Rightarrow> ch
      | None \<Rightarrow> empty_decl)"

definition encode_kv :: "bytes option \<Rightarrow> refused + bytes" where
  "encode_kv b = (case b of Some v \<Rightarrow> Inr v | None \<Rightarrow> Inl (RF_Store (SE_Backend ''a kv value cannot be written'')))"

text \<open>One try of the transaction that opens a run: the definition is written only when its key is absent. \<open>n\<close>
  counts the tries.\<close>

definition commission_try ::
  "bridge_codec \<Rightarrow> (nat \<Rightarrow> store \<Rightarrow> store) \<Rightarrow> run_id \<Rightarrow> event \<Rightarrow> cas list \<Rightarrow> key \<Rightarrow> bytes \<Rightarrow> nat \<Rightarrow> store \<Rightarrow>
   (store_error + enqueued) \<times> store" where
  "commission_try c others run e items flow_key canonical n db =
     (let this_try = items @
            (if store_get flow_key db = None then [\<lparr> ca_key = flow_key, ca_from = None, ca_to = Some canonical \<rparr>] else [])
      in enqueue (hk_store (bk_host c)) run e this_try (others n db))"

definition commission ::
  "bridge_codec \<Rightarrow> bridge_ports \<Rightarrow> (nat \<Rightarrow> store \<Rightarrow> store) \<Rightarrow> run_id \<Rightarrow> message_id \<Rightarrow> string \<Rightarrow>
   string \<Rightarrow> string \<Rightarrow> string list \<Rightarrow> handle \<Rightarrow> liveness_policy \<Rightarrow> timestamp \<Rightarrow> bridge \<Rightarrow>
   (refused + commission_receipt) \<times> bridge" where
  "commission c p others run root_thread workspace_id channel body refs sender policy now b =
     (case bp_channel p channel of
        Inl what \<Rightarrow> (Inl (RF_Port what), b)
      | Inr flow \<Rightarrow>
          (case compile flow (review_of p flow) of
             Inl refusal \<Rightarrow> (Inl (RF_Compile refusal), b)
           | Inr d \<Rightarrow>
               (let hash = bk_flow_hash c d;
                    pending = \<lparr> pc_root_thread = root_thread, pc_channel = channel, pc_sender = sender, pc_body = body, pc_refs = refs \<rparr>;
                    route = \<lparr> th_run = run, th_session_key = None \<rparr>;
                    e = event_new run 0 now (''commissioned/'' @ run) OR_Cli
                          (EB_Commissioned run workspace_id LOCAL_TENANT hash policy root_thread sender);
                    flow_key = ''flow/'' @ hash;
                    receipt = \<lparr> cr_run = run, cr_root_thread = root_thread,
                       cr_ignored_timeouts = map (\<lambda>t. it_scope t @ '': '' @ it_value t) (fd_ignored_timeouts d) \<rparr>
                in case and_then (encode_kv (bk_pending_write c pending)) (\<lambda>v1.
                     and_then (encode_kv (bk_route_write c route)) (\<lambda>v2. Inr (v1, v2))) of
                     Inl r \<Rightarrow> (Inl r, b)
                   | Inr (v1, v2) \<Rightarrow>
                       (let items = [\<lparr> ca_key = ''pending/'' @ run, ca_from = None, ca_to = Some v1 \<rparr>,
                                     \<lparr> ca_key = ''thread/'' @ root_thread, ca_from = None, ca_to = Some v2 \<rparr>];
                            try = commission_try c others run e items flow_key (bk_flow_write c d)
                        in case try 0 (br_store b) of
                             (Inr _, db) \<Rightarrow> (Inr receipt, b\<lparr>br_store := db\<rparr>)
                           | (Inl err, db) \<Rightarrow>
                               (if err = SE_CasFailed flow_key
                                then case try 1 db of
                                       (Inr _, db') \<Rightarrow> (Inr receipt, b\<lparr>br_store := db'\<rparr>)
                                     | (Inl err', db') \<Rightarrow> (Inl (RF_Store err'), b\<lparr>br_store := db'\<rparr>)
                                else (Inl (RF_Store err), b\<lparr>br_store := db\<rparr>))))))"

section \<open>Reading a run\<close>

record bridge_view =
  vw_state :: run_state
  vw_read_only :: "string option"

definition with_commission :: "run_state \<Rightarrow> event \<Rightarrow> event list \<Rightarrow> run_state" where
  "with_commission st first events =
     (if events = [] then (case evolve st first of Inr folded \<Rightarrow> folded\<lparr>rs_seq := 0\<rparr> | Inl _ \<Rightarrow> st) else st)"

definition UNFOLDABLE :: string where "UNFOLDABLE = ''a fold that does not panic''"

definition bridge_view_of :: "host_codec \<Rightarrow> run_id \<Rightarrow> store \<Rightarrow> refused + bridge_view option" where
  "bridge_view_of c run db =
     (let loaded = (case load (hk_store c) run 0 db of
            Inr events \<Rightarrow> Inr (events, False)
          | Inl (SE_DamagedRow _ (Some _)) \<Rightarrow> Inr (load_readable (hk_store c) run db, True)
          | Inl e \<Rightarrow> Inl (RF_Store e))
      in and_then loaded (\<lambda>(events, damaged).
        case (case events of
                first # _ \<Rightarrow> Some first
              | [] \<Rightarrow> (case next_input (hk_store c) run db of Inr i \<Rightarrow> i | Inl _ \<Rightarrow> None)) of
          None \<Rightarrow> Inr None
        | Some first \<Rightarrow>
            (case pinned_def c db first of
               None \<Rightarrow> Inr None
             | Some d \<Rightarrow>
                 Inr (case fold_events run d events of
                        Whole st \<Rightarrow> Some \<lparr> vw_state = with_commission st first events,
                                         vw_read_only = (if damaged then Some UNFOLDABLE else None) \<rparr>
                      | NewerNxs st \<Rightarrow> map_option (\<lambda>st. \<lparr> vw_state = st, vw_read_only = Some ''a newer nxs'' \<rparr>) st
                      | Unfoldable st \<Rightarrow> map_option (\<lambda>st. \<lparr> vw_state = st, vw_read_only = Some UNFOLDABLE \<rparr>) st))))"

definition route_of :: "bridge_codec \<Rightarrow> message_id \<Rightarrow> store \<Rightarrow> refused + thread_route" where
  "route_of c thread db =
     (case store_get (''thread/'' @ thread) db of
        None \<Rightarrow> Inl (RF_NotARunThread thread)
      | Some v \<Rightarrow>
          (case bk_route_read c v of
             None \<Rightarrow> Inl (RF_Store (SE_DamagedRow (''thread/'' @ thread) None))
           | Some r \<Rightarrow> Inr r))"

definition state_of :: "host_codec \<Rightarrow> run_id \<Rightarrow> store \<Rightarrow> refused + run_state" where
  "state_of c run db =
     and_then (bridge_view_of c run db) (\<lambda>v. case v of None \<Rightarrow> Inl RF_RunFinished | Some v \<Rightarrow> Inr (vw_state v))"

section \<open>The verbs\<close>

text \<open>Posts, then enqueues. What was posted stays posted when the enqueue fails, and the caller is told.\<close>

definition post_and_enqueue ::
  "bridge_codec \<Rightarrow> bridge_ports \<Rightarrow> run_id \<Rightarrow> message_id \<Rightarrow> handle \<Rightarrow> string \<Rightarrow> key \<Rightarrow> timestamp \<Rightarrow>
   (message_id \<Rightarrow> event_body) \<Rightarrow> bridge \<Rightarrow> (refused + message_id) \<times> bridge" where
  "post_and_enqueue c p run thread sender text k now body b =
     (let post = \<lparr> po_thread = thread, po_sender = sender, po_text = text, po_refs = [], po_key = k \<rparr> in
      case bp_post p (br_posts b) post of
        Inl what \<Rightarrow> (Inl (RF_Port what), b)
      | Inr message \<Rightarrow>
          (let b1 = b\<lparr>br_posts := br_posts b @ [post]\<rparr>;
               (res, db) = enqueue (hk_store (bk_host c)) run (event_new run 0 now k OR_Cli (body message)) [] (br_store b1);
               b2 = b1\<lparr>br_store := db\<rparr>
           in case res of
                Inr _ \<Rightarrow> (Inr message, b2)
              | Inl _ \<Rightarrow> (Inl (RF_PostedNotEnqueued message), b2)))"

text \<open>What the verbs check. Each gives what it will enqueue, or the refusal.\<close>

fun owes_reply :: "slot_state \<Rightarrow> bool" where
  "owes_reply (SS_Starting _) = True"
| "owes_reply (SS_Running _ _) = True"
| "owes_reply (SS_Quiet _ _) = True"
| "owes_reply (SS_Nudged _ _) = True"
| "owes_reply _ = False"

definition check_reply ::
  "bridge_codec \<Rightarrow> message_id \<Rightarrow> caller \<Rightarrow> store \<Rightarrow> refused + (run_id \<times> session_key)" where
  "check_reply c thread cl db =
     and_then (route_of c thread db) (\<lambda>route.
     case th_session_key route of
       None \<Rightarrow> Inl (RF_NotARunThread thread)
     | Some session_key \<Rightarrow>
         and_then (state_of (bk_host c) (th_run route) db) (\<lambda>st.
         if is_finished st then Inl RF_RunFinished
         else case find_session st session_key of
           None \<Rightarrow> Inl RF_NotWaitingForReply
         | Some i \<Rightarrow>
             (let r = rs_slots st ! i in
              if \<not> (cl_actor cl = sl_member (sr_slot r) \<and> cl_session cl = Some session_key)
              then Inl (RF_NotTheSlot (sl_member (sr_slot r)))
              else if owes_reply (sr_state r) then Inr (th_run route, session_key) else Inl RF_NotWaitingForReply)))"

definition bridge_reply ::
  "bridge_codec \<Rightarrow> bridge_ports \<Rightarrow> string \<Rightarrow> message_id \<Rightarrow> caller \<Rightarrow> string \<Rightarrow> bool \<Rightarrow> bool \<Rightarrow> timestamp \<Rightarrow> bridge \<Rightarrow>
   (refused + message_id) \<times> bridge" where
  "bridge_reply c p ulid thread cl text escalate needs_rework now b =
     (case check_reply c thread cl (br_store b) of
        Inl r \<Rightarrow> (Inl r, b)
      | Inr (run, session_key) \<Rightarrow>
          post_and_enqueue c p run thread (cl_actor cl) text (''input/'' @ run @ ''/'' @ ulid) now
            (\<lambda>m. EB_Reply session_key m escalate needs_rework) b)"

definition check_requester :: "run_state \<Rightarrow> caller \<Rightarrow> refused + unit" where
  "check_requester st cl =
     (if cl_session cl = None \<and> cl_actor cl = rs_requester st then Inr () else Inl RF_NotTheRequester)"

definition root_route :: "bridge_codec \<Rightarrow> message_id \<Rightarrow> store \<Rightarrow> refused + run_id" where
  "root_route c thread db =
     and_then (route_of c thread db) (\<lambda>route.
       if th_session_key route \<noteq> None then Inl (RF_NotARunThread thread) else Inr (th_run route))"

definition addressed :: "codec \<Rightarrow> run_id \<Rightarrow> store \<Rightarrow> key list" where
  "addressed c run db =
     filter_map (\<lambda>i. case i of
        Inr e \<Rightarrow> (case ev_body e of EB_Answer question _ _ \<Rightarrow> Some question | _ \<Rightarrow> None)
      | Inl _ \<Rightarrow> None) (waiting_inputs c run db)"

definition check_answer ::
  "bridge_codec \<Rightarrow> message_id \<Rightarrow> caller \<Rightarrow> bool \<Rightarrow> store \<Rightarrow> refused + (run_id \<times> key \<times> disposition)" where
  "check_answer c root cl accept db =
     and_then (root_route c root db) (\<lambda>run.
     and_then (state_of (bk_host c) run db) (\<lambda>st.
     if is_finished st then Inl RF_RunFinished
     else
       and_then (check_requester st cl) (\<lambda>_.
       case List.find (\<lambda>q. qu_id q \<notin> set (addressed (hk_store (bk_host c)) run db)) (open_questions st) of
         None \<Rightarrow> Inl RF_NoOpenQuestion
       | Some q \<Rightarrow>
           if accept \<and> (case qu_asked q of AK_Escalation _ _ \<Rightarrow> True | _ \<Rightarrow> False) then Inl RF_AcceptAtACeilingOnly
           else Inr (run, qu_id q, if accept then DI_Accept else DI_Continue))))"

definition bridge_answer ::
  "bridge_codec \<Rightarrow> bridge_ports \<Rightarrow> string \<Rightarrow> message_id \<Rightarrow> caller \<Rightarrow> string \<Rightarrow> bool \<Rightarrow> timestamp \<Rightarrow> bridge \<Rightarrow>
   (refused + message_id) \<times> bridge" where
  "bridge_answer c p ulid root cl text accept now b =
     (case check_answer c root cl accept (br_store b) of
        Inl r \<Rightarrow> (Inl r, b)
      | Inr (run, question, disposition) \<Rightarrow>
          post_and_enqueue c p run root (cl_actor cl) text (''input/'' @ run @ ''/'' @ ulid) now
            (\<lambda>m. EB_Answer question disposition m) b)"

definition check_withdraw :: "bridge_codec \<Rightarrow> message_id \<Rightarrow> caller \<Rightarrow> store \<Rightarrow> refused + (run_id \<times> run_state)" where
  "check_withdraw c root cl db =
     and_then (root_route c root db) (\<lambda>run.
     and_then (state_of (bk_host c) run db) (\<lambda>st.
     if is_finished st then Inl RF_RunFinished
     else and_then (check_requester st cl) (\<lambda>_. Inr (run, st))))"

definition bridge_withdraw ::
  "bridge_codec \<Rightarrow> bridge_ports \<Rightarrow> string \<Rightarrow> message_id \<Rightarrow> caller \<Rightarrow> string \<Rightarrow> timestamp \<Rightarrow> bridge \<Rightarrow>
   (refused + message_id option) \<times> bridge" where
  "bridge_withdraw c p ulid root cl text now b =
     (case check_withdraw c root cl (br_store b) of
        Inl r \<Rightarrow> (Inl r, b)
      | Inr (run, st) \<Rightarrow>
          (let k = ''input/'' @ run @ ''/'' @ ulid in
           if rs_root_message st \<noteq> None then
             (case post_and_enqueue c p run root (cl_actor cl) text k now (\<lambda>m. EB_Withdrawn (Some m) WB_Requester) b of
                (Inl r, b1) \<Rightarrow> (Inl r, b1)
              | (Inr m, b1) \<Rightarrow> (Inr (Some m), b1))
           else
             (case enqueue (hk_store (bk_host c)) run (event_new run 0 now k OR_Cli (EB_Withdrawn None WB_Requester)) [] (br_store b) of
                (Inl e, db) \<Rightarrow> (Inl (RF_Store e), b\<lparr>br_store := db\<rparr>)
              | (Inr _, db) \<Rightarrow> (Inr None, b\<lparr>br_store := db\<rparr>))))"


section \<open>Status and sessions\<close>

text \<open>What only this machine can say: the status read of the working directory and the tree operation in flight. Both
  run \<^verbatim>\<open>git\<close> or read process tables, so their answers are arguments.\<close>

definition poisoned_row :: "codec \<Rightarrow> run_id \<Rightarrow> run_state \<Rightarrow> store \<Rightarrow> string option" where
  "poisoned_row c run st db =
     (if \<not> is_some_and (rs_condition st) (\<lambda>cn. cn_reason cn = RC_PoisonInput) then None
      else find_map
        (\<lambda>e. case strip_prefix (''poison/'' @ run @ ''/'') (ev_key e) of
               None \<Rightarrow> None
             | Some row \<Rightarrow> (case ev_body e of EB_Decision (DE_Parked _ _) \<Rightarrow> Some row | _ \<Rightarrow> None))
        (rev (load_readable c run db)))"

definition local_of ::
  "codec \<Rightarrow> (bytes \<Rightarrow> stored_refusal option) \<Rightarrow> tree_state option \<Rightarrow> in_flight option \<Rightarrow> string \<Rightarrow> string \<Rightarrow>
   run_id \<Rightarrow> run_state \<Rightarrow> timestamp \<Rightarrow> store \<Rightarrow> local_status" where
  "local_of c read_refusal tree running workspace_id dir run st now db =
     (let last_seen = host_seen c workspace_id db;
          window = 2 * int LEASE_EXPIRY * 1000;
          attended = is_some_and last_seen (\<lambda>at. now - at \<le> window);
          live = (case tree of Some t \<Rightarrow> if tn_missing t then None else Some t | None \<Rightarrow> None);
          refusal = Option.bind (store_get (''tree_refusal/'' @ run) db) read_refusal
      in \<lparr> ls_observed_at = now,
           ls_owner = \<lparr> ow_attended = attended, ow_last_seen = last_seen \<rparr>,
           ls_pending_inputs = min u32_max (length (waiting_inputs c run db)),
           ls_tree = \<lparr> ts_path = dir, ts_base = rs_base st, ts_found = rs_found st,
             ts_commit = Option.bind live tn_commit, ts_branch = Option.bind live tn_branch,
             ts_dirty = map_option tn_dirty live, ts_in_flight = running, ts_parked = rs_parked st,
             ts_refusal = map_option (\<lambda>s. \<lparr> rf_reason = sf_reason s, rf_text = sf_text s, rf_at = sf_at s \<rparr>) refusal \<rparr> \<rparr>)"

definition bridge_status ::
  "host_codec \<Rightarrow> (run_state \<Rightarrow> local_status) \<Rightarrow> run_id \<Rightarrow> store \<Rightarrow> refused + run_status option" where
  "bridge_status c local_status run db =
     and_then (bridge_view_of c run db) (\<lambda>v.
     case v of
       None \<Rightarrow> Inr None
     | Some v \<Rightarrow>
         (let projected = status (vw_state v);
              p1 = (case vw_read_only v of
                      Some why \<Rightarrow> projected\<lparr>st_waiting_for := Some why\<rparr>
                    | None \<Rightarrow> if store_get (''effect/'' @ run @ ''/'' @ CHAT_REFUSED) db \<noteq> None
                              then projected\<lparr>st_waiting_for := Some ''the chat store''\<rparr> else projected);
              p2 = (case poisoned_row (hk_store c) run (vw_state v) db of
                      Some row \<Rightarrow> p1\<lparr>st_next_action := Some (''the input '' @ row @ '' could not be folded and was set aside; '' @
                         (case st_next_action p1 of Some a \<Rightarrow> a | None \<Rightarrow> []))\<rparr>
                    | None \<Rightarrow> p1)
          in Inr (Some (p2\<lparr>st_local := Some (local_status (vw_state v))\<rparr>))))"

record live_session =
  lv_run :: run_id
  lv_session_key :: session_key
  lv_handle :: handle

fun live_of_rows :: "host_codec \<Rightarrow> store \<Rightarrow> run_row list \<Rightarrow> refused + live_session list" where
  "live_of_rows c db [] = Inr []"
| "live_of_rows c db (row # rows) =
     and_then (bridge_view_of c (rw_run row) db) (\<lambda>v.
     let here = (case v of
           None \<Rightarrow> []
         | Some v \<Rightarrow> map (\<lambda>r. \<lparr> lv_run = rw_run row, lv_session_key = session_key_of (vw_state v) (sr_slot r),
                                lv_handle = sl_member (sr_slot r) \<rparr>)
                      (filter (\<lambda>r. ss_is_live (sr_state r)) (rs_slots (vw_state v))))
     in and_then (live_of_rows c db rows) (\<lambda>rest. Inr (here @ rest)))"

definition live_sessions :: "host_codec \<Rightarrow> store \<Rightarrow> refused + live_session list" where
  "live_sessions c db =
     (case open_runs (hk_store c) db of
        Inl e \<Rightarrow> Inl (RF_Store e)
      | Inr rows \<Rightarrow> live_of_rows c db rows)"

definition session_of :: "bridge_codec \<Rightarrow> session_key \<Rightarrow> store \<Rightarrow> refused + thread_route option" where
  "session_of c k db =
     (case store_get (''session/'' @ k) db of
        None \<Rightarrow> Inr None
      | Some thread \<Rightarrow> and_then (route_of c thread db) (\<lambda>r. Inr (Some r)))"

section \<open>What the verbs do\<close>

lemma post_and_enqueue_Inr:
  assumes "post_and_enqueue c p run thread sender text k now body b = (Inr m, b')"
  shows "br_posts b' = br_posts b @ [\<lparr> po_thread = thread, po_sender = sender, po_text = text, po_refs = [], po_key = k \<rparr>] \<and>
    (\<exists>r. enqueue (hk_store (bk_host c)) run (event_new run 0 now k OR_Cli (body m)) [] (br_store b) = (Inr r, br_store b'))"
  using assms by (auto simp: post_and_enqueue_def Let_def split: sum.splits prod.splits)

text \<open>A refusal before the post writes nothing.\<close>

lemma post_and_enqueue_Inl:
  assumes "post_and_enqueue c p run thread sender text k now body b = (Inl r, b')" "\<And>m. r \<noteq> RF_PostedNotEnqueued m"
  shows "b' = b"
  using assms by (auto simp: post_and_enqueue_def Let_def split: sum.splits prod.splits)

lemma check_replyD:
  assumes "check_reply c thread cl db = Inr (run, sk)" "state_of (bk_host c) run db = Inr st"
  shows "\<exists>i. find_session st sk = Some i \<and> \<not> is_finished st \<and> cl_session cl = Some sk \<and>
    cl_actor cl = sl_member (sr_slot (rs_slots st ! i)) \<and> owes_reply (sr_state (rs_slots st ! i))"
  using assms by (auto simp: check_reply_def and_then_def Let_def split: sum.splits option.splits if_splits)

lemma check_answerD:
  assumes "check_answer c root cl acc db = Inr (run, question, disp)" "state_of (bk_host c) run db = Inr st"
  shows "\<not> is_finished st \<and> cl_session cl = None \<and> cl_actor cl = rs_requester st \<and>
    (\<exists>q\<in>set (open_questions st). qu_id q = question \<and> answers question disp q)"
proof -
  obtain q where q: "List.find (\<lambda>q. qu_id q \<notin> set (addressed (hk_store (bk_host c)) run db)) (open_questions st) = Some q"
      "\<not> is_finished st" "check_requester st cl = Inr ()" "question = qu_id q" "disp = (if acc then DI_Accept else DI_Continue)"
      "\<not> (acc \<and> (case qu_asked q of AK_Escalation _ _ \<Rightarrow> True | _ \<Rightarrow> False))"
    using assms by (auto simp: check_answer_def and_then_def split: sum.splits if_splits option.splits)
  then have "q \<in> set (open_questions st)" using find_Some_in by metis
  then show ?thesis using q by (auto simp: check_requester_def answers_def split: if_splits)
qed

lemma check_withdrawD:
  assumes "check_withdraw c root cl db = Inr (run, st)"
  shows "state_of (bk_host c) run db = Inr st \<and> \<not> is_finished st \<and> cl_session cl = None \<and> cl_actor cl = rs_requester st"
  using assms by (auto simp: check_withdraw_def check_requester_def and_then_def split: sum.splits if_splits)

end
