(* ===== verification/Bridge_Properties.thy ===== *)
theory Bridge_Properties
  imports Bridge Watch_Properties Sample_Store
begin

text \<open>
  The command line and the run agree: what a verb of the bridge accepts on the stored log is what the engine acts on
  in the state that log folds to.
\<close>










section \<open>The sample run at a terminal\<close>


















end
