(* ===== verification/Host_Compose.thy ===== *)
theory Host_Compose
  imports Host_Ledger
begin

text \<open>
  The texts the host writes itself, from \<^verbatim>\<open>crates/run-host/src/compose.rs\<close>, and the scrubbing of what git
  says, from \<^verbatim>\<open>git_tree/runner.rs\<close>.
\<close>

definition newline :: string where "newline = [CHR 0x0A]"

definition obligation :: "string \<Rightarrow> step_def \<Rightarrow> string" where
  "obligation thread step =
     ''When you are done, answer on your thread: `nxc reply --thread '' @ thread @ '' - <<'EOF'`, your text, then `EOF` on its own line.'' @
     newline @
     (if sd_on_needs_rework step \<noteq> None
      then ''If the work has to go back, add `--needs-rework`: `nxc reply --thread '' @ thread @ '' --needs-rework -`.'' @ newline
      else []) @
     ''If you cannot reach a result, or need a decision, add `--escalate`: `nxc reply --thread '' @ thread @ '' --escalate -`.'' @ newline @
     ''This session cannot commission anybody. Whatever you need, ask for it with `--escalate`, never in a plain reply, which would advance the run.'' @
     newline"

definition REMINDER :: string where
  "REMINDER = ''You ended your turn without replying on your thread. Finish the work and reply now.''"

definition EARLIER_ATTEMPT :: string where
  "EARLIER_ATTEMPT = ''An earlier attempt of this step may already have pushed or opened a pull request. Check that first.''"

definition unread_message :: string where "unread_message = ''(the message could not be read)''"

definition question_text :: "question \<Rightarrow> string \<Rightarrow> string option \<Rightarrow> string" where
  "question_text q root verdict =
     (let said = (case verdict of Some s \<Rightarrow> s | None \<Rightarrow> unread_message) in
      case qu_asked q of
        AK_Escalation slot _ \<Rightarrow>
          sl_member slot @ '' on step '' @ sl_step slot @ '' asks for a decision:'' @ newline @ newline @ said @ newline @ newline @
          ''Answer with `nxc reply --thread '' @ root @ '' -`; `nxc withdraw --thread '' @ root @ ''` ends the run.''
      | AK_Ceiling step pass _ \<Rightarrow>
          ''Step '' @ step @ '' sent the work back '' @ show_nat (pass - 1) @ '' times, its ceiling. The last verdict:'' @ newline @ newline @
          said @ newline @ newline @
          ''`nxc reply --thread '' @ root @ '' -` continues with exactly one more pass; '' @
          ''`nxc reply --thread '' @ root @ '' --accept -` accepts the verdict as it stands; '' @
          ''`nxc withdraw --thread '' @ root @ ''` ends the run.'')"

definition discharge ::
  "outcome option \<Rightarrow> step_id option \<Rightarrow> nat \<Rightarrow> message_id option \<Rightarrow> park_outcome option \<Rightarrow> string \<Rightarrow> string" where
  "discharge outc step pass verdict parked dir =
     (let what = (case outc of
            Some OU_Withdrawn \<Rightarrow> ''This run was withdrawn''
          | Some OU_Failed \<Rightarrow> ''This run failed''
          | _ \<Rightarrow> ''This run ended'')
      in (case step of
            Some s \<Rightarrow> what @ '' at step '' @ s @ '', pass '' @ show_nat pass @ ''.''
          | None \<Rightarrow> what @ '' before any step started.'') @
         (case verdict of Some v \<Rightarrow> '' The last verdict is message '' @ v @ ''.'' | None \<Rightarrow> []) @
         (let work = (\<lambda>branch commit. '' Its uncommitted work is on branch '' @ branch @ '' at '' @ commit @ '', in '' @ dir @ ''.'')
          in case parked of
               Some (PO_Committed branch commit) \<Rightarrow> work branch commit
             | Some (PO_OnOwnBranch branch commit) \<Rightarrow> work branch commit
             | _ \<Rightarrow> []))"

definition park_notice :: "string \<Rightarrow> string \<Rightarrow> string \<Rightarrow> string" where
  "park_notice branch commit dir =
     ''This run left a local, unpushed commit: '' @ commit @ '' on branch '' @ branch @ '', in '' @ dir @ ''.''"

section \<open>Scrubbing\<close>

definition SCRUB_CAP :: nat where "SCRUB_CAP = 2000"

definition is_whitespace :: "char \<Rightarrow> bool" where
  "is_whitespace x \<longleftrightarrow> x \<in> {CHR 0x09, CHR 0x0A, CHR 0x0B, CHR 0x0C, CHR 0x0D, CHR '' '', CHR 0x85, CHR 0xA0}"

text \<open>\<^verbatim>\<open>find("://")\<close>, split after it: what is before and with it, and what is behind.\<close>

fun split_scheme :: "string \<Rightarrow> (string \<times> string) option" where
  "split_scheme [] = None"
| "split_scheme (x # xs) =
     (case strip_prefix ''://'' (x # xs) of
        Some tail \<Rightarrow> Some (''://'', tail)
      | None \<Rightarrow> map_option (\<lambda>(h, t). (x # h, t)) (split_scheme xs))"

text \<open>What follows the last \<^verbatim>\<open>@\<close> of the first word, or all of it when the word has none.\<close>

definition after_at :: "string \<Rightarrow> string" where
  "after_at tail =
     (let token = takeWhile (\<lambda>x. \<not> is_whitespace x) tail in
      if CHR ''@'' \<in> set token
      then rev (takeWhile (\<lambda>x. x \<noteq> CHR ''@'') (rev token)) @ drop (length token) tail
      else tail)"

lemma split_scheme_length: "split_scheme s = Some (h, t) \<Longrightarrow> length t < length s"
proof (induction s arbitrary: h)
  case (Cons x xs)
  show ?case
  proof (cases "strip_prefix ''://'' (x # xs)")
    case None
    then obtain h' where "split_scheme xs = Some (h', t)" using Cons.prems by auto
    then show ?thesis using Cons.IH by fastforce
  next
    case (Some tail)
    then have "x # xs = ''://'' @ tail" by (simp only: strip_prefix_Some_iff)
    then have "length (x # xs) = length (''://'' @ tail)" by (rule arg_cong)
    then show ?thesis using Some Cons.prems by simp
  qed
qed simp

lemma after_at_length: "length (after_at t) \<le> length t"
proof -
  let ?tok = "takeWhile (\<lambda>x. \<not> is_whitespace x) t"
  have "length (takeWhile (\<lambda>x. x \<noteq> CHR ''@'') (rev ?tok)) \<le> length (rev ?tok)" by (rule length_takeWhile_le)
  moreover have "length ?tok \<le> length t" by (rule length_takeWhile_le)
  ultimately show ?thesis unfolding after_at_def Let_def by (simp split: if_split) linarith
qed

function scrub_from :: "string \<Rightarrow> string" where
  "scrub_from rest =
     (case split_scheme rest of
        None \<Rightarrow> rest
      | Some (head, tail) \<Rightarrow> head @ scrub_from (after_at tail))"
  by pat_completeness auto

termination
proof (relation "measure length", goal_cases)
  case (2 rest x h t)
  then have "length t < length rest" using split_scheme_length [of rest h t] by simp
  then show ?case using after_at_length [of t] by simp
qed simp

declare scrub_from.simps [simp del]

definition scrub :: "string \<Rightarrow> string" where
  "scrub text = take SCRUB_CAP (scrub_from text)"

end
