(* ===== verification/Host_Tree.thy ===== *)
theory Host_Tree
  imports Host_Compose
begin

text \<open>
  The tree side of the host, from \<^verbatim>\<open>crates/run-host/src/tree_effects.rs\<close>: handing an operation to the
  tree worker, taking its results, and the standing refusal of a run in \<^verbatim>\<open>tree_refusal/<run>\<close>.
\<close>

definition BACKOFF_START_MS :: int where "BACKOFF_START_MS = 1000"
definition BACKOFF_MAX_MS :: int where "BACKOFF_MAX_MS = 60000"
definition MIN_TREE_ATTEMPTS :: nat where "MIN_TREE_ATTEMPTS = 3"

fun is_permanent_refusal :: "tree_refusal \<Rightarrow> bool" where
  "is_permanent_refusal TR_NotARepository = True"
| "is_permanent_refusal TR_ForeignDirectory = True"
| "is_permanent_refusal (TR_Unknown _) = True"
| "is_permanent_refusal _ = False"

definition attempts_of :: "run_id \<Rightarrow> host_mem \<Rightarrow> attempts" where
  "attempts_of run m =
     (case map_of (tt_attempts (ho_track m)) run of Some a \<Rightarrow> a | None \<Rightarrow> \<lparr> at_refused = 0, at_next_at = None \<rparr>)"

definition set_track :: "(tree_track \<Rightarrow> tree_track) \<Rightarrow> host_mem \<Rightarrow> host_mem" where
  "set_track f m = m\<lparr>ho_track := f (ho_track m)\<rparr>"

definition set_attempts :: "run_id \<Rightarrow> attempts \<Rightarrow> host_mem \<Rightarrow> host_mem" where
  "set_attempts run a = set_track (\<lambda>t. t\<lparr>tt_attempts := bt_insert run a (tt_attempts t)\<rparr>)"

definition forget_attempts :: "run_id \<Rightarrow> host_mem \<Rightarrow> host_mem" where
  "forget_attempts run = set_track (\<lambda>t. t\<lparr>tt_attempts := bt_remove run (tt_attempts t)\<rparr>)"

section \<open>Beginning an operation\<close>

definition may_begin :: "run_id \<Rightarrow> timestamp \<Rightarrow> bool prog" where
  "may_begin run now =
     bindp ask_mem (\<lambda>m.
     if tt_running (ho_track m) \<noteq> None then Ret False
     else bindp (mem (set_attempts run (attempts_of run m))) (\<lambda>_.
       Ret (case at_next_at (attempts_of run m) of None \<Rightarrow> True | Some at \<Rightarrow> at \<le> now)))"

definition begin_op :: "tree_op \<Rightarrow> unit prog" where
  "begin_op t =
     bindp (begin_call t) (\<lambda>ok.
     if ok then mem (set_track (\<lambda>tr. tr\<lparr>tt_running := Some t, tt_cancelled := False\<rparr>)) else Ret ())"

definition prepare_tree :: "effects_codec \<Rightarrow> run_id \<Rightarrow> timestamp \<Rightarrow> unit prog" where
  "prepare_tree c run now =
     bindp (may_begin run now) (\<lambda>ok. if ok then begin_op (TO_Prepare run (v2_dir (ek_layout c))) else Ret ())"

definition park_tree :: "effects_codec \<Rightarrow> run_id \<Rightarrow> string \<Rightarrow> outcome \<Rightarrow> timestamp \<Rightarrow> (store_error + unit) prog" where
  "park_tree c run workspace occasion now =
     tryp (kv_get (''claim/'' @ workspace)) (\<lambda>holds.
     if holds \<noteq> Some run
     then bindp (enqueue_host run (''tree_parked/'' @ run) OR_Host (EB_TreeParked PO_NotHeld) now) (\<lambda>_. Ret (Inr ()))
     else bindp (may_begin run now) (\<lambda>ok.
       bindp (if ok then begin_op (TO_Park run (v2_dir (ek_layout c)) occasion) else Ret ()) (\<lambda>_. Ret (Inr ()))))"

section \<open>Cancelling one\<close>

definition cancel_running :: "unit prog" where
  "cancel_running =
     bindp ask_mem (\<lambda>m.
     if tt_cancelled (ho_track m) then Ret ()
     else bindp cancel_call (\<lambda>_. mem (set_track (\<lambda>t. t\<lparr>tt_cancelled := True\<rparr>))))"

definition standing_refusal :: "effects_codec \<Rightarrow> run_id \<Rightarrow> stored_refusal option prog" where
  "standing_refusal c run =
     bindp (kv_get (''tree_refusal/'' @ run)) (\<lambda>r.
     Ret (case r of Inr (Some b) \<Rightarrow> ek_refusal_read c b | _ \<Rightarrow> None))"

definition cancel_tree :: "effects_codec \<Rightarrow> run_state \<Rightarrow> timestamp \<Rightarrow> unit prog" where
  "cancel_tree c st now =
     bindp ask_mem (\<lambda>m.
     bindp (if is_some_and (tt_running (ho_track m)) (\<lambda>t. tree_op_run t = rs_run st) then cancel_running else Ret ()) (\<lambda>_.
     bindp (standing_refusal c (rs_run st)) (\<lambda>standing.
     bindp (enqueue_host (rs_run st) (tree_refused_key st) OR_Host
        (EB_TreeRefused (case standing of None \<Rightarrow> TR_Git GR_BoundExceeded | Some r \<Rightarrow> sf_reason r)) now) (\<lambda>_. Ret ()))))"

definition cancel_if_withdrawn :: "run_state \<Rightarrow> unit prog" where
  "cancel_if_withdrawn st =
     bindp ask_mem (\<lambda>m.
     let preparing = (case tt_running (ho_track m) of Some (TO_Prepare run _) \<Rightarrow> run = rs_run st | _ \<Rightarrow> False)
     in if preparing \<and> is_finishing st then cancel_running else Ret ())"

definition holds_tree_window :: "host_mem \<Rightarrow> run_id \<Rightarrow> bool" where
  "holds_tree_window m run =
     (let refused = (case map_of (tt_attempts (ho_track m)) run of None \<Rightarrow> 0 | Some a \<Rightarrow> at_refused a);
          running = is_some_and (tt_running (ho_track m)) (\<lambda>t. tree_op_run t = run)
      in refused + (if running then 1 else 0) < MIN_TREE_ATTEMPTS)"

section \<open>Taking a result\<close>

definition doubling :: "nat \<Rightarrow> int" where
  "doubling refused = min (BACKOFF_START_MS * 2 ^ (min refused 16 - 1)) BACKOFF_MAX_MS"

text \<open>The row is rewritten only when the refusal changes; the first instant of a standing one is kept.\<close>

definition record_refusal :: "effects_codec \<Rightarrow> run_id \<Rightarrow> tree_refusal \<Rightarrow> string \<Rightarrow> timestamp \<Rightarrow> unit prog" where
  "record_refusal c run reason text now =
     bindp (mem (\<lambda>m. let n = at_refused (attempts_of run m) + 1 in
        set_attempts run \<lparr> at_refused = n, at_next_at = Some (from_unix_millis (now + doubling n)) \<rparr> m)) (\<lambda>_.
     let k = ''tree_refusal/'' @ run in
     bindp (kv_get k) (\<lambda>r.
     case r of
       Inl e \<Rightarrow> mem (note_store_error e)
     | Inr current \<Rightarrow>
         (let stored = Option.bind current (ek_refusal_read c); text = scrub text in
          if is_some_and stored (\<lambda>s. sf_reason s = reason \<and> sf_text s = text) then Ret ()
          else
            (case ek_refusal_write c \<lparr> sf_reason = reason, sf_text = text, sf_at = now,
                 sf_first_refused_at = (case stored of None \<Rightarrow> now | Some s \<Rightarrow> sf_first_refused_at s) \<rparr> of
               None \<Rightarrow> Ret ()
             | Some value \<Rightarrow>
                 bindp (kv_cas k current (Some value)) (\<lambda>r.
                 case r of Inl e \<Rightarrow> mem (note_store_error e) | Inr _ \<Rightarrow> Ret ())))))"

definition clear_refusal :: "run_id \<Rightarrow> unit prog" where
  "clear_refusal run = clear_key (''tree_refusal/'' @ run)"

definition settle_tree :: "run_id \<Rightarrow> key \<Rightarrow> event_body \<Rightarrow> timestamp \<Rightarrow> unit prog" where
  "settle_tree run k body now =
     bindp (mem (forget_attempts run)) (\<lambda>_.
     bindp (clear_refusal run) (\<lambda>_.
     bindp (enqueue_host run k OR_Host body now) (\<lambda>_. Ret ())))"

definition fold_tree_result :: "effects_codec \<Rightarrow> tree_op \<Rightarrow> tree_result \<Rightarrow> timestamp \<Rightarrow> unit prog" where
  "fold_tree_result c t result now =
     (let run = tree_op_run t in
      case (t, result) of
        (TO_Prepare _ _, RS_Prepared base found) \<Rightarrow>
          settle_tree run (''tree_prepared/'' @ run) (EB_TreePrepared base found) now
      | (TO_Park _ _ _, RS_Parked outc) \<Rightarrow>
          settle_tree run (''tree_parked/'' @ run) (EB_TreeParked outc) now
      | (TO_Prepare _ _, RS_Refused reason text) \<Rightarrow>
          bindp (record_refusal c run reason text now) (\<lambda>_.
          bindp ask_mem (\<lambda>m.
          case hc_state (cache_of run m) of
            Some st \<Rightarrow>
              if is_permanent_refusal reason \<or> is_finishing st
              then bindp (enqueue_host run (tree_refused_key st) OR_Host (EB_TreeRefused reason) now) (\<lambda>_. Ret ())
              else Ret ()
          | None \<Rightarrow> Ret ()))
      | (TO_Park _ _ _, RS_Refused reason text) \<Rightarrow> record_refusal c run reason text now
      | _ \<Rightarrow> mem (log_line run ''a tree result of another kind:'' (tree_op_name t)))"

text \<open>\<^verbatim>\<open>poll_tree\<close> takes results until there is none; the tree holds one operation at a time, so \<open>n\<close>
  bounds how many it hands back in one tick.\<close>

fun poll_tree :: "effects_codec \<Rightarrow> (run_row \<times> epoch) list \<Rightarrow> timestamp \<Rightarrow> nat \<Rightarrow> unit prog" where
  "poll_tree c owned now 0 = Ret ()"
| "poll_tree c owned now (Suc n) =
     bindp poll_call (\<lambda>r.
     case r of
       None \<Rightarrow> Ret ()
     | Some (t, result) \<Rightarrow>
         bindp (mem (set_track (\<lambda>tr. tr\<lparr>tt_running := None, tt_cancelled := False\<rparr>))) (\<lambda>_.
         bindp ask_mem (\<lambda>m.
         let run = tree_op_run t in
         bindp (case List.find (\<lambda>(row, _). rw_run row = run) owned of
                  Some (_, epoch) \<Rightarrow> still_ours (hk_store (ek_host c)) run (ho_owner_id m) epoch
                | None \<Rightarrow> Ret False) (\<lambda>live.
         bindp (if live then fold_tree_result c t result now
                else mem (log_line run ''a tree result was dropped:'' ''the lease moved on'')) (\<lambda>_.
         poll_tree c owned now n)))))"

end
