(* ===== verification/Host_Start.thy ===== *)
theory Host_Start
  imports Host_Tree
begin

text \<open>
  Starting a session, from \<^verbatim>\<open>crates/run-host/src/start.rs\<close>: the step thread under an id the ledger keeps,
  the turn posted as the step's commission, the routes a reply needs, and the spawn.
\<close>

definition CONTRACT_V :: nat where "CONTRACT_V = 1"

definition mint_thread_id :: "string prog" where
  "mint_thread_id = bindp mint (\<lambda>u. Ret (''m-'' @ u))"

section \<open>The turn\<close>

definition task_text :: "step_def \<Rightarrow> handle \<Rightarrow> string option" where
  "task_text step h =
     (if h = SYNTH
      then (case sd_kind step of SKD_FanOut _ _ (Some s) \<Rightarrow> Some (sy_prompt s) | _ \<Rightarrow> None)
      else sd_task step)"

definition flush_framed :: "handle \<Rightarrow> turn_part list \<Rightarrow> string list \<Rightarrow> string list option prog" where
  "flush_framed h framed sections =
     (if framed = [] then Ret (Some sections)
      else bindp (text_call (CL_Turn h framed)) (\<lambda>r.
        Ret (case r of None \<Rightarrow> None | Some t \<Rightarrow> Some (sections @ [t]))))"

definition section_of :: "step_def \<Rightarrow> handle \<Rightarrow> message_id \<Rightarrow> turn_kind \<Rightarrow> string list" where
  "section_of step h thread k =
     (case k of
        TK_Task \<Rightarrow> (case task_text step h of Some t \<Rightarrow> [t] | None \<Rightarrow> [])
      | TK_Obligation \<Rightarrow> [obligation thread step]
      | TK_Reminder \<Rightarrow> [REMINDER]
      | _ \<Rightarrow> [])"

fun compose_parts ::
  "step_def \<Rightarrow> handle \<Rightarrow> message_id \<Rightarrow> turn_part list \<Rightarrow> turn_part list \<Rightarrow> string list \<Rightarrow> string list option prog" where
  "compose_parts step h thread [] framed sections = flush_framed h framed sections"
| "compose_parts step h thread (p # ps) framed sections =
     (if tp_message p \<noteq> None then compose_parts step h thread ps (framed @ [p]) sections
      else bindp (flush_framed h framed sections) (\<lambda>r.
        case r of
          None \<Rightarrow> Ret None
        | Some s \<Rightarrow> compose_parts step h thread ps [] (s @ section_of step h thread (tp_kind p))))"

fun join :: "string \<Rightarrow> string list \<Rightarrow> string" where
  "join sep [] = []"
| "join sep [s] = s"
| "join sep (s # t # ts) = s @ sep @ join sep (t # ts)"

definition compose_turn :: "slot \<Rightarrow> step_def \<Rightarrow> turn_part list \<Rightarrow> message_id \<Rightarrow> string option prog" where
  "compose_turn sl step turn thread =
     bindp (compose_parts step (sl_member sl) thread turn [] []) (\<lambda>r.
     Ret (case r of
        None \<Rightarrow> None
      | Some sections \<Rightarrow>
          Some (join (newline @ newline)
            ((if sl_attempt sl > 1 \<and> sd_next step = None then [EARLIER_ATTEMPT] else []) @ sections))))"

section \<open>The thread\<close>

definition write_route :: "effects_codec \<Rightarrow> run_id \<Rightarrow> message_id \<Rightarrow> session_key option \<Rightarrow> (store_error + unit) prog" where
  "write_route c run thread sk =
     (let k = ''thread/'' @ thread in
      tryp (kv_get k) (\<lambda>v.
      if v \<noteq> None then Ret (Inr ())
      else case ek_route_write c \<lparr> th_run = run, th_session_key = sk \<rparr> of
        None \<Rightarrow> Ret (Inl (SE_Backend ''a route cannot be written''))
      | Some value \<Rightarrow> kv_cas k None (Some value)))"

text \<open>\<^verbatim>\<open>Ok(None)\<close> is a port that refused: the effect stays owed.\<close>

definition open_step_thread ::
  "effects_codec \<Rightarrow> run_state \<Rightarrow> epoch \<Rightarrow> slot \<Rightarrow> step_def \<Rightarrow> session_key \<Rightarrow> turn_part list \<Rightarrow>
   (store_error + message_id option) prog" where
  "open_step_thread c st epoch sl step sk turn =
     (let run = rs_run st; ledger = ''thread/'' @ sk in
      bindp mint_thread_id (\<lambda>i.
      tryp (entry_or_write c run ledger epoch (PENDING @ '':'' @ i)) (\<lambda>entry.
      case strip_prefix DONE entry of
        Some thread \<Rightarrow> Ret (Inr (Some thread))
      | None \<Rightarrow>
          (case strip_prefix (PENDING @ '':'') entry of
             None \<Rightarrow> Ret (Inr None)
           | Some thread \<Rightarrow>
               bindp (open_thread thread (rs_root_thread st) (sd_channel step) (sd_opener step)) (\<lambda>opened.
               if \<not> opened then Ret (Inr None)
               else
                 bindp (find_or_post c run epoch thread (sd_opener step) [] (''turn/'' @ sk) (compose_turn sl step turn thread)) (\<lambda>posted.
                 if posted = None then Ret (Inr None)
                 else
                   tryp (write_route c run thread (Some sk)) (\<lambda>_.
                   tryp (kv_get (''session/'' @ sk)) (\<lambda>v.
                   tryp (if v = None then kv_cas (''session/'' @ sk) None (Some thread) else Ret (Inr ())) (\<lambda>_.
                   tryp (entry_set c run ledger epoch (DONE @ thread)) (\<lambda>_.
                   Ret (Inr (Some thread))))))))))))"

section \<open>The start spec\<close>

definition env_of :: "string list \<Rightarrow> env_var list prog" where
  "env_of names =
     foldr (\<lambda>n k. bindp (text_call (CL_EnvVar n)) (\<lambda>r.
       bindp k (\<lambda>vs. Ret (case r of Some v \<Rightarrow> \<lparr> en_name = n, en_value = v \<rparr> # vs | None \<Rightarrow> vs)))) names (Ret [])"

definition session_env :: "env_var list \<Rightarrow> session_key \<Rightarrow> handle \<Rightarrow> string \<Rightarrow> env_var list prog" where
  "session_env base sk h bundle =
     bindp (env_of [''PATH'', ''HOME'', ''USER'']) (\<lambda>env.
     Ret (env @ base @ [\<lparr> en_name = ''NXC_SIDECAR'', en_value = bundle \<rparr>, \<lparr> en_name = ''NXC_SESSION'', en_value = sk \<rparr>,
       \<lparr> en_name = ''NXC_ACTOR'', en_value = h \<rparr>]))"

text \<open>The prompt, the tools, the model and the permissions of a session; none when a declaration does not read.\<close>

definition standing_context ::
  "run_state \<Rightarrow> step_def \<Rightarrow> handle \<Rightarrow> (prompt \<times> string list \<times> string option \<times> string option) option prog" where
  "standing_context st step h =
     (if h = SYNTH then
        Ret (Some (\<lparr> pr_system_prompt = [], pr_use_claude_code_preset = False, pr_declaration_hash = rs_flow_hash st \<rparr>,
          [''Bash(nxc reply:*)''], (case sd_kind step of SKD_FanOut _ _ (Some s) \<Rightarrow> sy_model s | _ \<Rightarrow> None), None))
      else
        bindp (prompt_call h) (\<lambda>b.
        bindp (persona_call h) (\<lambda>p.
        Ret (case (b, p) of
           (Some bundle, Some persona) \<Rightarrow>
             Some (\<lparr> pr_system_prompt = pb_system_prompt bundle, pr_use_claude_code_preset = pb_use_claude_code_preset bundle,
                     pr_declaration_hash = pb_declaration_hash bundle \<rparr>,
               pb_granted_tools bundle, pn_model persona, pn_permissions persona)
         | _ \<Rightarrow> None))))"

definition start_spec_of ::
  "effects_codec \<Rightarrow> run_state \<Rightarrow> slot \<Rightarrow> step_def \<Rightarrow> session_key \<Rightarrow> message_id \<Rightarrow> string \<Rightarrow> bool \<Rightarrow>
   (store_error + start_spec option) prog" where
  "start_spec_of c st sl step sk thread text resume =
     (let h = sl_member sl; l = ek_layout c in
      bindp (standing_context st step h) (\<lambda>ctx.
      case ctx of
        None \<Rightarrow> Ret (Inr None)
      | Some (pr, tools, model, permissions) \<Rightarrow>
          tryp (if resume
                then tryp (kv_get (''persona_session/'' @ rs_run st @ ''/'' @ h)) (\<lambda>v. Ret (Inr (Option.bind v (ek_utf8 c))))
                else Ret (Inr None)) (\<lambda>resumed.
          bindp (text_call CL_Bundle) (\<lambda>bundle.
          case bundle of
            None \<Rightarrow> Ret (Inr None)
          | Some path \<Rightarrow>
              bindp (session_env (la_session_env l) sk h path) (\<lambda>env.
              Ret (Inr (Some \<lparr> sp_v = CONTRACT_V, sp_session_key = sk, sp_cwd = v2_dir l, sp_env = env, sp_prompt = pr,
                sp_turn = \<lparr> tu_thread = thread, tu_text = text \<rparr>, sp_resume = resumed, sp_model = model, sp_tools = tools,
                sp_permissions = permissions, sp_ledger_dir = ledger_dir l sk \<rparr>)))))))"

section \<open>Starting\<close>

definition note_started :: "run_id \<Rightarrow> session_key \<Rightarrow> host_mem \<Rightarrow> host_mem" where
  "note_started run sk m = set_cache run ((cache_of run m)\<lparr>hc_started := insert sk (hc_started (cache_of run m))\<rparr>) m"

definition spawn :: "run_id \<Rightarrow> session_key \<Rightarrow> start_spec \<Rightarrow> timestamp \<Rightarrow> unit prog" where
  "spawn run sk spec now =
     bindp (start_call spec) (\<lambda>r.
     case r of
       None \<Rightarrow> mem (log_line run ''a session did not start:'' sk)
     | Some SO_Lost \<Rightarrow>
         bindp (mem (note_started run sk)) (\<lambda>_.
         bindp (enqueue_host run (''fact/'' @ sk @ ''/start-lost'') OR_Adapter (EB_SessionFact sk (SF_Ended EC_Lost)) now) (\<lambda>_. Ret ()))
     | Some _ \<Rightarrow> mem (note_started run sk))"

definition start_session ::
  "effects_codec \<Rightarrow> run_state \<Rightarrow> epoch \<Rightarrow> session_key \<Rightarrow> turn_part list \<Rightarrow> bool \<Rightarrow> timestamp \<Rightarrow> (store_error + unit) prog" where
  "start_session c st epoch sk turn resume now =
     bindp ask_mem (\<lambda>m.
     if sk \<in> hc_started (cache_of (rs_run st) m) then Ret (Inr ())
     else case find_session st sk of
       None \<Rightarrow> Ret (Inr ())
     | Some i \<Rightarrow>
         (let sl = sr_slot (rs_slots st ! i) in
          case flow_step (rs_def st) (sl_step sl) of
            None \<Rightarrow> Ret (Inr ())
          | Some step \<Rightarrow>
              tryp (open_step_thread c st epoch sl step sk turn) (\<lambda>thread.
              case thread of
                None \<Rightarrow> Ret (Inr ())
              | Some t \<Rightarrow>
                  bindp (compose_turn sl step turn t) (\<lambda>text.
                  case text of
                    None \<Rightarrow> Ret (Inr ())
                  | Some x \<Rightarrow>
                      tryp (start_spec_of c st sl step sk t x resume) (\<lambda>spec.
                      case spec of
                        None \<Rightarrow> Ret (Inr ())
                      | Some s \<Rightarrow> bindp (spawn (rs_run st) sk s now) (\<lambda>_. Ret (Inr ())))))))"

end
