(* ===== verification/Host_Effects.thy ===== *)
theory Host_Effects
  imports Host_Start Effects
begin

text \<open>
  Executing what a run owes, from \<^verbatim>\<open>crates/run-host/src/effects.rs\<close>: every effect of
  \<open>pending_effects\<close> through its port, each behind a check of the lease, each recorded by a result input. Boundaries
  where the crash harness may abort are not calls: a crash between any two calls is allowed everywhere.
\<close>

definition show_int :: "int \<Rightarrow> string" where
  "show_int i = (if i < 0 then CHR ''-'' # show_nat (nat (- i)) else show_nat (nat i))"

section \<open>Messages\<close>

definition damaged_pending :: "run_id \<Rightarrow> store_error" where
  "damaged_pending run = SE_DamagedRow (''pending/'' @ run) None"

text \<open>The message of an effect: the one its entry names, or the one posted now.\<close>

definition open_root_message :: "effects_codec \<Rightarrow> run_id \<Rightarrow> epoch \<Rightarrow> (store_error + message_id option) prog" where
  "open_root_message c run epoch =
     (let ledger = ''root/'' @ run in
      tryp (entry_phase_of c run ledger epoch) (\<lambda>phase.
      case phase of
        EP_Done i \<Rightarrow> Ret (Inr (Some i))
      | EP_Pending \<Rightarrow>
          tryp (kv_get (''pending/'' @ run)) (\<lambda>v.
          case v of
            None \<Rightarrow> bindp (mem (log_line run ''owes its root'' ''and no commission waits for it'')) (\<lambda>_. Ret (Inr None))
          | Some bytes \<Rightarrow>
              (case ek_pending_read c bytes of
                 None \<Rightarrow> Ret (Inl (damaged_pending run))
               | Some p \<Rightarrow>
                   bindp (open_thread (pc_root_thread p) None (pc_channel p) (pc_sender p)) (\<lambda>opened.
                   if \<not> opened then bindp (mark_chat_refused c run epoch) (\<lambda>_. Ret (Inr None))
                   else
                     bindp (find_or_post c run epoch (pc_root_thread p) (pc_sender p) (pc_refs p) ledger (Ret (Some (pc_body p)))) (\<lambda>r.
                     case r of
                       None \<Rightarrow> Ret (Inr None)
                     | Some i \<Rightarrow> tryp (entry_set c run ledger epoch (DONE @ i)) (\<lambda>_. Ret (Inr (Some i)))))))))"

definition open_root :: "effects_codec \<Rightarrow> run_state \<Rightarrow> epoch \<Rightarrow> timestamp \<Rightarrow> (store_error + unit) prog" where
  "open_root c st epoch now =
     (let run = rs_run st in
      tryp (open_root_message c run epoch) (\<lambda>message.
      case message of
        None \<Rightarrow> Ret (Inr ())
      | Some i \<Rightarrow>
          bindp (enqueue_host run (''root_opened/'' @ run) OR_Host
            (EB_RootOpened (case rs_root_thread st of Some t \<Rightarrow> t | None \<Rightarrow> []) i) now) (\<lambda>_. Ret (Inr ()))))"

definition read_body :: "message_id \<Rightarrow> string option prog" where
  "read_body i = bindp (read_message i) (\<lambda>r. Ret (case r of Some (Some m) \<Rightarrow> Some (mg_body m) | _ \<Rightarrow> None))"

definition asked_message :: "asked \<Rightarrow> message_id" where
  "asked_message a = (case a of AK_Escalation _ m \<Rightarrow> m | AK_Ceiling _ _ m \<Rightarrow> m)"

definition delivery_text :: "effects_codec \<Rightarrow> run_state \<Rightarrow> deliver_body \<Rightarrow> string option prog" where
  "delivery_text c st body =
     (let dir = v2_dir (ek_layout c) in
      case body of
        DB_Message i \<Rightarrow> read_body i
      | DB_Discharge step pass verdict parked \<Rightarrow> Ret (Some (discharge (rs_outcome st) step pass verdict parked dir))
      | DB_ParkNotice branch commit \<Rightarrow> Ret (Some (park_notice branch commit dir))
      | DB_Question i \<Rightarrow>
          (case List.find (\<lambda>q. qu_id q = i) (rs_questions st) of
             None \<Rightarrow> Ret None
           | Some q \<Rightarrow>
               bindp (read_body (asked_message (qu_asked q))) (\<lambda>said.
               Ret (case said of
                  None \<Rightarrow> None
                | Some s \<Rightarrow> Some (question_text q (case rs_root_thread st of Some t \<Rightarrow> t | None \<Rightarrow> []) (Some s))))))"

definition deliver_message ::
  "effects_codec \<Rightarrow> run_state \<Rightarrow> epoch \<Rightarrow> message_id \<Rightarrow> deliver_body \<Rightarrow> key \<Rightarrow> (store_error + message_id option) prog" where
  "deliver_message c st epoch thread body k =
     tryp (entry_phase_of c (rs_run st) k epoch) (\<lambda>phase.
     case phase of
       EP_Done i \<Rightarrow> Ret (Inr (Some i))
     | EP_Pending \<Rightarrow>
         bindp (find_or_post c (rs_run st) epoch thread SUPERVISOR [] k (delivery_text c st body)) (\<lambda>r.
         case r of
           None \<Rightarrow> Ret (Inr None)
         | Some i \<Rightarrow> tryp (entry_set c (rs_run st) k epoch (DONE @ i)) (\<lambda>_. Ret (Inr (Some i)))))"

definition deliver ::
  "effects_codec \<Rightarrow> run_state \<Rightarrow> epoch \<Rightarrow> message_id \<Rightarrow> deliver_body \<Rightarrow> key \<Rightarrow> timestamp \<Rightarrow> (store_error + unit) prog" where
  "deliver c st epoch thread body k now =
     tryp (deliver_message c st epoch thread body k) (\<lambda>message.
     case message of
       None \<Rightarrow> Ret (Inr ())
     | Some i \<Rightarrow> bindp (enqueue_host (rs_run st) (delivered_key k) OR_Host (EB_Delivered i) now) (\<lambda>_. Ret (Inr ())))"

section \<open>Sessions\<close>

definition quiet_since :: "run_state \<Rightarrow> session_key \<Rightarrow> int" where
  "quiet_since st sk =
     (case find_session st sk of
        None \<Rightarrow> 0
      | Some i \<Rightarrow> (case sr_state (rs_slots st ! i) of SS_Quiet since _ \<Rightarrow> since | _ \<Rightarrow> 0))"

definition nudge :: "run_state \<Rightarrow> session_key \<Rightarrow> string \<Rightarrow> timestamp \<Rightarrow> unit prog" where
  "nudge st sk text now =
     bindp (nudge_call sk text) (\<lambda>ok.
     if \<not> ok then Ret ()
     else bindp (enqueue_host (rs_run st) (''nudged/'' @ sk @ ''/'' @ show_int (quiet_since st sk)) OR_Host (EB_Nudged sk) now) (\<lambda>_. Ret ()))"

definition stop_entry :: "session_key \<Rightarrow> nat \<Rightarrow> key" where
  "stop_entry sk n = ''stop/'' @ sk @ ''/'' @ show_nat n"

definition stop_session ::
  "effects_codec \<Rightarrow> run_id \<Rightarrow> epoch \<Rightarrow> session_key \<Rightarrow> stop_kind \<Rightarrow> nat \<Rightarrow> timestamp \<Rightarrow> (store_error + unit) prog" where
  "stop_session c run epoch sk kind n now =
     tryp (kv_get (effect_key run (stop_entry sk n))) (\<lambda>v.
     tryp (if v \<noteq> None then Ret (Inr ())
           else tryp (entry_or_write c run (stop_entry sk n) epoch PENDING) (\<lambda>_.
             bindp (stop_call sk (kind = ST_Kill)) (\<lambda>ok.
             bindp (if ok then Ret () else mem (log_line run ''a stop could not be sent:'' sk)) (\<lambda>_. Ret (Inr ()))))) (\<lambda>_.
     bindp (enqueue_host run (''stop_signalled/'' @ sk @ ''/'' @ show_nat n) OR_Host (EB_StopSignalled sk n kind) now) (\<lambda>_.
     Ret (Inr ()))))"

section \<open>The claim\<close>

definition claim_key :: "string \<Rightarrow> key" where "claim_key workspace = ''claim/'' @ workspace"

definition release_claim :: "run_id \<Rightarrow> string \<Rightarrow> timestamp \<Rightarrow> (store_error + unit) prog" where
  "release_claim run workspace now =
     tryp (kv_get (claim_key workspace)) (\<lambda>v.
     tryp (if v = Some run then kv_cas (claim_key workspace) (Some run) None else Ret (Inr ())) (\<lambda>_.
     bindp (enqueue_host run (''claim_released/'' @ run) OR_Host EB_ClaimReleased now) (\<lambda>_. Ret (Inr ()))))"

definition note_holder :: "effects_codec \<Rightarrow> run_state \<Rightarrow> run_id option \<Rightarrow> bytes \<Rightarrow> timestamp \<Rightarrow> unit prog" where
  "note_holder c st behind holder now =
     (case Option.bind (ek_utf8 c holder) (run_id_parse (co_ulid_ok (hk_store (ek_host c)))) of
        None \<Rightarrow> Ret ()
      | Some h \<Rightarrow>
          if behind = Some h then Ret ()
          else bindp (enqueue_host (rs_run st) (claim_busy_key st) OR_Host (EB_ClaimBusy h) now) (\<lambda>_. Ret ()))"

text \<open>One queued run's try: whether the claim is its own, or the error that ends the part. \<open>tried\<close> are the
  workspaces whose claim this tick has already tried to take.\<close>

definition try_claim ::
  "effects_codec \<Rightarrow> run_row \<Rightarrow> run_state \<Rightarrow> run_id option \<Rightarrow> string list \<Rightarrow> timestamp \<Rightarrow> (store_error + bool \<times> string list) prog" where
  "try_claim c row st behind tried now =
     (let run = rw_run row; ws = rw_workspace_id row in
      tryp (kv_get (claim_key ws)) (\<lambda>holder.
      case holder of
        Some bytes \<Rightarrow>
          if bytes = run then Ret (Inr (True, tried))
          else bindp (note_holder c st behind bytes now) (\<lambda>_. Ret (Inr (False, tried)))
      | None \<Rightarrow>
          if ws \<in> set tried then Ret (Inr (False, tried))
          else bindp (kv_cas (claim_key ws) None (Some run)) (\<lambda>r.
            Ret (case r of
               Inr _ \<Rightarrow> Inr (True, tried @ [ws])
             | Inl (SE_CasFailed _) \<Rightarrow> Inr (False, tried @ [ws])
             | Inl e \<Rightarrow> Inl e))))"

fun take_claims_from ::
  "effects_codec \<Rightarrow> timestamp \<Rightarrow> (run_row \<times> epoch) list \<Rightarrow> string list \<Rightarrow> bool \<Rightarrow> unit prog" where
  "take_claims_from c now [] tried owed = Ret ()"
| "take_claims_from c now ((row, epoch) # rows) tried owed =
     bindp (loaded (rw_run row)) (\<lambda>r.
     case r of
       None \<Rightarrow> take_claims_from c now rows tried owed
     | Some st \<Rightarrow>
         (case rs_phase st of
            PH_Queued behind \<Rightarrow>
              bindp (may_work owed) (\<lambda>ok.
              if \<not> ok then Ret ()
              else bindp (try_claim c row st behind tried now) (\<lambda>r.
                case r of
                  Inl e \<Rightarrow> mem (note_store_error e)
                | Inr (taken, tried') \<Rightarrow>
                    bindp (if taken then enqueue_host (rw_run row) (''claim_taken/'' @ rw_run row) OR_Host EB_ClaimTaken now
                           else Ret True) (\<lambda>_.
                    take_claims_from c now rows tried' False)))
          | _ \<Rightarrow> take_claims_from c now rows tried owed))"

definition take_claims :: "effects_codec \<Rightarrow> (run_row \<times> epoch) list \<Rightarrow> timestamp \<Rightarrow> unit prog" where
  "take_claims c owned now = take_claims_from c now owned [] True"

section \<open>Every effect\<close>

definition execute ::
  "effects_codec \<Rightarrow> run_state \<Rightarrow> run_row \<Rightarrow> epoch \<Rightarrow> effect \<Rightarrow> timestamp \<Rightarrow> (store_error + unit) prog" where
  "execute c st row epoch e now =
     (let run = rw_run row; done = (\<lambda>p. bindp p (\<lambda>_. Ret (Inr ()))) in
      case e of
        EF_OpenRoot _ \<Rightarrow> open_root c st epoch now
      | EF_TakeClaim _ \<Rightarrow> Ret (Inr ())
      | EF_PrepareTree _ \<Rightarrow> done (prepare_tree c run now)
      | EF_CancelTree _ \<Rightarrow> done (cancel_tree c st now)
      | EF_ParkTree workspace occasion \<Rightarrow> park_tree c run workspace occasion now
      | EF_ReleaseClaim workspace \<Rightarrow> release_claim run workspace now
      | EF_StartSession sk turn resume \<Rightarrow> start_session c st epoch sk turn resume now
      | EF_NudgeSession sk text \<Rightarrow> done (nudge st sk text now)
      | EF_StopSession sk kind n \<Rightarrow> stop_session c run epoch sk kind n now
      | EF_Deliver thread body k \<Rightarrow> deliver c st epoch thread body k now)"

fun execute_effects ::
  "effects_codec \<Rightarrow> run_state \<Rightarrow> run_row \<Rightarrow> epoch \<Rightarrow> timestamp \<Rightarrow> bool \<Rightarrow> effect list \<Rightarrow> unit prog" where
  "execute_effects c st row epoch now owed [] = Ret ()"
| "execute_effects c st row epoch now owed (e # es) =
     bindp (may_work owed) (\<lambda>ok.
     if \<not> ok then Ret ()
     else bindp ask_mem (\<lambda>m.
       bindp (still_ours (hk_store (ek_host c)) (rw_run row) (ho_owner_id m) epoch) (\<lambda>ours.
       if \<not> ours
       then mem (\<lambda>m. drop_cache (rw_run row) (log_line (rw_run row) ''effect skipped:'' ''the lease moved on'' m))
       else bindp (execute c st row epoch e now) (\<lambda>r.
         case r of
           Inr _ \<Rightarrow> execute_effects c st row epoch now owed es
         | Inl err \<Rightarrow>
             if err = SE_Fenced
             then mem (\<lambda>m. drop_cache (rw_run row) (log_line (rw_run row) ''effect refused:'' (store_error_kind err) m))
             else bindp (mem (note_store_error err)) (\<lambda>_. execute_effects c st row epoch now owed es)))))"

definition execute_run :: "effects_codec \<Rightarrow> run_row \<Rightarrow> epoch \<Rightarrow> timestamp \<Rightarrow> bool \<Rightarrow> unit prog" where
  "execute_run c row epoch now owed =
     bindp (loaded (rw_run row)) (\<lambda>r.
     case r of
       None \<Rightarrow> Ret ()
     | Some st \<Rightarrow>
         bindp (cancel_if_withdrawn st) (\<lambda>_.
         execute_effects c st row epoch now owed (pending_effects st)))"

end
