(* ===== verification/Host_Tick.thy ===== *)
theory Host_Tick
  imports Host_Effects
begin

text \<open>
  One tick of a host, from \<^verbatim>\<open>crates/run-host/src/host.rs\<close> and \<^verbatim>\<open>lease.rs\<close>: the leases of
  the open runs, the facts of their sessions and the results of the tree worker into the inboxes, the due timers, the
  fold of every inbox, the effects every run owes, and the claims of the queued runs. The folds are those of
  \<^verbatim>\<open>Host_Fold\<close>, taken as one call each; what others write meanwhile, what is left of the budget and which
  sessions the backend calls dead are the fields of \<open>tick_env\<close>. A panic inside a step is no outcome here.
\<close>

record tick_env =
  tk_codec :: effects_codec
  tk_others :: "run_id \<Rightarrow> nat \<Rightarrow> nat \<Rightarrow> store \<Rightarrow> store"
  tk_budget :: "run_id \<Rightarrow> bool \<Rightarrow> nat \<Rightarrow> bool"
  tk_inputs :: nat
  tk_results :: nat
  tk_dead :: "session_key \<Rightarrow> bool"

section \<open>Leases\<close>

datatype holding = HD_Ours epoch | HD_Skip

definition acquire_call :: "codec \<Rightarrow> run_id \<Rightarrow> string \<Rightarrow> timestamp \<Rightarrow> (store_error + lease) prog" where
  "acquire_call c run owner_id now =
     tryp (kv_get (owner_key run)) (\<lambda>current.
     case acquire_plan c run owner_id now current of
       Inl e \<Rightarrow> Ret (Inl e)
     | Inr (LP_Keep l) \<Rightarrow> Ret (Inr l)
     | Inr (LP_Write l) \<Rightarrow>
         (case encode_lease c l of
            Inl e \<Rightarrow> Ret (Inl e)
          | Inr b \<Rightarrow> tryp (kv_cas (owner_key run) current (Some b)) (\<lambda>_. Ret (Inr l))))"

definition acquire :: "codec \<Rightarrow> run_id \<Rightarrow> string \<Rightarrow> timestamp \<Rightarrow> (store_error + holding) prog" where
  "acquire c run owner_id now =
     bindp (acquire_call c run owner_id now) (\<lambda>r.
     Ret (case r of Inr l \<Rightarrow> Inr (HD_Ours (le_epoch l)) | Inl (SE_CasFailed _) \<Rightarrow> Inr HD_Skip | Inl e \<Rightarrow> Inl e))"

fun leases :: "codec \<Rightarrow> timestamp \<Rightarrow> run_row list \<Rightarrow> (run_row \<times> epoch) list prog" where
  "leases c now [] = Ret []"
| "leases c now (row # rows) =
     bindp ask_mem (\<lambda>m.
     if ho_busy m then bindp (mem (drop_cache (rw_run row))) (\<lambda>_. leases c now rows)
     else bindp (acquire c (rw_run row) (ho_owner_id m) now) (\<lambda>r.
       case r of
         Inr (HD_Ours epoch) \<Rightarrow> bindp (leases c now rows) (\<lambda>owned. Ret ((row, epoch) # owned))
       | Inr HD_Skip \<Rightarrow> bindp (mem (drop_cache (rw_run row))) (\<lambda>_. leases c now rows)
       | Inl e \<Rightarrow> bindp (mem (\<lambda>m. note_store_error e (drop_cache (rw_run row) m))) (\<lambda>_. leases c now rows)))"

definition mark_host_seen_call :: "codec \<Rightarrow> string \<Rightarrow> timestamp \<Rightarrow> (store_error + unit) prog" where
  "mark_host_seen_call c workspace now =
     (let k = HOST_SEEN_PREFIX @ workspace in
      tryp (kv_get k) (\<lambda>stored.
      if is_some_and (Option.bind stored (co_instant_read c)) (\<lambda>at. \<bar>now - at\<bar> < expiry_ms) then Ret (Inr ())
      else case co_instant_write c now of
        None \<Rightarrow> Ret (Inl (SE_Backend ''a kv value cannot be written''))
      | Some value \<Rightarrow>
          bindp (kv_cas k stored (Some value)) (\<lambda>r. Ret (case r of Inl (SE_CasFailed _) \<Rightarrow> Inr () | other \<Rightarrow> other))))"

fun mark_seen_from :: "codec \<Rightarrow> timestamp \<Rightarrow> string list \<Rightarrow> unit prog" where
  "mark_seen_from c now [] = Ret ()"
| "mark_seen_from c now (ws # rest) =
     bindp ask_mem (\<lambda>m.
     if ho_busy m then Ret ()
     else bindp (mark_host_seen_call c ws now) (\<lambda>r.
       bindp (case r of Inl e \<Rightarrow> mem (note_store_error e) | Inr _ \<Rightarrow> Ret ()) (\<lambda>_. mark_seen_from c now rest)))"

definition mark_seen :: "codec \<Rightarrow> run_row list \<Rightarrow> timestamp \<Rightarrow> unit prog" where
  "mark_seen c rows now = mark_seen_from c now (map fst (fold (\<lambda>row. bt_insert (rw_workspace_id row) ()) rows []))"

section \<open>A turn for every run\<close>

definition set_next_turn :: "tick_part \<Rightarrow> nat \<Rightarrow> host_mem \<Rightarrow> host_mem" where
  "set_next_turn pt i m = m\<lparr>ho_next_turn := (ho_next_turn m)(pt := i)\<rparr>"

fun each_from ::
  "tick_part \<Rightarrow> (run_row \<times> epoch) list \<Rightarrow> (run_row \<Rightarrow> epoch \<Rightarrow> bool \<Rightarrow> unit prog) \<Rightarrow> nat \<Rightarrow> nat list \<Rightarrow> unit prog" where
  "each_from pt owned step start [] = Ret ()"
| "each_from pt owned step start (offset # offsets) =
     (let index = (start + offset) mod length owned; turn_owed = (offset = 0); (row, epoch) = owned ! index in
      bindp (may_work turn_owed) (\<lambda>ok.
      if \<not> ok then mem (set_next_turn pt index)
      else bindp (step row epoch turn_owed) (\<lambda>_. each_from pt owned step start offsets)))"

definition each_run ::
  "tick_part \<Rightarrow> (run_row \<times> epoch) list \<Rightarrow> (run_row \<Rightarrow> epoch \<Rightarrow> bool \<Rightarrow> unit prog) \<Rightarrow> unit prog" where
  "each_run pt owned step =
     (if owned = [] then Ret ()
      else bindp ask_mem (\<lambda>m. each_from pt owned step (ho_next_turn m pt mod length owned) [0..<length owned]))"

section \<open>Draining the sessions\<close>

definition offset_of :: "run_id \<Rightarrow> session_key \<Rightarrow> nat prog" where
  "offset_of run sk =
     bindp ask_mem (\<lambda>m.
     case map_of (hc_offsets (cache_of run m)) sk of
       Some n \<Rightarrow> Ret n
     | None \<Rightarrow>
         bindp (read_offset sk) (\<lambda>r.
         let n = (case r of Some n \<Rightarrow> n | None \<Rightarrow> 0) in
         bindp (mem (\<lambda>m. set_cache run ((cache_of run m)\<lparr>hc_offsets := bt_insert sk n (hc_offsets (cache_of run m))\<rparr>) m)) (\<lambda>_.
         Ret n)))"

definition store_offset :: "run_id \<Rightarrow> session_key \<Rightarrow> nat \<Rightarrow> unit prog" where
  "store_offset run sk n =
     bindp (write_offset sk n) (\<lambda>ok.
     if ok then mem (\<lambda>m. set_cache run ((cache_of run m)\<lparr>hc_offsets := bt_insert sk n (hc_offsets (cache_of run m))\<rparr>) m)
     else Ret ())"

text \<open>The facts into the inbox, in their order, up to the first the store refuses.\<close>

fun enqueue_facts :: "run_id \<Rightarrow> session_key \<Rightarrow> timestamp \<Rightarrow> drained_fact list \<Rightarrow> bool prog" where
  "enqueue_facts run sk now [] = Ret True"
| "enqueue_facts run sk now (d # ds) =
     bindp (enqueue_host run (''fact/'' @ sk @ ''/'' @ show_nat (df_offset d)) OR_Adapter (EB_SessionFact sk (df_fact d)) now) (\<lambda>ok.
     if ok then enqueue_facts run sk now ds else Ret False)"

definition confirm_stopped :: "run_id \<Rightarrow> session_key \<Rightarrow> timestamp \<Rightarrow> unit prog" where
  "confirm_stopped run sk now =
     bindp (alive_call sk) (\<lambda>r.
     if r = Some LV_Dead
     then bindp (enqueue_host run (''fact/'' @ sk @ ''/stopped'') OR_Adapter (EB_SessionFact sk (SF_Ended EC_StoppedByHost)) now) (\<lambda>_. Ret ())
     else Ret ())"

definition drain_session :: "run_id \<Rightarrow> session_key \<Rightarrow> bool \<Rightarrow> timestamp \<Rightarrow> unit prog" where
  "drain_session run sk stopping now =
     bindp (offset_of run sk) (\<lambda>from.
     bindp (drain_call sk from) (\<lambda>r.
     case r of
       None \<Rightarrow> Ret ()
     | Some (facts, next) \<Rightarrow>
         bindp (enqueue_facts run sk now facts) (\<lambda>ok.
         if \<not> ok then Ret ()
         else
           bindp (if next \<noteq> from then store_offset run sk next else Ret ()) (\<lambda>_.
           if stopping \<and> facts = [] then confirm_stopped run sk now else Ret ()))))"

fun drain_sessions :: "run_id \<Rightarrow> timestamp \<Rightarrow> bool \<Rightarrow> (session_key \<times> bool) list \<Rightarrow> unit prog" where
  "drain_sessions run now owed [] = Ret ()"
| "drain_sessions run now owed ((sk, stopping) # rest) =
     bindp (may_work owed) (\<lambda>ok.
     if \<not> ok then Ret ()
     else bindp (drain_session run sk stopping now) (\<lambda>_. drain_sessions run now owed rest))"

definition drain_run :: "run_row \<Rightarrow> epoch \<Rightarrow> timestamp \<Rightarrow> bool \<Rightarrow> unit prog" where
  "drain_run row epoch now owed =
     bindp (loaded (rw_run row)) (\<lambda>r.
     case r of
       None \<Rightarrow> Ret ()
     | Some st \<Rightarrow>
         drain_sessions (rw_run row) now owed
           (map (\<lambda>r. (session_key_of st (sr_slot r), ss_ladder (sr_state r) \<noteq> None))
              (filter (\<lambda>r. ss_is_live (sr_state r)) (rs_slots st))))"

section \<open>Due timers\<close>

fun fire_each :: "effects_codec \<Rightarrow> (run_row \<times> epoch) list \<Rightarrow> timestamp \<Rightarrow> due_timer list \<Rightarrow> unit prog" where
  "fire_each c owned now [] = Ret ()"
| "fire_each c owned now (t # ts) =
     bindp ask_mem (\<lambda>m.
     bindp (if \<not> list_ex (\<lambda>(row, _). rw_run row = dt_run t) owned \<or> (dt_purpose t = TP_TreeWindow \<and> holds_tree_window m (dt_run t))
            then Ret True
            else enqueue_host (dt_run t) (''timer/'' @ dt_timer t @ ''/'' @ ek_show_instant c (dt_fire_at t)) OR_Timer
              (EB_TimerFired (dt_timer t) (dt_fire_at t)) now) (\<lambda>_.
     fire_each c owned now ts))"

definition fire_due_timers :: "effects_codec \<Rightarrow> (run_row \<times> epoch) list \<Rightarrow> timestamp \<Rightarrow> unit prog" where
  "fire_due_timers c owned now =
     bindp ask_mem (\<lambda>m.
     if ho_busy m then Ret ()
     else bindp (due_timers_call now) (\<lambda>r.
       case r of Inl e \<Rightarrow> mem (note_store_error e) | Inr due \<Rightarrow> fire_each c owned now due))"

section \<open>The tick\<close>

definition fold_step :: "tick_env \<Rightarrow> timestamp \<Rightarrow> run_row \<Rightarrow> epoch \<Rightarrow> bool \<Rightarrow> unit prog" where
  "fold_step E now row epoch owed =
     (let run = rw_run row in
      fold_call (fold_run (ek_host (tk_codec E)) (tk_others E run) (tk_budget E run owed) run epoch now (tk_inputs E)))"

definition execute_step :: "tick_env \<Rightarrow> timestamp \<Rightarrow> run_row \<Rightarrow> epoch \<Rightarrow> bool \<Rightarrow> unit prog" where
  "execute_step E now row epoch owed =
     bindp (fold_call (withdraw_exit (ek_host (tk_codec E)) (tk_dead E) row epoch now)) (\<lambda>_.
     execute_run (tk_codec E) row epoch now owed)"

definition begin_tick :: "host_mem \<Rightarrow> host_mem" where
  "begin_tick m = m\<lparr>ho_yielded := False, ho_busy := False, ho_folded := 0\<rparr>"

definition retain_open :: "run_row list \<Rightarrow> host_mem \<Rightarrow> host_mem" where
  "retain_open rows m = m\<lparr>ho_runs := filter (\<lambda>(run, _). run \<in> set (map rw_run rows)) (ho_runs m)\<rparr>"

definition tick :: "tick_env \<Rightarrow> timestamp \<Rightarrow> unit prog" where
  "tick E now =
     (let c = tk_codec E; sc = hk_store (ek_host c) in
      bindp (mem begin_tick) (\<lambda>_.
      bindp open_runs_call (\<lambda>r.
      case r of
        Inl e \<Rightarrow> mem (note_store_error e)
      | Inr rows \<Rightarrow>
          bindp (mem (retain_open rows)) (\<lambda>_.
          bindp (leases sc now rows) (\<lambda>owned.
          bindp (mark_seen sc rows now) (\<lambda>_.
          bindp (each_run PT_Drain owned (\<lambda>row epoch owed. drain_run row epoch now owed)) (\<lambda>_.
          bindp (poll_tree c owned now (tk_results E)) (\<lambda>_.
          bindp (fire_due_timers c owned now) (\<lambda>_.
          bindp (each_run PT_Fold owned (fold_step E now)) (\<lambda>_.
          bindp (each_run PT_Execute owned (execute_step E now)) (\<lambda>_.
          take_claims c owned now)))))))))))"

end
