(* ===== verification/Host_Discipline.thy ===== *)
theory Host_Discipline
  imports Host_Tick
begin

text \<open>
  Hosts at work together, and how to reason about them. \<open>sys_step\<close> lets any number of hosts make their calls in any
  order, die between any two of them and begin again with a new tick, while others write as \<open>env\<close> allows. A
  discipline gives every host a permit that its own calls change: \<open>allowed\<close> says which calls a permit covers,
  \<open>possible\<close> which answers it leaves open, \<open>after\<close> what becomes of it. The locale \<open>disciplined\<close> has the laws that make an invariant over the world and
  the permits hold in every reachable state; \<open>tick_discipline\<close> adds the few parts of a tick that have to be looked
  at, and its tick keeps the discipline.
\<close>

section \<open>Hosts at work\<close>

type_synonym proc = "host_mem \<times> unit prog"

inductive sys_step ::
  "host_codec \<Rightarrow> (unit prog \<Rightarrow> bool) \<Rightarrow> (world \<Rightarrow> world \<Rightarrow> bool) \<Rightarrow> proc list \<times> world \<Rightarrow> proc list \<times> world \<Rightarrow> bool"
  for c programs env where
  sys_call: "i < length ps \<Longrightarrow> ps ! i = (m, Do cl k) \<Longrightarrow> call_step c cl m w a m' w' \<Longrightarrow>
     sys_step c programs env (ps, w) (ps[i := (m', k a)], w')"
| sys_restart: "i < length ps \<Longrightarrow> programs p \<Longrightarrow> sys_step c programs env (ps, w) (ps[i := (m, p)], w)"
| sys_other: "env w w' \<Longrightarrow> sys_step c programs env (ps, w) (ps, w')"

section \<open>Permits\<close>

record 'p discipline =
  allowed :: "'p \<Rightarrow> call \<Rightarrow> bool"
  possible :: "'p \<Rightarrow> call \<Rightarrow> answer \<Rightarrow> bool"
  after :: "'p \<Rightarrow> call \<Rightarrow> answer \<Rightarrow> 'p"

primrec obeys :: "'p discipline \<Rightarrow> 'p \<Rightarrow> 'r prog \<Rightarrow> bool" where
  "obeys D P (Ret r) = True"
| "obeys D P (Do cl k) = (allowed D P cl \<and> (\<forall>a. possible D P cl a \<longrightarrow> obeys D (after D P cl a) (k a)))"

text \<open>A part that keeps the discipline whatever permit it begins with.\<close>

definition safe :: "'p discipline \<Rightarrow> 'r prog \<Rightarrow> bool" where
  "safe D p \<longleftrightarrow> (\<forall>P. obeys D P p)"

named_theorems safe_intros

lemma safe_Ret [safe_intros]: "safe D (Ret r)"
  by (simp add: safe_def)

lemma safe_Do: "(\<And>P. allowed D P cl) \<Longrightarrow> (\<And>a. safe D (k a)) \<Longrightarrow> safe D (Do cl k)"
  by (simp add: safe_def)

lemma obeys_bindp:
  assumes "obeys D P p" "\<And>r. safe D (f r)"
  shows "obeys D P (bindp p f)"
  using assms(1) by (induction p arbitrary: P) (use assms(2) in \<open>auto simp: safe_def\<close>)

lemma safe_bindp [safe_intros]: "safe D p \<Longrightarrow> (\<And>r. safe D (f r)) \<Longrightarrow> safe D (bindp p f)"
  using obeys_bindp by (fastforce simp: safe_def)

lemma safe_tryp [safe_intros]: "safe D p \<Longrightarrow> (\<And>x. safe D (f x)) \<Longrightarrow> safe D (tryp p f)"
  unfolding tryp_def by (rule safe_bindp) (auto intro: safe_Ret split: sum.split)

lemma safe_if [safe_intros]: "safe D p \<Longrightarrow> safe D q \<Longrightarrow> safe D (if b then p else q)"
  by simp

section \<open>The invariant of a discipline\<close>

definition held :: "'p discipline \<Rightarrow> (world \<Rightarrow> 'p list \<Rightarrow> bool) \<Rightarrow> proc list \<times> world \<Rightarrow> bool" where
  "held D I s \<longleftrightarrow> (\<exists>Ps. length Ps = length (fst s) \<and> I (snd s) Ps \<and>
     (\<forall>i<length Ps. obeys D (Ps ! i) (snd (fst s ! i))))"

locale disciplined =
  fixes c :: host_codec
    and D :: "'p discipline"
    and fresh :: 'p
    and inv :: "world \<Rightarrow> 'p list \<Rightarrow> bool"
    and env :: "world \<Rightarrow> world \<Rightarrow> bool"
  assumes inv_call: "inv w Ps \<Longrightarrow> i < length Ps \<Longrightarrow> allowed D (Ps ! i) cl \<Longrightarrow> call_step c cl m w a m' w' \<Longrightarrow>
      inv w' (Ps[i := after D (Ps ! i) cl a])"
    and answer_possible: "inv w Ps \<Longrightarrow> i < length Ps \<Longrightarrow> allowed D (Ps ! i) cl \<Longrightarrow> call_step c cl m w a m' w' \<Longrightarrow>
      possible D (Ps ! i) cl a"
    and inv_fresh: "inv w Ps \<Longrightarrow> i < length Ps \<Longrightarrow> inv w (Ps[i := fresh])"
    and inv_env: "inv w Ps \<Longrightarrow> env w w' \<Longrightarrow> inv w' Ps"
begin

lemma held_step:
  assumes "sys_step c programs env s s'" "held D inv s" "\<And>p. programs p \<Longrightarrow> safe D p"
  shows "held D inv s'"
proof -
  obtain Ps where Ps: "length Ps = length (fst s)" "inv (snd s) Ps"
      "\<And>i. i < length Ps \<Longrightarrow> obeys D (Ps ! i) (snd (fst s ! i))"
    using assms(2) unfolding held_def by blast
  show ?thesis
    using assms(1)
  proof cases
    case (sys_call i ps m cl k w a m' w')
    let ?Q = "Ps[i := after D (Ps ! i) cl a]"
    have "obeys D (Ps ! i) (Do cl k)" using Ps(1) Ps(3) [of i] sys_call by simp
    then have al: "allowed D (Ps ! i) cl" and ob: "possible D (Ps ! i) cl a \<Longrightarrow> obeys D (after D (Ps ! i) cl a) (k a)" by auto
    have po: "possible D (Ps ! i) cl a" using answer_possible [OF _ _ al] Ps(1,2) sys_call by simp
    have "inv w' ?Q" using inv_call [OF _ _ al] Ps(1,2) sys_call by simp
    moreover have "\<forall>j<length ?Q. obeys D (?Q ! j) (snd (ps[i := (m', k a)] ! j))"
      using Ps(1,3) sys_call ob [OF po] by (simp add: nth_list_update)
    ultimately show ?thesis unfolding held_def using Ps(1) sys_call by (intro exI [of _ ?Q]) simp
  next
    case (sys_restart i ps p w m)
    have "inv w (Ps[i := fresh])" using inv_fresh Ps(1,2) sys_restart by simp
    then show ?thesis
      using Ps sys_restart assms(3) unfolding held_def
      by (intro exI [of _ "Ps[i := fresh]"]) (simp add: nth_list_update safe_def)
  next
    case (sys_other w w' ps)
    then show ?thesis using Ps inv_env unfolding held_def by auto
  qed
qed

theorem held_reachable:
  assumes "(sys_step c programs env)\<^sup>*\<^sup>* (map (\<lambda>m. (m, Ret ())) ms, w) s" "\<And>p. programs p \<Longrightarrow> safe D p"
    "inv w (map (\<lambda>_. fresh) ms)"
  shows "held D inv s"
  using assms(1)
proof (induction rule: rtranclp_induct)
  case base
  show ?case using assms(3) unfolding held_def by (intro exI [of _ "map (\<lambda>_. fresh) ms"]) simp
next
  case (step y z)
  then show ?case using held_step assms(2) by blast
qed

end

end
