(* ===== verification/Host_Frames.thy ===== *)
theory Host_Frames
  imports Host_Discipline
begin

text \<open>
  What the folds of a host leave alone: no append, no poison count and no withdrawal touches an entry of the effect
  ledger, and a call on the store changes the named value it is about and no other.
\<close>

section \<open>One call on the store\<close>

lemma apply_cas_other: "apply_cas c item db = Inr db' \<Longrightarrow> k \<noteq> ca_key item \<Longrightarrow> store_get k db' = store_get k db"
  by (auto dest!: apply_cas_Inr)

lemma try_cas_other:
  assumes "try_fold (apply_cas c) items db = Inr db'" "k \<notin> ca_key ` set items"
  shows "store_get k db' = store_get k db"
  by (rule try_fold_invariant [where I = "\<lambda>d. store_get k d = store_get k db", OF assms(1)])
     (use assms(2) in \<open>auto dest!: apply_cas_other [of c _ _ _ k]\<close>)

lemma append_other:
  assumes "k \<notin> ca_key ` set items"
  shows "store_get k (snd (store_append c run n fence es ks items db)) = store_get k db"
proof -
  obtain res db' where r: "store_append c run n fence es ks items db = (res, db')" by fastforce
  then show ?thesis
  proof (cases rule: store_append_cases)
    case (ok a)
    have tx: "append_tx c run (read_run run db) es ks items db = Inr (a, db')" using ok(1,8) by simp
    obtain db1 db2 db4 db5 where s:
      "(case (read_run run db, es) of (None, e # _) \<Rightarrow> create_run run e db | _ \<Rightarrow> Inr db) = Inr db1"
      "insert_events c es (case read_run run db of Some r \<Rightarrow> rw_last_seq r | None \<Rightarrow> 0) db1 = Inr db2"
      "db4 = (delete_inbox_rows run ks db2)\<lparr>db_timers := snd (timers_apply run es (db_timers db2))\<rparr>"
      "try_fold (apply_cas c) items db4 = Inr db5"
      "db' = update_run run (ap_last_seq a) (foldr max (map ev_v es) 0) (list_ex (\<lambda>e. body_finishes (ev_body e)) es) db5"
      by (rule append_tx_steps [OF tx]) blast
    have "db_kv db1 = db_kv db"
      using s(1) by (auto split: option.splits list.splits dest: create_run_frame(4))
    then have "store_get k db4 = store_get k db" using insert_events_frame [OF s(2)] s(3) by (simp add: store_get_def)
    moreover have "store_get k db' = store_get k db5" using s(5) by (simp add: store_get_def)
    ultimately show ?thesis using r try_cas_other [OF s(4) assms] by simp
  qed (use r in \<open>auto simp: store_get_def\<close>)
qed

lemma enqueue_other: "store_get k (snd (enqueue c run e [] db)) = store_get k db"
proof -
  obtain res db' where r: "enqueue c run e [] db = (res, db')" by fastforce
  have tx: "store_get k d = store_get k db" if "enqueue_tx c run e [] db = Inr d" for d
    using that by (auto simp: enqueue_tx_def wire_def store_get_def dest: create_run_frame(4) split: option.splits bool.splits if_splits)
  show ?thesis using r tx by (auto simp: enqueue_def split: sum.splits if_splits)
qed

lemma cas_other: "j \<noteq> k \<Longrightarrow> store_get j (snd (compare_and_set c k f t db)) = store_get j db"
  by (auto simp: compare_and_set_def dest: apply_cas_other [of c _ _ _ j] split: sum.splits)

lemma cas_Inr:
  assumes "compare_and_set c k f t db = (Inr u, db')"
  shows "store_get k db = f" "store_get k db' = t" "db' = write_kv k t db"
proof -
  have "apply_cas c \<lparr> ca_key = k, ca_from = f, ca_to = t \<rparr> db = Inr db'"
    using assms by (auto simp: compare_and_set_def split: sum.splits)
  from apply_cas_Inr [OF this] show "store_get k db = f" "store_get k db' = t" "db' = write_kv k t db" by auto
qed

lemma cas_Inl: "compare_and_set c k f t db = (Inl e, db') \<Longrightarrow> db' = db"
  by (auto simp: compare_and_set_def split: sum.splits)

section \<open>The effect ledger under the folds\<close>

definition keeps_effects :: "store \<Rightarrow> store \<Rightarrow> bool" where
  "keeps_effects db db' \<longleftrightarrow> (\<forall>k. starts_with k EFFECT_PREFIX \<longrightarrow> store_get k db' = store_get k db)"

lemma keeps_effects_refl [simp]: "keeps_effects db db"
  by (simp add: keeps_effects_def)

lemma keeps_trans: "keeps_effects a b \<Longrightarrow> keeps_effects b c \<Longrightarrow> keeps_effects a c"
  by (simp add: keeps_effects_def)

lemma keeps_cas: "\<not> starts_with k EFFECT_PREFIX \<Longrightarrow> keeps_effects db (snd (compare_and_set c k f t db))"
  unfolding keeps_effects_def using cas_other by metis

lemma foreign_keys:
  "\<not> starts_with (''pending/'' @ r) EFFECT_PREFIX" "\<not> starts_with (''tree_refusal/'' @ r) EFFECT_PREFIX"
  "\<not> starts_with (''persona_session/'' @ r) EFFECT_PREFIX" "\<not> starts_with (''poison/'' @ r) EFFECT_PREFIX"
  "\<not> starts_with (''claim/'' @ r) EFFECT_PREFIX" "\<not> starts_with (poison_key run k) EFFECT_PREFIX"
  by (simp_all add: starts_with_def EFFECT_PREFIX_def poison_key_def)

definition foreign :: "cas list \<Rightarrow> bool" where
  "foreign items \<longleftrightarrow> (\<forall>item\<in>set items. \<not> starts_with (ca_key item) EFFECT_PREFIX)"

lemma foreign_lists:
  "foreign []" "foreign (xs @ ys) \<longleftrightarrow> foreign xs \<and> foreign ys"
  "foreign [\<lparr> ca_key = k, ca_from = f, ca_to = t \<rparr>] \<longleftrightarrow> \<not> starts_with k EFFECT_PREFIX"
  by (auto simp: foreign_def)

lemma foreign_delete: "\<not> starts_with k EFFECT_PREFIX \<Longrightarrow> foreign (delete_if_present db k)"
  by (cases "store_get k db") (simp_all add: foreign_def delete_if_present_def)

lemmas foreign_simps = foreign_lists foreign_delete [OF foreign_keys(1)] foreign_delete [OF foreign_keys(2)]
  foreign_delete [OF foreign_keys(6)] foreign_keys

lemma fold_cas_foreign: "foreign (fold_cas run st es k db)"
  unfolding fold_cas_def Let_def
  by (simp only: foreign_simps split: if_split list.split event_body.split session_fact.split option.split) simp

lemma keeps_append: "foreign items \<Longrightarrow> keeps_effects db (snd (store_append c run n fence es ks items db))"
  unfolding keeps_effects_def foreign_def using append_other by (metis imageE)

lemma store_of_notes [simp]:
  "ho_store (log_line run what code h) = ho_store h" "ho_store (note_store_error e h) = ho_store h"
  "ho_store (drop_cache run h) = ho_store h" "ho_store (mark_read_only run why what h) = ho_store h"
  "ho_store (append_refused run e h) = ho_store h"
  by (simp_all add: log_line_def note_store_error_def drop_cache_def mark_read_only_def Let_def append_refused_def
      split: store_error.split)

lemma loaded_state_store [simp]: "ho_store (snd (loaded_state c run h)) = ho_store h"
  by (simp add: loaded_state_def fold_loaded_def fold_pinned_def split: option.split sum.split store_error.split list.split folded.split)

lemma keeps_consume_poison: "keeps_effects (ho_store h) (ho_store (consume_poison c run epoch now k h))"
proof -
  obtain st h1 where l: "loaded_state c run h = (st, h1)" by fastforce
  then have s: "ho_store h1 = ho_store h" by (metis loaded_state_store snd_conv)
  have app: "keeps_effects db (snd (store_append sc r n e es ks (delete_if_present db (poison_key run k)) db))" for sc r n e es ks db
    by (rule keeps_append) (simp only: foreign_simps)
  show ?thesis
  proof (cases st)
    case (Some x)
    obtain res db where r: "store_append (hk_store c) run (rs_seq x) epoch [poison_event run x now k] [k]
        (delete_if_present (ho_store h1) (poison_key run k)) (ho_store h1) = (res, db)" by fastforce
    have "keeps_effects (ho_store h1) db"
      using app [of "ho_store h1" "hk_store c" run "rs_seq x" epoch "[poison_event run x now k]" "[k]"] r by simp
    then show ?thesis using l s r Some by (simp add: consume_poison_def Let_def split: sum.split)
  qed (use l s in \<open>simp add: consume_poison_def\<close>)
qed

lemma keeps_count_poison: "keeps_effects (ho_store h) (ho_store (count_poison c run epoch now k h))"
proof -
  let ?n = "case Option.bind (store_get (poison_key run k) (ho_store h)) (hk_count_read c) of Some n \<Rightarrow> n | None \<Rightarrow> 0"
  obtain res db where r: "compare_and_set (hk_store c) (poison_key run k) (store_get (poison_key run k) (ho_store h))
      (Some (hk_count_write c (?n + 1))) (ho_store h) = (res, db)" by fastforce
  have "keeps_effects (ho_store h) db"
    using keeps_cas [of "poison_key run k" "ho_store h" "hk_store c"] r by (metis foreign_keys(6) snd_conv)
  moreover have "keeps_effects (ho_store h) (ho_store (consume_poison c run epoch now k (log_line run what code h)))" for what code
    using keeps_consume_poison [of "log_line run what code h"] by simp
  ultimately show ?thesis using r by (simp add: count_poison_def Let_def split: sum.split)
qed

lemma keeps_attempt:
  assumes "\<And>n db. keeps_effects db (others n db)" "commit_attempt c others run epoch st k es n db = (res, db')"
  shows "keeps_effects db db'"
proof -
  have "db' = snd (store_append (hk_store c) run (rs_seq st) epoch es [k] (fold_cas run st es k db) (others n db))"
    using assms(2) by (simp add: commit_attempt_def)
  then have "keeps_effects (others n db) db'" using keeps_append [OF fold_cas_foreign] by simp
  then show ?thesis using assms(1) keeps_trans by blast
qed

lemma keeps_commit:
  assumes "\<And>n db. keeps_effects db (others n db)"
  shows "keeps_effects (ho_store h) (ho_store (snd (commit_input c others run epoch now st k es st' h)))"
proof -
  obtain r1 db1 where a: "commit_attempt c others run epoch st k es 0 (ho_store h) = (r1, db1)" by fastforce
  obtain r2 db2 where b: "commit_attempt c others run epoch st k es 1 db1 = (r2, db2)" by fastforce
  have k1: "keeps_effects (ho_store h) db1" using keeps_attempt [OF assms a] .
  have k2: "keeps_effects (ho_store h) db2" using keeps_trans [OF k1 keeps_attempt [OF assms b]] .
  have "keeps_effects (ho_store h) (ho_store (count_poison c run epoch now k (h\<lparr>ho_store := db2\<rparr>)))"
    using keeps_trans [OF k2] keeps_count_poison [of "h\<lparr>ho_store := db2\<rparr>"] by simp
  then show ?thesis using a b k1 k2 by (simp add: commit_input_def Let_def split: sum.split store_error.split)
qed

lemma keeps_step_input:
  assumes "\<And>n db. keeps_effects db (others n db)"
  shows "keeps_effects (ho_store h) (ho_store (snd (step_input c others run epoch now h)))"
proof -
  obtain st h1 where l: "loaded_state c run h = (st, h1)" by fastforce
  then have s: "ho_store h1 = ho_store h" by (metis loaded_state_store snd_conv)
  have "keeps_effects (ho_store h) (ho_store (count_poison c run epoch now k h1))" for k
    using keeps_count_poison [of h1] s by simp
  moreover have "keeps_effects (ho_store h) (ho_store (snd (commit_input c others run epoch now x k es x' h1)))" for x k es x'
    using keeps_commit [OF assms, of h1] s by simp
  ultimately show ?thesis
    using l s by (simp add: step_input_def keeps_count_poison split: sum.split option.split store_error.split event_body.split)
qed

lemma keeps_fold_run:
  assumes "\<And>n m db. keeps_effects db (others n m db)"
  shows "keeps_effects (ho_store h) (ho_store (fold_run c others budget run epoch now n h))"
proof (induction n arbitrary: h)
  case (Suc n)
  obtain st h1 where l: "loaded_state c run h = (st, h1)" by fastforce
  then have s: "ho_store h1 = ho_store h" by (metis loaded_state_store snd_conv)
  obtain b h2 where st: "step_input c (others n) run epoch now h1 = (b, h2)" by fastforce
  have k: "keeps_effects (ho_store h) (ho_store h2)"
    using keeps_step_input [of "others n" h1] assms st s by (metis snd_conv)
  then have "keeps_effects (ho_store h) (ho_store (fold_run c others budget run epoch now n h2))"
    using keeps_trans Suc.IH by blast
  then show ?case using l s st k by (simp split: option.split bool.split)
qed simp

lemma keeps_withdraw_exit: "keeps_effects (ho_store h) (ho_store (withdraw_exit c dead row epoch now h))"
proof -
  let ?sc = "hk_store c" and ?run = "rw_run row" and ?k = "''claim/'' @ rw_workspace_id row"
  let ?items = "\<lambda>db. delete_if_present db (''pending/'' @ ?run) @ delete_if_present db (''tree_refusal/'' @ ?run)"
  obtain r db where r: "(if store_get ?k (ho_store h) = Some ?run
      then compare_and_set ?sc ?k (store_get ?k (ho_store h)) None (ho_store h) else (Inr (), ho_store h)) = (r, db)" by fastforce
  have db: "keeps_effects (ho_store h) db"
    using r keeps_cas [OF foreign_keys(5), of "ho_store h" ?sc "rw_workspace_id row"] by (metis keeps_effects_refl snd_conv)
  have app: "keeps_effects (ho_store h) (snd (store_append ?sc ?run n e es ks (?items db) db))" for n e es ks
    by (rule keeps_trans [OF db keeps_append]) (simp only: foreign_simps)
  show ?thesis
  proof (cases "find_withdrawal (waiting_inputs ?sc ?run (ho_store h))")
    case (Some wd)
    obtain r' db' where r': "store_append ?sc ?run (rw_last_seq row) epoch (exit_events ?run (rw_last_seq row) now wd) [ev_key wd]
        (?items db) db = (r', db')" by fastforce
    have db': "keeps_effects (ho_store h) db'" using app r' by (metis snd_conv)
    show ?thesis unfolding withdraw_exit_def Let_def Some option.case r prod.case r'
      using db db' by (simp split: sum.split)
  next
    case None
    then show ?thesis unfolding withdraw_exit_def Let_def by simp
  qed
qed

end
