(* ===== verification/Host_Safety.thy ===== *)
theory Host_Safety
  imports Host_Frames
begin

text \<open>
  A whole tick keeps a discipline when three parts of it do: sending a signal, looking for a message before posting it,
  and the calls that are plain. A call is plain unless it signals, posts, deletes the ledger entry of a signal, or folds
  in a way that touches the effect ledger.
\<close>

definition rung :: "session_key \<Rightarrow> key \<Rightarrow> bool" where
  "rung sk k \<longleftrightarrow> (\<exists>run n. k = effect_key run (stop_entry sk n))"

definition plain_call :: "call \<Rightarrow> bool" where
  "plain_call cl \<longleftrightarrow>
     (case cl of
        CL_Stop _ _ \<Rightarrow> False
      | CL_Post _ \<Rightarrow> False
      | CL_Cas k _ to \<Rightarrow> to = None \<longrightarrow> (\<forall>sk. \<not> rung sk k)
      | CL_Fold f \<Rightarrow> (\<forall>h. keeps_effects (ho_store h) (ho_store (f h)))
      | _ \<Rightarrow> True)"

section \<open>Rules for the shapes of a part\<close>

lemma safe_case_option [safe_intros]:
  "safe D p \<Longrightarrow> (\<And>x. safe D (f x)) \<Longrightarrow> safe D (case v of None \<Rightarrow> p | Some x \<Rightarrow> f x)"
  by (cases v) simp_all

lemma safe_case_sum [safe_intros]:
  "(\<And>x. safe D (g x)) \<Longrightarrow> (\<And>y. safe D (h y)) \<Longrightarrow> safe D (case v of Inl x \<Rightarrow> g x | Inr y \<Rightarrow> h y)"
  by (cases v) simp_all

lemma safe_case_prod [safe_intros]: "(\<And>x y. safe D (g x y)) \<Longrightarrow> safe D (case v of (x, y) \<Rightarrow> g x y)"
  by (cases v) simp

lemma safe_case_entry_phase [safe_intros]:
  "safe D p \<Longrightarrow> (\<And>x. safe D (f x)) \<Longrightarrow> safe D (case v of EP_Pending \<Rightarrow> p | EP_Done x \<Rightarrow> f x)"
  by (cases v) simp_all

lemma safe_case_lease_plan [safe_intros]:
  "(\<And>x. safe D (g x)) \<Longrightarrow> (\<And>y. safe D (h y)) \<Longrightarrow> safe D (case v of LP_Keep x \<Rightarrow> g x | LP_Write y \<Rightarrow> h y)"
  by (cases v) simp_all

lemma safe_case_holding [safe_intros]:
  "(\<And>x. safe D (g x)) \<Longrightarrow> safe D p \<Longrightarrow> safe D (case v of HD_Ours x \<Rightarrow> g x | HD_Skip \<Rightarrow> p)"
  by (cases v) simp_all

lemma safe_case_start_outcome [safe_intros]:
  "safe D p1 \<Longrightarrow> safe D p2 \<Longrightarrow> safe D p3 \<Longrightarrow> safe D p4 \<Longrightarrow>
   safe D (case v of SO_Spawned \<Rightarrow> p1 | SO_Reattached \<Rightarrow> p2 | SO_Waiting \<Rightarrow> p3 | SO_Lost \<Rightarrow> p4)"
  by (cases v) simp_all

lemma safe_case_answer [safe_intros]:
  assumes "\<And>x. safe D (f1 x)" "\<And>x. safe D (f2 x)" "safe D p3" "\<And>x. safe D (f4 x)" "\<And>x. safe D (f5 x)"
    "\<And>x. safe D (f6 x)" "\<And>x. safe D (f7 x)" "\<And>x. safe D (f8 x)" "\<And>x. safe D (f9 x)" "\<And>x. safe D (f10 x)"
    "\<And>x. safe D (f11 x)" "\<And>x. safe D (f12 x)" "\<And>x. safe D (f13 x)" "\<And>x. safe D (f14 x)" "\<And>x. safe D (f15 x)"
    "\<And>x. safe D (f16 x)" "\<And>x. safe D (f17 x)" "\<And>x. safe D (f18 x)" "\<And>x. safe D (f19 x)" "\<And>x. safe D (f20 x)"
    "\<And>x. safe D (f21 x)" "\<And>x. safe D (f22 x)"
  shows "safe D (case_answer f1 f2 p3 f4 f5 f6 f7 f8 f9 f10 f11 f12 f13 f14 f15 f16 f17 f18 f19 f20 f21 f22 a)"
  using assms by (cases a) simp_all

lemma rung_last: "rung sk k \<Longrightarrow> \<exists>n. last k = last (show_nat n)"
  by (auto simp: rung_def effect_key_def stop_entry_def)

lemma rung_effect: "rung sk k \<Longrightarrow> starts_with k EFFECT_PREFIX"
  by (auto simp: rung_def effect_key_def EFFECT_PREFIX_def starts_with_iff)

lemma chat_refused_no_rung: "\<not> rung sk (effect_key run CHAT_REFUSED)"
proof
  assume "rung sk (effect_key run CHAT_REFUSED)"
  from rung_last [OF this] obtain n where "last (show_nat n) = CHR ''e''"
    by (auto simp: effect_key_def CHAT_REFUSED_def)
  moreover have "last (show_nat n) \<in> set (show_nat n)" by simp
  ultimately obtain d where "d < 10" "CHR ''e'' = digit_char d" using show_nat_digits by metis
  then have "(of_char (CHR ''e'') :: nat) = of_char (digit_char d)" by simp
  then show False using \<open>d < 10\<close> by (simp add: digit_char_def)
qed

lemma foreign_no_rung: "\<not> starts_with k EFFECT_PREFIX \<Longrightarrow> \<not> rung sk k"
  using rung_effect by blast

section \<open>Parts that only read\<close>

text \<open>The text of a message is composed from what the ports say: such a part reads messages and has turns framed, and makes
  no other call.\<close>

definition reading :: "unit discipline" where
  "reading = \<lparr> allowed = (\<lambda>_ cl. case cl of CL_Read _ \<Rightarrow> True | CL_Turn _ _ \<Rightarrow> True | _ \<Rightarrow> False),
     possible = (\<lambda>_ _ _. True), after = (\<lambda>_ _ _. ()) \<rparr>"

abbreviation silent :: "'r prog \<Rightarrow> bool" where
  "silent \<equiv> safe reading"

lemma silent_reads [safe_intros]:
  "silent (read_message i)" "silent (text_call (CL_Turn h ps))"
  unfolding read_message_def text_call_def by (rule safe_Do, simp add: reading_def, intro safe_intros)+

lemma silent_compose_parts [safe_intros]: "silent (compose_parts step h thread ps framed sections)"
  by (induction ps arbitrary: framed sections) (simp_all only: compose_parts.simps flush_framed_def, (intro safe_intros | assumption)+)

lemma silent_texts [safe_intros]: "silent (compose_turn sl step turn thread)" "silent (delivery_text ec st body)"
  unfolding compose_turn_def delivery_text_def read_body_def Let_def
  by (intro safe_intros) (cases body; simp only: deliver_body.case; intro safe_intros)

section \<open>A tick\<close>

locale plain_discipline = disciplined +
  assumes plain: "plain_call cl \<Longrightarrow> allowed D P cl"
begin

lemma safe_plain: "plain_call cl \<Longrightarrow> (\<And>a. safe D (k a)) \<Longrightarrow> safe D (Do cl k)"
  using safe_Do plain by metis

lemma safe_calls [safe_intros]:
  "safe D (mem f)" "safe D ask_mem" "safe D (loaded run)"
  "safe D clock_now" "safe D spent" "safe D mint"
  "safe D (kv_get k)" "safe D (enqueue_call run e)"
  "safe D open_runs_call" "safe D (due_timers_call now)"
  "safe D (open_thread th p ch op)" "safe D (read_message i)" "safe D (find_message th k)"
  "safe D (persona_call h)" "safe D (prompt_call h)"
  "safe D (start_call s)" "safe D (nudge_call sk text)"
  "safe D (alive_call sk)" "safe D (drain_call sk i2)"
  "safe D (read_offset sk)" "safe D (write_offset sk n)"
  "safe D (begin_call t)" "safe D cancel_call" "safe D poll_call"
  unfolding mem_def ask_mem_def loaded_def clock_now_def spent_def mint_def kv_get_def enqueue_call_def open_runs_call_def
    due_timers_call_def open_thread_def read_message_def find_message_def persona_call_def prompt_call_def start_call_def
    nudge_call_def alive_call_def drain_call_def read_offset_def write_offset_def begin_call_def cancel_call_def poll_call_def
  by (rule safe_plain; (simp add: plain_call_def; fail)?; intro safe_intros)+

lemma safe_texts [safe_intros]:
  "safe D (text_call (CL_Turn h ps))" "safe D (text_call CL_Bundle)" "safe D (text_call (CL_EnvVar n))"
  unfolding text_call_def by (rule safe_plain; (simp add: plain_call_def; fail)?; intro safe_intros)+

lemma safe_cas: "(\<And>sk. to = None \<Longrightarrow> \<not> rung sk k) \<Longrightarrow> safe D (kv_cas k from to)"
  unfolding kv_cas_def by (rule safe_plain, simp add: plain_call_def) (intro safe_intros)

lemma safe_set [safe_intros]: "safe D (kv_cas k from (Some v))"
  by (rule safe_cas) simp

lemma safe_fold: "(\<And>h. keeps_effects (ho_store h) (ho_store (f h))) \<Longrightarrow> safe D (fold_call f)"
  unfolding fold_call_def by (rule safe_plain, simp add: plain_call_def) (intro safe_intros)

text \<open>The ledger, the tree and the start of a session.\<close>

lemma safe_ledger [safe_intros]:
  "safe D (may_work b)" "safe D (still_ours sc run owner epoch)"
  "safe D (enqueue_host run k ori body at)"
  "safe D (entry_or_write ec run k epoch ini)" "safe D (entry_set ec run k epoch s)"
  unfolding may_work_def still_ours_def enqueue_host_def entry_or_write_def entry_set_def Let_def
  by (intro safe_intros)+

lemma safe_phase [safe_intros]:
  "safe D (entry_phase_of ec run k epoch)" "safe D (mark_chat_refused ec run epoch)"
  unfolding entry_phase_of_def mark_chat_refused_def by (intro safe_intros)+

lemma safe_clear_key: "(\<And>sk. \<not> rung sk k) \<Longrightarrow> safe D (clear_key k)"
  unfolding clear_key_def by (intro safe_intros safe_cas)

lemma safe_clears [safe_intros]:
  "safe D (clear_chat_refused run)" "safe D (clear_refusal run)"
  unfolding clear_chat_refused_def clear_refusal_def
  by (rule safe_clear_key, rule chat_refused_no_rung) (rule safe_clear_key, rule foreign_no_rung, rule foreign_keys)

end

locale tick_discipline = plain_discipline +
  assumes stopping: "safe D (stop_session ec run epoch sk kind n now)"
    and posting: "silent body \<Longrightarrow> safe D (find_or_post ec run epoch thread sender refs k body)"
begin

lemma safe_tree [safe_intros]:
  "safe D (may_begin run now)" "safe D (begin_op t)" "safe D cancel_running"
  "safe D (standing_refusal ec run)" "safe D (record_refusal ec run reason text now)"
  unfolding may_begin_def begin_op_def cancel_running_def standing_refusal_def record_refusal_def Let_def
  by (intro safe_intros)+

lemma safe_tree_effects [safe_intros]:
  "safe D (prepare_tree ec run now)" "safe D (park_tree ec run ws oc now)"
  "safe D (cancel_tree ec st now)" "safe D (cancel_if_withdrawn st)"
  "safe D (settle_tree run k body now)"
  unfolding prepare_tree_def park_tree_def cancel_tree_def cancel_if_withdrawn_def settle_tree_def Let_def
  by (intro safe_intros)+

lemma safe_fold_tree_result [safe_intros]: "safe D (fold_tree_result ec t res now)"
  unfolding fold_tree_result_def Let_def by (cases t; cases res) (simp; intro safe_intros)+

lemma safe_poll_tree [safe_intros]: "safe D (poll_tree ec owned now n)"
  by (induction n) (simp_all, intro safe_intros, simp_all add: Let_def, intro safe_intros)

lemma safe_compose_parts [safe_intros]: "safe D (compose_parts step h thread ps framed sections)"
  by (induction ps arbitrary: framed sections) (simp_all only: compose_parts.simps flush_framed_def, (intro safe_intros | assumption)+)

lemma safe_env_of [safe_intros]: "safe D (env_of names)"
  unfolding env_of_def by (induction names) (simp_all only: foldr.simps id_apply comp_apply, (intro safe_intros | assumption)+)

lemma safe_start_parts [safe_intros]:
  "safe D (compose_turn sl step turn thread)" "safe D (write_route ec run thread sko)"
  "safe D (standing_context st step h)" "safe D (session_env base sk h bundle)"
  "safe D mint_thread_id" "safe D (spawn run sk spec now)"
  unfolding compose_turn_def write_route_def standing_context_def session_env_def mint_thread_id_def spawn_def Let_def
  by (intro safe_intros)+

lemmas safe_special [safe_intros] = posting stopping

lemma safe_open_step_thread [safe_intros]: "safe D (open_step_thread ec st epoch sl step sk turn)"
  unfolding open_step_thread_def Let_def by (intro safe_intros)

lemma safe_start_session [safe_intros]: "safe D (start_session ec st epoch sk turn resume now)"
  unfolding start_session_def start_spec_of_def Let_def by (intro safe_intros)

lemma safe_messages [safe_intros]:
  "safe D (open_root ec st epoch now)" "safe D (deliver ec st epoch thread body k now)"
  "safe D (nudge st sk text now)"
  unfolding open_root_def open_root_message_def deliver_def deliver_message_def nudge_def Let_def by (intro safe_intros)+

lemma safe_release [safe_intros]: "safe D (release_claim run ws now)"
  unfolding release_claim_def claim_key_def by (intro safe_intros safe_cas foreign_no_rung foreign_keys)

lemma safe_take_claims_from: "safe D (take_claims_from ec now rows tried owed)"
proof (induction rows arbitrary: tried owed)
  case (Cons x rows)
  obtain row epoch where x: "x = (row, epoch)" by fastforce
  have try_claim: "safe D (try_claim ec row st behind tried now)" for st behind tried
    unfolding try_claim_def note_holder_def Let_def by (intro safe_intros)
  show ?case
    unfolding x take_claims_from.simps
    by (intro safe_intros Cons.IH try_claim) (simp split: phase.split, intro allI impI safe_intros Cons.IH try_claim conjI)
qed (simp add: safe_Ret)

lemma safe_execute [safe_intros]: "safe D (execute ec st row epoch e now)"
  unfolding execute_def Let_def by (cases e) (simp_all only: effect.case, (intro safe_intros)+)

lemma safe_execute_effects [safe_intros]: "safe D (execute_effects ec st row epoch now owed es)"
  by (induction es) (simp_all only: execute_effects.simps, (intro safe_intros | assumption)+)

lemma safe_execute_run [safe_intros]: "safe D (execute_run ec row epoch now owed)"
  unfolding execute_run_def by (intro safe_intros)

lemma safe_lease_calls [safe_intros]:
  "safe D (acquire sc run owner now)" "safe D (mark_host_seen_call sc ws now)"
  unfolding acquire_def acquire_call_def mark_host_seen_call_def Let_def by (intro safe_intros)+

lemma safe_leases [safe_intros]: "safe D (leases sc now rows)"
  by (induction rows) (simp_all only: leases.simps, (intro safe_intros | assumption)+)

lemma safe_mark_seen [safe_intros]: "safe D (mark_seen sc rows now)"
proof -
  have "safe D (mark_seen_from sc now wss)" for wss
    by (induction wss) (simp_all only: mark_seen_from.simps, (intro safe_intros | assumption)+)
  then show ?thesis by (simp add: mark_seen_def)
qed

lemma safe_each_run:
  assumes "\<And>row epoch owed. safe D (step row epoch owed)"
  shows "safe D (each_run pt owned step)"
proof -
  have "safe D (each_from pt owned step start offsets)" for start offsets
    by (induction offsets) (simp_all only: each_from.simps Let_def, (intro safe_intros assms | assumption)+)
  then show ?thesis unfolding each_run_def by (intro safe_intros)
qed

lemma safe_drain_session [safe_intros]: "safe D (drain_session run sk stopping now)"
proof -
  have "safe D (enqueue_facts run sk now ds)" for ds
    by (induction ds) (simp_all only: enqueue_facts.simps, (intro safe_intros | assumption)+)
  then show ?thesis
    unfolding drain_session_def offset_of_def store_offset_def confirm_stopped_def Let_def by (intro safe_intros)
qed

lemma safe_drain_run [safe_intros]: "safe D (drain_run row epoch now owed)"
proof -
  have "safe D (drain_sessions run now b sks)" for run b sks
  proof (induction sks)
    case (Cons x sks)
    then show ?case by (cases x) (simp only: drain_sessions.simps, intro safe_intros)
  qed (simp add: safe_Ret)
  then show ?thesis unfolding drain_run_def by (intro safe_intros)
qed

lemma safe_fire_due_timers [safe_intros]: "safe D (fire_due_timers ec owned now)"
proof -
  have "safe D (fire_each ec owned now ts)" for ts
    by (induction ts) (simp_all only: fire_each.simps, (intro safe_intros | assumption)+)
  then show ?thesis unfolding fire_due_timers_def by (intro safe_intros)
qed

text \<open>Every tick keeps the discipline, whatever others do to the store meanwhile that leaves the effect ledger alone.\<close>

lemma tick_safe:
  assumes "\<And>run n m db. keeps_effects db (tk_others E run n m db)"
  shows "safe D (tick E now)"
proof -
  have "safe D (fold_step E now row epoch owed)" for row epoch owed
    unfolding fold_step_def Let_def by (intro safe_fold keeps_fold_run assms)
  moreover have "safe D (execute_step E now row epoch owed)" for row epoch owed
    unfolding execute_step_def by (intro safe_intros safe_fold keeps_withdraw_exit)
  ultimately show ?thesis
    unfolding tick_def take_claims_def Let_def
    by (intro safe_intros safe_each_run safe_take_claims_from)
qed

end

section \<open>Ticks of hosts that share a store\<close>

text \<open>The programs of a host: its ticks, with what others write between its folds leaving the effect ledger alone.\<close>

definition host_ticks :: "host_codec \<Rightarrow> unit prog \<Rightarrow> bool" where
  "host_ticks c p \<longleftrightarrow>
     (\<exists>E now. p = tick E now \<and> ek_host (tk_codec E) = c \<and> (\<forall>run n m db. keeps_effects db (tk_others E run n m db)))"

context tick_discipline
begin

lemma ticks_hold:
  assumes "(sys_step c (host_ticks c) env)\<^sup>*\<^sup>* (map (\<lambda>m. (m, Ret ())) ms, w) s" "inv w (map (\<lambda>_. fresh) ms)"
  shows "held D inv s"
  using assms(1) by (rule held_reachable) (use assms(2) tick_safe in \<open>auto simp: host_ticks_def\<close>)

end

end
