(* ===== verification/Host_Signals.thy ===== *)
theory Host_Signals
  imports Host_Safety
begin

text \<open>
  The discipline of signals, for one host and whatever it crashes in. A host may signal a session only while it holds a
  permit for it: the ledger entry of a rung it has itself written from absent. The signal uses the permit up. So the
  signals a session has had and the permit out for it are together at most the entries of its rungs.
\<close>

definition signals_of :: "session_key \<Rightarrow> world \<Rightarrow> (session_key \<times> bool) list" where
  "signals_of sk w = filter (\<lambda>s. fst s = sk) (wd_signals w)"

definition rungs_of :: "session_key \<Rightarrow> store \<Rightarrow> key set" where
  "rungs_of sk db = {k. rung sk k \<and> store_get k db \<noteq> None}"

text \<open>What a host knows of the ledger: nothing, that an entry is absent, that an entry is its own.\<close>

datatype permit = PM_None | PM_Absent key | PM_Own key

definition covers :: "session_key \<Rightarrow> permit \<Rightarrow> bool" where
  "covers sk P \<longleftrightarrow> (\<exists>k. P = PM_Own k \<and> rung sk k)"

definition signal_discipline :: "permit discipline" where
  "signal_discipline =
     \<lparr> allowed = (\<lambda>P cl.
         case cl of
           CL_Stop sk _ \<Rightarrow> covers sk P
         | CL_Cas k _ to \<Rightarrow> to = None \<longrightarrow> (\<forall>sk. \<not> rung sk k)
         | CL_Fold f \<Rightarrow> (\<forall>h. keeps_effects (ho_store h) (ho_store (f h)))
         | _ \<Rightarrow> True),
       possible = (\<lambda>P cl a.
         case cl of
           CL_Get k \<Rightarrow> P = PM_Absent k \<longrightarrow> (\<forall>v. a \<noteq> AN_Bytes (Inr (Some v)))
         | _ \<Rightarrow> True),
       after = (\<lambda>P cl a.
         case cl of
           CL_Get k \<Rightarrow> if a = AN_Bytes (Inr None) \<and> starts_with k EFFECT_PREFIX then PM_Absent k else P
         | CL_Cas k from to \<Rightarrow> if from = None \<and> to \<noteq> None \<and> a = AN_Done (Inr ()) then PM_Own k else PM_None
         | CL_Stop _ _ \<Rightarrow> PM_None
         | CL_Fold _ \<Rightarrow> PM_None
         | _ \<Rightarrow> P) \<rparr>"

definition signals_ok :: "world \<Rightarrow> permit list \<Rightarrow> bool" where
  "signals_ok w Ps \<longleftrightarrow>
     length Ps \<le> 1 \<and> (\<forall>k. PM_Absent k \<in> set Ps \<longrightarrow> starts_with k EFFECT_PREFIX \<and> store_get k (wd_store w) = None) \<and>
     (\<forall>sk. length (signals_of sk w) + length (filter (covers sk) Ps) \<le> card (rungs_of sk (wd_store w)))"

text \<open>What others may do: anything that leaves the effect ledger and the signals alone.\<close>

definition no_signals :: "world \<Rightarrow> world \<Rightarrow> bool" where
  "no_signals w w' \<longleftrightarrow> keeps_effects (wd_store w) (wd_store w') \<and> wd_signals w' = wd_signals w"

section \<open>Counting\<close>

lemma store_with_store [simp]: "ho_store (with_store m w) = wd_store w"
  by (simp add: with_store_def host_mem.defs host.defs)


lemma finite_rungs: "finite (rungs_of sk db)"
proof -
  have "rungs_of sk db \<subseteq> dom (map_of (db_kv db))" by (auto simp: rungs_of_def store_get_def)
  then show ?thesis using finite_dom_map_of finite_subset by blast
qed

lemma rungs_keep: "keeps_effects db db' \<Longrightarrow> rungs_of sk db' = rungs_of sk db"
  using rung_effect by (auto simp: rungs_of_def keeps_effects_def)

text \<open>The invariant of the one host, told of its permit.\<close>

lemma signals_ok_single:
  "signals_ok w [P] \<longleftrightarrow>
     (\<forall>k. P = PM_Absent k \<longrightarrow> starts_with k EFFECT_PREFIX \<and> store_get k (wd_store w) = None) \<and>
     (\<forall>sk. length (signals_of sk w) + (if covers sk P then 1 else 0) \<le> card (rungs_of sk (wd_store w)))"
  by (auto simp: signals_ok_def)

lemma signals_ok_cases:
  assumes "signals_ok w Ps" "i < length Ps"
  obtains P where "Ps = [P]" "i = 0"
  using assms by (cases Ps) (auto simp: signals_ok_def)

lemma signals_ok_none: "signals_ok w [P] \<Longrightarrow> signals_ok w [PM_None]"
  by (auto simp: signals_ok_single covers_def intro: le_trans [rotated])

section \<open>One call\<close>

lemma rungs_cas:
  assumes "compare_and_set c k f t db = (r, db')" "t = None \<longrightarrow> (\<forall>sk. \<not> rung sk k)"
  shows "rungs_of sk db \<subseteq> rungs_of sk db'"
proof (cases r)
  case (Inr u)
  note cas = cas_Inr [OF assms(1) [unfolded Inr]]
  show ?thesis
  proof
    fix j assume j: "j \<in> rungs_of sk db"
    show "j \<in> rungs_of sk db'"
    proof (cases "j = k")
      case True
      then show ?thesis using j cas(2) assms(2) by (cases t) (auto simp: rungs_of_def)
    next
      case False
      then have "store_get j db' = store_get j db" using cas_other [OF False, of c f t db] assms(1) by simp
      then show ?thesis using j by (simp add: rungs_of_def)
    qed
  qed
qed (use assms(1) cas_Inl in blast)

lemma rungs_cas_new:
  assumes "compare_and_set c k None (Some v) db = (Inr u, db')" "rung sk k"
  shows "card (rungs_of sk db') \<ge> Suc (card (rungs_of sk db))"
proof -
  have "k \<notin> rungs_of sk db" using cas_Inr(1) [OF assms(1)] by (simp add: rungs_of_def)
  moreover have "insert k (rungs_of sk db) \<subseteq> rungs_of sk db'"
    using rungs_cas [OF assms(1)] cas_Inr(2) [OF assms(1)] assms(2) by (auto simp: rungs_of_def)
  ultimately show ?thesis using card_mono [OF finite_rungs, of "insert k (rungs_of sk db)" sk db'] finite_rungs by simp
qed


lemma perform_keeps_effects:
  assumes "perform c ids cl m w = Some (a, m', w')" "allowed signal_discipline P cl"
    "\<And>sk force. cl \<noteq> CL_Stop sk force" "\<And>k f t. cl \<noteq> CL_Cas k f t"
  shows "wd_signals w' = wd_signals w \<and> keeps_effects (wd_store w) (wd_store w')"
proof (cases cl)
  case (CL_Loaded run)
  obtain st h where l: "loaded_state c run (with_store m w) = (st, h)" by fastforce
  then have "ho_store h = wd_store w" by (metis loaded_state_store snd_conv store_with_store)
  then show ?thesis using assms(1) CL_Loaded l by auto
next
  case (CL_Fold f)
  then have "keeps_effects (wd_store w) (ho_store (f (with_store m w)))"
    using assms(2) spec [of "\<lambda>h. keeps_effects (ho_store h) (ho_store (f h))" "with_store m w"] by (simp add: signal_discipline_def)
  then show ?thesis using assms(1) CL_Fold by (auto simp: Let_def)
next
  case (CL_Enqueue run e)
  have "keeps_effects (wd_store w) (snd (enqueue (hk_store c) run e [] (wd_store w)))"
    by (simp add: keeps_effects_def enqueue_other)
  then show ?thesis using assms(1) CL_Enqueue by (auto split: prod.splits)
qed (use assms(1,3,4) in \<open>auto simp: Let_def split: if_splits\<close>)

lemma signals_ok_keep:
  assumes "signals_ok w [P]" "wd_signals w' = wd_signals w" "keeps_effects (wd_store w) (wd_store w')"
  shows "signals_ok w' [P]"
  using assms rungs_keep [OF assms(3)] by (auto simp: signals_ok_single signals_of_def keeps_effects_def)

lemma signals_ok_cas:
  assumes "signals_ok w [P]" "compare_and_set sc k f t (wd_store w) = (r, db')" "t = None \<longrightarrow> (\<forall>sk. \<not> rung sk k)"
    "a = AN_Done r \<or> refuses (CL_Cas k f t) a"
  shows "signals_ok (w\<lparr>wd_store := db'\<rparr>) [after signal_discipline P (CL_Cas k f t) a]"
proof -
  have count: "length (signals_of sk w) \<le> card (rungs_of sk (wd_store w))" for sk
    using signals_ok_none [OF assms(1)] by (auto simp: signals_ok_single covers_def)
  have mono: "card (rungs_of sk (wd_store w)) \<le> card (rungs_of sk db')" for sk
    using card_mono [OF finite_rungs rungs_cas [OF assms(2,3)]] .
  show ?thesis
  proof (cases "f = None \<and> t \<noteq> None \<and> a = AN_Done (Inr ())")
    case True
    then obtain v where v: "f = None" "t = Some v" "r = Inr ()" using assms(4) by (auto simp: refuses_def)
    have "length (signals_of sk w) + (if covers sk (PM_Own k) then 1 else 0) \<le> card (rungs_of sk db')" for sk
      using count [of sk] mono [of sk] rungs_cas_new [of sc k v "wd_store w" "()" db' sk] assms(2) v by (auto simp: covers_def)
    then show ?thesis using True v by (auto simp: signals_ok_single signal_discipline_def signals_of_def)
  next
    case False
    then have "after signal_discipline P (CL_Cas k f t) a = PM_None" by (auto simp: signal_discipline_def)
    then show ?thesis using le_trans [OF count mono] by (auto simp: signals_ok_single signals_of_def covers_def)
  qed
qed

lemma signals_ok_stop:
  assumes "signals_ok w [P]" "covers sk P"
  shows "signals_ok (w\<lparr>wd_signals := wd_signals w @ [(sk, force)]\<rparr>) [PM_None]"
  using assms signals_ok_none [OF assms(1)] by (auto simp: signals_ok_single signals_of_def covers_def split: if_splits)

lemma signals_ok_performed:
  assumes "signals_ok w [P]" "allowed signal_discipline P cl" "perform c ids cl m w = Some (b, m', w')" "a = b \<or> refuses cl a"
  shows "signals_ok w' [after signal_discipline P cl a]"
proof (cases cl)
  case (CL_Stop sk force)
  then have "covers sk P" "w' = w\<lparr>wd_signals := wd_signals w @ [(sk, force)]\<rparr>"
    using assms(2,3) by (auto simp: signal_discipline_def)
  then show ?thesis using signals_ok_stop [OF assms(1)] CL_Stop by (simp add: signal_discipline_def)
next
  case (CL_Cas k f t)
  obtain r db' where cas: "compare_and_set (hk_store c) k f t (wd_store w) = (r, db')" by fastforce
  then show ?thesis using signals_ok_cas [OF assms(1) cas] assms(2-4) CL_Cas by (auto simp: signal_discipline_def)
next
  case (CL_Get k)
  have "a = AN_Bytes (Inr None) \<longrightarrow> store_get k (wd_store w) = None" using assms(3,4) CL_Get by (auto simp: refuses_def)
  moreover have "w' = w" using assms(3) CL_Get by simp
  ultimately show ?thesis using assms(1) signals_ok_none [OF assms(1)] CL_Get
    by (auto simp: signals_ok_single signal_discipline_def covers_def)
next
  case (CL_Fold f)
  then show ?thesis
    using perform_keeps_effects [OF assms(3,2)] signals_ok_keep [OF signals_ok_none [OF assms(1)]] by (simp add: signal_discipline_def)
qed (use perform_keeps_effects [OF assms(3,2)] signals_ok_keep [OF assms(1)] in \<open>auto simp: signal_discipline_def\<close>)

text \<open>A call that does nothing: refused, or answered from outside.\<close>

lemma signals_ok_idle:
  assumes "signals_ok w [P]" "refuses cl a \<or> (\<exists>ids m. perform c ids cl m w = None)"
  shows "signals_ok w [after signal_discipline P cl a]"
proof -
  have "after signal_discipline P cl a \<in> {P, PM_None}"
    using assms(2) by (cases cl) (auto simp: signal_discipline_def refuses_def Let_def split: prod.splits)
  then show ?thesis using assms(1) signals_ok_none by auto
qed

lemma signal_call:
  assumes "signals_ok w Ps" "i < length Ps" "allowed signal_discipline (Ps ! i) cl" "call_step c cl m w a m' w'"
  shows "signals_ok w' (Ps[i := after signal_discipline (Ps ! i) cl a]) \<and> possible signal_discipline (Ps ! i) cl a"
proof -
  obtain P where P: "Ps = [P]" "i = 0" using signals_ok_cases [OF assms(1,2)] .
  have ok: "signals_ok w [P]" and al: "allowed signal_discipline P cl" using assms(1,3) P by auto
  have "signals_ok w' [after signal_discipline P cl a]"
    using assms(4) signals_ok_performed [OF ok al] signals_ok_idle [OF ok] by cases blast+
  moreover have "possible signal_discipline P cl a"
  proof (cases cl)
    case (CL_Get k)
    then show ?thesis using assms(4) ok
      by (auto simp: signal_discipline_def signals_ok_single refuses_def elim!: call_step.cases)
  qed (simp_all add: signal_discipline_def)
  ultimately show ?thesis using P by simp
qed

section \<open>The discipline holds of a tick\<close>

interpretation plain_signals: plain_discipline c signal_discipline PM_None signals_ok no_signals for c
proof unfold_locales
  fix w Ps i assume "signals_ok w Ps" "i < length Ps"
  then show "signals_ok w (Ps[i := PM_None])" using signals_ok_cases signals_ok_none by (metis list_update_code(2))
next
  fix w w' Ps assume "signals_ok w Ps" "no_signals w w'"
  then show "signals_ok w' Ps" using rungs_keep [of "wd_store w" "wd_store w'"]
    by (auto simp: signals_ok_def no_signals_def signals_of_def keeps_effects_def)
next
  fix cl P assume "plain_call cl"
  then show "allowed signal_discipline P cl" by (cases cl) (simp_all add: plain_call_def signal_discipline_def)
qed (use signal_call in blast)+

lemma signal_post: "safe signal_discipline (post_message p)"
  unfolding post_message_def by (rule safe_Do, simp add: signal_discipline_def) (intro safe_intros)

text \<open>The three calls a signal is made of, each with what the host knows after it.\<close>

lemma signal_get:
  assumes "starts_with k EFFECT_PREFIX" "\<And>e. safe signal_discipline (f (Inl e))"
    "\<And>v. P \<noteq> PM_Absent k \<Longrightarrow> obeys signal_discipline P (f (Inr (Some v)))"
    "obeys signal_discipline (PM_Absent k) (f (Inr None))"
  shows "obeys signal_discipline P (bindp (kv_get k) f)"
proof -
  have "obeys signal_discipline (after signal_discipline P (CL_Get k) a) (bindp (case a of AN_Bytes r \<Rightarrow> Ret r | _ \<Rightarrow> Ret (Inl SE_Busy)) f)"
    if po: "possible signal_discipline P (CL_Get k) a" for a
  proof (cases "\<exists>v. a = AN_Bytes (Inr v)")
    case True
    then obtain v where "a = AN_Bytes (Inr v)" by blast
    then show ?thesis using po assms by (cases v) (auto simp: signal_discipline_def safe_def)
  next
    case False
    then have "\<exists>e. (case a of AN_Bytes r \<Rightarrow> Ret r | _ \<Rightarrow> Ret (Inl SE_Busy)) = Ret (Inl e)"
      by (cases a) (auto, metis sum.exhaust)
    then show ?thesis using assms(2) by (auto simp: safe_def)
  qed
  moreover have "allowed signal_discipline P (CL_Get k)" by (simp add: signal_discipline_def)
  ultimately show ?thesis unfolding kv_get_def by simp
qed

lemma signal_cas:
  assumes "\<And>e. safe signal_discipline (f (Inl e))" "obeys signal_discipline (PM_Own k) (f (Inr ()))"
  shows "obeys signal_discipline P (bindp (kv_cas k None (Some v)) f)"
proof -
  have "obeys signal_discipline (after signal_discipline P (CL_Cas k None (Some v)) a)
      (bindp (case a of AN_Done r \<Rightarrow> Ret r | _ \<Rightarrow> Ret (Inl SE_Busy)) f)" for a
  proof (cases "a = AN_Done (Inr ())")
    case False
    then have "\<exists>e. (case a of AN_Done r \<Rightarrow> Ret r | _ \<Rightarrow> Ret (Inl SE_Busy)) = Ret (Inl e)"
      by (cases a) (auto, metis (full_types) old.unit.exhaust sum.exhaust)
    then show ?thesis using assms(1) by (auto simp: safe_def)
  qed (use assms(2) in \<open>simp add: signal_discipline_def\<close>)
  moreover have "allowed signal_discipline P (CL_Cas k None (Some v))" by (simp add: signal_discipline_def)
  ultimately show ?thesis unfolding kv_cas_def by simp
qed

lemma signal_stop_call:
  assumes "rung sk k" "\<And>ok. safe signal_discipline (f ok)"
  shows "obeys signal_discipline (PM_Own k) (bindp (stop_call sk force) f)"
proof -
  have "obeys signal_discipline P (bindp (case a of AN_Bool b \<Rightarrow> Ret b | _ \<Rightarrow> Ret False) f)" for P a
    using assms(2) by (cases a) (simp_all add: safe_def)
  moreover have "allowed signal_discipline (PM_Own k) (CL_Stop sk force)"
    using assms(1) by (auto simp: signal_discipline_def covers_def)
  ultimately show ?thesis unfolding stop_call_def by simp
qed

lemma signal_entry:
  assumes "rung sk (effect_key run k)" "\<And>e. safe signal_discipline (f (Inl e))"
    "\<And>x. obeys signal_discipline (PM_Own (effect_key run k)) (f (Inr x))"
  shows "obeys signal_discipline (PM_Absent (effect_key run k)) (bindp (entry_or_write ec run k epoch ini) f)"
  unfolding entry_or_write_def tryp_def Let_def bindp_assoc
proof (rule signal_get)
  show "starts_with (effect_key run k) EFFECT_PREFIX" using rung_effect [OF assms(1)] .
  show "obeys signal_discipline (PM_Absent (effect_key run k))
      (bindp (case Inr None of Inl e \<Rightarrow> Ret (Inl e) | Inr v \<Rightarrow> case v of
          None \<Rightarrow> (case entry_bytes ec ini epoch of Inl e \<Rightarrow> Ret (Inl e)
            | Inr value \<Rightarrow> bindp (kv_cas (effect_key run k) None (Some value)) (case_sum (\<lambda>e. Ret (Inl e)) (\<lambda>_. Ret (Inr ini))))
        | Some bytes \<Rightarrow> Ret (case co_entry_read (hk_store (ek_host ec)) bytes of
            None \<Rightarrow> Inl (SE_DamagedRow (effect_key run k) None) | Some entry \<Rightarrow> Inr (ee_state entry))) f)"
    using assms(2,3) by (cases "entry_bytes ec ini epoch") (auto simp: safe_def intro!: signal_cas)
qed (use assms(2) in auto)

lemma signal_rung:
  assumes rung: "rung sk (effect_key run e)" and fin: "safe signal_discipline fin" and lg: "safe signal_discipline lg"
  shows "safe signal_discipline
    (tryp (kv_get (effect_key run e)) (\<lambda>v.
     tryp (if v \<noteq> None then Ret (Inr ())
           else tryp (entry_or_write ec run e epoch ini) (\<lambda>_.
             bindp (stop_call sk force) (\<lambda>ok. bindp (if ok then Ret () else lg) (\<lambda>_. Ret (Inr ()))))) (\<lambda>_. fin)))"
    (is "safe _ (tryp _ ?main)")
  unfolding safe_def
proof
  fix P
  let ?f = "case_sum (\<lambda>x. Ret (Inl x)) ?main"
  have sent: "obeys signal_discipline (PM_Own (effect_key run e)) (bindp (stop_call sk force) (\<lambda>ok.
      bindp (if ok then Ret () else lg) (\<lambda>_. bindp (Ret (Inr ())) (case_sum (\<lambda>x. Ret (Inl x)) (\<lambda>_. fin)))))"
    by (rule signal_stop_call [OF rung]) (intro safe_intros fin lg)
  have "obeys signal_discipline P (bindp (kv_get (effect_key run e)) ?f)"
  proof (rule signal_get)
    show "starts_with (effect_key run e) EFFECT_PREFIX" using rung_effect [OF rung] .
    show "safe signal_discipline (?f (Inl x))" for x by (simp add: safe_Ret)
    show "obeys signal_discipline P (?f (Inr (Some v)))" for v using fin by (simp add: tryp_def safe_def)
    show "obeys signal_discipline (PM_Absent (effect_key run e)) (?f (Inr None))"
      unfolding tryp_def sum.case bindp_assoc
      by (simp, rule signal_entry [OF rung]) (use sent in \<open>auto simp: safe_Ret\<close>)
  qed
  then show "obeys signal_discipline P (tryp (kv_get (effect_key run e)) ?main)" by (simp add: tryp_def)
qed

lemma signal_stop_session: "safe signal_discipline (stop_session ec run epoch sk kind n now)"
  unfolding stop_session_def
  by (rule signal_rung)
     (auto simp: rung_def intro!: safe_intros plain_signals.safe_ledger plain_signals.safe_calls)

lemma signal_find_or_post:
  assumes "silent body"
  shows "safe signal_discipline (find_or_post ec run epoch thread sender refs k body)"
proof -
  have "obeys signal_discipline P body" for P
    using assms unfolding safe_def
    by (induction body arbitrary: P) (auto simp: reading_def signal_discipline_def split: call.splits)
  then have "safe signal_discipline body" by (simp add: safe_def)
  then show ?thesis
    unfolding find_or_post_def
    by (intro safe_intros plain_signals.safe_calls plain_signals.safe_phase plain_signals.safe_clears signal_post)
qed

interpretation signals: tick_discipline c signal_discipline PM_None signals_ok no_signals for c
  by unfold_locales (fact signal_stop_session signal_find_or_post)+

end
