(* ===== verification/Host_Posts.thy ===== *)
theory Host_Posts
  imports Host_Safety
begin

text \<open>
  The discipline of messages, for one host and whatever it crashes in. A host may post under a key of a thread only after
  the chat store has said that the thread has no message under that key, and a post uses that up. The command line posts
  under keys of its own, \<^verbatim>\<open>input/...\<close>, so under every other key there is at most one message.
\<close>

definition post_discipline :: "(message_id \<times> key) option discipline" where
  "post_discipline =
     \<lparr> allowed = (\<lambda>P cl. case cl of CL_Post p \<Rightarrow> P = Some (po_thread p, po_key p) | _ \<Rightarrow> True),
       possible = (\<lambda>_ _ _. True),
       after = (\<lambda>P cl a.
         case cl of
           CL_Find t k \<Rightarrow> if a = AN_Found (Some None) then Some (t, k) else None
         | CL_Post _ \<Rightarrow> None
         | _ \<Rightarrow> P) \<rparr>"

definition host_key :: "key \<Rightarrow> bool" where
  "host_key k \<longleftrightarrow> \<not> starts_with k ''input/''"

definition posts_ok :: "world \<Rightarrow> (message_id \<times> key) option list \<Rightarrow> bool" where
  "posts_ok w Ps \<longleftrightarrow>
     length Ps \<le> 1 \<and> (\<forall>t k. host_key k \<longrightarrow> length (posted_under t k w) \<le> 1) \<and>
     (\<forall>t k. Some (t, k) \<in> set Ps \<longrightarrow> host_key k \<longrightarrow> posted_under t k w = [])"

text \<open>What others may do: anything, if what they post they post under the command line's keys.\<close>

definition foreign_posts :: "world \<Rightarrow> world \<Rightarrow> bool" where
  "foreign_posts w w' \<longleftrightarrow>
     (\<exists>new. wd_posts w' = wd_posts w @ new \<and> (\<forall>p\<in>set new. \<not> host_key (po_key (pd_post p))))"

section \<open>One call\<close>

lemma posted_foreign: "foreign_posts w w' \<Longrightarrow> host_key k \<Longrightarrow> posted_under t k w' = posted_under t k w"
  by (auto simp: foreign_posts_def posted_under_def filter_empty_conv)

lemma posts_ok_same: "posts_ok w Ps \<Longrightarrow> wd_posts w' = wd_posts w \<Longrightarrow> posts_ok w' Ps"
  by (simp add: posts_ok_def posted_under_def)

lemma posts_ok_none: "posts_ok w [P] \<Longrightarrow> posts_ok w [None]"
  by (simp add: posts_ok_def)

lemma posts_ok_post:
  assumes "posts_ok w [Some (po_thread p, po_key p)]"
  shows "posts_ok (w\<lparr>wd_posts := wd_posts w @ [\<lparr> pd_post = p, pd_id = i \<rparr>]\<rparr>) [None]"
  using assms by (auto simp: posts_ok_def posted_under_def)

lemma perform_keeps_posts:
  assumes "perform c ids cl m w = Some (a, m', w')" "\<And>p. cl \<noteq> CL_Post p"
  shows "wd_posts w' = wd_posts w"
  using assms by (cases cl) (auto simp: Let_def split: prod.splits)

lemma posts_ok_performed:
  assumes "posts_ok w [P]" "allowed post_discipline P cl" "perform c ids cl m w = Some (b, m', w')" "a = b \<or> refuses cl a"
  shows "posts_ok w' [after post_discipline P cl a]"
proof (cases cl)
  case (CL_Post p)
  then show ?thesis using assms(1-3) posts_ok_post by (auto simp: post_discipline_def Let_def)
next
  case (CL_Find t k)
  have "a = AN_Found (Some None) \<longrightarrow> posted_under t k w = []"
    using assms(3,4) CL_Find by (auto simp: refuses_def split: list.splits)
  moreover have "w' = w" using assms(3) CL_Find by simp
  ultimately show ?thesis using assms(1) CL_Find by (auto simp: posts_ok_def post_discipline_def)
qed (use perform_keeps_posts [OF assms(3)] posts_ok_same [OF assms(1)] in \<open>auto simp: post_discipline_def\<close>)

lemma posts_ok_idle:
  assumes "posts_ok w [P]" "refuses cl a \<or> (\<exists>ids m. perform c ids cl m w = None)"
  shows "posts_ok w [after post_discipline P cl a]"
proof -
  have "after post_discipline P cl a \<in> {P, None}"
    using assms(2) by (cases cl) (auto simp: post_discipline_def refuses_def Let_def split: prod.splits)
  then show ?thesis using assms(1) posts_ok_none by auto
qed

lemma posts_ok_cases:
  assumes "posts_ok w Ps" "i < length Ps"
  obtains P where "Ps = [P]" "i = 0"
  using assms by (cases Ps) (auto simp: posts_ok_def)

lemma post_call:
  assumes "posts_ok w Ps" "i < length Ps" "allowed post_discipline (Ps ! i) cl" "call_step c cl m w a m' w'"
  shows "posts_ok w' (Ps[i := after post_discipline (Ps ! i) cl a])"
proof -
  obtain P where P: "Ps = [P]" "i = 0" using posts_ok_cases [OF assms(1,2)] .
  have ok: "posts_ok w [P]" and al: "allowed post_discipline P cl" using assms(1,3) P by auto
  have "posts_ok w' [after post_discipline P cl a]"
    using assms(4) posts_ok_performed [OF ok al] posts_ok_idle [OF ok] by cases blast+
  then show ?thesis using P by simp
qed

section \<open>The discipline holds of a tick\<close>

interpretation plain_posts: plain_discipline c post_discipline None posts_ok foreign_posts for c
proof unfold_locales
  fix w Ps i assume "posts_ok w Ps" "i < length Ps"
  then show "posts_ok w (Ps[i := None])" using posts_ok_cases posts_ok_none by (metis list_update_code(2))
next
  fix w w' Ps assume "posts_ok w Ps" "foreign_posts w w'"
  then show "posts_ok w' Ps" using posted_foreign [of w w'] by (auto simp: posts_ok_def)
next
  fix cl P assume "plain_call cl"
  then show "allowed post_discipline P cl" by (cases cl) (simp_all add: plain_call_def post_discipline_def)
next
  fix w Ps i cl m a m' w'
  show "possible post_discipline (Ps ! i) cl a" by (simp add: post_discipline_def)
qed (use post_call in blast)

lemma post_stop_session: "safe post_discipline (stop_session ec run epoch sk kind n now)"
proof -
  have "safe post_discipline (stop_call sk force)" for force
    unfolding stop_call_def by (rule safe_Do, simp add: post_discipline_def) (intro safe_intros)
  then show ?thesis
    unfolding stop_session_def by (intro safe_intros plain_posts.safe_calls plain_posts.safe_ledger)
qed

text \<open>A part that only reads leaves the permit as it is.\<close>

lemma post_silent:
  assumes "silent body" "\<And>r. obeys post_discipline P (f r)"
  shows "obeys post_discipline P (bindp body f)"
  using assms(1) unfolding safe_def
  by (induction body) (use assms(2) in \<open>auto simp: reading_def post_discipline_def split: call.splits\<close>)

lemma post_after_find:
  assumes "safe post_discipline (f None)" "\<And>i. safe post_discipline (f (Some (Some i)))"
    "obeys post_discipline (Some (t, k)) (f (Some None))"
  shows "obeys post_discipline P (bindp (find_message t k) f)"
proof -
  have "obeys post_discipline (after post_discipline P (CL_Find t k) a)
      (bindp (case a of AN_Found r \<Rightarrow> Ret r | _ \<Rightarrow> Ret None) f)" for a
  proof (cases "a = AN_Found (Some None)")
    case False
    then have "(case a of AN_Found r \<Rightarrow> Ret r | _ \<Rightarrow> Ret None) = Ret None \<or>
        (\<exists>i. (case a of AN_Found r \<Rightarrow> Ret r | _ \<Rightarrow> Ret None) = Ret (Some (Some i)))"
      by (cases a) (auto, metis not_Some_eq)
    then show ?thesis using assms(1,2) by (auto simp: safe_def)
  qed (use assms(3) in \<open>simp add: post_discipline_def\<close>)
  moreover have "allowed post_discipline P (CL_Find t k)" by (simp add: post_discipline_def)
  moreover have "possible post_discipline P (CL_Find t k) a" for a by (simp add: post_discipline_def)
  ultimately show ?thesis unfolding find_message_def by simp
qed

lemma post_post:
  assumes "\<And>r. safe post_discipline (f r)"
  shows "obeys post_discipline (Some (po_thread p, po_key p)) (bindp (post_message p) f)"
proof -
  have "obeys post_discipline P (bindp (case a of AN_Posted r \<Rightarrow> Ret r | _ \<Rightarrow> Ret None) f)" for P a
    using assms by (cases a) (simp_all add: safe_def)
  moreover have "allowed post_discipline (Some (po_thread p, po_key p)) (CL_Post p)" by (simp add: post_discipline_def)
  ultimately show ?thesis unfolding post_message_def by simp
qed

lemma post_find_or_post:
  assumes "silent body"
  shows "safe post_discipline (find_or_post ec run epoch thread sender refs k body)"
proof -
  have quiet: "safe post_discipline (bindp (mark_chat_refused ec run epoch) (\<lambda>_. Ret x))"
    "safe post_discipline (bindp (clear_chat_refused run) (\<lambda>_. Ret x))" for x :: "message_id option"
    by (intro safe_intros plain_posts.safe_phase plain_posts.safe_clears)+
  have posted: "obeys post_discipline (Some (thread, k))
      (bindp (post_message \<lparr> po_thread = thread, po_sender = sender, po_text = t, po_refs = refs, po_key = k \<rparr>) (\<lambda>r.
        case r of None \<Rightarrow> bindp (mark_chat_refused ec run epoch) (\<lambda>_. Ret None)
        | Some i \<Rightarrow> bindp (clear_chat_refused run) (\<lambda>_. Ret (Some i))))" for t
    by (rule post_post [of _ "\<lparr> po_thread = thread, po_sender = sender, po_text = t, po_refs = refs, po_key = k \<rparr>", simplified])
       (auto intro: quiet split: option.split)
  show ?thesis
    unfolding safe_def find_or_post_def
    by (intro allI post_after_find post_silent [OF assms] | simp add: quiet posted split: option.split)+
qed

interpretation posts: tick_discipline c post_discipline None posts_ok foreign_posts for c
  by unfold_locales (fact post_stop_session post_find_or_post)+

end
