(* ===== verification/Host_Rotation.thy ===== *)
theory Host_Rotation
  imports Host_Tick
begin

text \<open>
  The rotation of \<^verbatim>\<open>each_run\<close>: which runs have their turn in a part of a tick, whatever is left of the
  budget. \<open>traced\<close> runs a part of the host to its end, with every answer its calls may get, and keeps the calls it
  made; a run has had its turn when the first call of its step was made.
\<close>

inductive traced ::
  "host_codec \<Rightarrow> 'r prog \<Rightarrow> host_mem \<Rightarrow> world \<Rightarrow> call list \<Rightarrow> 'r \<Rightarrow> host_mem \<Rightarrow> world \<Rightarrow> bool" for c where
  traced_Ret: "traced c (Ret r) m w [] r m w"
| traced_Do: "call_step c cl m w a m1 w1 \<Longrightarrow> traced c (k a) m1 w1 tr r m' w' \<Longrightarrow> traced c (Do cl k) m w (cl # tr) r m' w'"

inductive_cases traced_RetE: "traced c (Ret r) m w tr x m' w'"
inductive_cases traced_DoE: "traced c (Do cl k) m w tr x m' w'"

lemma traced_Ret_iff [simp]: "traced c (Ret r) m w tr x m' w' \<longleftrightarrow> tr = [] \<and> x = r \<and> m' = m \<and> w' = w"
  by (auto intro: traced_Ret elim: traced_RetE)

text \<open>The calls of a run in an environment.\<close>

primrec calls_of :: "environment \<Rightarrow> 'r prog \<Rightarrow> host_mem \<Rightarrow> world \<Rightarrow> call list" where
  "calls_of E (Ret r) m w = []"
| "calls_of E (Do cl k) m w = cl # (case answer_of E cl m w of (a, m', w') \<Rightarrow> calls_of E (k a) m' w')"

lemma traced_run:
  "traced (ev_codec E) p m w (calls_of E p m w) (fst (run_prog E p m w)) (fst (snd (run_prog E p m w))) (snd (snd (run_prog E p m w)))"
proof (induction p arbitrary: m w)
  case (Do cl k)
  obtain a m' w' where a: "answer_of E cl m w = (a, m', w')" by (metis prod_cases3)
  then show ?case using traced_Do [OF answer_of_step [OF a], of k] Do.IH [of "k a" m' w'] by simp
qed simp

lemma traced_bindpE:
  assumes "traced c (bindp p f) m w tr r m' w'"
  obtains tr1 x m1 w1 tr2 where "traced c p m w tr1 x m1 w1" "traced c (f x) m1 w1 tr2 r m' w'" "tr = tr1 @ tr2"
  using assms
proof (induction p arbitrary: m w tr thesis)
  case (Ret x)
  then show ?case by fastforce
next
  case (Do cl k)
  from Do.prems(2) obtain a m1 w1 tr' where s: "call_step c cl m w a m1 w1" "traced c (bindp (k a) f) m1 w1 tr' r m' w'" "tr = cl # tr'"
    by (auto elim: traced_DoE)
  show ?case
  proof (rule Do.IH [OF rangeI _ s(2)])
    fix tr1 x m2 w2 tr2
    assume "traced c (k a) m1 w1 tr1 x m2 w2" "traced c (f x) m2 w2 tr2 r m' w'" "tr' = tr1 @ tr2"
    with s show thesis by (intro Do.prems(1) [of "cl # tr1" x m2 w2 tr2]) (auto intro: traced_Do)
  qed
qed

lemma call_step_mem: "call_step c (CL_Mem f) m w a m' w' \<longleftrightarrow> a = AN_Mem m \<and> m' = f m \<and> w' = w"
  by (auto simp: refuses_def elim: call_step.cases intro: call_done [where ids = "\<lambda>_. []"])

lemma traced_mem: "traced c (mem f) m w tr x m' w' \<Longrightarrow> m' = f m \<and> w' = w"
  by (auto simp: mem_def call_step_mem elim!: traced_DoE)

lemma traced_ask_mem: "traced c ask_mem m w tr x m' w' \<Longrightarrow> x = m \<and> m' = m \<and> w' = w"
  by (auto simp: ask_mem_def call_step_mem elim!: traced_DoE)

lemma traced_spent: "traced c spent m w tr x m' w' \<Longrightarrow> m' = m \<and> w' = w"
  by (auto simp: spent_def refuses_def elim!: traced_DoE call_step.cases split: answer.splits)

lemma traced_may_work:
  assumes "traced c (may_work owed) m w tr ok m' w'"
  shows "ho_next_turn m' = ho_next_turn m \<and> (owed \<longrightarrow> \<not> ho_busy m \<longrightarrow> ok)"
  using assms unfolding may_work_def
  by (auto elim!: traced_bindpE dest!: traced_ask_mem traced_spent traced_mem split: if_splits)

section \<open>One part of a tick\<close>

definition part_step :: "tick_env \<Rightarrow> timestamp \<Rightarrow> tick_part \<Rightarrow> run_row \<Rightarrow> epoch \<Rightarrow> bool \<Rightarrow> unit prog" where
  "part_step E now pt =
     (case pt of
        PT_Drain \<Rightarrow> (\<lambda>row epoch owed. drain_run row epoch now owed)
      | PT_Fold \<Rightarrow> fold_step E now
      | PT_Execute \<Rightarrow> execute_step E now)"

text \<open>A run has its turn in a trace when its step ran there from its first call to its end.\<close>

definition has_turn :: "host_codec \<Rightarrow> tick_env \<Rightarrow> tick_part \<Rightarrow> run_row \<times> epoch \<Rightarrow> call list \<Rightarrow> bool" where
  "has_turn c E pt x tr \<longleftrightarrow>
     (\<exists>before step after now owed m w u m' w'. tr = before @ step @ after \<and> step \<noteq> [] \<and>
        traced c (part_step E now pt (fst x) (snd x) owed) m w step u m' w')"

lemma part_step_calls: "\<exists>cl k. part_step E now pt row epoch owed = Do cl k"
  by (cases pt) (auto simp: part_step_def drain_run_def loaded_def fold_step_def execute_step_def fold_call_def Let_def)

lemma traced_part_step:
  assumes "traced c (part_step E now pt (fst x) (snd x) owed) m w tr u m' w'"
  shows "has_turn c E pt x tr"
proof -
  obtain cl k where s: "part_step E now pt (fst x) (snd x) owed = Do cl k" using part_step_calls by blast
  with assms have "tr \<noteq> []" by (auto elim: traced_DoE)
  then show ?thesis unfolding has_turn_def using assms by (metis append_Nil append_Nil2)
qed

lemma has_turn_append: "has_turn c E pt x tr \<or> has_turn c E pt x tr' \<Longrightarrow> has_turn c E pt x (tr @ tr')"
  unfolding has_turn_def by (metis append.assoc)

lemma turns_step:
  assumes "has_turn c E pt (owned ! ((start + i) mod n)) tr3" "\<And>l. Suc i \<le> l \<Longrightarrow> l < j \<Longrightarrow> has_turn c E pt (owned ! ((start + l) mod n)) tr4" "i \<le> l" "l < j"
  shows "has_turn c E pt (owned ! ((start + l) mod n)) (tr1 @ tr3 @ tr4)"
proof (cases "l = i")
  case True
  then show ?thesis using assms(1) has_turn_append by blast
next
  case False
  then have "has_turn c E pt (owned ! ((start + l) mod n)) tr4" using assms(2-4) by simp
  then show ?thesis using has_turn_append by blast
qed

text \<open>From its place in the rotation on, the part serves runs in their order; it stops for good when it has served all of
  them, or keeps the place of the first it did not serve.\<close>

lemma each_from_serves:
  assumes "traced c (each_from pt owned (part_step E now pt) start [i..<length owned]) m w tr u m' w'" "i \<le> length owned"
  shows "\<exists>j. i \<le> j \<and> j \<le> length owned \<and> (i = 0 \<longrightarrow> owned \<noteq> [] \<longrightarrow> \<not> ho_busy m \<longrightarrow> 0 < j) \<and>
     (\<forall>l. i \<le> l \<longrightarrow> l < j \<longrightarrow> has_turn c E pt (owned ! ((start + l) mod length owned)) tr) \<and>
     (j = length owned \<or> ho_next_turn m' pt = (start + j) mod length owned)"
  using assms
proof (induction "length owned - i" arbitrary: i m w tr)
  case 0
  then show ?case by (intro exI [of _ "length owned"]) auto
next
  case (Suc n)
  let ?n = "length owned" and ?x = "owned ! ((start + i) mod length owned)"
  have i: "i < ?n" using Suc.hyps(2) by simp
  then have upt: "[i..<?n] = i # [Suc i..<?n]" by (rule upt_conv_Cons)
  obtain tr1 ok m1 w1 tr2 where mw: "traced c (may_work (i = 0)) m w tr1 ok m1 w1"
      "traced c (if \<not> ok then mem (set_next_turn pt ((start + i) mod ?n))
         else bindp (part_step E now pt (fst ?x) (snd ?x) (i = 0)) (\<lambda>_. each_from pt owned (part_step E now pt) start [Suc i..<?n]))
       m1 w1 tr2 u m' w'" "tr = tr1 @ tr2"
    using Suc.prems(1) unfolding upt each_from.simps Let_def case_prod_beta by (auto elim: traced_bindpE)
  show ?case
  proof (cases ok)
    case False
    then have "m' = set_next_turn pt ((start + i) mod ?n) m1" using mw(2) traced_mem by fastforce
    moreover have "i = 0 \<longrightarrow> ho_busy m" using traced_may_work [OF mw(1)] False by blast
    ultimately show ?thesis using i by (intro exI [of _ i]) (auto simp: set_next_turn_def)
  next
    case True
    then obtain tr3 m2 w2 tr4 where st: "traced c (part_step E now pt (fst ?x) (snd ?x) (i = 0)) m1 w1 tr3 () m2 w2"
        "traced c (each_from pt owned (part_step E now pt) start [Suc i..<?n]) m2 w2 tr4 u m' w'" "tr2 = tr3 @ tr4"
      using mw(2) by (auto elim: traced_bindpE)
    have n: "n = ?n - Suc i" using Suc.hyps(2) by simp
    obtain j where j: "Suc i \<le> j" "j \<le> ?n" "\<And>l. Suc i \<le> l \<Longrightarrow> l < j \<Longrightarrow> has_turn c E pt (owned ! ((start + l) mod ?n)) tr4"
        "j = ?n \<or> ho_next_turn m' pt = (start + j) mod ?n"
      using Suc.hyps(1) [OF n st(2) Suc_leI [OF i]] by blast
    have "has_turn c E pt (owned ! ((start + l) mod ?n)) tr" if "i \<le> l" "l < j" for l
      using turns_step [OF traced_part_step [OF st(1)] j(3) that] mw(3) st(3) by simp
    then show ?thesis using j by (intro exI [of _ j]) auto
  qed
qed

section \<open>Many ticks\<close>

text \<open>The same part in \<open>n\<close> ticks, one after the other: between two of them nothing moves its place in the rotation, and
  each begins with a store that is not busy.\<close>

inductive part_ticks :: "host_codec \<Rightarrow> tick_env \<Rightarrow> tick_part \<Rightarrow> (run_row \<times> epoch) list \<Rightarrow> host_mem \<Rightarrow> nat \<Rightarrow> call list \<Rightarrow> host_mem \<Rightarrow> bool"
  for c E pt owned m where
  part_none: "part_ticks c E pt owned m 0 [] m"
| part_more: "part_ticks c E pt owned m n tr m1 \<Longrightarrow> ho_next_turn m2 pt = ho_next_turn m1 pt \<Longrightarrow> \<not> ho_busy m2 \<Longrightarrow>
     traced c (each_run pt owned (part_step E now pt)) m2 w tr' u m3 w' \<Longrightarrow> part_ticks c E pt owned m (Suc n) (tr @ tr') m3"

lemma each_run_serves:
  assumes "traced c (each_run pt owned (part_step E now pt)) m w tr u m' w'" "owned \<noteq> []" "\<not> ho_busy m"
  shows "\<exists>j. 0 < j \<and> j \<le> length owned \<and>
     (\<forall>l<j. has_turn c E pt (owned ! ((ho_next_turn m pt + l) mod length owned)) tr) \<and>
     (j = length owned \<or> ho_next_turn m' pt = (ho_next_turn m pt + j) mod length owned)"
proof -
  obtain tr1 x m1 w1 tr2 where t: "traced c ask_mem m w tr1 x m1 w1"
      "traced c (each_from pt owned (part_step E now pt) (ho_next_turn x pt mod length owned) [0..<length owned]) m1 w1 tr2 u m' w'"
      "tr = tr1 @ tr2"
    using assms(1,2) unfolding each_run_def by (auto elim!: traced_bindpE)
  have x: "x = m" "m1 = m" using traced_ask_mem [OF t(1)] by simp_all
  have turn: "has_turn c E pt y tr2 \<Longrightarrow> has_turn c E pt y tr" for y using has_turn_append t(3) by blast
  obtain j where "0 < j" "j \<le> length owned"
      "\<And>l. l < j \<Longrightarrow> has_turn c E pt (owned ! ((ho_next_turn m pt mod length owned + l) mod length owned)) tr2"
      "j = length owned \<or> ho_next_turn m' pt = (ho_next_turn m pt mod length owned + j) mod length owned"
    using each_from_serves [OF t(2) [unfolded x] le0] assms(2,3) by blast
  then show ?thesis using turn by (intro exI [of _ j]) (auto simp: mod_add_left_eq)
qed

lemma mod_shift_onto:
  assumes "q < n"
  obtains d :: nat where "d < n" "(a + d) mod n = q"
proof (rule that [of "(q + (n - a mod n)) mod n"])
  have "(a + (q + (n - a mod n)) mod n) mod n = (a mod n + (q + (n - a mod n))) mod n" by (simp add: mod_simps)
  also have "a mod n + (q + (n - a mod n)) = q + n" using assms mod_less_divisor [of n a] by linarith
  finally show "(a + (q + (n - a mod n)) mod n) mod n = q" using assms by simp
qed (use assms in simp)

text \<open>The turns of one more tick, behind those from the first place on.\<close>

lemma turns_join:
  assumes "owned \<noteq> []" "\<And>l. l < t \<Longrightarrow> has_turn c E pt (owned ! ((s + l) mod length owned)) tr" "q mod length owned = (s + t) mod length owned"
    "0 < j" "j \<le> length owned" "\<And>l. l < j \<Longrightarrow> has_turn c E pt (owned ! ((q + l) mod length owned)) tr'"
    "j = length owned \<or> q' = (q + j) mod length owned"
  shows "(\<forall>x\<in>set owned. has_turn c E pt x (tr @ tr')) \<or>
    (\<exists>u>t. (\<forall>l<u. has_turn c E pt (owned ! ((s + l) mod length owned)) (tr @ tr')) \<and> q' mod length owned = (s + u) mod length owned)"
proof -
  let ?n = "length owned"
  have place: "(q + l) mod ?n = (s + (t + l)) mod ?n" for l using assms(3) by (metis add.assoc mod_add_left_eq)
  have turns: "has_turn c E pt (owned ! ((s + l) mod ?n)) (tr @ tr')" if "l < t + j" for l
  proof (cases "l < t")
    case False
    then have "l - t < j" "t + (l - t) = l" using that by simp_all
    then have "has_turn c E pt (owned ! ((s + l) mod ?n)) tr'" using assms(6) [of "l - t"] unfolding place by simp
    then show ?thesis using has_turn_append by blast
  qed (use assms(2) has_turn_append in blast)
  show ?thesis
  proof (cases "j = ?n")
    case True
    have "has_turn c E pt (owned ! x) (tr @ tr')" if "x < ?n" for x
    proof -
      obtain d where "d < ?n" "(s + t + d) mod ?n = x" using mod_shift_onto [OF \<open>x < ?n\<close>] by blast
      then show ?thesis using turns [of "t + d"] True by (auto simp: add.assoc)
    qed
    then show ?thesis by (metis in_set_conv_nth)
  next
    case False
    then have "q' mod ?n = (s + (t + j)) mod ?n" using assms(7) place [of j] by simp
    then show ?thesis using turns assms(4) by (intro disjI2 exI [of _ "t + j"]) auto
  qed
qed

text \<open>After \<open>n\<close> ticks all runs have had their turn, or at least \<open>n\<close> of them, from the first place on.\<close>

lemma part_ticks_serve:
  assumes "part_ticks c E pt owned m n tr m'" "owned \<noteq> []"
  shows "(\<forall>x\<in>set owned. has_turn c E pt x tr) \<or>
     (\<exists>t\<ge>n. (\<forall>l<t. has_turn c E pt (owned ! ((ho_next_turn m pt + l) mod length owned)) tr) \<and>
        ho_next_turn m' pt mod length owned = (ho_next_turn m pt + t) mod length owned)"
  using assms(1)
proof induction
  case part_none
  then show ?case by auto
next
  case (part_more n tr m1 m2 now w tr' u m3 w')
  let ?n = "length owned" and ?s = "ho_next_turn m pt"
  show ?case
  proof (cases "\<forall>x\<in>set owned. has_turn c E pt x tr")
    case True
    then show ?thesis using has_turn_append by blast
  next
    case False
    then obtain t where t: "t \<ge> n" "\<And>l. l < t \<Longrightarrow> has_turn c E pt (owned ! ((?s + l) mod ?n)) tr"
        "ho_next_turn m1 pt mod ?n = (?s + t) mod ?n"
      using part_more.IH by blast
    obtain j where j: "0 < j" "j \<le> ?n" "\<And>l. l < j \<Longrightarrow> has_turn c E pt (owned ! ((ho_next_turn m2 pt + l) mod ?n)) tr'"
        "j = ?n \<or> ho_next_turn m3 pt = (ho_next_turn m2 pt + j) mod ?n"
      using each_run_serves [OF part_more.hyps(4) assms(2) part_more.hyps(3)] by blast
    have "ho_next_turn m2 pt mod ?n = (?s + t) mod ?n" using t(3) part_more.hyps(2) by simp
    then show ?thesis using turns_join [OF assms(2) t(2) _ j] t(1) by (meson Suc_leI le_less_trans)
  qed
qed

end
