(* ===== verification/Host_Properties.thy ===== *)
theory Host_Properties
  imports Host_Signals Host_Posts Host_Rotation Sample_Store
begin

text \<open>
  What hosts guarantee whatever they crash in: no rung of a stop ladder is signalled twice, no message is posted twice
  under one key, and every run of a workspace has its turn.
\<close>

section \<open>Running is a path of the system\<close>

lemma run_path:
  "(sys_step (ev_codec E) programs env)\<^sup>*\<^sup>* ([(m, p)], w) ([(fst (snd (run_prog E p m w)), Ret (fst (run_prog E p m w)))], snd (snd (run_prog E p m w)))"
proof (induction p arbitrary: m w)
  case (Do cl k)
  obtain a m' w' where a: "answer_of E cl m w = (a, m', w')" by (metis prod_cases3)
  have "sys_step (ev_codec E) programs env ([(m, Do cl k)], w) ([(m, Do cl k)][0 := (m', k a)], w')"
    by (rule sys_call [OF _ _ answer_of_step [OF a]]) simp_all
  then have "sys_step (ev_codec E) programs env ([(m, Do cl k)], w) ([(m', k a)], w')" by simp
  then show ?case using Do.IH [of "k a" m' w'] a by (simp add: converse_rtranclp_into_rtranclp)
qed simp

lemma crash_path:
  "\<exists>m' p'. (sys_step (ev_codec E) programs env)\<^sup>*\<^sup>* ([(m, p)], w) ([(m', p')], crash_after E n p m w)"
proof (induction n arbitrary: m p w)
  case (Suc n)
  show ?case
  proof (cases p)
    case (Do cl k)
    obtain a m' w' where a: "answer_of E cl m w = (a, m', w')" by (metis prod_cases3)
    have "sys_step (ev_codec E) programs env ([(m, Do cl k)], w) ([(m, Do cl k)][0 := (m', k a)], w')"
      by (rule sys_call [OF _ _ answer_of_step [OF a]]) simp_all
    then have "sys_step (ev_codec E) programs env ([(m, p)], w) ([(m', k a)], w')" using Do by simp
    then show ?thesis using Suc.IH [of m' "k a" w'] a Do converse_rtranclp_into_rtranclp by fastforce
  qed auto
qed auto

lemma restart_path:
  assumes "programs p"
  shows "sys_step c programs env ([x], w) ([(m, p)], w)"
  using sys_restart [of 0 "[x]" programs p c env w m] assms by simp

text \<open>A program that crashes after \<open>n\<close> calls, and one that is then run to its end.\<close>

lemma crash_and_run_path:
  assumes "programs p" "programs q"
  shows "(sys_step (ev_codec E) programs env)\<^sup>*\<^sup>* ([(m, Ret ())], w)
    (let r = run_prog E q m (crash_after E n p m w) in ([(fst (snd r), Ret (fst r))], snd (snd r)))"
proof -
  obtain m' p' where crash: "(sys_step (ev_codec E) programs env)\<^sup>*\<^sup>* ([(m, p)], w) ([(m', p')], crash_after E n p m w)"
    using crash_path by blast
  have "sys_step (ev_codec E) programs env ([(m, Ret ())], w) ([(m, p)], w)"
    "sys_step (ev_codec E) programs env ([(m', p')], crash_after E n p m w) ([(m, q)], crash_after E n p m w)"
    using assms restart_path by blast+
  with crash have "(sys_step (ev_codec E) programs env)\<^sup>*\<^sup>* ([(m, Ret ())], w) ([(m, q)], crash_after E n p m w)"
    by (meson converse_rtranclp_into_rtranclp rtranclp.rtrancl_into_rtrancl)
  then show ?thesis using run_path [of E programs env m q "crash_after E n p m w"] unfolding Let_def
    by (rule rtranclp_trans)
qed

section \<open>Signals\<close>

text \<open>C10. No rung is signalled twice. A host ticks, is stopped between any two of its calls and starts again with its
  memory lost, any number of times; calls may fail, or take effect and seem to fail; others write the store meanwhile as
  they like but for the effect ledger. However that goes, a session has been sent at most as many signals as the ledger
  has rungs of its ladder.\<close>

theorem no_rung_signalled_twice:
  assumes "(sys_step c (host_ticks c) no_signals)\<^sup>*\<^sup>* ([(m, Ret ())], w0) (ps, w)" "wd_signals w0 = []"
  shows "length (signals_of sk w) \<le> card (rungs_of sk (wd_store w))"
proof -
  have "signals_ok w0 (map (\<lambda>_. PM_None) [m])"
    using assms(2) by (simp add: signals_ok_def signals_of_def covers_def)
  then have "held signal_discipline signals_ok (ps, w)" using signals.ticks_hold [of c "[m]" w0 "(ps, w)"] assms(1) by simp
  then obtain Ps where "signals_ok w Ps" unfolding held_def by auto
  then show ?thesis unfolding signals_ok_def using add_leE by blast
qed

section \<open>Messages\<close>

text \<open>C11. No message is posted twice. Under the same crashes, failures and lost answers, and with the command line posting
  under keys of its own, a thread never holds two messages under one key of the host: not the root message, not the turn
  of a session, not a delivery.\<close>

theorem no_message_posted_twice:
  assumes "(sys_step c (host_ticks c) foreign_posts)\<^sup>*\<^sup>* ([(m, Ret ())], w0) (ps, w)" "wd_posts w0 = []" "host_key k"
  shows "length (posted_under t k w) \<le> 1"
proof -
  have "posts_ok w0 (map (\<lambda>_. None) [m])"
    using assms(2) by (simp add: posts_ok_def posted_under_def)
  then have "held post_discipline posts_ok (ps, w)" using posts.ticks_hold [of c "[m]" w0 "(ps, w)"] assms(1) by simp
  then obtain Ps where "posts_ok w Ps" unfolding held_def by auto
  then show ?thesis using assms(3) by (simp add: posts_ok_def)
qed

section \<open>Turns\<close>


section \<open>A host that opens the root of a run\<close>

text \<open>A run just commissioned: three events in its log, its lease with the host, its commission waiting.\<close>

definition root_events :: "(string \<times> event) list" where
  "root_events =
     [(''e1'', (hd sample_inputs)\<lparr>ev_seq := 1, ev_origin := OR_Cli\<rparr>),
      (''e2'', event_new sample_run 2 0 ''k0/d0'' OR_Reducer (EB_Decision DE_RootRequested)),
      (''e3'', event_new sample_run 3 0 ''k0/d1'' OR_Reducer (EB_Decision (DE_TimerSet ''root_deadline'' 60000 TP_RootDeadline)))]"

definition root_row :: "nat \<Rightarrow> string \<Rightarrow> string \<Rightarrow> event_row" where
  "root_row n k body = \<lparr> er_run = sample_run, er_seq = n, er_at = 0, er_v = 1, er_key = k, er_origin = ''cli'', er_body = body \<rparr>"

definition root_store :: store where
  "root_store =
     \<lparr> db_events = [root_row 1 ''k0'' ''e1'', root_row 2 ''k0/d0'' ''e2'', root_row 3 ''k0/d1'' ''e3''], db_inbox = [], db_timers = [],
       db_kv = [(''flow/h'', ''fl''), (''owner/r-01'', ''la''), (''pending/r-01'', ''pd'')],
       db_runs = [\<lparr> rw_run = sample_run, rw_workspace_id = ''w'', rw_tenant = ''t'', rw_finished = False, rw_last_seq = 3,
                    rw_max_v = 1, rw_commissioned_at = 0 \<rparr>] \<rparr>"

definition root_codec :: host_codec where
  "root_codec =
     \<lparr> hk_store = \<lparr> co_event_write = (\<lambda>e. Some (ev_key e)), co_event_read = map_of root_events,
         co_lease_write = (\<lambda>_. Some ''la''), co_lease_read = (\<lambda>_. Some (sample_lease ''host-a'' 1 0)),
         co_entry_read = (\<lambda>b. Some \<lparr> ee_state = b, ee_epoch = 1 \<rparr>), co_instant_write = (\<lambda>_. Some ''i''),
         co_instant_read = (\<lambda>_. Some 0), co_ulid_ok = (\<lambda>_. True) \<rparr>,
       hk_flow_read = (\<lambda>_. Some sample_flow), hk_count_read = (\<lambda>_. None), hk_count_write = (\<lambda>_. []) \<rparr>"

definition root_effects :: effects_codec where
  "root_effects =
     \<lparr> ek_host = root_codec, ek_entry_write = (\<lambda>e. Some (ee_state e)),
       ek_pending_read = (\<lambda>_. Some \<lparr> pc_root_thread = ''m-1'', pc_channel = ''c'', pc_sender = ''ann'', pc_body = ''go'', pc_refs = [] \<rparr>),
       ek_route_write = (\<lambda>_. None), ek_refusal_read = (\<lambda>_. None), ek_refusal_write = (\<lambda>_. None),
       ek_utf8 = Some, ek_show_instant = (\<lambda>_. ''i''),
       ek_layout = \<lparr> la_root = ''/w'', la_agent_logs = ''/l'', la_session_env = [] \<rparr> \<rparr>"

definition root_tick :: tick_env where
  "root_tick = \<lparr> tk_codec = root_effects, tk_others = (\<lambda>_ _ _ db. db), tk_budget = (\<lambda>_ _ _. True), tk_inputs = 1, tk_results = 1,
     tk_dead = (\<lambda>_. False) \<rparr>"

definition root_env :: environment where
  "root_env = \<lparr> ev_codec = root_codec, ev_ids = (\<lambda>n. ''m-2''),
     ev_oracle = (\<lambda>cl. case cl of CL_Now \<Rightarrow> AN_Now 0 | CL_Spent \<Rightarrow> AN_Bool False | CL_Poll \<Rightarrow> AN_Polled None | _ \<Rightarrow> AN_Unit) \<rparr>"

definition root_world :: world where
  "root_world = \<lparr> wd_store = root_store, wd_threads = [], wd_posts = [], wd_starts = [], wd_nudges = [], wd_signals = [],
     wd_begun = [], wd_offsets = [] \<rparr>"

text \<open>The host posts the root message and dies before it has recorded that; a new one ticks to the end.\<close>

definition root_after :: "unit \<times> host_mem \<times> world" where
  "root_after = run_prog root_env (tick root_tick 0) (host_new ''host-a'')
     (crash_after root_env 36 (tick root_tick 0) (host_new ''host-a'') root_world)"

lemma root_ticks: "host_ticks root_codec (tick root_tick 0)"
  unfolding host_ticks_def by (intro exI [of _ root_tick] exI [of _ 0]) (simp add: root_tick_def root_effects_def)

lemma root_reached:
  "(sys_step root_codec (host_ticks root_codec) env)\<^sup>*\<^sup>* ([(host_new ''host-a'', Ret ())], root_world)
     ([(fst (snd root_after), Ret (fst root_after))], snd (snd root_after))"
proof -
  have "ev_codec root_env = root_codec" by (simp add: root_env_def)
  with crash_and_run_path [of "host_ticks root_codec" "tick root_tick 0" "tick root_tick 0" root_env env "host_new ''host-a''" root_world 36,
      OF root_ticks root_ticks]
  show ?thesis unfolding root_after_def Let_def by simp
qed

lemma root_posted:
  "wd_posts (crash_after root_env 36 (tick root_tick 0) (host_new ''host-a'') root_world) \<noteq> [] \<and>
   posted_under ''m-1'' ''root/r-01'' (snd (snd root_after)) \<noteq> []"
  by code_simp

theorem no_message_posted_twice_witness:
  "length (posted_under ''m-1'' ''root/r-01'' (snd (snd root_after))) = 1"
proof -
  have "length (posted_under ''m-1'' ''root/r-01'' (snd (snd root_after))) \<le> 1"
    by (rule no_message_posted_twice [OF root_reached]) (simp_all add: root_world_def host_key_def starts_with_def)
  moreover have "length (posted_under ''m-1'' ''root/r-01'' (snd (snd root_after))) \<noteq> 0" using root_posted by simp
  ultimately show ?thesis by linarith
qed

theorem no_rung_signalled_twice_witness:
  "length (signals_of ''r-01/build/1/dev/1'' (snd (snd root_after))) \<le> card (rungs_of ''r-01/build/1/dev/1'' (wd_store (snd (snd root_after))))"
  by (rule no_rung_signalled_twice [OF root_reached]) (simp add: root_world_def)

section \<open>A host with two runs and no budget\<close>









section \<open>Two hosts that stop one session\<close>







end
