(* ===== verification/Host_Loop.thy ===== *)
theory Host_Loop
  imports Host_Frames
begin

text \<open>
  The loop of \<^verbatim>\<open>fold_run\<close> ends: an input it folds successfully was not logged before and is logged after, so the
  inputs of the run that are waiting and not logged become fewer with every turn.
\<close>

section \<open>What a successful append logs\<close>

lemma logged_iff: "logged_seq run k db \<noteq> None \<longleftrightarrow> (\<exists>r\<in>set (db_events db). er_run r = run \<and> er_key r = k)"
  by (auto simp: logged_seq_def find_None_iff)

lemma insert_events_logs:
  assumes "insert_events c es n db = Inr db'"
  shows "set (db_events db) \<subseteq> set (db_events db') \<and>
    (\<forall>e\<in>set es. \<exists>r\<in>set (db_events db'). er_run r = ev_run e \<and> er_key r = ev_key e)"
  using assms
proof (induction es arbitrary: n db)
  case (Cons e es)
  then obtain db1 where db1: "insert_event c e (n + 1) db = Inr db1" "insert_events c es (n + 1) db1 = Inr db'" by auto
  have "set (db_events db) \<subseteq> set (db_events db1)" "\<exists>r\<in>set (db_events db1). er_run r = ev_run e \<and> er_key r = ev_key e"
    using db1(1) by (auto simp: insert_event_def split: if_splits)
  with Cons.IH [OF db1(2)] show ?case by (metis set_ConsD subset_iff)
qed simp

lemma append_logs:
  assumes "store_append c run n fence es ks items db = (Inr a, db')"
  shows "db_inbox db' = db_inbox (delete_inbox_rows run ks db)"
    "set (db_events db) \<subseteq> set (db_events db')"
    "e \<in> set es \<Longrightarrow> logged_seq run (ev_key e) db = None \<and> logged_seq run (ev_key e) db' \<noteq> None"
proof -
  from assms have ok: "check_call c run es items = Inr ()" "\<forall>e\<in>set es. logged_seq run (ev_key e) db = None"
      "append_tx c run (read_run run db) es ks items db = Inr (a, db')"
    by (auto elim: store_append_cases)
  obtain db1 db2 db4 db5 where s:
    "(case (read_run run db, es) of (None, e # _) \<Rightarrow> create_run run e db | _ \<Rightarrow> Inr db) = Inr db1"
    "insert_events c es (case read_run run db of Some r \<Rightarrow> rw_last_seq r | None \<Rightarrow> 0) db1 = Inr db2"
    "db4 = (delete_inbox_rows run ks db2)\<lparr>db_timers := snd (timers_apply run es (db_timers db2))\<rparr>"
    "try_fold (apply_cas c) items db4 = Inr db5"
    "db' = update_run run (ap_last_seq a) (foldr max (map ev_v es) 0) (list_ex (\<lambda>e. body_finishes (ev_body e)) es) db5"
    using append_tx_steps [OF ok(3)] by metis
  have one: "db_events db1 = db_events db" "db_inbox db1 = db_inbox db"
    using s(1) by (auto split: option.splits list.splits dest: create_run_frame)
  have tables: "db_events db' = db_events db2" "db_inbox db' = db_inbox (delete_inbox_rows run ks db2)"
    using try_cas_tables [OF s(4)] by (simp_all add: s(3,5))
  show "db_inbox db' = db_inbox (delete_inbox_rows run ks db)"
    using insert_events_frame(1) [OF s(2)] one tables by (simp add: delete_inbox_rows_def)
  show "set (db_events db) \<subseteq> set (db_events db')" using insert_events_logs [OF s(2)] one tables by simp
  assume "e \<in> set es"
  then show "logged_seq run (ev_key e) db = None \<and> logged_seq run (ev_key e) db' \<noteq> None"
    using ok(2) check_call_Inr(1) [OF ok(1)] insert_events_logs [OF s(2)] tables(1) unfolding logged_iff by metis
qed

section \<open>The inputs left to fold\<close>

definition unlogged :: "codec \<Rightarrow> run_id \<Rightarrow> store \<Rightarrow> inbox_row \<Rightarrow> bool" where
  "unlogged c run db r \<longleftrightarrow>
     ib_run r = run \<and> (case co_event_read c (ib_body r) of Some e \<Rightarrow> logged_seq run (ev_key e) db = None | None \<Rightarrow> False)"

definition left_to_fold :: "codec \<Rightarrow> run_id \<Rightarrow> store \<Rightarrow> nat" where
  "left_to_fold c run db = length (filter (unlogged c run db) (db_inbox db))"

lemma length_filter_mono: "(\<And>x. x \<in> set xs \<Longrightarrow> P x \<Longrightarrow> Q x) \<Longrightarrow> length (filter P xs) \<le> length (filter Q xs)"
  by (induction xs) (auto simp: le_SucI)

lemma left_le_waiting: "left_to_fold c run db \<le> length (filter (\<lambda>r. ib_run r = run) (db_inbox db))"
  unfolding left_to_fold_def by (rule length_filter_mono) (simp add: unlogged_def)

lemma length_filter_strict:
  "(\<And>x. x \<in> set xs \<Longrightarrow> P x \<Longrightarrow> Q x) \<Longrightarrow> x \<in> set xs \<Longrightarrow> Q x \<Longrightarrow> \<not> P x \<Longrightarrow> length (filter P xs) < length (filter Q xs)"
proof (induction xs)
  case (Cons y ys)
  have "length (filter P ys) \<le> length (filter Q ys)" using Cons.prems(1) by (intro length_filter_mono) auto
  with Cons show ?case by (cases "y = x") auto
qed simp

lemma append_leaves_fewer:
  assumes "store_append (hk_store c) run n fence es ks items db = (Inr a, db')" "e \<in> set es"
    "next_input (hk_store c) run db = Inr (Some input)" "ev_key e = ev_key input"
  shows "left_to_fold (hk_store c) run db' < left_to_fold (hk_store c) run db"
proof -
  obtain r where r: "r \<in> set (db_inbox db)" "ib_run r = run" "co_event_read (hk_store c) (ib_body r) = Some input"
    using assms(3) by (auto simp: next_input_def decode_event_def find_Some_iff split: option.splits) (metis nth_mem)
  note logs = append_logs [OF assms(1)]
  have more: "logged_seq run k db' = None \<Longrightarrow> logged_seq run k db = None" for k
    using logs(2) logged_iff [of run k db] logged_iff [of run k db'] by blast
  let ?P = "\<lambda>r. \<not> (ib_run r = run \<and> ib_key r \<in> set ks) \<and> unlogged (hk_store c) run db' r"
  have "left_to_fold (hk_store c) run db' = length (filter ?P (db_inbox db))"
    unfolding left_to_fold_def logs(1) delete_inbox_rows_def by (simp add: conj_commute)
  also have "\<dots> < left_to_fold (hk_store c) run db"
    unfolding left_to_fold_def
  proof (rule length_filter_strict [OF _ r(1)])
    show "unlogged (hk_store c) run db r" "\<not> ?P r" using logs(3) [OF assms(2)] assms(4) r(2,3) by (auto simp: unlogged_def)
  qed (auto simp: unlogged_def more split: option.splits)
  finally show ?thesis .
qed

section \<open>The loop\<close>

text \<open>Others that only write leases and other values: they neither log nor enqueue.\<close>

definition writes_values :: "(nat \<Rightarrow> store \<Rightarrow> store) \<Rightarrow> bool" where
  "writes_values world \<longleftrightarrow> (\<forall>n db. db_events (world n db) = db_events db \<and> db_inbox (world n db) = db_inbox db)"

lemma writes_values_reads:
  assumes "writes_values world"
  shows "next_input c run (world n db) = next_input c run db" "left_to_fold c run (world n db) = left_to_fold c run db"
proof -
  have "unlogged c run (world n db) = unlogged c run db"
    using assms by (intro ext) (auto simp: writes_values_def unlogged_def logged_seq_def split: option.splits)
  then show "next_input c run (world n db) = next_input c run db" "left_to_fold c run (world n db) = left_to_fold c run db"
    using assms by (simp_all add: writes_values_def next_input_def left_to_fold_def)
qed

lemma attempt_leaves_fewer:
  assumes "writes_values world" "commit_attempt c world run epoch st (ev_key input) es n db = (Inr a, db')"
    "next_input (hk_store c) run db = Inr (Some input)" "e \<in> set es" "ev_key e = ev_key input"
  shows "left_to_fold (hk_store c) run db' < left_to_fold (hk_store c) run db"
  using append_leaves_fewer [OF _ assms(4) _ assms(5), of c run _ epoch "[ev_key input]" _ "world n db" a db'] assms(2,3)
    writes_values_reads [OF assms(1)]
  by (simp add: commit_attempt_def Let_def)

lemma failed_attempt:
  assumes "commit_attempt c world run epoch st k es n db = (Inl (SE_CasFailed x), db')"
  shows "db' = world n db"
  using assms unfolding commit_attempt_def Let_def by (auto elim: store_append_cases)

lemma commit_leaves_fewer:
  assumes "writes_values world" "commit_input c world run epoch now st (ev_key input) es next_st h = (True, h')"
    "next_input (hk_store c) run (ho_store h) = Inr (Some input)" "e \<in> set es" "ev_key e = ev_key input"
  shows "left_to_fold (hk_store c) run (ho_store h') < left_to_fold (hk_store c) run (ho_store h)"
proof -
  obtain n a db where att: "commit_attempt c world run epoch st (ev_key input) es n db = (Inr a, ho_store h')"
      "db = ho_store h \<or> db = world 0 (ho_store h)"
    using assms(2)
    by (auto simp: commit_input_def Let_def split: prod.splits sum.splits store_error.splits dest!: failed_attempt)
  then show ?thesis
    using attempt_leaves_fewer [OF assms(1) att(1) _ assms(4,5)] assms(3) writes_values_reads [OF assms(1)] by auto
qed

lemma reduce_logs_input: "reduce st input = Some (es, st') \<Longrightarrow> \<exists>e\<in>set es. ev_key e = ev_key input"
  by (auto simp: reduce_def Let_def logged_input_def split: sum.splits)

lemma step_leaves_fewer:
  assumes "writes_values world" "step_input c world run epoch now h = (True, h')"
  shows "left_to_fold (hk_store c) run (ho_store h') < left_to_fold (hk_store c) run (ho_store h)"
proof -
  obtain input st h1 es next_st where s: "next_input (hk_store c) run (ho_store h) = Inr (Some input)"
      "loaded_state c run h = (Some st, h1)" "reduce st input = Some (es, next_st)"
      "commit_input c world run epoch now st (ev_key input) es next_st h1 = (True, h')"
    using assms(2)
    by (auto simp: step_input_def split: sum.splits option.splits event_body.splits prod.splits store_error.splits)
  have "ho_store h1 = ho_store h" using loaded_state_store [of c run h] s(2) by simp
  then show ?thesis
    using commit_leaves_fewer [OF assms(1) s(4)] s(1) reduce_logs_input [OF s(3)] by fastforce
qed

lemma fold_run_stops:
  assumes "writes_values world" "left_to_fold (hk_store c) run (ho_store h) < n"
  shows "fold_run c (\<lambda>_. world) (\<lambda>_. True) run epoch now (n + k) h = fold_run c (\<lambda>_. world) (\<lambda>_. True) run epoch now n h"
  using assms(2)
proof (induction n arbitrary: h)
  case (Suc n)
  have "left_to_fold (hk_store c) run (ho_store h2) < n"
    if "loaded_state c run h = (st, h1)" "step_input c world run epoch now h1 = (True, h2)" for st h1 h2
    using step_leaves_fewer [OF assms(1) that(2)] loaded_state_store [of c run h] that(1) Suc.prems by simp
  with Suc.IH show ?case by (auto split: prod.splits option.splits bool.splits)
qed simp

end
