(* ===== verification/Git_Tree.thy ===== *)
theory Git_Tree
  imports Host_State Host_Compose
begin

text \<open>
  The working directory, from \<^verbatim>\<open>crates/run-host/src/git_tree\<close>: preparing it for a run and parking what a run
  left there. An operation is a program of git calls and of calls on the file system, each with every answer it may get;
  what git does is outside. The bound on a call is part of it. A path is a string without a trailing slash.
\<close>

type_synonym path = string

section \<open>Calls\<close>

datatype tree_stop = TS_Cancelled | TS_DeadlinePassed | TS_LeaseLost | TS_SpawnFailed | TS_OutputUncollected

fun tree_stop_result :: "tree_stop \<Rightarrow> tree_result" where
  "tree_stop_result TS_Cancelled = RS_Refused (TR_Git GR_BoundExceeded) ''the operation was cancelled''"
| "tree_stop_result TS_DeadlinePassed = RS_Refused (TR_Git GR_BoundExceeded) ''the operation's deadline passed''"
| "tree_stop_result TS_LeaseLost = RS_Refused (TR_Git GR_BoundExceeded) ''the owner's lease moved on''"
| "tree_stop_result TS_SpawnFailed = RS_Refused (TR_Git GR_ExitNonzero) ''a child could not be started''"
| "tree_stop_result TS_OutputUncollected = RS_Refused (TR_Git GR_ExitNonzero)
     ''a child's output was not collected: a helper of it still holds a pipe''"

record step_output =
  so_success :: bool
  so_stdout :: bytes
  so_stderr :: bytes

datatype git_bound = GB_Clone | GB_Fetch | GB_Other | GB_Park

datatype stopped = SP_Worker tree_stop | SP_Refused tree_refusal string

datatype git_call =
    GC_Git string path "string list" git_bound \<comment> \<open>step, cwd, args\<close>
  | GC_There path \<comment> \<open>there, even as a link that resolves nowhere\<close>
  | GC_Exists path
  | GC_IsDir path
  | GC_Canonical path
  | GC_Symlink path path \<comment> \<open>target, link\<close>
  | GC_MakeDirs path
  | GC_ReadFile path
  | GC_WriteFile path bytes
  | GC_Rename path path
  | GC_ReadDir path
  | GC_RemoveAll path
  | GC_Locks path
  | GC_Now
  | GC_Mint
  | GC_Bounded path "string list" \<comment> \<open>a git call of the status read, with nobody's ledger behind it\<close>

datatype git_answer =
    GA_Out "tree_stop + step_output"
  | GA_Bool bool
  | GA_Path "string + path"
  | GA_File "string + bytes option"
  | GA_Done "string + unit"
  | GA_Names "string list option"
  | GA_Locks "string list"
  | GA_Now timestamp
  | GA_Id string
  | GA_Read "string + step_output"

datatype 'r git_prog = GRet 'r | GDo git_call "git_answer \<Rightarrow> 'r git_prog"

primrec gbind :: "'a git_prog \<Rightarrow> ('a \<Rightarrow> 'b git_prog) \<Rightarrow> 'b git_prog" where
  "gbind (GRet x) f = f x"
| "gbind (GDo c k) f = GDo c (\<lambda>a. gbind (k a) f)"

text \<open>The question mark of the source.\<close>

definition gtry :: "(stopped + 'a) git_prog \<Rightarrow> ('a \<Rightarrow> (stopped + 'b) git_prog) \<Rightarrow> (stopped + 'b) git_prog" where
  "gtry p f = gbind p (\<lambda>r. case r of Inl e \<Rightarrow> GRet (Inl e) | Inr x \<Rightarrow> f x)"

definition call_git :: "string \<Rightarrow> path \<Rightarrow> string list \<Rightarrow> git_bound \<Rightarrow> (stopped + step_output) git_prog" where
  "call_git step cwd args bound =
     GDo (GC_Git step cwd args bound)
       (\<lambda>a. case a of GA_Out (Inr out) \<Rightarrow> GRet (Inr out) | GA_Out (Inl stop) \<Rightarrow> GRet (Inl (SP_Worker stop))
          | _ \<Rightarrow> GRet (Inl (SP_Worker TS_SpawnFailed)))"

definition ask_bool :: "git_call \<Rightarrow> bool git_prog" where
  "ask_bool c = GDo c (\<lambda>a. case a of GA_Bool b \<Rightarrow> GRet b | _ \<Rightarrow> GRet False)"

definition canonicalize :: "path \<Rightarrow> (string + path) git_prog" where
  "canonicalize p = GDo (GC_Canonical p) (\<lambda>a. case a of GA_Path r \<Rightarrow> GRet r | _ \<Rightarrow> GRet (Inl []))"

definition read_file :: "path \<Rightarrow> (string + bytes option) git_prog" where
  "read_file p = GDo (GC_ReadFile p) (\<lambda>a. case a of GA_File r \<Rightarrow> GRet r | _ \<Rightarrow> GRet (Inl []))"

definition do_file :: "git_call \<Rightarrow> (string + unit) git_prog" where
  "do_file c = GDo c (\<lambda>a. case a of GA_Done r \<Rightarrow> GRet r | _ \<Rightarrow> GRet (Inl []))"

definition read_dir :: "path \<Rightarrow> string list option git_prog" where
  "read_dir p = GDo (GC_ReadDir p) (\<lambda>a. case a of GA_Names r \<Rightarrow> GRet r | _ \<Rightarrow> GRet None)"

definition git_locks :: "path \<Rightarrow> string list git_prog" where
  "git_locks dir = GDo (GC_Locks dir) (\<lambda>a. case a of GA_Locks ls \<Rightarrow> GRet ls | _ \<Rightarrow> GRet [])"

definition git_now :: "timestamp git_prog" where
  "git_now = GDo GC_Now (\<lambda>a. case a of GA_Now t \<Rightarrow> GRet t | _ \<Rightarrow> GRet 0)"

definition git_mint :: "string git_prog" where
  "git_mint = GDo GC_Mint (\<lambda>a. case a of GA_Id i \<Rightarrow> GRet i | _ \<Rightarrow> GRet [])"

section \<open>The runner\<close>

text \<open>What the libraries do with bytes, instants and ulids.\<close>

record git_codec =
  gk_utf8 :: "bytes \<Rightarrow> string option"
  gk_lossy :: "bytes \<Rightarrow> string"
  gk_show_instant :: "timestamp \<Rightarrow> string"
  gk_ulid_ok :: "string \<Rightarrow> bool"

definition trim_start :: "string \<Rightarrow> string" where "trim_start s = dropWhile is_whitespace s"

definition trim :: "string \<Rightarrow> string" where "trim s = rev (trim_start (rev (trim_start s)))"

definition exit_nonzero :: tree_refusal where "exit_nonzero = TR_Git GR_ExitNonzero"

definition failed :: "git_codec \<Rightarrow> string \<Rightarrow> step_output \<Rightarrow> stopped" where
  "failed k step out = SP_Refused exit_nonzero (''git '' @ step @ '': '' @ gk_lossy k (so_stderr out))"

definition line_of :: "git_codec \<Rightarrow> string \<Rightarrow> step_output \<Rightarrow> stopped + string" where
  "line_of k step out =
     (case gk_utf8 k (so_stdout out) of
        Some text \<Rightarrow> Inr (trim text)
      | None \<Rightarrow> Inl (SP_Refused exit_nonzero (''git '' @ step @ '': the answer is not UTF-8'')))"

definition git_ask :: "string \<Rightarrow> path \<Rightarrow> string list \<Rightarrow> (stopped + step_output) git_prog" where
  "git_ask step cwd args = call_git step cwd args GB_Other"

definition git_run :: "git_codec \<Rightarrow> string \<Rightarrow> path \<Rightarrow> string list \<Rightarrow> (stopped + step_output) git_prog" where
  "git_run k step cwd args =
     gtry (git_ask step cwd args) (\<lambda>out. GRet (if so_success out then Inr out else Inl (failed k step out)))"

definition git_text :: "git_codec \<Rightarrow> string \<Rightarrow> path \<Rightarrow> string list \<Rightarrow> (stopped + string) git_prog" where
  "git_text k step cwd args = gtry (git_run k step cwd args) (\<lambda>out. GRet (line_of k step out))"

fun first_sequence :: "path \<Rightarrow> (string \<times> sequence_kind) list \<Rightarrow> sequence_kind option git_prog" where
  "first_sequence git [] = GRet None"
| "first_sequence git ((file, kind) # rest) =
     gbind (ask_bool (GC_Exists (git @ ''/'' @ file))) (\<lambda>there. if there then GRet (Some kind) else first_sequence git rest)"

definition SEQUENCE_FILES :: "(string \<times> sequence_kind) list" where
  "SEQUENCE_FILES =
     [(''MERGE_HEAD'', SK_Merge), (''rebase-merge'', SK_Rebase), (''rebase-apply'', SK_Rebase),
      (''CHERRY_PICK_HEAD'', SK_CherryPick), (''REVERT_HEAD'', SK_Revert), (''BISECT_LOG'', SK_Bisect)]"

definition sequence_in_progress :: "path \<Rightarrow> sequence_kind option git_prog" where
  "sequence_in_progress dir = first_sequence (dir @ ''/.git'') SEQUENCE_FILES"

fun split_once_str :: "string \<Rightarrow> string \<Rightarrow> (string \<times> string) option" where
  "split_once_str sep [] = None"
| "split_once_str sep (x # xs) =
     (case strip_prefix sep (x # xs) of
        Some tail \<Rightarrow> Some ([], tail)
      | None \<Rightarrow> map_option (\<lambda>(h, t). (x # h, t)) (split_once_str sep xs))"

definition ascii_lower :: "char \<Rightarrow> char" where
  "ascii_lower x = (let n = of_char x :: nat in if 65 \<le> n \<and> n \<le> 90 then char_of (n + 32) else x)"

definition host_of :: "string \<Rightarrow> string" where
  "host_of authority = map ascii_lower (rev (takeWhile (\<lambda>x. x \<noteq> CHR ''@'') (rev authority)))"

definition normalise_origin_url :: "string \<Rightarrow> string" where
  "normalise_origin_url raw =
     (let url = trim raw;
          (scheme, rest) = (case split_once_str ''://'' url of Some (s, r) \<Rightarrow> (Some (map ascii_lower s), r) | None \<Rightarrow> (None, url));
          normal =
            (case scheme of
               Some s \<Rightarrow>
                 if s = ''file'' then rest
                 else (case split_once_str ''/'' rest of Some (authority, p) \<Rightarrow> host_of authority @ ''/'' @ p | None \<Rightarrow> host_of rest)
             | None \<Rightarrow>
                 (case split_once_str '':'' rest of
                    Some (authority, p) \<Rightarrow>
                      if CHR ''/'' \<notin> set authority then host_of authority @ ''/'' @ dropWhile (\<lambda>x. x = CHR ''/'') p else rest
                  | None \<Rightarrow> rest));
          bare = rev (dropWhile (\<lambda>x. x = CHR ''/'') (rev normal))
      in if ends_with bare ''.git'' then take (length bare - 4) bare else bare)"

section \<open>Identity\<close>

definition refused_path :: "path \<Rightarrow> path \<Rightarrow> stopped" where
  "refused_path root dir =
     SP_Refused exit_nonzero (dir @ '' or its parent is not there, or the root '' @ root @ '' is not; remedy: mount the volume'')"

definition parent_of :: "path \<Rightarrow> path option" where
  "parent_of p =
     (if p = [] \<or> p = ''/'' then None
      else if CHR ''/'' \<notin> set p then Some []
      else let head = rev (tl (dropWhile (\<lambda>x. x \<noteq> CHR ''/'') (rev p))) in Some (if head = [] then ''/'' else head))"

definition file_name :: "path \<Rightarrow> string" where
  "file_name p = rev (takeWhile (\<lambda>x. x \<noteq> CHR ''/'') (rev p))"

definition parent_and_root_exist :: "path \<Rightarrow> path \<Rightarrow> bool git_prog" where
  "parent_and_root_exist root dir =
     gbind (ask_bool (GC_Exists root)) (\<lambda>r.
     if \<not> r then GRet False
     else case parent_of dir of None \<Rightarrow> GRet False | Some p \<Rightarrow> ask_bool (GC_Exists p))"

record root_identity =
  ri_url :: string
  ri_link :: path
  ri_root :: path

definition root_identity_of :: "git_codec \<Rightarrow> path \<Rightarrow> (stopped + root_identity) git_prog" where
  "root_identity_of k root =
     gtry (git_ask ''origin'' root [''remote'', ''get-url'', ''origin'']) (\<lambda>origin.
     if \<not> so_success origin
     then GRet (Inl (SP_Refused TR_ForeignDirectory
       (''the root '' @ root @ '' has no `origin`; remedy: `git remote add origin <url>` in the root'')))
     else gtry (GRet (line_of k ''origin'' origin)) (\<lambda>url.
       gbind (canonicalize (root @ ''/.nxs'')) (\<lambda>link.
       case link of
         Inl e \<Rightarrow> GRet (Inl (SP_Refused exit_nonzero (''the root's .nxs does not resolve: '' @ e)))
       | Inr l \<Rightarrow>
           gbind (canonicalize root) (\<lambda>r.
           case r of
             Inl e \<Rightarrow> GRet (Inl (SP_Refused exit_nonzero (''the root does not resolve: '' @ e)))
           | Inr rr \<Rightarrow> GRet (Inr \<lparr> ri_url = url, ri_link = l, ri_root = rr \<rparr>)))))"

definition move_aside :: "path \<Rightarrow> string" where
  "move_aside dir = ''remedy: move '' @ dir @ '' aside, and the next prepare clones''"

definition check_link :: "root_identity \<Rightarrow> path \<Rightarrow> (stopped + unit) git_prog" where
  "check_link identity dir =
     gbind (ask_bool (GC_There (dir @ ''/.nxs''))) (\<lambda>there.
     if \<not> there then GRet (Inr ())
     else gbind (canonicalize (dir @ ''/.nxs'')) (\<lambda>link.
       GRet (if link = Inr (ri_link identity) then Inr ()
             else Inl (SP_Refused TR_ForeignDirectory
               (dir @ ''/.nxs is linked to another workspace than the root's; '' @ move_aside dir)))))"

definition check_origin :: "git_codec \<Rightarrow> root_identity \<Rightarrow> path \<Rightarrow> (stopped + unit) git_prog" where
  "check_origin k identity dir =
     gtry (git_ask ''identity'' dir [''remote'', ''get-url'', ''origin'']) (\<lambda>origin.
     if \<not> so_success origin
     then GRet (Inl (SP_Refused TR_ForeignDirectory (dir @ '' has no `origin`; '' @ move_aside dir)))
     else gtry (GRet (line_of k ''identity'' origin)) (\<lambda>url.
       if normalise_origin_url url \<noteq> normalise_origin_url (ri_url identity)
       then GRet (Inl (SP_Refused TR_ForeignDirectory
         (dir @ '' is a clone of another repository than the root's; '' @ move_aside dir @
          '', or `git remote set-url origin` in it if it is the same one'')))
       else GRet (Inr ())))"

definition check_identity :: "git_codec \<Rightarrow> root_identity \<Rightarrow> path \<Rightarrow> (stopped + unit) git_prog" where
  "check_identity k identity dir =
     gbind (canonicalize dir) (\<lambda>d.
     if d = Inr (ri_root identity)
     then GRet (Inl (SP_Refused TR_ForeignDirectory (dir @ '' resolves to the registered root; '' @ move_aside dir)))
     else
       (let not_a_repository = Inl (SP_Refused TR_NotARepository (dir @ '' is not a repository; '' @ move_aside dir)) in
        gbind (ask_bool (GC_IsDir dir)) (\<lambda>is_dir.
        if \<not> is_dir then GRet not_a_repository
        else gtry (git_ask ''identity'' dir [''rev-parse'', ''--git-dir'']) (\<lambda>out.
          if \<not> so_success out then GRet not_a_repository
          else gtry (check_origin k identity dir) (\<lambda>_. check_link identity dir)))))"

section \<open>Saving\<close>

definition PARK_PREFIX :: string where "PARK_PREFIX = ''nxs/park/''"

definition remedy_of :: "sequence_kind \<Rightarrow> string" where
  "remedy_of kind =
     (case kind of
        SK_Merge \<Rightarrow> ''`git merge --abort`'' | SK_Rebase \<Rightarrow> ''`git rebase --abort`''
      | SK_CherryPick \<Rightarrow> ''`git cherry-pick --abort`'' | SK_Revert \<Rightarrow> ''`git revert --abort`''
      | SK_Bisect \<Rightarrow> ''`git bisect reset`'' | SK_Unknown _ \<Rightarrow> ''finishing or aborting the sequence'')"

definition refuse_unfinished :: "path \<Rightarrow> (stopped + unit) git_prog" where
  "refuse_unfinished dir =
     gbind (sequence_in_progress dir) (\<lambda>found.
     case found of
       Some kind \<Rightarrow>
         GRet (Inl (SP_Refused (TR_MidSequence kind)
           (dir @ '' is in the middle of a sequence; remedy: '' @ remedy_of kind @ '' there'')))
     | None \<Rightarrow>
         gbind (git_locks dir) (\<lambda>locks.
         case locks of
           [] \<Rightarrow> GRet (Inr ())
         | lock # _ \<Rightarrow>
             GRet (Inl (SP_Refused (TR_Git GR_LockHeld)
               (dir @ ''/.git/'' @ lock @ '' is there and no child of this engine can answer for it; remedy: remove it once no git runs in '' @ dir)))))"

definition compact :: "git_codec \<Rightarrow> timestamp \<Rightarrow> string" where
  "compact k instant =
     filter (\<lambda>x. x \<noteq> CHR ''-'' \<and> x \<noteq> CHR '':'') (takeWhile (\<lambda>x. x \<noteq> CHR ''.'') (gk_show_instant k instant)) @ ''Z''"

definition is_ascii_whitespace :: "char \<Rightarrow> bool" where
  "is_ascii_whitespace x \<longleftrightarrow> x \<in> {CHR 0x09, CHR 0x0A, CHR 0x0C, CHR 0x0D, CHR '' ''}"

fun identity_fallback :: "path \<Rightarrow> (string \<times> string) list \<Rightarrow> (stopped + string list) git_prog" where
  "identity_fallback dir [] = GRet (Inr [])"
| "identity_fallback dir ((key, fallback) # rest) =
     gtry (git_ask ''identity'' dir [''config'', ''--get'', key]) (\<lambda>set_out.
     gtry (identity_fallback dir rest) (\<lambda>args.
     GRet (Inr ((if \<not> so_success set_out \<or> list_all is_ascii_whitespace (so_stdout set_out)
                 then [''-c'', key @ ''='' @ fallback] else []) @ args))))"

definition FALLBACKS :: "(string \<times> string) list" where
  "FALLBACKS = [(''user.name'', ''nxs''), (''user.email'', ''nxs@localhost'')]"

definition git_commit :: "git_codec \<Rightarrow> run_id \<Rightarrow> path \<Rightarrow> string \<Rightarrow> (stopped + unit) git_prog" where
  "git_commit k run dir occasion =
     gtry (call_git ''add'' dir [''add'', ''-A''] GB_Park) (\<lambda>added.
     if \<not> so_success added then GRet (Inl (failed k ''add'' added))
     else gbind git_now (\<lambda>now.
       gtry (identity_fallback dir FALLBACKS) (\<lambda>fallback.
       gtry (call_git ''commit'' dir (fallback @ [''commit'', ''-q'', ''--no-verify'', ''--no-gpg-sign'', ''-m'',
           ''park of run '' @ run @ '': '' @ occasion @ '' at '' @ gk_show_instant k now]) GB_Park) (\<lambda>committed.
       GRet (if so_success committed then Inr () else Inl (failed k ''commit'' committed))))))"

definition remote_ref :: "string \<Rightarrow> string" where "remote_ref branch = ''refs/remotes/origin/'' @ branch"

definition ahead_of_the_remote :: "git_codec \<Rightarrow> path \<Rightarrow> string \<Rightarrow> string option \<Rightarrow> (stopped + bool) git_prog" where
  "ahead_of_the_remote k dir branch base_ref =
     gtry (git_ask ''ahead'' dir [''rev-parse'', ''-q'', ''--verify'', remote_ref branch @ ''^{commit}'']) (\<lambda>known.
     let from = (if so_success known then Some (remote_ref branch) else base_ref) in
     case from of
       None \<Rightarrow> GRet (Inr True)
     | Some f \<Rightarrow>
         gtry (git_text k ''ahead'' dir [''rev-list'', ''--count'', f @ ''..HEAD'']) (\<lambda>count. GRet (Inr (count \<noteq> ''0''))))"

text \<open>The branch HEAD will be saved on: its own, or a new one, or none when there is nothing to save.\<close>

datatype save_branch = SB_Own string | SB_Fresh string | SB_Nothing "string option"

definition park_branch :: "run_id \<Rightarrow> string" where "park_branch run = ''nxs/park/run-'' @ run @ ''/''"

definition branch_to_save ::
  "git_codec \<Rightarrow> run_id \<Rightarrow> path \<Rightarrow> string option \<Rightarrow> string option \<Rightarrow> bool \<Rightarrow> (stopped + save_branch) git_prog" where
  "branch_to_save k run dir default_b current dirty =
     (let fresh =
        gtry (case default_b of
            Some d \<Rightarrow> gtry (git_ask ''ancestry'' dir [''merge-base'', ''--is-ancestor'', ''HEAD'', remote_ref d]) (\<lambda>out. GRet (Inr (so_success out)))
          | None \<Rightarrow> GRet (Inr False)) (\<lambda>behind_or_at.
        if \<not> dirty \<and> behind_or_at then GRet (Inr (SB_Nothing current))
        else gbind git_now (\<lambda>now.
          let branch = park_branch run @ compact k now in
          gtry (git_run k ''branch'' dir [''checkout'', ''-q'', ''-b'', branch]) (\<lambda>_. GRet (Inr (SB_Fresh branch)))))
      in case current of
           Some branch \<Rightarrow> if Some branch \<noteq> default_b then GRet (Inr (SB_Own branch)) else fresh
         | None \<Rightarrow> fresh)"

definition finish_save ::
  "git_codec \<Rightarrow> run_id \<Rightarrow> path \<Rightarrow> string option \<Rightarrow> string \<Rightarrow> bool \<Rightarrow> string \<Rightarrow> bool \<Rightarrow> (stopped + park_outcome) git_prog" where
  "finish_save k run dir default_b occasion dirty branch fresh =
     gtry (if dirty then git_commit k run dir occasion else GRet (Inr ())) (\<lambda>_.
     gtry (git_text k ''commit'' dir [''rev-parse'', ''HEAD'']) (\<lambda>commit.
     if fresh \<or> starts_with branch (park_branch run) then GRet (Inr (PO_Committed branch commit))
     else gtry (if dirty then GRet (Inr True)
                else if starts_with branch PARK_PREFIX then GRet (Inr False)
                else ahead_of_the_remote k dir branch (map_option remote_ref default_b)) (\<lambda>owes_a_notice.
       GRet (Inr (if owes_a_notice then PO_OnOwnBranch branch commit else PO_Clean (Some branch))))))"

definition save_work ::
  "git_codec \<Rightarrow> run_id \<Rightarrow> path \<Rightarrow> string option \<Rightarrow> string \<Rightarrow> (stopped + park_outcome) git_prog" where
  "save_work k run dir default_b occasion =
     gtry (refuse_unfinished dir) (\<lambda>_.
     gtry (git_ask ''head'' dir [''symbolic-ref'', ''-q'', ''--short'', ''HEAD'']) (\<lambda>head.
     gtry (if so_success head then GRet (case line_of k ''head'' head of Inl e \<Rightarrow> Inl e | Inr l \<Rightarrow> Inr (Some l)) else GRet (Inr None)) (\<lambda>current.
     gtry (git_run k ''status'' dir [''status'', ''--porcelain'']) (\<lambda>st.
     let dirty = (so_stdout st \<noteq> []) in
     gtry (branch_to_save k run dir default_b current dirty) (\<lambda>sb.
     case sb of
       SB_Nothing current \<Rightarrow> GRet (Inr (PO_Clean current))
     | SB_Own branch \<Rightarrow> finish_save k run dir default_b occasion dirty branch False
     | SB_Fresh branch \<Rightarrow> finish_save k run dir default_b occasion dirty branch True)))))"

section \<open>The default branch\<close>

datatype default_branch = DB_Known string | DB_Unset | DB_Dangling string

definition SET_HEAD_REMEDY :: string where
  "SET_HEAD_REMEDY = ''remedy: `git remote set-head origin --auto` in the directory, once the remote has a default branch''"

definition read_default :: "git_codec \<Rightarrow> path \<Rightarrow> (stopped + default_branch) git_prog" where
  "read_default k dir =
     gtry (git_ask ''default'' dir [''symbolic-ref'', ''-q'', ''refs/remotes/origin/HEAD'']) (\<lambda>head.
     if \<not> so_success head then GRet (Inr DB_Unset)
     else gtry (GRet (line_of k ''default'' head)) (\<lambda>full.
       let d = (case strip_prefix ''refs/remotes/origin/'' full of Some r \<Rightarrow> r | None \<Rightarrow> full) in
       gtry (git_ask ''default'' dir [''rev-parse'', ''-q'', ''--verify'', remote_ref d @ ''^{commit}'']) (\<lambda>out.
       GRet (Inr (if so_success out then DB_Known d else DB_Dangling d)))))"

definition default_branch_of :: "git_codec \<Rightarrow> path \<Rightarrow> (stopped + string) git_prog" where
  "default_branch_of k dir =
     gtry (read_default k dir) (\<lambda>r.
     GRet (case r of
         DB_Known d \<Rightarrow> Inr d
       | DB_Unset \<Rightarrow> Inl (SP_Refused exit_nonzero
           (''the clone records no default branch: origin/HEAD is not set, the remote may be empty; '' @ SET_HEAD_REMEDY))
       | DB_Dangling d \<Rightarrow> Inl (SP_Refused exit_nonzero
           (''origin/HEAD is dangling: it names '' @ d @ '', which the remote no longer has; '' @ SET_HEAD_REMEDY))))"

definition known_default :: "git_codec \<Rightarrow> path \<Rightarrow> (stopped + string option) git_prog" where
  "known_default k dir =
     gtry (read_default k dir) (\<lambda>r. GRet (Inr (case r of DB_Known d \<Rightarrow> Some d | _ \<Rightarrow> None)))"

section \<open>Parking\<close>

definition is_a_mismatch :: "stopped \<Rightarrow> bool" where
  "is_a_mismatch s =
     (case s of SP_Refused TR_NotARepository _ \<Rightarrow> True | SP_Refused TR_ForeignDirectory _ \<Rightarrow> True | _ \<Rightarrow> False)"

definition not_held_or :: "stopped \<Rightarrow> stopped + park_outcome" where
  "not_held_or s = (if is_a_mismatch s then Inr PO_NotHeld else Inl s)"

definition park_dir :: "git_codec \<Rightarrow> path \<Rightarrow> run_id \<Rightarrow> path \<Rightarrow> string \<Rightarrow> (stopped + park_outcome) git_prog" where
  "park_dir k root run dir occasion =
     gbind (ask_bool (GC_There dir)) (\<lambda>there.
     if \<not> there
     then gbind (parent_and_root_exist root dir) (\<lambda>ok. GRet (if ok then Inr PO_Missing else Inl (refused_path root dir)))
     else gbind (root_identity_of k root) (\<lambda>r.
       case r of
         Inl s \<Rightarrow> GRet (not_held_or s)
       | Inr identity \<Rightarrow>
           gbind (check_identity k identity dir) (\<lambda>c.
           case c of
             Inl s \<Rightarrow> GRet (not_held_or s)
           | Inr _ \<Rightarrow> gtry (known_default k dir) (\<lambda>d. save_work k run dir d occasion))))"

section \<open>Preparing\<close>

definition EXCLUDED :: "string list" where "EXCLUDED = [''.nxs'', ''.nxf/'']"

definition link_to_root :: "root_identity \<Rightarrow> path \<Rightarrow> (stopped + unit) git_prog" where
  "link_to_root identity dir =
     gbind (ask_bool (GC_There (dir @ ''/.nxs''))) (\<lambda>there.
     if there then GRet (Inr ())
     else gbind (do_file (GC_Symlink (ri_link identity) (dir @ ''/.nxs''))) (\<lambda>r.
       GRet (case r of
           Inr _ \<Rightarrow> Inr ()
         | Inl e \<Rightarrow> Inl (SP_Refused exit_nonzero (dir @ ''/.nxs could not be linked: '' @ e)))))"

definition excluded_text :: "bytes \<Rightarrow> bytes option" where
  "excluded_text text =
     (let held = split_on (CHR 0x0A) text; wanting = filter (\<lambda>line. line \<notin> set held) EXCLUDED in
      if wanting = [] then None
      else Some (text @ (if text \<noteq> [] \<and> last text \<noteq> CHR 0x0A then newline else []) @
        concat (map (\<lambda>line. line @ newline) wanting)))"

definition exclude_try :: "(string + 'a) git_prog \<Rightarrow> ('a \<Rightarrow> (stopped + unit) git_prog) \<Rightarrow> (stopped + unit) git_prog" where
  "exclude_try p f =
     gbind p (\<lambda>r.
     case r of
       Inl e \<Rightarrow> GRet (Inl (SP_Refused exit_nonzero (''the exclude file could not be written: '' @ e)))
     | Inr x \<Rightarrow> f x)"

definition exclude_local_files :: "path \<Rightarrow> (stopped + unit) git_prog" where
  "exclude_local_files dir =
     (let info = dir @ ''/.git/info'' in
      exclude_try (do_file (GC_MakeDirs info)) (\<lambda>_.
      exclude_try (read_file (info @ ''/exclude'')) (\<lambda>found.
      case excluded_text (case found of Some text \<Rightarrow> text | None \<Rightarrow> []) of
        None \<Rightarrow> GRet (Inr ())
      | Some text \<Rightarrow>
          exclude_try (do_file (GC_WriteFile (info @ ''/exclude.nxs-tmp'') text)) (\<lambda>_.
          exclude_try (do_file (GC_Rename (info @ ''/exclude.nxs-tmp'') (info @ ''/exclude''))) (\<lambda>_. GRet (Inr ()))))))"

definition sibling_prefix :: "path \<Rightarrow> string" where "sibling_prefix dir = file_name dir @ ''.cloning-''"

fun remove_siblings :: "path \<Rightarrow> string list \<Rightarrow> (stopped + unit) git_prog" where
  "remove_siblings parent [] = GRet (Inr ())"
| "remove_siblings parent (name # names) =
     gbind (do_file (GC_RemoveAll (parent @ ''/'' @ name))) (\<lambda>r.
     case r of
       Inl e \<Rightarrow> GRet (Inl (SP_Refused exit_nonzero (parent @ ''/'' @ name @ '' could not be removed: '' @ e)))
     | Inr _ \<Rightarrow> remove_siblings parent names)"

definition is_sibling :: "git_codec \<Rightarrow> path \<Rightarrow> string \<Rightarrow> bool" where
  "is_sibling k dir name = is_some_and (strip_prefix (sibling_prefix dir) name) (gk_ulid_ok k)"

definition remove_clone_siblings :: "git_codec \<Rightarrow> path \<Rightarrow> (stopped + unit) git_prog" where
  "remove_clone_siblings k dir =
     (case parent_of dir of
        None \<Rightarrow> GRet (Inr ())
      | Some parent \<Rightarrow>
          gbind (read_dir parent) (\<lambda>entries.
          case entries of
            None \<Rightarrow> GRet (Inr ())
          | Some names \<Rightarrow> remove_siblings parent (filter (is_sibling k dir) names)))"

definition finish_clone :: "git_codec \<Rightarrow> root_identity \<Rightarrow> path \<Rightarrow> (stopped + unit) git_prog" where
  "finish_clone k identity sibling =
     gtry (link_to_root identity sibling) (\<lambda>_.
     gtry (exclude_local_files sibling) (\<lambda>_.
     gtry (default_branch_of k sibling) (\<lambda>d.
     gtry (git_run k ''checkout'' sibling [''checkout'', ''-q'', ''--detach'', remote_ref d]) (\<lambda>_.
     gtry (git_run k ''branch'' sibling [''branch'', ''-q'', ''-D'', d]) (\<lambda>_. GRet (Inr ()))))))"

definition git_clone :: "git_codec \<Rightarrow> root_identity \<Rightarrow> path \<Rightarrow> (stopped + unit) git_prog" where
  "git_clone k identity dir =
     (let parent = (case parent_of dir of Some p \<Rightarrow> p | None \<Rightarrow> ''.'') in
      gbind git_mint (\<lambda>ulid.
      let sibling = parent @ ''/'' @ sibling_prefix dir @ ulid in
      gtry (call_git ''clone'' parent [''clone'', ''-q'', ''--'', ri_url identity, sibling] GB_Clone) (\<lambda>cloned.
      if \<not> so_success cloned then GRet (Inl (failed k ''clone'' cloned))
      else gbind (finish_clone k identity sibling) (\<lambda>finished.
        case finished of
          Inl e \<Rightarrow> gbind (do_file (GC_RemoveAll sibling)) (\<lambda>_. GRet (Inl e))
        | Inr _ \<Rightarrow>
            gbind (do_file (GC_Rename sibling dir)) (\<lambda>r.
            GRet (case r of
                Inr _ \<Rightarrow> Inr ()
              | Inl e \<Rightarrow> Inl (SP_Refused exit_nonzero (sibling @ '' could not be renamed: '' @ e))))))))"

definition earlier_rescue :: "git_codec \<Rightarrow> run_id \<Rightarrow> path \<Rightarrow> (stopped + park_outcome option) git_prog" where
  "earlier_rescue k run dir =
     gtry (git_run k ''rescue'' dir
       [''for-each-ref'', ''--format=%(refname:short) %(objectname)'', ''refs/heads/'' @ park_branch run]) (\<lambda>listed.
     gtry (GRet (line_of k ''rescue'' listed)) (\<lambda>text.
     GRet (Inr (case split_once_str '' '' (last (split_on (CHR 0x0A) text)) of
         Some (branch, commit) \<Rightarrow> Some (PO_Committed branch commit)
       | None \<Rightarrow> None))))"

definition rescue :: "git_codec \<Rightarrow> run_id \<Rightarrow> path \<Rightarrow> string \<Rightarrow> (stopped + park_outcome option) git_prog" where
  "rescue k run dir d =
     gtry (save_work k run dir (Some d) ''found_dirty_at_prepare'') (\<lambda>outcome.
     case outcome of
       PO_Clean _ \<Rightarrow> earlier_rescue k run dir
     | _ \<Rightarrow> GRet (Inr (Some outcome)))"

text \<open>Steps (3) and (4): the remote confirms the base, and the base is checked out.\<close>

definition checkout_base :: "git_codec \<Rightarrow> path \<Rightarrow> park_outcome option \<Rightarrow> (stopped + tree_result) git_prog" where
  "checkout_base k dir found =
     gtry (call_git ''fetch'' dir [''fetch'', ''-q'', ''--prune'', ''origin''] GB_Fetch) (\<lambda>fetched.
     if \<not> so_success fetched
     then GRet (Inl (SP_Refused (TR_Git GR_FetchFailed) (''git fetch: '' @ gk_lossy k (so_stderr fetched))))
     else gtry (default_branch_of k dir) (\<lambda>d.
       gtry (git_run k ''checkout'' dir [''checkout'', ''-q'', ''--detach'', remote_ref d]) (\<lambda>_.
       gtry (git_text k ''base'' dir [''rev-parse'', ''HEAD'']) (\<lambda>commit.
       GRet (Inr (RS_Prepared \<lparr> ba_branch = d, ba_commit = commit \<rparr> found))))))"

definition prepare_dir :: "git_codec \<Rightarrow> path \<Rightarrow> run_id \<Rightarrow> path \<Rightarrow> (stopped + tree_result) git_prog" where
  "prepare_dir k root run dir =
     gbind (parent_and_root_exist root dir) (\<lambda>ok.
     if \<not> ok then GRet (Inl (refused_path root dir))
     else gtry (root_identity_of k root) (\<lambda>identity.
       gtry (remove_clone_siblings k dir) (\<lambda>_.
       gbind (ask_bool (GC_There dir)) (\<lambda>there.
       gtry (if there then GRet (Inr ()) else git_clone k identity dir) (\<lambda>_.
       gtry (check_identity k identity dir) (\<lambda>_.
       gtry (link_to_root identity dir) (\<lambda>_.
       gtry (exclude_local_files dir) (\<lambda>_.
       gtry (default_branch_of k dir) (\<lambda>d.
       gtry (rescue k run dir d) (\<lambda>found.
       checkout_base k dir found))))))))))"

section \<open>An operation\<close>

fun tree_op_dir :: "tree_op \<Rightarrow> path" where
  "tree_op_dir (TO_Prepare _ dir) = dir"
| "tree_op_dir (TO_Park _ dir _) = dir"

definition op_result :: "stopped + tree_result \<Rightarrow> tree_result" where
  "op_result r =
     (case r of
        Inr done \<Rightarrow> done
      | Inl (SP_Worker stop) \<Rightarrow> tree_stop_result stop
      | Inl (SP_Refused reason text) \<Rightarrow> RS_Refused reason (scrub text))"

fun run_op :: "git_codec \<Rightarrow> path \<Rightarrow> tree_op \<Rightarrow> tree_result git_prog" where
  "run_op k root (TO_Prepare run dir) = gbind (prepare_dir k root run dir) (\<lambda>r. GRet (op_result r))"
| "run_op k root (TO_Park run dir occasion) =
     gbind (park_dir k root run dir (outcome_str occasion)) (\<lambda>r. GRet (op_result (case r of Inl s \<Rightarrow> Inl s | Inr p \<Rightarrow> Inr (RS_Parked p))))"

section \<open>The status read\<close>

text \<open>Its error is a text.\<close>

definition bounded :: "path \<Rightarrow> string list \<Rightarrow> (step_output \<Rightarrow> (string + 'a) git_prog) \<Rightarrow> (string + 'a) git_prog" where
  "bounded dir args f =
     GDo (GC_Bounded dir args)
       (\<lambda>a. case a of GA_Read (Inr out) \<Rightarrow> f out | GA_Read (Inl e) \<Rightarrow> GRet (Inl e) | _ \<Rightarrow> GRet (Inl ''git did not start''))"

definition read_state :: "git_codec \<Rightarrow> path \<Rightarrow> path \<Rightarrow> (string + tree_state) git_prog" where
  "read_state k root dir =
     gbind (ask_bool (GC_There dir)) (\<lambda>there.
     if \<not> there
     then gbind (parent_and_root_exist root dir) (\<lambda>ok.
       GRet (if ok then Inr \<lparr> tn_commit = None, tn_branch = None, tn_dirty = False, tn_mid_sequence = False, tn_missing = True \<rparr>
             else Inl ''the directory's parent or the root is not there''))
     else bounded dir [''symbolic-ref'', ''-q'', ''--short'', ''HEAD''] (\<lambda>head.
       bounded dir [''rev-parse'', ''-q'', ''--verify'', ''HEAD''] (\<lambda>commit.
       bounded dir [''status'', ''--porcelain''] (\<lambda>st.
       if \<not> so_success st then GRet (Inl (scrub (gk_lossy k (so_stderr st))))
       else gbind (sequence_in_progress dir) (\<lambda>sequence.
         GRet (Inr \<lparr> tn_commit = (if so_success commit then Some (trim (gk_lossy k (so_stdout commit))) else None),
           tn_branch = (if so_success head then Some (trim (gk_lossy k (so_stdout head))) else None),
           tn_dirty = (so_stdout st \<noteq> []), tn_mid_sequence = (sequence \<noteq> None), tn_missing = False \<rparr>))))))"

end
