(* ===== verification/Git_Safety.thy ===== *)
theory Git_Safety
  imports Git_Tree
begin

text \<open>
  What a tree operation may do when, whatever git and the file system answer and wherever it is stopped. A history is the
  calls made so far with their answers; \<open>gwp\<close> is the weakest condition on it under which a program keeps a guard on
  its calls and ends in a given condition. The locale \<open>guarded\<close> has the laws for guards that stay open once opened.
\<close>

type_synonym history = "(git_call \<times> git_answer) list"

section \<open>Histories\<close>

inductive execution :: "'r git_prog \<Rightarrow> history \<Rightarrow> bool" where
  execution_stops: "execution p []"
| execution_calls: "execution (k a) tr \<Longrightarrow> execution (GDo c k) ((c, a) # tr)"

inductive_cases execution_callE: "execution (GDo c k) tr"
inductive_cases execution_retE: "execution (GRet r) tr"

primrec gwp :: "(history \<Rightarrow> git_call \<Rightarrow> bool) \<Rightarrow> history \<Rightarrow> 'r git_prog \<Rightarrow> (history \<Rightarrow> 'r \<Rightarrow> bool) \<Rightarrow> bool" where
  "gwp ok h (GRet r) Q = Q h r"
| "gwp ok h (GDo c k) Q = (ok h c \<and> (\<forall>a. gwp ok (h @ [(c, a)]) (k a) Q))"

lemma gwp_execution:
  assumes "gwp ok h p Q" "execution p tr" "i < length tr"
  shows "ok (h @ take i tr) (fst (tr ! i))"
  using assms(2,1,3)
proof (induction arbitrary: h i)
  case (execution_calls k a tr c)
  show ?case
  proof (cases i)
    case (Suc j)
    then show ?thesis using execution_calls.IH [of "h @ [(c, a)]" j] execution_calls.prems by simp
  qed (use execution_calls.prems in simp)
qed simp

lemma gwp_gbind [simp]: "gwp ok h (gbind p f) Q = gwp ok h p (\<lambda>h' r. gwp ok h' (f r) Q)"
  by (induction p arbitrary: h) auto

lemma gwp_gtry [simp]:
  "gwp ok h (gtry p f) Q = gwp ok h p (\<lambda>h' r. case r of Inl e \<Rightarrow> Q h' (Inl e) | Inr x \<Rightarrow> gwp ok h' (f x) Q)"
proof -
  have "gwp ok h' (case r of Inl e \<Rightarrow> GRet (Inl e) | Inr x \<Rightarrow> f x) Q = (case r of Inl e \<Rightarrow> Q h' (Inl e) | Inr x \<Rightarrow> gwp ok h' (f x) Q)" for h' r
    by (simp split: sum.split)
  then show ?thesis by (simp add: gtry_def)
qed

text \<open>The condition a program ends in may be weakened, and may speak of how the history has grown.\<close>

lemma gwp_conseq:
  assumes "gwp ok h p Q" "\<And>t r. Q (h @ t) r \<Longrightarrow> R (h @ t) r"
  shows "gwp ok h p R"
  using assms
proof (induction p arbitrary: h)
  case (GRet r)
  then show ?case using GRet.prems(2) [of "[]"] by simp
next
  case (GDo c k)
  have "gwp ok (h @ [(c, a)]) (k a) R" for a
    using GDo.IH [of "k a" "h @ [(c, a)]"] GDo.prems(1) GDo.prems(2) [of "(c, a) # _"] by simp
  then show ?case using GDo.prems(1) by simp
qed

section \<open>Calls that need no guard\<close>

primrec plain :: "(git_call \<Rightarrow> bool) \<Rightarrow> 'r git_prog \<Rightarrow> bool" where
  "plain P (GRet r) = True"
| "plain P (GDo c k) = (P c \<and> (\<forall>a. plain P (k a)))"

lemma plain_gbind [intro]: "plain P p \<Longrightarrow> (\<And>r. plain P (f r)) \<Longrightarrow> plain P (gbind p f)"
  by (induction p) auto

lemma plain_gtry [intro]: "plain P p \<Longrightarrow> (\<And>x. plain P (f x)) \<Longrightarrow> plain P (gtry p f)"
  unfolding gtry_def by (rule plain_gbind) (auto split: sum.split)

lemma plain_if: "(b \<Longrightarrow> plain P x) \<Longrightarrow> (\<not> b \<Longrightarrow> plain P y) \<Longrightarrow> plain P (if b then x else y)"
  by simp

lemmas plain_intros = plain_gbind plain_gtry plain_if

lemma plain_wp:
  assumes "plain P p" "\<And>h' c. P c \<Longrightarrow> ok h' c" "\<And>t r. R (h @ t) r"
  shows "gwp ok h p R"
proof -
  have "gwp ok h p (\<lambda>_ _. True)" using assms(1) by (induction p arbitrary: h) (use assms(2) in auto)
  then show ?thesis by (rule gwp_conseq) (rule assms(3))
qed

text \<open>The calls every program below is made of.\<close>

lemma plain_calls [simp]:
  "plain P (call_git step cwd args bound) = P (GC_Git step cwd args bound)"
  "plain P (ask_bool c) = P c" "plain P (canonicalize p) = P (GC_Canonical p)" "plain P (read_file p) = P (GC_ReadFile p)"
  "plain P (do_file c) = P c" "plain P (read_dir p) = P (GC_ReadDir p)" "plain P (git_locks p) = P (GC_Locks p)"
  "plain P git_now = P GC_Now" "plain P git_mint = P GC_Mint" "plain P (git_ask step cwd args) = P (GC_Git step cwd args GB_Other)"
  by (auto simp: call_git_def ask_bool_def canonicalize_def read_file_def do_file_def read_dir_def git_locks_def git_now_def
      git_mint_def git_ask_def split: git_answer.split sum.split)

lemma plain_git_run [simp]: "plain P (git_run k step cwd args) = P (GC_Git step cwd args GB_Other)"
proof -
  have "plain P (git_run k step cwd args) \<Longrightarrow> P (GC_Git step cwd args GB_Other)"
    by (simp add: git_run_def git_ask_def call_git_def gtry_def)
  moreover have "P (GC_Git step cwd args GB_Other) \<Longrightarrow> plain P (git_run k step cwd args)"
    unfolding git_run_def by (intro plain_gtry) simp_all
  ultimately show ?thesis by blast
qed

lemma plain_git_text [simp]: "P (GC_Git step cwd args GB_Other) \<Longrightarrow> plain P (git_text k step cwd args)"
  unfolding git_text_def by (intro plain_gtry) simp_all

section \<open>Guards\<close>

locale guarded =
  fixes ok :: "history \<Rightarrow> git_call \<Rightarrow> bool" and free :: "git_call \<Rightarrow> bool"
  assumes free_ok: "free c \<Longrightarrow> ok h c"
    and ok_grows: "ok h c \<Longrightarrow> ok (h @ t) c"
begin

lemma open_wp:
  assumes "\<And>c. ok h c" "\<And>t r. R (h @ t) r"
  shows "gwp ok h p R"
proof -
  have "gwp ok h p (\<lambda>_ _. True)" using assms(1)
  proof (induction p arbitrary: h)
    case (GDo c k)
    have "ok (h @ [(c, a)]) c'" for a c' using GDo.prems by (rule ok_grows)
    then show ?case using GDo by simp
  qed simp
  then show ?thesis by (rule gwp_conseq) (rule assms(2))
qed

lemma free_wp: "plain free p \<Longrightarrow> (\<And>t r. R (h @ t) r) \<Longrightarrow> gwp ok h p R"
  by (rule plain_wp [where P = free]) (auto intro: free_ok)

text \<open>A git call, a question and a path, told by what the history then holds.\<close>

lemma ask_wp:
  assumes "free (GC_Git step cwd args GB_Other)" "\<And>a s. R (h @ [(GC_Git step cwd args GB_Other, a)]) (Inl s)"
    "\<And>out. R (h @ [(GC_Git step cwd args GB_Other, GA_Out (Inr out))]) (Inr out)"
  shows "gwp ok h (git_ask step cwd args) R"
  using assms by (auto simp: git_ask_def call_git_def intro: free_ok split: git_answer.split sum.split)

lemma ask_bool_wp:
  assumes "free c" "\<And>a. R (h @ [(c, a)]) (a = GA_Bool True)"
  shows "gwp ok h (ask_bool c) R"
proof -
  have "gwp ok (h @ [(c, a)]) (case a of GA_Bool b \<Rightarrow> GRet b | _ \<Rightarrow> GRet False) R" for a
    using assms(2) [of a] by (cases a) simp_all
  then show ?thesis using free_ok [OF assms(1)] by (simp add: ask_bool_def)
qed

lemma canonicalize_wp:
  assumes "free (GC_Canonical p)" "\<And>a r. a = GA_Path r \<or> isl r \<and> (\<forall>x. a \<noteq> GA_Path x) \<Longrightarrow> R (h @ [(GC_Canonical p, a)]) r"
  shows "gwp ok h (canonicalize p) R"
  using assms by (auto simp: canonicalize_def intro: free_ok split: git_answer.split)

end

section \<open>Whose directory it is\<close>

text \<open>The git calls that only read.\<close>

definition READERS :: "string list" where
  "READERS = [''remote'', ''rev-parse'', ''symbolic-ref'', ''config'', ''status'', ''merge-base'', ''rev-list'', ''for-each-ref'']"

definition reads :: "string list \<Rightarrow> bool" where
  "reads args \<longleftrightarrow> args \<noteq> [] \<and> hd args \<in> set READERS"

definition under :: "path \<Rightarrow> path \<Rightarrow> bool" where
  "under dir p \<longleftrightarrow> p = dir \<or> starts_with p (dir @ ''/'')"

text \<open>The calls that may change what is in a directory, and the one that puts a directory in its place.\<close>

fun touches :: "path \<Rightarrow> git_call \<Rightarrow> bool" where
  "touches dir (GC_Git step cwd args bound) = (under dir cwd \<and> \<not> reads args)"
| "touches dir (GC_Symlink target link) = under dir link"
| "touches dir (GC_MakeDirs p) = under dir p"
| "touches dir (GC_WriteFile p text) = under dir p"
| "touches dir (GC_Rename from to) = (under dir from \<or> under dir to \<and> to \<noteq> dir)"
| "touches dir (GC_RemoveAll p) = under dir p"
| "touches dir _ = False"

fun lands_on :: "path \<Rightarrow> git_call \<Rightarrow> bool" where
  "lands_on dir (GC_Rename from to) = (to = dir)"
| "lands_on dir _ = False"

abbreviation origin_call :: "string \<Rightarrow> path \<Rightarrow> git_call" where
  "origin_call step dir \<equiv> GC_Git step dir [''remote'', ''get-url'', ''origin''] GB_Other"

definition root_known :: "git_codec \<Rightarrow> path \<Rightarrow> root_identity \<Rightarrow> history \<Rightarrow> bool" where
  "root_known k root ri h \<longleftrightarrow>
     (\<exists>out. (origin_call ''origin'' root, GA_Out (Inr out)) \<in> set h \<and> so_success out \<and> line_of k ''origin'' out = Inr (ri_url ri)) \<and>
     (GC_Canonical (root @ ''/.nxs''), GA_Path (Inr (ri_link ri))) \<in> set h \<and>
     (GC_Canonical root, GA_Path (Inr (ri_root ri))) \<in> set h"

definition same_origin :: "git_codec \<Rightarrow> root_identity \<Rightarrow> path \<Rightarrow> history \<Rightarrow> bool" where
  "same_origin k ri dir h \<longleftrightarrow>
     (\<exists>out url. (origin_call ''identity'' dir, GA_Out (Inr out)) \<in> set h \<and> so_success out \<and> line_of k ''identity'' out = Inr url \<and>
        normalise_origin_url url = normalise_origin_url (ri_url ri))"

definition same_link :: "root_identity \<Rightarrow> path \<Rightarrow> history \<Rightarrow> bool" where
  "same_link ri dir h \<longleftrightarrow>
     (\<exists>a. (GC_There (dir @ ''/.nxs''), a) \<in> set h \<and> a \<noteq> GA_Bool True) \<or>
     (GC_Canonical (dir @ ''/.nxs''), GA_Path (Inr (ri_link ri))) \<in> set h"

definition not_the_root :: "root_identity \<Rightarrow> path \<Rightarrow> history \<Rightarrow> bool" where
  "not_the_root ri dir h \<longleftrightarrow> (\<exists>a. (GC_Canonical dir, a) \<in> set h \<and> a \<noteq> GA_Path (Inr (ri_root ri)))"

definition ours :: "git_codec \<Rightarrow> path \<Rightarrow> path \<Rightarrow> history \<Rightarrow> bool" where
  "ours k root dir h \<longleftrightarrow>
     (\<exists>ri. root_known k root ri h \<and> not_the_root ri dir h \<and> same_origin k ri dir h \<and> same_link ri dir h)"

definition seen_absent :: "path \<Rightarrow> history \<Rightarrow> bool" where
  "seen_absent dir h \<longleftrightarrow> (\<exists>a. (GC_There dir, a) \<in> set h \<and> a \<noteq> GA_Bool True)"

definition touch_guard :: "git_codec \<Rightarrow> path \<Rightarrow> path \<Rightarrow> history \<Rightarrow> git_call \<Rightarrow> bool" where
  "touch_guard k root dir h c \<longleftrightarrow> (touches dir c \<longrightarrow> ours k root dir h) \<and> (lands_on dir c \<longrightarrow> seen_absent dir h)"

definition harmless :: "path \<Rightarrow> git_call \<Rightarrow> bool" where
  "harmless dir c \<longleftrightarrow> \<not> touches dir c \<and> \<not> lands_on dir c"

lemmas identity_defs = root_known_def same_origin_def same_link_def not_the_root_def

lemma identity_grows:
  "root_known k root ri h \<Longrightarrow> root_known k root ri (h @ t)" "same_origin k ri dir h \<Longrightarrow> same_origin k ri dir (h @ t)"
  "same_link ri dir h \<Longrightarrow> same_link ri dir (h @ t)" "not_the_root ri dir h \<Longrightarrow> not_the_root ri dir (h @ t)"
  "seen_absent dir h \<Longrightarrow> seen_absent dir (h @ t)"
  by (auto simp: identity_defs seen_absent_def)

lemma ours_grows: "ours k root dir h \<Longrightarrow> ours k root dir (h @ t)"
  unfolding ours_def using identity_grows by blast

interpretation touch: guarded "touch_guard k root dir" "harmless dir" for k root dir
  by unfold_locales (auto simp: touch_guard_def harmless_def intro: ours_grows identity_grows)

lemma harmless_calls [simp]:
  "harmless dir (GC_There p)" "harmless dir (GC_Exists p)" "harmless dir (GC_IsDir p)" "harmless dir (GC_Canonical p)"
  "harmless dir (GC_ReadFile p)" "harmless dir (GC_ReadDir p)" "harmless dir (GC_Locks p)" "harmless dir GC_Now" "harmless dir GC_Mint"
  "harmless dir (GC_Git step cwd args bound) = (under dir cwd \<longrightarrow> reads args)"
  by (simp_all add: harmless_def)

lemma reads_readers [simp]:
  "reads (''remote'' # args)" "reads (''rev-parse'' # args)" "reads (''symbolic-ref'' # args)" "reads (''config'' # args)"
  "reads (''status'' # args)" "reads (''merge-base'' # args)" "reads (''rev-list'' # args)" "reads (''for-each-ref'' # args)"
  by (simp_all add: reads_def READERS_def)

text \<open>What a success of each check leaves in the history.\<close>

abbreviation on_success :: "(history \<Rightarrow> 'a \<Rightarrow> bool) \<Rightarrow> history \<Rightarrow> stopped + 'a \<Rightarrow> bool" where
  "on_success R h r \<equiv> (case r of Inl _ \<Rightarrow> True | Inr x \<Rightarrow> R h x)"

lemma root_identity_wp:
  "gwp (touch_guard k root dir) h (root_identity_of k root) (on_success (\<lambda>h' ri. root_known k root ri h'))"
  unfolding root_identity_of_def
  by (auto intro!: touch.ask_wp touch.canonicalize_wp simp: root_known_def split: sum.split)

lemma check_link_wp:
  "gwp (touch_guard k root dir) h (check_link ri dir) (on_success (\<lambda>h' _. same_link ri dir h'))"
  unfolding check_link_def
  by (auto intro!: touch.ask_bool_wp touch.canonicalize_wp simp: same_link_def split: sum.split)

lemma check_origin_wp:
  "gwp (touch_guard k root dir) h (check_origin k ri dir) (on_success (\<lambda>h' _. same_origin k ri dir h'))"
  unfolding check_origin_def
  by (auto intro!: touch.ask_wp simp: same_origin_def split: sum.split)

lemma check_identity_wp:
  assumes "root_known k root ri h"
  shows "gwp (touch_guard k root dir) h (check_identity k ri dir) (on_success (\<lambda>h' _. ours k root dir h'))"
proof -
  have link: "gwp (touch_guard k root dir) h' (check_link ri dir) (on_success (\<lambda>h'' _. ours k root dir h''))"
    if "root_known k root ri h'" "not_the_root ri dir h'" "same_origin k ri dir h'" for h'
    by (rule gwp_conseq [OF check_link_wp]) (use that identity_grows in \<open>fastforce simp: ours_def split: sum.splits\<close>)
  have origin: "gwp (touch_guard k root dir) h' (gtry (check_origin k ri dir) (\<lambda>_. check_link ri dir)) (on_success (\<lambda>h'' _. ours k root dir h''))"
    if "root_known k root ri h'" "not_the_root ri dir h'" for h'
    unfolding gwp_gtry
    by (rule gwp_conseq [OF check_origin_wp]) (use that identity_grows link in \<open>fastforce split: sum.splits\<close>)
  have repository: "gwp (touch_guard k root dir) h' (gtry (git_ask ''identity'' dir [''rev-parse'', ''--git-dir'']) (\<lambda>out.
      if \<not> so_success out then GRet (Inl s) else gtry (check_origin k ri dir) (\<lambda>_. check_link ri dir))) (on_success (\<lambda>h'' _. ours k root dir h''))"
    if "root_known k root ri h'" "not_the_root ri dir h'" for h' s
    unfolding gwp_gtry [of _ _ "git_ask _ _ _"]
    by (rule touch.ask_wp) (use that origin identity_grows in \<open>simp_all del: gwp_gtry\<close>)
  have known: "root_known k root ri (h @ t)" "a \<noteq> GA_Path (Inr (ri_root ri)) \<Longrightarrow> not_the_root ri dir (h @ (GC_Canonical dir, a) # t)" for a t
    using assms identity_grows by (auto simp: not_the_root_def)
  have rest: "gwp (touch_guard k root dir) (h @ [(GC_Canonical dir, a)]) (gbind (ask_bool (GC_IsDir dir)) (\<lambda>is_dir.
      if \<not> is_dir then GRet (Inl s) else gtry (git_ask ''identity'' dir [''rev-parse'', ''--git-dir'']) (\<lambda>out.
      if \<not> so_success out then GRet (Inl s) else gtry (check_origin k ri dir) (\<lambda>_. check_link ri dir)))) (on_success (\<lambda>h'' _. ours k root dir h''))"
    if "a \<noteq> GA_Path (Inr (ri_root ri))" for a s
    unfolding gwp_gbind by (rule touch.ask_bool_wp) (use that known repository in \<open>simp_all del: gwp_gtry\<close>)
  show ?thesis
    unfolding check_identity_def Let_def gwp_gbind [of _ _ "canonicalize dir"]
    by (rule touch.canonicalize_wp) (use rest in \<open>auto simp del: gwp_gtry gwp_gbind\<close>)
qed

section \<open>The parts of a prepare\<close>

lemma plain_parent_and_root: "(\<And>p. P (GC_Exists p)) \<Longrightarrow> plain P (parent_and_root_exist root dir)"
  unfolding parent_and_root_exist_def by (intro plain_gbind) (auto split: option.split)

lemma plain_link: "P (GC_There (d @ ''/.nxs'')) \<Longrightarrow> (\<And>x. P (GC_Symlink x (d @ ''/.nxs''))) \<Longrightarrow> plain P (link_to_root ri d)"
  unfolding link_to_root_def by (intro plain_gbind) (auto split: sum.split)

lemma plain_exclude_try: "plain P p \<Longrightarrow> (\<And>x. plain P (f x)) \<Longrightarrow> plain P (exclude_try p f)"
  unfolding exclude_try_def by (rule plain_gbind) (auto split: sum.split)

abbreviation exclude_file :: "path \<Rightarrow> path" where
  "exclude_file d \<equiv> (d @ ''/.git/info'') @ ''/exclude''"

abbreviation exclude_temp :: "path \<Rightarrow> path" where
  "exclude_temp d \<equiv> (d @ ''/.git/info'') @ ''/exclude.nxs-tmp''"

lemma plain_exclude:
  assumes "P (GC_MakeDirs (d @ ''/.git/info''))" "\<And>p. P (GC_ReadFile p)" "\<And>text. P (GC_WriteFile (exclude_temp d) text)"
    "P (GC_Rename (exclude_temp d) (exclude_file d))"
  shows "plain P (exclude_local_files d)"
proof -
  have "plain P (case excluded_text x of None \<Rightarrow> GRet (Inr ()) | Some text \<Rightarrow>
      exclude_try (do_file (GC_WriteFile (exclude_temp d) text)) (\<lambda>_.
      exclude_try (do_file (GC_Rename (exclude_temp d) (exclude_file d))) (\<lambda>_. GRet (Inr ()))))" for x
    using assms(3,4) by (auto intro!: plain_exclude_try split: option.split)
  then show ?thesis
    unfolding exclude_local_files_def Let_def by (intro plain_exclude_try) (simp_all add: assms(1,2))
qed

lemma plain_read_default:
  "(\<And>args. reads args \<Longrightarrow> P (GC_Git ''default'' d args GB_Other)) \<Longrightarrow> plain P (read_default k d)"
  unfolding read_default_def Let_def by (intro plain_intros) simp_all

lemma plain_default_branch:
  "(\<And>args. reads args \<Longrightarrow> P (GC_Git ''default'' d args GB_Other)) \<Longrightarrow> plain P (default_branch_of k d)"
  "(\<And>args. reads args \<Longrightarrow> P (GC_Git ''default'' d args GB_Other)) \<Longrightarrow> plain P (known_default k d)"
  unfolding default_branch_of_def known_default_def by (intro plain_gtry plain_read_default; simp)+

lemma plain_finish_clone:
  assumes "P (GC_There (d @ ''/.nxs''))" "\<And>x. P (GC_Symlink x (d @ ''/.nxs''))" "P (GC_MakeDirs (d @ ''/.git/info''))" "\<And>p. P (GC_ReadFile p)"
    "\<And>text. P (GC_WriteFile (exclude_temp d) text)" "P (GC_Rename (exclude_temp d) (exclude_file d))" "\<And>step args b. P (GC_Git step d args b)"
  shows "plain P (finish_clone k ri d)"
  unfolding finish_clone_def
  by (intro plain_gtry plain_link plain_exclude plain_default_branch) (simp_all only: assms plain_git_run plain.simps)

text \<open>A directory in its parent, and the sibling it is cloned into.\<close>

definition placed :: "path \<Rightarrow> path \<Rightarrow> string \<Rightarrow> bool" where
  "placed dir parent name \<longleftrightarrow> dir = parent @ ''/'' @ name \<and> parent \<noteq> [] \<and> CHR ''/'' \<notin> set name"

lemma placed_parent:
  assumes "placed dir parent name"
  shows "parent_of dir = Some parent"
proof -
  have "dropWhile (\<lambda>x. x \<noteq> CHR ''/'') (rev name @ CHR ''/'' # rev parent) = CHR ''/'' # rev parent"
    using assms unfolding placed_def by (subst dropWhile_append2) auto
  moreover have "dir \<noteq> []" "dir \<noteq> ''/''" using assms by (auto simp: placed_def append_eq_Cons_conv)
  ultimately show ?thesis using assms by (simp add: parent_of_def placed_def Let_def)
qed

lemma placed_sibling:
  assumes "placed dir parent name"
  shows "parent @ ''/'' @ sibling_prefix dir @ u = dir @ ''.cloning-'' @ u"
proof -
  have "takeWhile (\<lambda>x. x \<noteq> CHR ''/'') (rev name @ CHR ''/'' # rev parent) = rev name"
    using assms unfolding placed_def by (subst takeWhile_append2) auto
  then show ?thesis using assms by (simp add: sibling_prefix_def file_name_def placed_def)
qed

lemma sibling_outside: "\<not> under dir (dir @ ''.cloning-'' @ u)"
  by (auto simp: under_def starts_with_iff)

lemma placed_parent_outside: "placed dir parent name \<Longrightarrow> \<not> under dir parent"
  by (auto simp: placed_def under_def starts_with_iff dest: arg_cong [of _ _ length])

lemma outside [simp]: "\<not> under dir (dir @ CHR ''.'' # s)"
  by (auto simp: under_def starts_with_iff)

lemma plain_remove_siblings:
  "(\<And>n. n \<in> set names \<Longrightarrow> P (GC_RemoveAll (parent @ ''/'' @ n))) \<Longrightarrow> plain P (remove_siblings parent names)"
  by (induction names) (auto intro!: plain_gbind split: sum.split)

lemma plain_remove_clone_siblings:
  assumes "placed dir parent name" "P (GC_ReadDir parent)" "\<And>u. P (GC_RemoveAll (dir @ ''.cloning-'' @ u))"
  shows "plain P (remove_clone_siblings k dir)"
proof -
  have "P (GC_RemoveAll (parent @ ''/'' @ n))" if sib: "is_sibling k dir n" for n
  proof -
    obtain u where "n = sibling_prefix dir @ u" using sib by (auto simp: is_sibling_def is_some_and_def strip_prefix_Some_iff split: option.splits)
    then show ?thesis using assms(3) by (simp only: placed_sibling [OF assms(1)])
  qed
  then show ?thesis
    unfolding remove_clone_siblings_def placed_parent [OF assms(1)] option.case
    by (intro plain_gbind) (auto intro: plain_remove_siblings simp: assms(2) split: option.split)
qed

lemma plain_clone:
  assumes "placed dir parent name"
  shows "plain (\<lambda>c. \<not> touches dir c) (git_clone k ri dir)"
  unfolding git_clone_def placed_parent [OF assms] option.case Let_def placed_sibling [OF assms]
  by (intro plain_intros plain_finish_clone)
     (use placed_parent_outside [OF assms] in \<open>auto intro!: plain_gbind split: sum.split\<close>)

section \<open>The parts of a save\<close>

lemma plain_sequences: "(\<And>p. P (GC_Exists p)) \<Longrightarrow> plain P (first_sequence git files)"
  by (induction git files rule: first_sequence.induct) (auto intro!: plain_intros)

lemma plain_unfinished: "(\<And>p. P (GC_Exists p)) \<Longrightarrow> P (GC_Locks dir) \<Longrightarrow> plain P (refuse_unfinished dir)"
  unfolding refuse_unfinished_def sequence_in_progress_def
  by (intro plain_gbind plain_sequences) (auto intro!: plain_gbind split: option.split list.split)

lemma plain_fallback: "(\<And>step args b. P (GC_Git step dir args b)) \<Longrightarrow> plain P (identity_fallback dir fs)"
  by (induction dir fs rule: identity_fallback.induct) (auto intro!: plain_gtry)

lemma plain_commit: "(\<And>step args b. P (GC_Git step dir args b)) \<Longrightarrow> P GC_Now \<Longrightarrow> plain P (git_commit k run dir occasion)"
  unfolding git_commit_def by (intro plain_intros plain_fallback) simp_all

lemma plain_ahead: "(\<And>step args b. P (GC_Git step dir args b)) \<Longrightarrow> plain P (ahead_of_the_remote k dir branch base_ref)"
  unfolding ahead_of_the_remote_def Let_def by (intro plain_intros) (auto intro!: plain_intros split: option.split)

lemma plain_branch: "(\<And>step args b. P (GC_Git step dir args b)) \<Longrightarrow> P GC_Now \<Longrightarrow> plain P (branch_to_save k run dir d current dirty)"
  unfolding branch_to_save_def Let_def by (auto intro!: plain_intros split: option.split)

lemma plain_finish_save:
  "(\<And>step args b. P (GC_Git step dir args b)) \<Longrightarrow> P GC_Now \<Longrightarrow> plain P (finish_save k run dir d occasion dirty branch fresh)"
  unfolding finish_save_def by (intro plain_intros plain_commit plain_ahead) simp_all

lemma plain_save_work:
  assumes "\<And>step args b. P (GC_Git step dir args b)" "P GC_Now" "\<And>p. P (GC_Exists p)" "P (GC_Locks dir)"
  shows "plain P (save_work k run dir d occasion)"
  unfolding save_work_def Let_def
  by (intro plain_intros plain_unfinished plain_branch) (auto simp: assms intro!: plain_finish_save split: save_branch.split)

lemma plain_rescue:
  assumes "\<And>step args b. P (GC_Git step dir args b)" "P GC_Now" "\<And>p. P (GC_Exists p)" "P (GC_Locks dir)"
  shows "plain P (rescue k run dir d)"
  unfolding rescue_def earlier_rescue_def
  by (intro plain_gtry plain_save_work) (auto simp: assms intro!: plain_gtry split: park_outcome.split)

lemma plain_checkout_base: "(\<And>step args b. P (GC_Git step dir args b)) \<Longrightarrow> plain P (checkout_base k dir found)"
  unfolding checkout_base_def by (intro plain_intros plain_default_branch) simp_all

section \<open>Only a directory of its own is touched\<close>

lemma absent_wp:
  assumes "plain (\<lambda>c. \<not> touches dir c) p" "seen_absent dir h" "\<And>t r. R (h @ t) r"
  shows "gwp (touch_guard k root dir) h p R"
proof -
  have "gwp (touch_guard k root dir) h p (\<lambda>_ _. True)" using assms(1,2)
    by (induction p arbitrary: h) (auto simp: touch_guard_def intro: identity_grows)
  then show ?thesis by (rule gwp_conseq) (rule assms(3))
qed

lemma ours_wp:
  assumes "plain (\<lambda>c. \<not> lands_on dir c) p" "ours k root dir h"
  shows "gwp (touch_guard k root dir) h p (\<lambda>_ _. True)"
  using assms by (induction p arbitrary: h) (auto simp: touch_guard_def intro: ours_grows)

lemma prepare_ours_wp:
  assumes "root_known k root ri h"
  shows "gwp (touch_guard k root dir) h (gtry (check_identity k ri dir) (\<lambda>_. gtry (link_to_root ri dir) (\<lambda>_. gtry (exclude_local_files dir) (\<lambda>_.
    gtry (default_branch_of k dir) (\<lambda>d. gtry (rescue k run dir d) (checkout_base k dir)))))) (\<lambda>_ _. True)"
proof -
  have "plain (\<lambda>c. \<not> lands_on dir c) (gtry (link_to_root ri dir) (\<lambda>_. gtry (exclude_local_files dir) (\<lambda>_.
      gtry (default_branch_of k dir) (\<lambda>d. gtry (rescue k run dir d) (checkout_base k dir)))))"
    by (intro plain_gtry plain_link plain_exclude plain_default_branch plain_rescue plain_checkout_base) simp_all
  then show ?thesis
    unfolding gwp_gtry [of _ _ "check_identity _ _ _"]
    by (intro gwp_conseq [OF check_identity_wp [OF assms]]) (auto split: sum.splits intro: ours_wp simp del: gwp_gtry)
qed

text \<open>A prepare from the moment the root is known: put in place what is missing, then work on it.\<close>

abbreviation prepare_own :: "git_codec \<Rightarrow> run_id \<Rightarrow> path \<Rightarrow> root_identity \<Rightarrow> (stopped + tree_result) git_prog" where
  "prepare_own k run dir ri \<equiv> gtry (check_identity k ri dir) (\<lambda>_. gtry (link_to_root ri dir) (\<lambda>_. gtry (exclude_local_files dir) (\<lambda>_.
    gtry (default_branch_of k dir) (\<lambda>d. gtry (rescue k run dir d) (checkout_base k dir)))))"

abbreviation prepare_place :: "git_codec \<Rightarrow> run_id \<Rightarrow> path \<Rightarrow> root_identity \<Rightarrow> (stopped + tree_result) git_prog" where
  "prepare_place k run dir ri \<equiv> gbind (ask_bool (GC_There dir)) (\<lambda>there.
    gtry (if there then GRet (Inr ()) else git_clone k ri dir) (\<lambda>_. prepare_own k run dir ri))"

lemma prepare_place_wp:
  assumes "placed dir parent name" "root_known k root ri h"
  shows "gwp (touch_guard k root dir) h (prepare_place k run dir ri) (\<lambda>_ _. True)"
  unfolding gwp_gbind
proof (rule touch.ask_bool_wp)
  fix a
  let ?h = "h @ [(GC_There dir, a)]"
  have known: "root_known k root ri (?h @ t)" for t using assms(2) identity_grows(1) by (metis append.assoc)
  show "gwp (touch_guard k root dir) ?h (gtry (if a = GA_Bool True then GRet (Inr ()) else git_clone k ri dir) (\<lambda>_. prepare_own k run dir ri)) (\<lambda>_ _. True)"
  proof (cases "a = GA_Bool True")
    case True
    then show ?thesis using prepare_ours_wp known [of "[]"] unfolding gwp_gtry [of _ _ "if _ then _ else _"] by (simp del: gwp_gtry)
  next
    case False
    then have "seen_absent dir ?h" by (auto simp: seen_absent_def)
    then show ?thesis using False known prepare_ours_wp unfolding gwp_gtry [of _ _ "if _ then _ else _"]
      by (auto intro!: absent_wp [OF plain_clone [OF assms(1)]] split: sum.split simp del: gwp_gtry)
  qed
qed simp

lemma prepare_touch:
  assumes "placed dir parent name"
  shows "gwp (touch_guard k root dir) [] (prepare_dir k root run dir) (\<lambda>_ _. True)"
proof -
  have siblings: "gwp (touch_guard k root dir) h (gtry (remove_clone_siblings k dir) (\<lambda>_. prepare_place k run dir ri)) (\<lambda>_ _. True)"
    if "root_known k root ri h" for h ri
    unfolding gwp_gtry [of _ _ "remove_clone_siblings _ _"] using prepare_place_wp [OF assms] identity_grows(1) [OF that]
    by (intro touch.free_wp plain_remove_clone_siblings [OF assms]) (auto simp: harmless_def split: sum.split simp del: gwp_gtry gwp_gbind)
  have "gwp (touch_guard k root dir) h (gtry (root_identity_of k root) (\<lambda>ri. gtry (remove_clone_siblings k dir) (\<lambda>_. prepare_place k run dir ri))) (\<lambda>_ _. True)" for h
    unfolding gwp_gtry [of _ _ "root_identity_of _ _"]
    by (rule gwp_conseq [OF root_identity_wp]) (use siblings in \<open>auto split: sum.splits simp del: gwp_gtry gwp_gbind\<close>)
  then show ?thesis
    unfolding prepare_dir_def gwp_gbind [of _ _ "parent_and_root_exist _ _"]
    by (intro touch.free_wp [OF plain_parent_and_root]) (simp_all del: gwp_gtry gwp_gbind)
qed

lemma park_touch: "gwp (touch_guard k root dir) [] (park_dir k root run dir occasion) (\<lambda>_ _. True)"
proof -
  have save: "gwp (touch_guard k root dir) h (gtry (known_default k dir) (\<lambda>d. save_work k run dir d occasion)) (\<lambda>_ _. True)"
    if "ours k root dir h" for h
    by (rule ours_wp [OF _ that]) (intro plain_gtry plain_default_branch plain_save_work; simp)
  have check: "gwp (touch_guard k root dir) h (gbind (check_identity k ri dir) (\<lambda>c. case c of Inl s \<Rightarrow> GRet (not_held_or s)
      | Inr _ \<Rightarrow> gtry (known_default k dir) (\<lambda>d. save_work k run dir d occasion))) (\<lambda>_ _. True)" if "root_known k root ri h" for ri h
    unfolding gwp_gbind by (rule gwp_conseq [OF check_identity_wp [OF that]]) (auto simp del: gwp_gtry split: sum.splits intro: save)
  have root: "gwp (touch_guard k root dir) h (gbind (root_identity_of k root) (\<lambda>r. case r of Inl s \<Rightarrow> GRet (not_held_or s)
      | Inr ri \<Rightarrow> gbind (check_identity k ri dir) (\<lambda>c. case c of Inl s \<Rightarrow> GRet (not_held_or s)
      | Inr _ \<Rightarrow> gtry (known_default k dir) (\<lambda>d. save_work k run dir d occasion)))) (\<lambda>_ _. True)" for h
    unfolding gwp_gbind [of _ _ "root_identity_of _ _"]
    by (rule gwp_conseq [OF root_identity_wp]) (auto simp del: gwp_gtry gwp_gbind split: sum.splits intro: check)
  have missing: "plain (harmless dir) (gbind (parent_and_root_exist root dir) (\<lambda>ok. GRet (if ok then Inr PO_Missing else Inl (refused_path root dir))))"
    by (intro plain_gbind plain_parent_and_root) simp_all
  show ?thesis
    unfolding park_dir_def gwp_gbind [of _ _ "ask_bool _"]
    by (rule touch.ask_bool_wp) (use root touch.free_wp [OF missing] in \<open>auto simp del: gwp_gtry gwp_gbind\<close>)
qed

end
