(* ===== verification/Git_Keep.thy ===== *)
theory Git_Keep
  imports Git_Safety
begin

text \<open>
  No work is lost: the base is checked out over a tree only when what it held is on a branch, and nothing is committed
  into a sequence a person is in the middle of.
\<close>

section \<open>What a history shows to be saved\<close>

definition succeeded :: "history \<Rightarrow> git_call \<Rightarrow> bool" where
  "succeeded h c \<longleftrightarrow> (\<exists>out. (c, GA_Out (Inr out)) \<in> set h \<and> so_success out)"

abbreviation status_call :: "path \<Rightarrow> git_call" where
  "status_call dir \<equiv> GC_Git ''status'' dir [''status'', ''--porcelain''] GB_Other"

abbreviation head_call :: "path \<Rightarrow> git_call" where
  "head_call dir \<equiv> GC_Git ''head'' dir [''symbolic-ref'', ''-q'', ''--short'', ''HEAD''] GB_Other"

abbreviation branch_call :: "path \<Rightarrow> string \<Rightarrow> git_call" where
  "branch_call dir b \<equiv> GC_Git ''branch'' dir [''checkout'', ''-q'', ''-b'', b] GB_Other"

abbreviation ancestry_call :: "path \<Rightarrow> string \<Rightarrow> git_call" where
  "ancestry_call dir base \<equiv> GC_Git ''ancestry'' dir [''merge-base'', ''--is-ancestor'', ''HEAD'', base] GB_Other"

text \<open>The tree was clean when its status was asked, or has been committed since.\<close>

definition work_saved :: "path \<Rightarrow> history \<Rightarrow> bool" where
  "work_saved dir h \<longleftrightarrow>
     (\<exists>h1 out h2. h = h1 @ (status_call dir, GA_Out (Inr out)) # h2 \<and> so_success out \<and>
        (so_stdout out = [] \<or> (\<exists>args. ''commit'' \<in> set args \<and> succeeded h2 (GC_Git ''commit'' dir args GB_Park))))"

text \<open>HEAD is on a branch, or was given one, or holds nothing the base lacks.\<close>

definition head_named :: "path \<Rightarrow> history \<Rightarrow> bool" where
  "head_named dir h \<longleftrightarrow>
     succeeded h (head_call dir) \<or> (\<exists>b. succeeded h (branch_call dir b)) \<or> (\<exists>base. succeeded h (ancestry_call dir base))"

text \<open>No sequence is in progress and nothing holds a lock.\<close>

definition no_sequence :: "path \<Rightarrow> string list \<Rightarrow> history \<Rightarrow> bool" where
  "no_sequence git files h \<longleftrightarrow> (\<forall>f\<in>set files. \<exists>a. (GC_Exists (git @ ''/'' @ f), a) \<in> set h \<and> a \<noteq> GA_Bool True)"

definition seen_settled :: "path \<Rightarrow> history \<Rightarrow> bool" where
  "seen_settled dir h \<longleftrightarrow>
     no_sequence (dir @ ''/.git'') (map fst SEQUENCE_FILES) h \<and> (\<exists>a. (GC_Locks dir, a) \<in> set h \<and> (\<forall>l ls. a \<noteq> GA_Locks (l # ls)))"

definition detaches :: "string list \<Rightarrow> bool" where
  "detaches args \<longleftrightarrow> take 3 args = [''checkout'', ''-q'', ''--detach'']"

definition fetches :: "string list \<Rightarrow> bool" where
  "fetches args \<longleftrightarrow> take 1 args = [''fetch'']"

fun keep_guard :: "path \<Rightarrow> history \<Rightarrow> git_call \<Rightarrow> bool" where
  "keep_guard dir h (GC_Git step cwd args bound) =
     (cwd = dir \<longrightarrow> \<not> reads args \<longrightarrow> \<not> fetches args \<longrightarrow>
      (if detaches args then work_saved dir h \<and> head_named dir h else seen_settled dir h))"
| "keep_guard dir h _ = True"

fun keeps_all :: "path \<Rightarrow> git_call \<Rightarrow> bool" where
  "keeps_all dir (GC_Git step cwd args bound) = (cwd = dir \<longrightarrow> reads args \<or> fetches args)"
| "keeps_all dir _ = True"

lemma succeeded_append [simp]: "succeeded (h @ t) c \<longleftrightarrow> succeeded h c \<or> succeeded t c"
  by (auto simp: succeeded_def)

lemma saved_grows:
  "work_saved dir h \<Longrightarrow> work_saved dir (h @ t)" "head_named dir h \<Longrightarrow> head_named dir (h @ t)"
  "no_sequence git files h \<Longrightarrow> no_sequence git files (h @ t)" "seen_settled dir h \<Longrightarrow> seen_settled dir (h @ t)"
  by (fastforce simp: work_saved_def head_named_def no_sequence_def seen_settled_def)+

interpretation keep: guarded "keep_guard dir" "keeps_all dir" for dir
proof
  show "keeps_all dir c \<Longrightarrow> keep_guard dir h c" for h c by (cases c) auto
  show "keep_guard dir h c \<Longrightarrow> keep_guard dir (h @ t) c" for h c t
    by (cases c) (auto intro: saved_grows split: if_splits)
qed

section \<open>Saving\<close>

lemma sequences_wp:
  "gwp (keep_guard dir) h (first_sequence git files) (\<lambda>h' r. r = None \<longrightarrow> no_sequence git (map fst files) h')"
proof (induction git files arbitrary: h rule: first_sequence.induct)
  case (2 git f kind rest)
  show ?case unfolding first_sequence.simps gwp_gbind
  proof (rule keep.ask_bool_wp)
    fix a
    let ?h = "h @ [(GC_Exists (git @ ''/'' @ f), a)]"
    show "gwp (keep_guard dir) ?h (if a = GA_Bool True then GRet (Some kind) else first_sequence git rest)
        (\<lambda>h' r. r = None \<longrightarrow> no_sequence git (map fst ((f, kind) # rest)) h')"
    proof (cases "a = GA_Bool True")
      case False
      then have "gwp (keep_guard dir) ?h (first_sequence git rest) (\<lambda>h' r. r = None \<longrightarrow> no_sequence git (map fst ((f, kind) # rest)) h')"
        using False by (intro gwp_conseq [OF "2.IH" [of False ?h]]) (auto simp: no_sequence_def)
      then show ?thesis using False by simp
    qed simp
  qed simp
qed (simp add: no_sequence_def)

lemma unfinished_wp: "gwp (keep_guard dir) h (refuse_unfinished dir) (on_success (\<lambda>h' _. seen_settled dir h'))"
  unfolding refuse_unfinished_def sequence_in_progress_def gwp_gbind
  by (rule gwp_conseq [OF sequences_wp])
     (auto simp: seen_settled_def git_locks_def no_sequence_def split: option.split git_answer.split list.split; blast)

lemma not_guarded:
  "\<not> reads (''add'' # args)" "\<not> reads (''checkout'' # args)" "\<not> reads (''-c'' # args)" "\<not> reads (''commit'' # args)" "\<not> reads (''fetch'' # args)"
  "fetches (''fetch'' # args)" "\<not> fetches (''checkout'' # args)" "\<not> detaches (''add'' # args)" "\<not> detaches (''-c'' # args)" "\<not> detaches (''commit'' # args)"
  "\<not> detaches (''checkout'' # ''-q'' # ''-b'' # args)" "detaches (''checkout'' # ''-q'' # ''--detach'' # args)"
  by (simp_all add: reads_def READERS_def fetches_def detaches_def)

text \<open>A call that has to be guarded, once its guard holds.\<close>

lemma call_git_wp:
  assumes "keep_guard dir h (GC_Git step cwd args b)" "\<And>a s. R (h @ [(GC_Git step cwd args b, a)]) (Inl s)"
    "\<And>out. R (h @ [(GC_Git step cwd args b, GA_Out (Inr out))]) (Inr out)"
  shows "gwp (keep_guard dir) h (call_git step cwd args b) R"
  using assms by (auto simp: call_git_def split: git_answer.split sum.split)

lemma git_run_wp:
  assumes "keep_guard dir h (GC_Git step cwd args GB_Other)" "\<And>a s. R (h @ [(GC_Git step cwd args GB_Other, a)]) (Inl s)"
    "\<And>out. so_success out \<Longrightarrow> R (h @ [(GC_Git step cwd args GB_Other, GA_Out (Inr out))]) (Inr out)"
  shows "gwp (keep_guard dir) h (git_run k step cwd args) R"
  unfolding git_run_def git_ask_def gwp_gtry by (rule call_git_wp) (use assms in \<open>auto\<close>)

definition committed_since :: "path \<Rightarrow> history \<Rightarrow> history \<Rightarrow> bool" where
  "committed_since dir h h' \<longleftrightarrow> (\<exists>t args. h' = h @ t \<and> ''commit'' \<in> set args \<and> succeeded t (GC_Git ''commit'' dir args GB_Park))"

lemma fallback_wp:
  "gwp (keep_guard dir) h (identity_fallback dir fs) (on_success (\<lambda>_ args. args = [] \<or> hd args = ''-c''))"
proof (induction dir fs arbitrary: h rule: identity_fallback.induct)
  case (2 dir key fb rest)
  show ?case unfolding identity_fallback.simps gwp_gtry
    by (rule keep.ask_wp) (auto intro!: gwp_conseq [OF "2.IH"] split: sum.splits)
qed simp

lemma commit_args_guarded:
  assumes "seen_settled dir h" "fb = [] \<or> hd fb = ''-c''"
  shows "keep_guard dir h (GC_Git step dir (fb @ ''commit'' # args) b)"
proof -
  obtain x xs where "fb @ ''commit'' # args = x # xs" "x \<in> {''commit'', ''-c''}" using assms(2) by (cases fb) auto
  then show ?thesis using assms(1) by (auto simp: not_guarded)
qed

lemma committed_now:
  assumes "so_success out" "''commit'' \<in> set args"
  shows "committed_since dir h ((h @ t) @ [(GC_Git ''commit'' dir args GB_Park, GA_Out (Inr out))])"
  unfolding committed_since_def using assms
  by (intro exI [of _ "t @ [(GC_Git ''commit'' dir args GB_Park, GA_Out (Inr out))]"] exI [of _ args]) (auto simp: succeeded_def)

lemma seal_wp:
  assumes "seen_settled dir h" "fb = [] \<or> hd fb = ''-c''"
  shows "gwp (keep_guard dir) (h @ t) (gtry (call_git ''commit'' dir (fb @ ''commit'' # args) GB_Park) (\<lambda>committed.
      GRet (if so_success committed then Inr () else Inl (failed k ''commit'' committed)))) (on_success (\<lambda>h' _. committed_since dir h h'))"
  unfolding gwp_gtry
proof (rule call_git_wp)
  show "keep_guard dir (h @ t) (GC_Git ''commit'' dir (fb @ ''commit'' # args) GB_Park)"
    using commit_args_guarded [OF saved_grows(4) [OF assms(1)] assms(2)] .
qed (use committed_now [of _ "fb @ ''commit'' # args" dir h t] in simp_all)

lemma commit_wp:
  assumes "seen_settled dir h"
  shows "gwp (keep_guard dir) h (git_commit k run dir occasion) (on_success (\<lambda>h' _. committed_since dir h h'))"
proof -
  let ?args = "\<lambda>now. [''-q'', ''--no-verify'', ''--no-gpg-sign'', ''-m'', ''park of run '' @ run @ '': '' @ occasion @ '' at '' @ gk_show_instant k now]"
  have rest: "gwp (keep_guard dir) (h @ t) (gbind git_now (\<lambda>now. gtry (identity_fallback dir FALLBACKS) (\<lambda>fb.
      gtry (call_git ''commit'' dir (fb @ ''commit'' # ?args now) GB_Park) (\<lambda>committed.
      GRet (if so_success committed then Inr () else Inl (failed k ''commit'' committed)))))) (on_success (\<lambda>h' _. committed_since dir h h'))" for t
    unfolding gwp_gbind gwp_gtry [of _ _ "identity_fallback _ _"]
    by (rule keep.free_wp, simp, rule gwp_conseq [OF fallback_wp])
       (auto simp del: gwp_gtry split: sum.splits intro!: seal_wp [OF assms])
  show ?thesis
    unfolding git_commit_def gwp_gtry [of _ _ "call_git ''add'' _ _ _"]
    by (rule call_git_wp) (use rest assms in \<open>auto simp: not_guarded simp del: gwp_gtry gwp_gbind\<close>)
qed

lemma named_now:
  "so_success out \<Longrightarrow> (branch_call dir b, GA_Out (Inr out)) \<in> set h \<Longrightarrow> head_named dir h"
  "so_success out \<Longrightarrow> (ancestry_call dir base, GA_Out (Inr out)) \<in> set h \<Longrightarrow> head_named dir h"
  "so_success out \<Longrightarrow> (head_call dir, GA_Out (Inr out)) \<in> set h \<Longrightarrow> head_named dir h"
  by (auto simp: head_named_def succeeded_def)

text \<open>Choosing a branch leaves HEAD named, and says there is nothing to save only of a clean tree.\<close>

abbreviation chosen :: "path \<Rightarrow> bool \<Rightarrow> history \<Rightarrow> save_branch \<Rightarrow> bool" where
  "chosen dir dirty h sb \<equiv> head_named dir h \<and> (case sb of SB_Nothing _ \<Rightarrow> \<not> dirty | _ \<Rightarrow> True)"

lemma fresh_branch_wp:
  assumes "seen_settled dir h"
  shows "gwp (keep_guard dir) h (gbind git_now (\<lambda>now. let branch = park_branch run @ compact k now in
     gtry (git_run k ''branch'' dir [''checkout'', ''-q'', ''-b'', branch]) (\<lambda>_. GRet (Inr (SB_Fresh branch))))) (on_success (chosen dir dirty))"
  unfolding gwp_gbind gwp_gtry Let_def
  by (rule keep.free_wp, simp, rule git_run_wp) (use saved_grows(4) [OF assms] in \<open>auto simp: not_guarded intro: named_now\<close>)

lemma branch_wp:
  assumes "seen_settled dir h" "current \<noteq> None \<Longrightarrow> head_named dir h"
  shows "gwp (keep_guard dir) h (branch_to_save k run dir d current dirty) (on_success (chosen dir dirty))"
proof -
  let ?new = "gbind git_now (\<lambda>now. let branch = park_branch run @ compact k now in
     gtry (git_run k ''branch'' dir [''checkout'', ''-q'', ''-b'', branch]) (\<lambda>_. GRet (Inr (SB_Fresh branch))))"
  have new: "gwp (keep_guard dir) (h @ t) ?new (on_success (chosen dir dirty))" for t
    using fresh_branch_wp [OF saved_grows(4) [OF assms(1)]] .
  have "gwp (keep_guard dir) h (gtry (case d of
       Some d \<Rightarrow> gtry (git_ask ''ancestry'' dir [''merge-base'', ''--is-ancestor'', ''HEAD'', remote_ref d]) (\<lambda>out. GRet (Inr (so_success out)))
     | None \<Rightarrow> GRet (Inr False)) (\<lambda>behind_or_at. if \<not> dirty \<and> behind_or_at then GRet (Inr (SB_Nothing current)) else ?new)) (on_success (chosen dir dirty))"
  proof (cases d)
    case None
    then show ?thesis using new [of "[]"] unfolding gwp_gtry [of _ _ "case _ of None \<Rightarrow> _ | Some _ \<Rightarrow> _"] by (simp del: gwp_gbind)
  next
    case (Some b)
    show ?thesis unfolding Some option.case gwp_gtry [of _ _ "gtry _ _"] gwp_gtry [of _ _ "git_ask _ _ _"]
      by (rule keep.ask_wp) (use new in \<open>auto simp del: gwp_gbind intro: named_now\<close>)
  qed
  then show ?thesis using assms(2) unfolding branch_to_save_def Let_def by (auto split: option.split simp del: gwp_gtry gwp_gbind)
qed

lemma finish_save_wp:
  assumes "seen_settled dir h" "head_named dir h" "h = h1 @ (status_call dir, GA_Out (Inr out)) # h2" "so_success out" "dirty = (so_stdout out \<noteq> [])"
  shows "gwp (keep_guard dir) h (finish_save k run dir d occasion dirty branch fresh) (on_success (\<lambda>h' _. work_saved dir h' \<and> head_named dir h'))"
proof -
  have clean: "work_saved dir h" if "\<not> dirty" using assms(3-5) that unfolding work_saved_def by blast
  have sealed: "work_saved dir h'" if "committed_since dir h h'" for h'
    using that assms(3,4) unfolding committed_since_def work_saved_def by fastforce
  have saved: "gwp (keep_guard dir) h (if dirty then git_commit k run dir occasion else GRet (Inr ())) (on_success (\<lambda>h' _. work_saved dir h'))"
    using clean sealed by (auto intro!: gwp_conseq [OF commit_wp [OF assms(1)]] split: sum.splits)
  let ?rest = "gtry (git_text k ''commit'' dir [''rev-parse'', ''HEAD'']) (\<lambda>commit.
     if fresh \<or> starts_with branch (park_branch run) then GRet (Inr (PO_Committed branch commit))
     else gtry (if dirty then GRet (Inr True) else if starts_with branch PARK_PREFIX then GRet (Inr False)
                else ahead_of_the_remote k dir branch (map_option remote_ref d)) (\<lambda>owes_a_notice.
       GRet (Inr (if owes_a_notice then PO_OnOwnBranch branch commit else PO_Clean (Some branch)))))"
  have "plain (keeps_all dir) ?rest"
    unfolding ahead_of_the_remote_def Let_def by (intro plain_intros) (auto intro!: plain_intros split: option.split)
  then have rest: "gwp (keep_guard dir) (h @ t) ?rest (on_success (\<lambda>h' _. work_saved dir h' \<and> head_named dir h'))" if "work_saved dir (h @ t)" for t
    by (rule keep.free_wp) (use saved_grows(1) [OF that] saved_grows(2) [OF assms(2)] in \<open>auto split: sum.split\<close>)
  show ?thesis
    unfolding finish_save_def gwp_gtry [of _ _ "if dirty then _ else _"]
    by (rule gwp_conseq [OF saved]) (use rest in \<open>auto split: sum.splits simp del: gwp_gtry split del: if_split\<close>)
qed

lemma saving_wp:
  assumes "seen_settled dir h" "h = h1 @ (status_call dir, GA_Out (Inr out)) # h2" "so_success out" "current \<noteq> None \<Longrightarrow> head_named dir h"
  shows "gwp (keep_guard dir) h (gtry (branch_to_save k run dir d current (so_stdout out \<noteq> [])) (\<lambda>sb. case sb of
       SB_Nothing current \<Rightarrow> GRet (Inr (PO_Clean current))
     | SB_Own branch \<Rightarrow> finish_save k run dir d occasion (so_stdout out \<noteq> []) branch False
     | SB_Fresh branch \<Rightarrow> finish_save k run dir d occasion (so_stdout out \<noteq> []) branch True)) (on_success (\<lambda>h' _. work_saved dir h' \<and> head_named dir h'))"
proof -
  have finish: "gwp (keep_guard dir) (h @ t) (finish_save k run dir d occasion (so_stdout out \<noteq> []) branch fresh)
      (on_success (\<lambda>h' _. work_saved dir h' \<and> head_named dir h'))" if "head_named dir (h @ t)" for t branch fresh
    by (rule finish_save_wp [OF saved_grows(4) [OF assms(1)] that _ assms(3) refl, of h1 "h2 @ t"]) (simp add: assms(2))
  have clean: "work_saved dir (h @ t)" if "so_stdout out = []" for t
    by (rule saved_grows(1)) (use assms(2,3) that in \<open>auto simp: work_saved_def\<close>)
  show ?thesis
    unfolding gwp_gtry
    by (rule gwp_conseq [OF branch_wp [OF assms(1,4)]])
       (use finish clean in \<open>auto split: sum.splits save_branch.splits\<close>)
qed

lemma save_work_wp:
  "gwp (keep_guard dir) h (save_work k run dir d occasion) (on_success (\<lambda>h' _. work_saved dir h' \<and> head_named dir h'))"
proof -
  have status: "gwp (keep_guard dir) h' (gtry (git_run k ''status'' dir [''status'', ''--porcelain'']) (\<lambda>st. let dirty = so_stdout st \<noteq> [] in
       gtry (branch_to_save k run dir d current dirty) (\<lambda>sb. case sb of SB_Nothing current \<Rightarrow> GRet (Inr (PO_Clean current))
     | SB_Own branch \<Rightarrow> finish_save k run dir d occasion dirty branch False
     | SB_Fresh branch \<Rightarrow> finish_save k run dir d occasion dirty branch True))) (on_success (\<lambda>h' _. work_saved dir h' \<and> head_named dir h'))"
    if "seen_settled dir h'" "current \<noteq> None \<Longrightarrow> head_named dir h'" for h' current
    unfolding gwp_gtry [of _ _ "git_run _ _ _ _"] Let_def
    by (rule git_run_wp) (use that saved_grows in \<open>auto simp del: gwp_gtry intro!: saving_wp\<close>)
  let ?status = "\<lambda>current. gtry (git_run k ''status'' dir [''status'', ''--porcelain'']) (\<lambda>st. let dirty = so_stdout st \<noteq> [] in
       gtry (branch_to_save k run dir d current dirty) (\<lambda>sb. case sb of SB_Nothing current \<Rightarrow> GRet (Inr (PO_Clean current))
     | SB_Own branch \<Rightarrow> finish_save k run dir d occasion dirty branch False
     | SB_Fresh branch \<Rightarrow> finish_save k run dir d occasion dirty branch True))"
  have head: "gwp (keep_guard dir) h' (gtry (git_ask ''head'' dir [''symbolic-ref'', ''-q'', ''--short'', ''HEAD'']) (\<lambda>head.
      gtry (if so_success head then GRet (case line_of k ''head'' head of Inl e \<Rightarrow> Inl e | Inr l \<Rightarrow> Inr (Some l)) else GRet (Inr None)) ?status))
      (on_success (\<lambda>h' _. work_saved dir h' \<and> head_named dir h'))" if "seen_settled dir h'" for h'
    unfolding gwp_gtry [of _ _ "git_ask _ _ _"] gwp_gtry [of _ _ "if _ then _ else _"]
    by (rule keep.ask_wp) (use saved_grows(4) [OF that] in \<open>auto simp del: gwp_gtry split: sum.split intro!: status intro: named_now\<close>)
  show ?thesis
    unfolding save_work_def gwp_gtry [of _ _ "refuse_unfinished _"]
    by (rule gwp_conseq [OF unfinished_wp]) (use head in \<open>auto simp del: gwp_gtry split: sum.splits\<close>)
qed

section \<open>Checking out\<close>

lemma checkout_wp:
  assumes "work_saved dir h" "head_named dir h"
  shows "gwp (keep_guard dir) h (checkout_base k dir found) (\<lambda>_ _. True)"
proof -
  have out: "gwp (keep_guard dir) (h @ t) (gtry (git_run k ''checkout'' dir [''checkout'', ''-q'', ''--detach'', remote_ref d]) (\<lambda>_.
      gtry (git_text k ''base'' dir [''rev-parse'', ''HEAD'']) (\<lambda>commit.
      GRet (Inr (RS_Prepared \<lparr> ba_branch = d, ba_commit = commit \<rparr> found))))) (\<lambda>_ _. True)" for t d
    unfolding gwp_gtry [of _ _ "git_run _ _ _ _"]
    by (rule git_run_wp) (use assms saved_grows in \<open>auto simp: not_guarded intro!: keep.free_wp split: sum.split\<close>)
  have base: "gwp (keep_guard dir) (h @ t) (gtry (default_branch_of k dir) (\<lambda>d. gtry (git_run k ''checkout'' dir [''checkout'', ''-q'', ''--detach'', remote_ref d]) (\<lambda>_.
      gtry (git_text k ''base'' dir [''rev-parse'', ''HEAD'']) (\<lambda>commit.
      GRet (Inr (RS_Prepared \<lparr> ba_branch = d, ba_commit = commit \<rparr> found)))))) (\<lambda>_ _. True)" for t
    unfolding gwp_gtry [of _ _ "default_branch_of _ _"]
    by (rule keep.free_wp, intro plain_default_branch) (use out in \<open>auto simp del: gwp_gtry split: sum.split\<close>)
  show ?thesis
    unfolding checkout_base_def gwp_gtry [of _ _ "call_git _ _ _ _"]
    by (rule call_git_wp) (use base in \<open>auto simp: not_guarded simp del: gwp_gtry\<close>)
qed

lemma rescue_wp: "gwp (keep_guard dir) h (rescue k run dir d) (on_success (\<lambda>h' _. work_saved dir h' \<and> head_named dir h'))"
proof -
  have "plain (keeps_all dir) (earlier_rescue k run dir)" unfolding earlier_rescue_def by (intro plain_gtry) simp_all
  then have "gwp (keep_guard dir) h' (earlier_rescue k run dir) (on_success (\<lambda>h' _. work_saved dir h' \<and> head_named dir h'))"
    if "work_saved dir h'" "head_named dir h'" for h'
    by (rule keep.free_wp) (use saved_grows that in \<open>auto split: sum.split\<close>)
  then show ?thesis unfolding rescue_def gwp_gtry
    by (intro gwp_conseq [OF save_work_wp]) (auto split: sum.splits park_outcome.splits)
qed

text \<open>The parts before it save nothing and give nothing up.\<close>

lemma keep_gbind:
  "plain (keeps_all dir) p \<Longrightarrow> (\<And>h x. gwp (keep_guard dir) h (f x) (\<lambda>_ _. True)) \<Longrightarrow> gwp (keep_guard dir) h (gbind p f) (\<lambda>_ _. True)"
  unfolding gwp_gbind by (rule keep.free_wp)

lemma keep_gtry:
  "plain (keeps_all dir) p \<Longrightarrow> (\<And>h x. gwp (keep_guard dir) h (f x) (\<lambda>_ _. True)) \<Longrightarrow> gwp (keep_guard dir) h (gtry p f) (\<lambda>_ _. True)"
  unfolding gwp_gtry by (rule keep.free_wp) (auto split: sum.split)

lemma plain_root_identity:
  "(\<And>step args. reads args \<Longrightarrow> P (GC_Git step root args GB_Other)) \<Longrightarrow> (\<And>p. P (GC_Canonical p)) \<Longrightarrow> plain P (root_identity_of k root)"
  unfolding root_identity_of_def by (intro plain_intros) (auto intro!: plain_gbind split: sum.split)

lemma plain_check_identity:
  assumes "\<And>step args. reads args \<Longrightarrow> P (GC_Git step dir args GB_Other)" "\<And>p. P (GC_Canonical p)" "\<And>p. P (GC_IsDir p)" "\<And>p. P (GC_There p)"
  shows "plain P (check_identity k ri dir)"
  unfolding check_identity_def check_origin_def check_link_def Let_def by (intro plain_intros) (simp_all add: assms)

lemma sibling_apart: "dir @ ''.cloning-'' @ u \<noteq> dir"
  by simp

lemma plain_clone_keeps:
  assumes "placed dir parent name"
  shows "plain (keeps_all dir) (git_clone k ri dir)"
proof -
  have "parent \<noteq> dir" using placed_parent_outside [OF assms] by (auto simp: under_def)
  then show ?thesis
    unfolding git_clone_def placed_parent [OF assms] option.case Let_def placed_sibling [OF assms]
    by (intro plain_intros plain_finish_clone) (auto intro!: plain_gbind split: sum.split)
qed

lemma prepare_keep:
  assumes "placed dir parent name"
  shows "gwp (keep_guard dir) h (prepare_dir k root run dir) (\<lambda>_ _. True)"
proof -
  have last: "gwp (keep_guard dir) h (gtry (rescue k run dir d) (checkout_base k dir)) (\<lambda>_ _. True)" for h d
    unfolding gwp_gtry [of _ _ "rescue _ _ _ _"]
    by (rule gwp_conseq [OF rescue_wp]) (use checkout_wp in \<open>auto split: sum.splits\<close>)
  have own: "gwp (keep_guard dir) h (prepare_own k run dir ri) (\<lambda>_ _. True)" for h ri
    by (intro keep_gtry last plain_check_identity plain_link plain_exclude plain_default_branch) simp_all
  have clone: "plain (keeps_all dir) (if there then GRet (Inr ()) else git_clone k ri dir)" for there ri
    using plain_clone_keeps [OF assms] by simp
  have all: "gwp (keep_guard dir) h (gtry (root_identity_of k root) (\<lambda>ri. gtry (remove_clone_siblings k dir) (\<lambda>_. prepare_place k run dir ri))) (\<lambda>_ _. True)" for h
    by (intro keep_gtry keep_gbind own clone plain_root_identity plain_remove_clone_siblings [OF assms]) simp_all
  show ?thesis unfolding prepare_dir_def
    by (rule keep_gbind, intro plain_parent_and_root) (use all in \<open>simp_all del: gwp_gtry\<close>)
qed

lemma park_keep: "gwp (keep_guard dir) h (park_dir k root run dir occasion) (\<lambda>_ _. True)"
proof -
  have save: "gwp (keep_guard dir) h (gtry (known_default k dir) (\<lambda>d. save_work k run dir d occasion)) (\<lambda>_ _. True)" for h
    by (intro keep_gtry plain_default_branch gwp_conseq [OF save_work_wp]) simp_all
  have missing: "gwp (keep_guard dir) h (gbind (parent_and_root_exist root dir) (\<lambda>ok. GRet (if ok then Inr PO_Missing else Inl (refused_path root dir)))) (\<lambda>_ _. True)" for h
    by (intro keep_gbind plain_parent_and_root) simp_all
  have check: "gwp (keep_guard dir) h (gbind (check_identity k ri dir) (\<lambda>c. case c of Inl s \<Rightarrow> GRet (not_held_or s)
      | Inr _ \<Rightarrow> gtry (known_default k dir) (\<lambda>d. save_work k run dir d occasion))) (\<lambda>_ _. True)" for ri h
    by (intro keep_gbind plain_check_identity) (use save in \<open>auto simp del: gwp_gtry split: sum.split\<close>)
  have root: "gwp (keep_guard dir) h (gbind (root_identity_of k root) (\<lambda>r. case r of Inl s \<Rightarrow> GRet (not_held_or s)
      | Inr ri \<Rightarrow> gbind (check_identity k ri dir) (\<lambda>c. case c of Inl s \<Rightarrow> GRet (not_held_or s)
      | Inr _ \<Rightarrow> gtry (known_default k dir) (\<lambda>d. save_work k run dir d occasion)))) (\<lambda>_ _. True)" for h
    by (intro keep_gbind plain_root_identity) (use check in \<open>auto simp del: gwp_gtry gwp_gbind split: sum.split\<close>)
  show ?thesis unfolding park_dir_def
    by (rule keep_gbind) (use root missing in \<open>simp_all del: gwp_gtry gwp_gbind\<close>)
qed

end
