(* ===== verification/Git_Properties.thy ===== *)
theory Git_Properties
  imports Git_Keep
begin

text \<open>
  What a tree operation guarantees whatever git answers and wherever it is stopped: it touches no directory but its own,
  and it gives up nothing it has not saved.
\<close>

section \<open>Operations\<close>

lemma op_touch:
  assumes "placed (tree_op_dir op) parent name"
  shows "gwp (touch_guard k root (tree_op_dir op)) [] (run_op k root op) (\<lambda>_ _. True)"
proof (cases op)
  case (TO_Prepare run dir)
  then show ?thesis using prepare_touch [of dir parent name k root run] assms by simp
next
  case (TO_Park run dir occasion)
  then show ?thesis using park_touch [of k root dir run] by simp
qed

lemma op_keep:
  assumes "placed (tree_op_dir op) parent name"
  shows "gwp (keep_guard (tree_op_dir op)) [] (run_op k root op) (\<lambda>_ _. True)"
proof (cases op)
  case (TO_Prepare run dir)
  then show ?thesis using prepare_keep [of dir parent name "[]" k root run] assms by simp
next
  case (TO_Park run dir occasion)
  then show ?thesis using park_keep [of dir "[]" k root run] by simp
qed

text \<open>C14. A directory that is not its own is left alone. Whenever an operation changes something in the directory, by git or
  by a file, the calls before it have shown that the directory is not the registered root, that its origin is the
  root's, and that its link to the workspace is absent or leads where the root's leads; and a clone is moved into place
  only where nothing was. This holds for every answer of git and of the file system and up to any point the operation is
  stopped at.\<close>

theorem foreign_directory_is_left_alone:
  assumes "execution (run_op k root op) tr" "i < length tr" "placed (tree_op_dir op) parent name"
  shows "(touches (tree_op_dir op) (fst (tr ! i)) \<longrightarrow> ours k root (tree_op_dir op) (take i tr)) \<and>
    (lands_on (tree_op_dir op) (fst (tr ! i)) \<longrightarrow> seen_absent (tree_op_dir op) (take i tr))"
  using gwp_execution [OF op_touch [OF assms(3)] assms(1,2)] by (simp add: touch_guard_def)

text \<open>C13. No work is lost. An operation checks the base out over the directory only after the tree was seen clean or has
  been committed since, and with HEAD on a branch, given one, or holding nothing the base lacks; and every other change by
  git but a fetch comes after it has seen that no merge, rebase or other sequence is in progress and that nothing holds a
  lock.\<close>

theorem work_is_saved_before_the_base:
  assumes "execution (run_op k root op) tr" "i < length tr" "placed (tree_op_dir op) parent name"
    "tr ! i = (GC_Git step (tree_op_dir op) args bound, a)" "\<not> reads args" "\<not> fetches args"
  shows "if detaches args then work_saved (tree_op_dir op) (take i tr) \<and> head_named (tree_op_dir op) (take i tr)
    else seen_settled (tree_op_dir op) (take i tr)"
  using gwp_execution [OF op_keep [OF assms(3)] assms(1,2)] assms(4-6) by simp

section \<open>A prepare over a dirty tree\<close>

primrec git_trace :: "(git_call \<Rightarrow> git_answer) \<Rightarrow> 'r git_prog \<Rightarrow> history" where
  "git_trace ans (GRet r) = []"
| "git_trace ans (GDo c k) = (c, ans c) # git_trace ans (k (ans c))"

lemma git_trace_execution: "execution p (git_trace ans p)"
  by (induction p) (auto intro: execution.intros)

definition said :: "string \<Rightarrow> git_answer" where
  "said text = GA_Out (Inr \<lparr> so_success = True, so_stdout = text, so_stderr = [] \<rparr>)"

definition dirty_answers :: "git_call \<Rightarrow> git_answer" where
  "dirty_answers c =
     (case c of
        GC_Git _ cwd args _ \<Rightarrow>
          (if take 1 args = [''remote''] then said ''https://git.example/x.git''
           else if take 1 args = [''status''] then said ''?? notes''
           else if take 1 args = [''symbolic-ref''] then said (if last args = ''HEAD'' then ''feature'' else ''refs/remotes/origin/main'')
           else said ''c0ffee'')
      | GC_There p \<Rightarrow> GA_Bool (p = ''/d/w-v2'')
      | GC_Exists p \<Rightarrow> GA_Bool (p = ''/d/w'' \<or> p = ''/d'')
      | GC_IsDir _ \<Rightarrow> GA_Bool True
      | GC_Canonical p \<Rightarrow> GA_Path (Inr p)
      | GC_ReadFile _ \<Rightarrow> GA_File (Inr None)
      | GC_ReadDir _ \<Rightarrow> GA_Names (Some [''w-v2''])
      | GC_Locks _ \<Rightarrow> GA_Locks []
      | GC_Now \<Rightarrow> GA_Now 0
      | GC_Mint \<Rightarrow> GA_Id ''u''
      | _ \<Rightarrow> GA_Done (Inr ()))"

definition sample_git_codec :: git_codec where
  "sample_git_codec = \<lparr> gk_utf8 = Some, gk_lossy = id, gk_show_instant = (\<lambda>_. ''2026-11-05T10:00:00.000Z''), gk_ulid_ok = (\<lambda>_. True) \<rparr>"

definition dirty_prepare :: history where
  "dirty_prepare = git_trace dirty_answers (run_op sample_git_codec ''/d/w'' (TO_Prepare ''r-01'' ''/d/w-v2''))"

lemma dirty_prepare_execution: "execution (run_op sample_git_codec ''/d/w'' (TO_Prepare ''r-01'' ''/d/w-v2'')) dirty_prepare"
  unfolding dirty_prepare_def by (rule git_trace_execution)

lemma dirty_prepare_placed: "placed (tree_op_dir (TO_Prepare ''r-01'' ''/d/w-v2'')) ''/d'' ''w-v2''"
  by (simp add: placed_def)

lemma dirty_prepare_calls:
  "length dirty_prepare = 40" "fst (dirty_prepare ! 13) = GC_Symlink ''/d/w/.nxs'' ''/d/w-v2/.nxs''"
  "fst (dirty_prepare ! 38) = GC_Git ''checkout'' ''/d/w-v2'' [''checkout'', ''-q'', ''--detach'', ''refs/remotes/origin/main''] GB_Other"
  by code_simp+

theorem foreign_directory_is_left_alone_witness: "ours sample_git_codec ''/d/w'' ''/d/w-v2'' (take 13 dirty_prepare)"
proof -
  have "touches ''/d/w-v2'' (fst (dirty_prepare ! 13))" unfolding dirty_prepare_calls by (simp add: under_def starts_with_iff)
  then show ?thesis
    using foreign_directory_is_left_alone [OF dirty_prepare_execution _ dirty_prepare_placed, of 13] dirty_prepare_calls(1) by simp
qed

theorem work_is_saved_before_the_base_witness: "work_saved ''/d/w-v2'' (take 38 dirty_prepare) \<and> head_named ''/d/w-v2'' (take 38 dirty_prepare)"
proof -
  have call: "dirty_prepare ! 38 = (GC_Git ''checkout'' (tree_op_dir (TO_Prepare ''r-01'' ''/d/w-v2''))
      [''checkout'', ''-q'', ''--detach'', ''refs/remotes/origin/main''] GB_Other, snd (dirty_prepare ! 38))"
    using dirty_prepare_calls(3) by (simp add: prod_eq_iff)
  show ?thesis
    using work_is_saved_before_the_base [OF dirty_prepare_execution _ dirty_prepare_placed call] dirty_prepare_calls(1) by (simp add: not_guarded)
qed

end
