(* ===== verification/Tree_Worker.thy ===== *)
theory Tree_Worker
  imports Git_Tree Store_Lease
begin

text \<open>
  The worker that runs tree operations beside the tick, from \<^verbatim>\<open>crates/run-host/src/tree_worker.rs\<close>,
  \<^verbatim>\<open>tree_ledger.rs\<close> and the rule for locks of \<^verbatim>\<open>tree_child.rs\<close>: one operation in flight, a queue of results, and the
  ledger file that says who is at it. What the system says of processes, leases and files is an argument.
\<close>

section \<open>The ledger\<close>

record ledger_entry =
  te_run :: run_id
  te_op :: string
  te_step :: string
  te_pid :: "nat option"
  te_start_time :: "string option"
  te_began_at :: timestamp
  te_owner_id :: string
  te_epoch :: epoch
  te_lock_existed_before :: bool
  te_spawning :: bool
  te_locks_before :: "string list"

record tree_worker =
  tw_ledger :: "ledger_entry option" \<comment> \<open>the file, None when it does not read\<close>
  tw_child :: "nat option" \<comment> \<open>the pid a child recorded for itself\<close>
  tw_binding :: "string option" \<comment> \<open>the owner bound\<close>
  tw_cancel :: bool
  tw_in_flight :: "tree_op option"
  tw_results :: "(tree_op \<times> tree_result) list"
  tw_killed :: "(nat \<times> string) list"
  tw_cleared :: "string list"


text \<open>What the worker sees of the world: the leases, the clock, the processes, the age of the ledger file, the locks in
  the directory of the operation.\<close>

record tree_view =
  tv_leases :: "run_id \<Rightarrow> store_error + lease option"
  tv_now :: timestamp
  tv_start_time :: "nat \<Rightarrow> string option"
  tv_group_gone :: "nat \<Rightarrow> bool"
  tv_in_grace :: bool
  tv_locks :: "string list"

definition lease_view :: "codec \<Rightarrow> store \<Rightarrow> run_id \<Rightarrow> store_error + lease option" where
  "lease_view c db run =
     (case store_get (owner_key run) db of
        None \<Rightarrow> Inr None
      | Some bytes \<Rightarrow> (case co_lease_read c bytes of Some l \<Rightarrow> Inr (Some l) | None \<Rightarrow> Inl (SE_DamagedRow (owner_key run) None)))"

definition ledger_delete :: "tree_worker \<Rightarrow> tree_worker" where
  "ledger_delete w = w\<lparr>tw_ledger := None, tw_child := None\<rparr>"

definition delete_own :: "string \<Rightarrow> tree_worker \<Rightarrow> tree_worker" where
  "delete_own owner w = (if is_some_and (tw_ledger w) (\<lambda>e. te_owner_id e = owner) then ledger_delete w else w)"

definition owner_is_live :: "tree_view \<Rightarrow> ledger_entry \<Rightarrow> bool" where
  "owner_is_live v e =
     (case tv_leases v (te_run e) of
        Inr (Some l) \<Rightarrow> le_owner_id l = te_owner_id e \<and> le_epoch l = te_epoch e \<and> le_expires_at l > tv_now v
      | Inr None \<Rightarrow> False
      | Inl _ \<Rightarrow> True)"

definition kill_group :: "nat \<Rightarrow> string \<Rightarrow> tree_worker \<Rightarrow> tree_worker" where
  "kill_group pid start_time w = w\<lparr>tw_killed := tw_killed w @ [(pid, start_time)]\<rparr>"

definition clear_locks_of_a_gone_group :: "tree_view \<Rightarrow> string list \<Rightarrow> bool \<Rightarrow> tree_worker \<Rightarrow> tree_worker" where
  "clear_locks_of_a_gone_group v before index_before w =
     w\<lparr>tw_cleared := tw_cleared w @ filter (\<lambda>lock. \<not> (lock \<in> set before \<or> index_before \<and> lock = ''index.lock'')) (tv_locks v)\<rparr>"

text \<open>Who the recorded child is: recorded by its parent, or by itself, or not known yet.\<close>

datatype recorded = RC_Child nat "string option" | RC_Nobody | RC_Starting

definition recorded_child :: "tree_view \<Rightarrow> ledger_entry \<Rightarrow> tree_worker \<Rightarrow> recorded" where
  "recorded_child v e w =
     (case (te_pid e, te_start_time e) of
        (Some pid, Some st) \<Rightarrow> RC_Child pid (Some st)
      | _ \<Rightarrow>
          (case tw_child w of
             Some pid \<Rightarrow> RC_Child pid (tv_start_time v pid)
           | None \<Rightarrow> if te_spawning e \<and> tv_in_grace v then RC_Starting else RC_Nobody))"

definition settle_child :: "tree_view \<Rightarrow> ledger_entry \<Rightarrow> nat \<Rightarrow> string option \<Rightarrow> tree_worker \<Rightarrow> tree_worker" where
  "settle_child v e pid st w =
     (let w1 = (case st of Some s \<Rightarrow> kill_group pid s w | None \<Rightarrow> w) in
      if tv_group_gone v pid then clear_locks_of_a_gone_group v (te_locks_before e) (te_lock_existed_before e) w1 else w1)"

text \<open>\<open>False\<close> is the answer \<^verbatim>\<open>InFlight\<close>.\<close>

definition settle_ledger :: "tree_view \<Rightarrow> string \<Rightarrow> tree_worker \<Rightarrow> bool \<times> tree_worker" where
  "settle_ledger v owner w =
     (case tw_ledger w of
        None \<Rightarrow> (True, w)
      | Some e \<Rightarrow>
          if te_owner_id e \<noteq> owner \<and> owner_is_live v e then (False, w)
          else (case recorded_child v e w of
              RC_Starting \<Rightarrow> (False, w)
            | RC_Nobody \<Rightarrow> (True, ledger_delete w)
            | RC_Child pid st \<Rightarrow> (True, ledger_delete (settle_child v e pid st w))))"

section \<open>The port\<close>

text \<open>\<open>handed\<close>: the worker's thread took the operation.\<close>

definition worker_begin :: "tree_view \<Rightarrow> bool \<Rightarrow> tree_op \<Rightarrow> tree_worker \<Rightarrow> bool \<times> tree_worker" where
  "worker_begin v handed op w =
     (case tw_binding w of
        None \<Rightarrow> (False, w)
      | Some owner \<Rightarrow>
          if tw_in_flight w \<noteq> None then (False, w)
          else (case settle_ledger v owner w of
              (False, w1) \<Rightarrow> (False, w1)
            | (True, w1) \<Rightarrow>
                if handed then (True, w1\<lparr>tw_cancel := False, tw_in_flight := Some op\<rparr>) else (False, w1\<lparr>tw_cancel := False\<rparr>)))"

definition worker_poll :: "tree_worker \<Rightarrow> (tree_op \<times> tree_result) option \<times> tree_worker" where
  "worker_poll w = (case tw_results w of [] \<Rightarrow> (None, w) | r # rs \<Rightarrow> (Some r, w\<lparr>tw_results := rs\<rparr>))"

definition worker_cancel :: "tree_worker \<Rightarrow> tree_worker" where
  "worker_cancel w = (if tw_in_flight w \<noteq> None then w\<lparr>tw_cancel := True\<rparr> else w)"

definition worker_bind :: "string \<Rightarrow> tree_worker \<Rightarrow> tree_worker" where
  "worker_bind owner w = w\<lparr>tw_binding := Some owner\<rparr>"

section \<open>The thread\<close>

definition begin_entry :: "string \<Rightarrow> epoch \<Rightarrow> timestamp \<Rightarrow> tree_op \<Rightarrow> ledger_entry" where
  "begin_entry owner epoch now op =
     \<lparr> te_run = tree_op_run op, te_op = tree_op_name op, te_step = ''begin'', te_pid = None, te_start_time = None, te_began_at = now,
       te_owner_id = owner, te_epoch = epoch, te_lock_existed_before = False, te_spawning = False, te_locks_before = [] \<rparr>"

text \<open>What the runner does with an operation: whether the ledger file can be written, what it answers (None when it panics),
  and what the file then holds, after its children and other hosts have written it.\<close>

record tree_run =
  rn_wrote :: bool
  rn_outcome :: "tree_result option"
  rn_ledger :: "ledger_entry \<Rightarrow> ledger_entry option"

definition run_bound :: "tree_view \<Rightarrow> tree_run \<Rightarrow> string \<Rightarrow> tree_op \<Rightarrow> tree_worker \<Rightarrow> tree_result \<times> tree_worker" where
  "run_bound v n owner op w =
     (case tv_leases v (tree_op_run op) of
        Inr (Some l) \<Rightarrow>
          if le_owner_id l \<noteq> owner then (tree_stop_result TS_LeaseLost, w)
          else if \<not> rn_wrote n then (tree_stop_result TS_SpawnFailed, w)
          else
            (case rn_outcome n of Some r \<Rightarrow> r | None \<Rightarrow> RS_Refused (TR_Git GR_ExitNonzero) ''the tree worker panicked'',
             w\<lparr>tw_ledger := rn_ledger n (begin_entry owner (le_epoch l) (tv_now v) op)\<rparr>)
      | _ \<Rightarrow> (tree_stop_result TS_LeaseLost, w))"

definition run_one :: "tree_view \<Rightarrow> tree_run \<Rightarrow> tree_op \<Rightarrow> tree_worker \<Rightarrow> tree_worker" where
  "run_one v n op w =
     (let (r, w1) =
        (case tw_binding w of
           Some owner \<Rightarrow> (case run_bound v n owner op w of (r, w1) \<Rightarrow> (r, delete_own owner w1))
         | None \<Rightarrow> (tree_stop_result TS_LeaseLost, w))
      in w1\<lparr>tw_cancel := False, tw_in_flight := None, tw_results := tw_results w1 @ [(op, r)]\<rparr>)"

section \<open>At work\<close>

text \<open>The worker with the operations it took on and those handed back, in their order.\<close>

record work =
  wk_worker :: tree_worker
  wk_begun :: "tree_op list"
  wk_polled :: "(tree_op \<times> tree_result) list"

inductive worker_step :: "work \<Rightarrow> work \<Rightarrow> bool" where
  work_begin: "worker_begin v handed op (wk_worker s) = (ok, w) \<Longrightarrow>
     worker_step s (s\<lparr>wk_worker := w, wk_begun := wk_begun s @ (if ok then [op] else [])\<rparr>)"
| work_poll: "worker_poll (wk_worker s) = (r, w) \<Longrightarrow>
     worker_step s (s\<lparr>wk_worker := w, wk_polled := wk_polled s @ (case r of Some x \<Rightarrow> [x] | None \<Rightarrow> [])\<rparr>)"
| work_cancel: "worker_step s (s\<lparr>wk_worker := worker_cancel (wk_worker s)\<rparr>)"
| work_bind: "worker_step s (s\<lparr>wk_worker := worker_bind owner (wk_worker s)\<rparr>)"
| work_run: "tw_in_flight (wk_worker s) = Some op \<Longrightarrow>
     worker_step s (s\<lparr>wk_worker := run_one v n op (wk_worker s)\<rparr>)"
| work_record: "worker_step s (s\<lparr>wk_worker := (wk_worker s)\<lparr>tw_ledger := entry, tw_child := child\<rparr>\<rparr>)"

inductive_simps worker_step_iff: "worker_step s s'"








text \<open>Beginning kills a recorded child only when it is this host's own or its owner's lease is no longer live, and clears only
  locks that were not there before that child, once its group is gone.\<close>

lemma settle_child_effect:
  "tw_killed (settle_child v e pid st w) = tw_killed w @ (case st of Some s \<Rightarrow> [(pid, s)] | None \<Rightarrow> [])"
  "tw_cleared (settle_child v e pid st w) = tw_cleared w @ (if tv_group_gone v pid
     then filter (\<lambda>lock. \<not> (lock \<in> set (te_locks_before e) \<or> te_lock_existed_before e \<and> lock = ''index.lock'')) (tv_locks v) else [])"
  by (simp_all add: settle_child_def kill_group_def clear_locks_of_a_gone_group_def Let_def split: option.split)

lemma settle_spares_others:
  assumes "settle_ledger v owner w = (ok, w')" "(tw_killed w', tw_cleared w') \<noteq> (tw_killed w, tw_cleared w)"
  obtains e pid st where "tw_ledger w = Some e" "te_owner_id e = owner \<or> \<not> owner_is_live v e" "te_pid e = Some pid \<or> tw_child w = Some pid"
    "w' = ledger_delete (settle_child v e pid st w)"
proof -
  obtain e where e: "tw_ledger w = Some e" "te_owner_id e = owner \<or> \<not> owner_is_live v e"
      "(case recorded_child v e w of RC_Starting \<Rightarrow> (False, w) | RC_Nobody \<Rightarrow> (True, ledger_delete w)
        | RC_Child pid st \<Rightarrow> (True, ledger_delete (settle_child v e pid st w))) = (ok, w')"
    using assms unfolding settle_ledger_def by (auto split: option.splits if_splits)
  then obtain pid st where "recorded_child v e w = RC_Child pid st" "w' = ledger_delete (settle_child v e pid st w)"
    using assms(2) by (cases "recorded_child v e w") (auto simp: ledger_delete_def)
  moreover from this have "te_pid e = Some pid \<or> tw_child w = Some pid"
    by (auto simp: recorded_child_def split: option.splits if_splits)
  ultimately show thesis using that e(1,2) by blast
qed

lemma begin_spares_others:
  assumes "worker_begin v handed op w = (ok, w')" "(tw_killed w', tw_cleared w') \<noteq> (tw_killed w, tw_cleared w)"
  obtains e owner pid where "tw_ledger w = Some e" "tw_binding w = Some owner" "te_owner_id e = owner \<or> \<not> owner_is_live v e"
    "te_pid e = Some pid \<or> tw_child w = Some pid" "fst ` (set (tw_killed w') - set (tw_killed w)) \<subseteq> {pid}"
    "set (tw_cleared w') - set (tw_cleared w) \<subseteq> {l. tv_group_gone v pid \<and> l \<notin> set (te_locks_before e)}"
proof -
  obtain owner ok1 w1 where b: "tw_binding w = Some owner" "settle_ledger v owner w = (ok1, w1)" "tw_killed w' = tw_killed w1" "tw_cleared w' = tw_cleared w1"
    using assms by (auto simp: worker_begin_def split: option.splits prod.splits if_splits bool.splits)
  obtain e pid st where e: "tw_ledger w = Some e" "te_owner_id e = owner \<or> \<not> owner_is_live v e" "te_pid e = Some pid \<or> tw_child w = Some pid"
      "w1 = ledger_delete (settle_child v e pid st w)"
    using settle_spares_others [OF b(2)] assms(2) b(3,4) by metis
  show thesis
    by (rule that [OF e(1) b(1) e(2,3)]) (auto simp: b(3,4) e(4) ledger_delete_def settle_child_effect split: option.splits if_splits)
qed


section \<open>A worker at work\<close>








end
