(* ===== verification/Spec2Isabelle.thy ===== *)
theory Spec2Isabelle
  imports Contract_Properties Engine_Properties Watch_Properties Store_Properties Run_Store Bridge_Properties Host_Properties Host_Loop Host_Scrub
    Git_Properties Tree_Worker
begin

text \<open>
  \<^bold>\<open>What this development verifies.\<close> nexus-flow runs flows of agent sessions. Its second
  generation splits a run into contracts, a pure engine, a store and a host, in four crates under
  \<^verbatim>\<open>src/crates\<close>; this development models them and proves what each promises the others.

  \<^bold>\<open>How the parts interact.\<close> A run is an append-only log of events. An input (a fact of a
  session, a reply, a person's answer, a fired timer, the outcome of a tree operation) is put into the run's
  inbox in the store. A host that holds the run's lease reads the next input, folds it with the engine into
  the decisions it causes, and appends input and decisions in one transaction, fenced by its epoch; the
  store derives its timer index from the same events. The state is nothing but the fold of the log, and the
  effects a run owes the world (start, nudge or stop a session, prepare or park the tree, deliver a message,
  take or release the claim) are a function of that state. Status is another function of it.

  \<^bold>\<open>Contracts\<close> (\<^verbatim>\<open>run-contracts\<close>). \<^verbatim>\<open>Contract_Ids\<close>: ids, slots, spans and instants
  (\<^verbatim>\<open>ids.rs\<close>). \<^verbatim>\<open>Contract_Codes\<close>: the thirteen closed lists the macro
  \<^verbatim>\<open>closed_code!\<close> generates, each an interpretation of the locale \<open>closed_code\<close>.
  \<^verbatim>\<open>Contract_Events\<close>: the event envelope, its bodies and decisions, the liveness policy, and the
  merge of unknown fields (\<^verbatim>\<open>events.rs\<close>, \<^verbatim>\<open>session.rs\<close>, \<^verbatim>\<open>policy.rs\<close>).
  \<^verbatim>\<open>Store_Contract\<close>: the store's calls, errors and rows (\<^verbatim>\<open>store.rs\<close>, \<^verbatim>\<open>schema.rs\<close>).
  JSON text is not modelled: what \<^verbatim>\<open>serde_json\<close> writes and reads is the parameter record
  \<open>codec\<close>, and \<open>codec_ok\<close> is its round trip.

  \<^bold>\<open>Engine\<close> (\<^verbatim>\<open>run-engine\<close>). \<^verbatim>\<open>Flow\<close>: the compiler of channel declarations
  (\<^verbatim>\<open>flow.rs\<close>). \<^verbatim>\<open>Run_State\<close>: the state and its views (\<^verbatim>\<open>state.rs\<close>).
  \<^verbatim>\<open>Guard\<close>: which inputs are ignored and why (\<^verbatim>\<open>guard.rs\<close>). \<^verbatim>\<open>Fold_Input\<close> and
  \<^verbatim>\<open>Fold_Evolve\<close>: the fold of one input and of one decision (\<^verbatim>\<open>input.rs\<close>,
  \<^verbatim>\<open>evolve.rs\<close>). \<^verbatim>\<open>Decide\<close>: the decisions an input causes, one definition per method of
  \<^verbatim>\<open>Emit\<close> (\<^verbatim>\<open>decide.rs\<close> and \<^verbatim>\<open>decide/\<close>). \<^verbatim>\<open>Effects\<close>: the effects a
  state owes (\<^verbatim>\<open>effects.rs\<close>). \<^verbatim>\<open>Status\<close>: the projection a person sees
  (\<^verbatim>\<open>status.rs\<close>). A \<^verbatim>\<open>&mut self\<close> method is a function on the record \<open>emit\<close>; a
  \<^verbatim>\<open>BTreeMap\<close> is an ordered association list with the laws of the locale \<open>ordered_map\<close>.

  \<^bold>\<open>Store\<close> (\<^verbatim>\<open>run-store-sqlite\<close>). \<^verbatim>\<open>Store_Lease\<close>, \<^verbatim>\<open>Store_Timers\<close>,
  \<^verbatim>\<open>Store_Append\<close>: a call takes the tables and gives its answer and the tables after it; a return
  before the commit gives the tables back as they were. \<^verbatim>\<open>Store_Props\<close>: the invariant of the tables, the
  calls as a step relation, and the locale \<open>run_log\<close> the host relies on, interpreted on this store.

  \<^bold>\<open>Folding host\<close> (\<^verbatim>\<open>run-host\<close>). \<^verbatim>\<open>Host_State\<close>: what a host keeps in memory
  (\<^verbatim>\<open>host.rs\<close>, \<^verbatim>\<open>tree_effects.rs\<close>). \<^verbatim>\<open>Host_Reduce\<close>: the fold of a log and of one input into
  a batch. \<^verbatim>\<open>Host_Fold\<close>: the cache, reading a run, committing a fold with the compare-and-sets
  that ride in it, poisoned inputs, the withdrawal of a run that cannot be folded (\<^verbatim>\<open>fold.rs\<close>).

  \<^bold>\<open>Acting host\<close> (\<^verbatim>\<open>run-host\<close>). Outside a fold a host does nothing but call: the store, the chat store,
  the declarations, the session backend, the tree worker, the clock. \<^verbatim>\<open>Host_Calls\<close> makes each a constructor of
  \<open>call\<close> and a method of the host a \<open>prog\<close>, a tree of calls and what follows each answer; \<open>call_step\<close> says what may
  come of a call: it is done, it is done and its answer is lost, it is refused. \<^verbatim>\<open>Host_Ledger\<close>: the entries of the
  effect ledger and posting once. \<^verbatim>\<open>Host_Compose\<close>: the host's texts (\<^verbatim>\<open>compose.rs\<close>) and the scrubbing of
  git's (\<^verbatim>\<open>git_tree/runner.rs\<close>). \<^verbatim>\<open>Host_Tree\<close>: tree operations, their back-off and refusals
  (\<^verbatim>\<open>tree_effects.rs\<close>). \<^verbatim>\<open>Host_Start\<close>: threads, turns and start specs (\<^verbatim>\<open>start.rs\<close>).
  \<^verbatim>\<open>Host_Effects\<close>: the execution of every effect and the claims (\<^verbatim>\<open>effects.rs\<close>). \<^verbatim>\<open>Host_Tick\<close>: leases,
  rotation, draining, due timers, the tick (\<^verbatim>\<open>host.rs\<close>, \<^verbatim>\<open>lease.rs\<close>). \<^verbatim>\<open>Bridge\<close>: the verbs of the
  command line (\<^verbatim>\<open>bridge.rs\<close>).

  \<^bold>\<open>Working directory\<close> (\<^verbatim>\<open>run-host\<close>). \<^verbatim>\<open>Git_Tree\<close>: preparing and parking the clone a run works in
  (\<^verbatim>\<open>git_tree\<close>), as a \<open>git_prog\<close>, a tree of git and file calls and what follows each answer. \<^verbatim>\<open>Tree_Worker\<close>: the worker
  that runs these operations beside the tick, its queue and its ledger of who is at it (\<^verbatim>\<open>tree_worker.rs\<close>,
  \<^verbatim>\<open>tree_ledger.rs\<close>).

  \<^bold>\<open>What is proved.\<close> \<^verbatim>\<open>Emission\<close> shows which decisions a method may emit in which state;
  \<^verbatim>\<open>Replay\<close> turns that into invariants of every log, through the locales \<open>log_invariant\<close>
  and \<open>slot_invariant\<close>; \<^verbatim>\<open>Run_Log\<close> and \<^verbatim>\<open>Run_Store\<close> follow the logs the host
  writes and the store that holds them; \<^verbatim>\<open>Behaviour\<close> the routing and the human exit.
  The invariant of the slots is a chain of theories: \<^verbatim>\<open>Clocks\<close> reads timers as clocks of slots,
  \<^verbatim>\<open>Slot_Table\<close> numbers the attempts, \<^verbatim>\<open>Watch\<close> says what one slot is promised,
  \<^verbatim>\<open>Settled\<close> and \<^verbatim>\<open>Settled_Growth\<close> what a whole state is, and \<^verbatim>\<open>Slot_Steps\<close>,
  \<^verbatim>\<open>Fact_Steps\<close>, \<^verbatim>\<open>Timer_Steps\<close>, \<^verbatim>\<open>Run_Steps\<close>, \<^verbatim>\<open>Route_Steps\<close> show that
  every input keeps it; \<^verbatim>\<open>Watched_Run\<close> interprets the locale \<open>reducer_invariant\<close> with it. \<^verbatim>\<open>Host_Discipline\<close> puts hosts beside
  each other: they call in any order, die between any two calls and begin again without their memory, while others write
  the store; its locale \<open>disciplined\<close> turns a permit per host into an invariant of every reachable world,
  \<^verbatim>\<open>Host_Safety\<close> extends it by what a tick is made of, and \<^verbatim>\<open>Host_Signals\<close> and \<^verbatim>\<open>Host_Posts\<close>
  interpret it for signals and messages, over the frame lemmas of \<^verbatim>\<open>Host_Frames\<close>. \<^verbatim>\<open>Host_Rotation\<close>
  follows the turns of the runs, \<^verbatim>\<open>Host_Loop\<close> the fold loop to its end, \<^verbatim>\<open>Host_Scrub\<close> what scrubbing
  leaves. \<^verbatim>\<open>Git_Safety\<close> has the weakest preconditions of tree operations over the history of their calls and the locale
  \<open>guarded\<close>, interpreted once for whose directory is touched and, in \<^verbatim>\<open>Git_Keep\<close>, once for what is saved before it is
  given up. The properties
  are in \<^verbatim>\<open>Contract_Properties\<close>, \<^verbatim>\<open>Engine_Properties\<close>, \<^verbatim>\<open>Watch_Properties\<close>,
  \<^verbatim>\<open>Store_Properties\<close>, \<^verbatim>\<open>Bridge_Properties\<close>, \<^verbatim>\<open>Host_Properties\<close>, \<^verbatim>\<open>Git_Properties\<close>,
  \<^verbatim>\<open>Tree_Worker\<close>, \<^verbatim>\<open>Host_Scrub\<close> and here, each that has
  a hypothesis with a witness on a concrete input.

  \<^bold>\<open>Bounds.\<close> Instants are clamped and spans saturate as in the source. A counter the source keeps in
  \<^verbatim>\<open>u32\<close> or \<^verbatim>\<open>u64\<close> and only increments is a natural number: its overflow is out of
  reach of any log that fits a disk and is not modelled; where a name would repeat past 32 bits the
  hypothesis \<open>counters_fit\<close> says so. Names are compared where a number has to fit
  \<^verbatim>\<open>u32\<close>. The loops that have no bound of their own in the source get fuel: \<open>fold_run\<close> the number of
  inputs a tick folds at most (\<open>tk_inputs\<close>), \<open>poll_tree\<close> the number of results of the tree worker it takes
  (\<open>tk_results\<close>). Theorems about ticks hold for every value of both, and \<open>fold_run_ends\<close> says which is enough. The time
  budget of a tick is the parameter \<open>may_work\<close> inside a fold and an answer of the environment (\<open>CL_Spent\<close>) elsewhere.

  \<^bold>\<open>Not modelled.\<close> The text of JSON and SHA-256 (libraries), SQLite's locking (an answer
  \<open>SE_Busy\<close> is the environment's), panics inside a fold (every fold here is total), the messages of refusals, what git does with
  a command, the pipes and process groups a git child runs behind (\<^verbatim>\<open>run-host/tree_child.rs\<close> and \<^verbatim>\<open>TreeCx\<close>), the process supervision of \<^verbatim>\<open>run-session-claude\<close> behind the calls of the backend, and
  the crates of the first generation, the chat store and the command lines. A tick of \<open>sys_step\<close> dies between calls, not
  inside one: a call of the store is one transaction. The fold of a tick is one call there; a host that dies between two of
  its inputs is one whose \<open>tk_inputs\<close> is smaller.
\<close>

section \<open>Committing a fold\<close>

text \<open>C3. A host's cached state is the fold of the stored log. A host read the run's state from the log at
  some point and reduced an input over it; other hosts then called what they liked on the store, before and
  between the attempts of the commit. If the commit succeeds, the state it caches is exactly what folding
  the log now in the store gives.\<close>

theorem commit_leaves_cache_coherent:
  assumes "codec_ok (hk_store c)" "store_ok (hk_store c) db0" "leases_ok (hk_store c) db0"
    "fold_events run d (log_of (hk_store c) run db0) = Whole st"
    "(store_step (hk_store c))\<^sup>*\<^sup>* db0 (ho_store h)" "\<forall>n db. (store_step (hk_store c))\<^sup>*\<^sup>* db (world n db)"
    "\<forall>x. ev_body e \<noteq> EB_Decision x" "reduce st e = Some (evs, next_st)"
    "commit_input c world run epoch now st k evs next_st h = (True, h')"
  shows "hc_state (cache_of run h') = Some next_st \<and>
    fold_events run d (log_of (hk_store c) run (ho_store h')) = Whole next_st"
  by (rule commit_coherent [OF assms(1-5) _ _ assms(8,9)]) (use assms(6,7) in blast)+

definition sample_host_codec :: host_codec where
  "sample_host_codec = \<lparr> hk_store = sample_codec, hk_flow_read = (\<lambda>_. Some sample_flow),
     hk_count_read = (\<lambda>_. None), hk_count_write = (\<lambda>_. []) \<rparr>"

definition sample_host :: host where
  "sample_host = host_mem.extend (host_new ''host-a'') (host.fields sample_db)"

definition sample_commit :: "bool \<times> host" where
  "sample_commit = commit_input sample_host_codec (\<lambda>_ db. db) sample_run 1 0
     (run_state_initial sample_run sample_flow) ''k0'' (sample_log 1) (sample_state 1) sample_host"

lemma sample_committed: "fst sample_commit"
  by code_simp

lemma sample_reduced: "reduce (run_state_initial sample_run sample_flow) (hd sample_inputs) = Some (sample_log 1, sample_state 1)"
  by code_simp

theorem commit_leaves_cache_coherent_witness:
  "hc_state (cache_of sample_run (snd sample_commit)) = Some (sample_state 1) \<and>
   fold_events sample_run sample_flow (log_of sample_codec sample_run (ho_store (snd sample_commit))) = Whole (sample_state 1)"
proof -
  have c: "hk_store sample_host_codec = sample_codec" "ho_store sample_host = sample_db"
    by (simp_all add: sample_host_codec_def sample_host_def host_mem.defs host.defs)
  have log: "log_of sample_codec sample_run sample_db = []" by code_simp
  have plain: "\<forall>x. ev_body (hd sample_inputs) \<noteq> EB_Decision x" using sample_inputs_plain by (simp add: sample_inputs_def)
  have com: "commit_input sample_host_codec (\<lambda>_ db. db) sample_run 1 0 (run_state_initial sample_run sample_flow) ''k0''
      (sample_log 1) (sample_state 1) sample_host = (True, snd sample_commit)"
    using sample_committed by (simp add: sample_commit_def prod_eq_iff)
  show ?thesis
    using commit_leaves_cache_coherent [of sample_host_codec sample_db sample_run sample_flow "run_state_initial sample_run sample_flow"
        sample_host "\<lambda>_ db. db", unfolded c, OF sample_codec_ok conjunct1 [OF sample_db_ok] conjunct2 [OF sample_db_ok] _ _ _ plain sample_reduced com]
      log by (simp add: fold_events_replay)
qed

section \<open>Folding all that waits\<close>






section \<open>The run and its store\<close>

text \<open>C2. The store is a faithful copy of the run. Whatever was called on it, folding the log it reads back
  gives the state the host holds, and the timers it reports due for the run are exactly the state's armed
  timers that are due, with their instants and their purposes: none is missed, none is left over.\<close>

theorem store_refines_run:
  assumes "codec_ok c" "kept c run d st db" "due_timers c now db = Inr ts"
  shows "(\<exists>es. load c run 0 db = Inr es \<and> fold_events run d es = Whole st) \<and>
    (\<forall>t f p. \<lparr> dt_run = run, dt_timer = t, dt_fire_at = f, dt_purpose = p \<rparr> \<in> set ts \<longleftrightarrow>
       (\<exists>a. map_of (rs_timers st) t = Some a \<and> at_fire_at a \<le> now \<and> f = from_unix_millis (at_fire_at a) \<and> p = at_purpose a))"
proof -
  have ix: "store_ok c db" "written run d (log_of c run db) st"
    using kept_indexed [OF assms(1,2)] by (auto simp: indexed_def)
  show ?thesis
    using load_all [OF ix(1), of run] written_replay [OF ix(2)] kept_due [OF assms] by (simp add: fold_events_replay)
qed

lemma sample_append_kept: "kept sample_codec sample_run sample_flow (sample_state 1) (snd sample_append)"
proof -
  obtain a db where a: "sample_append = (Inr a, db)" using sample_append_ok by blast
  have "rs_seq (run_state_initial sample_run sample_flow) = 0" by (simp add: run_state_initial_def)
  moreover have "\<And>x. ev_body (hd sample_inputs) \<noteq> EB_Decision x" using sample_inputs_plain by (simp add: sample_inputs_def)
  ultimately show ?thesis
    using kept_input [OF sample_db_kept _ sample_reduced, of 1 "[]" "[]" a db] a by (simp add: sample_append_def)
qed

theorem store_refines_run_witness:
  "\<exists>es ts. load sample_codec sample_run 0 (snd sample_append) = Inr es \<and>
    fold_events sample_run sample_flow es = Whole (sample_state 1) \<and>
    due_timers sample_codec 60000 (snd sample_append) = Inr ts \<and>
    \<lparr> dt_run = sample_run, dt_timer = ROOT_DEADLINE_TIMER, dt_fire_at = 60000, dt_purpose = TP_RootDeadline \<rparr> \<in> set ts"
proof -
  have "case due_timers sample_codec 60000 (snd sample_append) of Inr ts \<Rightarrow> True | Inl _ \<Rightarrow> False" by code_simp
  then obtain ts where ts: "due_timers sample_codec 60000 (snd sample_append) = Inr ts" by (auto split: sum.splits)
  have armed: "map_of (rs_timers (sample_state 1)) ROOT_DEADLINE_TIMER = Some \<lparr> at_fire_at = 60000, at_purpose = TP_RootDeadline \<rparr>"
    by code_simp
  have "from_unix_millis 60000 = 60000" by code_simp
  then show ?thesis
    using store_refines_run [OF sample_codec_ok sample_append_kept ts] armed ts by auto
qed

text \<open>A finished run leaves nothing to fire: once the state is final the store reports no timer of the
  run as due, at whatever instant it is asked.\<close>

theorem finished_run_has_no_due_timer:
  assumes "codec_ok c" "kept c run d st db" "is_finished st" "due_timers c now db = Inr ts" "x \<in> set ts"
  shows "dt_run x \<noteq> run"
proof
  assume run: "dt_run x = run"
  have "rs_timers st = []"
    using finished.written_keeps [of run d "log_of c run db" st] kept_indexed [OF assms(1,2)] assms(3)
    by (simp add: indexed_def finished_quiet_def)
  moreover have "x = \<lparr> dt_run = run, dt_timer = dt_timer x, dt_fire_at = dt_fire_at x, dt_purpose = dt_purpose x \<rparr>"
    using run by (cases x) simp
  ultimately show False
    using kept_due [OF assms(1,2,4), of "dt_timer x" "dt_fire_at x" "dt_purpose x"] assms(5) by simp
qed

theorem finished_run_has_no_due_timer_witness:
  "\<exists>st db. short_end = Some (st, db) \<and> is_finished st \<and>
    (\<forall>ts x. due_timers sample_codec 99999999 db = Inr ts \<longrightarrow> x \<in> set ts \<longrightarrow> dt_run x \<noteq> sample_run)"
proof -
  have "case short_end of Some (st, _) \<Rightarrow> is_finished st | None \<Rightarrow> False" by code_simp
  then obtain st db where s: "short_end = Some (st, db)" "is_finished st"
    by (auto split: option.splits prod.splits)
  then show ?thesis
    using finished_run_has_no_due_timer [OF sample_codec_ok short_kept [OF s(1)] s(2)] by blast
qed

end
